(* ===== verification/Prelude.thy ===== *)
theory Prelude
  imports Main "HOL-Library.Word"
begin

text \<open>
  Shared vocabulary of the development.

  \<^item> \<open>outcome\<close> is the result of running a Rust function: a value (\<open>Ok\<close>), an error value
    (\<open>Err\<close>), a panic (\<open>unwrap\<close> on \<open>None\<close>/\<open>Err\<close>, a slice index out of range, a failed
    \<open>assert!\<close>, checked arithmetic), or \<open>Hang\<close>, the outcome of a loop whose fuel ran out.
  \<^item> \<open>and_then\<close> is the \<open>?\<close> operator on pure results, \<open>then_do\<close> the \<open>?\<close> operator on a
    computation that also threads a state.
  \<^item> \<open>slice\<close> and \<open>overwrite\<close> are \<open>&xs[a..b]\<close> and \<open>xs[off..off + n].copy_from_slice(ys)\<close>.
  \<^item> \<open>le_bytes\<close> and \<open>le_val\<close> are \<open>to_le_bytes\<close> and \<open>from_le_bytes\<close>.
\<close>

named_theorems outcome_simps \<open>rewriting with the result combinators\<close>
named_theorems slice_simps \<open>rewriting with byte slices\<close>

section \<open>Bytes\<close>

type_synonym byte = "8 word"
type_synonym bytes = "byte list"

abbreviation zeros :: "nat \<Rightarrow> bytes" where
  "zeros n \<equiv> replicate n 0"

section \<open>Outcomes of Rust functions\<close>

datatype ('e, 'a) outcome = Ok 'a | Err 'e | Panic | Hang

fun and_then :: "('e, 'a) outcome \<Rightarrow> ('a \<Rightarrow> ('e, 'b) outcome) \<Rightarrow> ('e, 'b) outcome" where
  "and_then (Ok x) f = f x"
| "and_then (Err e) f = Err e"
| "and_then Panic f = Panic"
| "and_then Hang f = Hang"

fun then_do ::
  "('e, 'a) outcome \<times> 's \<Rightarrow> ('a \<Rightarrow> 's \<Rightarrow> ('e, 'b) outcome \<times> 's) \<Rightarrow> ('e, 'b) outcome \<times> 's"
where
  "then_do (Ok x, s) f = f x s"
| "then_do (Err e, s) f = (Err e, s)"
| "then_do (Panic, s) f = (Panic, s)"
| "then_do (Hang, s) f = (Hang, s)"

text \<open>\<open>result.map_err(|error| { handler; error })\<close> where the handler changes the state.\<close>

fun on_err :: "('e, 'a) outcome \<times> 's \<Rightarrow> ('e \<Rightarrow> 's \<Rightarrow> 's) \<Rightarrow> ('e, 'a) outcome \<times> 's" where
  "on_err (Err e, s) f = (Err e, f e s)"
| "on_err (r, s) f = (r, s)"

text \<open>The same with a handler that runs a computation and drops its error.\<close>

fun on_err_do ::
  "('e, 'a) outcome \<times> 's \<Rightarrow> ('e \<Rightarrow> 's \<Rightarrow> ('e, unit) outcome \<times> 's) \<Rightarrow> ('e, 'a) outcome \<times> 's"
where
  "on_err_do (Err e, s) f = (case f e s of
     (Ok _, s') \<Rightarrow> (Err e, s') | (Err _, s') \<Rightarrow> (Err e, s')
   | (Panic, s') \<Rightarrow> (Panic, s') | (Hang, s') \<Rightarrow> (Hang, s'))"
| "on_err_do (r, s) f = (r, s)"

text \<open>\<open>let _ = result;\<close>: the error is dropped.\<close>

fun ignore_err :: "('e, 'a) outcome \<times> 's \<Rightarrow> ('e, unit) outcome \<times> 's" where
  "ignore_err (Ok _, s) = (Ok (), s)"
| "ignore_err (Err _, s) = (Ok (), s)"
| "ignore_err (Panic, s) = (Panic, s)"
| "ignore_err (Hang, s) = (Hang, s)"

text \<open>\<open>result.unwrap()\<close>: an error becomes a panic.\<close>

fun unwrap :: "('e, 'a) outcome \<Rightarrow> ('e, 'a) outcome" where
  "unwrap (Err e) = Panic"
| "unwrap r = r"

fun is_ok :: "('e, 'a) outcome \<Rightarrow> bool" where
  "is_ok (Ok x) = True"
| "is_ok r = False"

definition ok_or :: "'a option \<Rightarrow> 'e \<Rightarrow> ('e, 'a) outcome" where
  "ok_or x e = (case x of None \<Rightarrow> Err e | Some y \<Rightarrow> Ok y)"

lemma ok_or_simps [simp, outcome_simps]:
  "ok_or None e = Err e" "ok_or (Some x) e = Ok x"
  by (simp_all add: ok_or_def)

lemma and_then_Ok_iff [outcome_simps]:
  "and_then r f = Ok y \<longleftrightarrow> (\<exists>x. r = Ok x \<and> f x = Ok y)"
  by (cases r) auto

lemma then_do_Ok_iff [outcome_simps]:
  "then_do m f = (Ok y, t) \<longleftrightarrow> (\<exists>x s. m = (Ok x, s) \<and> f x s = (Ok y, t))"
  by (cases m; cases "fst m") auto

lemma on_err_Ok_iff [outcome_simps]:
  "on_err m f = (Ok y, t) \<longleftrightarrow> m = (Ok y, t)"
  by (cases m; cases "fst m") auto

lemma is_ok_iff: "is_ok r \<longleftrightarrow> (\<exists>x. r = Ok x)"
  by (cases r) auto

lemma on_err_fst [simp]: "fst (on_err m f) = fst m"
  by (cases m; cases "fst m") auto

section \<open>Slices\<close>

definition slice :: "nat \<Rightarrow> nat \<Rightarrow> 'a list \<Rightarrow> 'a list" where
  "slice a b xs = take (b - a) (drop a xs)"

definition get_slice :: "nat \<Rightarrow> nat \<Rightarrow> 'a list \<Rightarrow> ('e, 'a list) outcome" where
  "get_slice a b xs = (if a \<le> b \<and> b \<le> length xs then Ok (slice a b xs) else Panic)"

definition overwrite :: "'a list \<Rightarrow> nat \<Rightarrow> 'a list \<Rightarrow> 'a list" where
  "overwrite xs off ys = take off xs @ ys @ drop (off + length ys) xs"

definition put_slice :: "'a list \<Rightarrow> nat \<Rightarrow> 'a list \<Rightarrow> ('e, 'a list) outcome" where
  "put_slice xs off ys = (if off + length ys \<le> length xs then Ok (overwrite xs off ys) else Panic)"

lemma length_slice [simp, slice_simps]: "length (slice a b xs) = min (b - a) (length xs - a)"
  by (simp add: slice_def min.commute)

lemma slice_full [simp, slice_simps]: "slice 0 (length xs) xs = xs"
  by (simp add: slice_def)

lemma slice_0_ge [slice_simps]: "length xs \<le> n \<Longrightarrow> slice 0 n xs = xs"
  by (simp add: slice_def)

lemma slice_empty [simp, slice_simps]: "slice a a xs = []"
  by (simp add: slice_def)

lemma nth_slice [slice_simps]: "i < b - a \<Longrightarrow> b \<le> length xs \<Longrightarrow> slice a b xs ! i = xs ! (a + i)"
  by (simp add: slice_def)

lemma slice_eq_nths:
  assumes "b \<le> length xs" "length ys = b - a" "\<And>i. i < b - a \<Longrightarrow> xs ! (a + i) = ys ! i"
  shows "slice a b xs = ys"
  using assms by (intro nth_equalityI) (auto simp: nth_slice)

lemma length_overwrite [simp, slice_simps]:
  "off + length ys \<le> length xs \<Longrightarrow> length (overwrite xs off ys) = length xs"
  by (simp add: overwrite_def)

lemma nth_overwrite:
  assumes "off + length ys \<le> length xs" "i < length xs"
  shows "overwrite xs off ys ! i =
    (if off \<le> i \<and> i < off + length ys then ys ! (i - off) else xs ! i)"
  using assms by (auto simp: overwrite_def nth_append min_def)

lemma slice_overwrite_same [simp, slice_simps]:
  "off + length ys \<le> length xs \<Longrightarrow> slice off (off + length ys) (overwrite xs off ys) = ys"
  by (simp add: slice_def overwrite_def)

lemma slice_overwrite_disjoint [slice_simps]:
  assumes "off + length ys \<le> length xs" "b \<le> off \<or> off + length ys \<le> a"
  shows "slice a b (overwrite xs off ys) = slice a b xs"
proof (rule nth_equalityI)
  show "length (slice a b (overwrite xs off ys)) = length (slice a b xs)"
    using assms by simp
next
  fix i assume "i < length (slice a b (overwrite xs off ys))"
  then have i: "i < b - a" "a + i < length xs" using assms by auto
  have "slice a b (overwrite xs off ys) ! i = overwrite xs off ys ! (a + i)"
    using i assms(1) by (simp add: slice_def)
  also have "\<dots> = xs ! (a + i)"
    using assms i by (auto simp: nth_overwrite)
  also have "\<dots> = slice a b xs ! i"
    using i by (simp add: slice_def)
  finally show "slice a b (overwrite xs off ys) ! i = slice a b xs ! i" .
qed

lemma overwrite_empty [simp]: "overwrite xs off [] = xs"
  by (simp add: overwrite_def)

lemma overwrite_whole: "length ys = length xs \<Longrightarrow> overwrite xs 0 ys = ys"
  by (simp add: overwrite_def)

lemma put_slice_Ok [simp]: "off + length ys \<le> length xs \<Longrightarrow> put_slice xs off ys = Ok (overwrite xs off ys)"
  by (simp add: put_slice_def)

lemma get_slice_Ok [simp]: "a \<le> b \<Longrightarrow> b \<le> length xs \<Longrightarrow> get_slice a b xs = Ok (slice a b xs)"
  by (simp add: get_slice_def)

lemma slice_concat_blocks:
  assumes "\<And>x. x \<in> set xss \<Longrightarrow> length x = n" "i < length xss"
  shows "slice (i * n) (Suc i * n) (concat xss) = xss ! i"
  using assms
proof (induction xss arbitrary: i)
  case (Cons x xss)
  show ?case
  proof (cases i)
    case 0
    with Cons.prems show ?thesis by (simp add: slice_def)
  next
    case (Suc j)
    have "slice (i * n) (Suc i * n) (concat (x # xss)) = slice (j * n) (Suc j * n) (concat xss)"
      using Cons.prems(1) [of x] Suc by (simp add: slice_def drop_append)
    also have "\<dots> = xss ! j"
      using Cons.prems Suc by (intro Cons.IH) auto
    finally show ?thesis using Suc by simp
  qed
qed simp

section \<open>Little-endian encodings\<close>

primrec le_bytes :: "nat \<Rightarrow> nat \<Rightarrow> bytes" where
  "le_bytes 0 v = []"
| "le_bytes (Suc k) v = word_of_nat v # le_bytes k (v div 256)"

primrec le_val :: "bytes \<Rightarrow> nat" where
  "le_val [] = 0"
| "le_val (b # bs) = unat b + 256 * le_val bs"

lemma length_le_bytes [simp]: "length (le_bytes k v) = k"
  by (induction k arbitrary: v) auto

lemma unat_byte_lt [simp]: "unat (b :: byte) < 256"
  using unsigned_less [of b, where 'a = nat] by simp

lemma unat_of_nat_byte: "unat (word_of_nat v :: byte) = v mod 256"
  by (simp add: unat_of_nat)

lemma le_val_le_bytes: "le_val (le_bytes k v) = v mod 256 ^ k"
proof (induction k arbitrary: v)
  case (Suc k)
  have "le_val (le_bytes (Suc k) v) = v mod 256 + 256 * (v div 256 mod 256 ^ k)"
    by (simp add: Suc unat_of_nat_byte)
  also have "\<dots> = v mod (256 * 256 ^ k)"
    by (simp add: mod_mult2_eq)
  finally show ?case by simp
qed simp

lemma le_val_bound: "le_val bs < 256 ^ length bs"
proof (induction bs)
  case (Cons b bs)
  have b: "unat b < 256" by simp
  have "le_val bs + 1 \<le> 256 ^ length bs" using Cons by simp
  then have "256 * le_val bs + 256 \<le> 256 * 256 ^ length bs"
    by (metis add_mult_distrib2 mult.right_neutral mult_le_mono2)
  with b have "unat b + 256 * le_val bs < 256 * 256 ^ length bs" by linarith
  then show ?case by simp
qed simp

lemma le_bytes_le_val: "le_bytes (length bs) (le_val bs) = bs"
proof (induction bs)
  case (Cons b bs)
  have "word_of_nat (unat b + 256 * le_val bs) = b"
    by (rule word_unat_eq_iff [THEN iffD2], subst unat_of_nat_byte) simp
  moreover have "(unat b + 256 * le_val bs) div 256 = le_val bs"
    by simp
  ultimately show ?case using Cons by simp
qed simp

lemma le_roundtrip [simp]: "v < 256 ^ k \<Longrightarrow> le_val (le_bytes k v) = v"
  by (simp add: le_val_le_bytes)

section \<open>Rounding\<close>

lemma div_round_up_ge: "0 < n \<Longrightarrow> x \<le> ((x + n - 1) div n) * (n :: nat)"
proof -
  assume n: "0 < n"
  have "x + n - 1 = ((x + n - 1) div n) * n + (x + n - 1) mod n" by simp
  moreover have "(x + n - 1) mod n \<le> n - 1" using mod_less_divisor [OF n, of "x + n - 1"] by linarith
  ultimately show ?thesis using n by linarith
qed


section \<open>Cutting a byte string into equal blocks\<close>

lemma take_replicate_slice [simp, slice_simps]:
  "slice a b (replicate n x) = replicate (min (b - a) (n - a)) x"
  by (simp add: slice_def)

lemma slice_append_left [slice_simps]: "b \<le> length xs \<Longrightarrow> slice a b (xs @ ys) = slice a b xs"
  by (simp add: slice_def)

lemma slice_append_right [slice_simps]:
  "length xs \<le> a \<Longrightarrow> slice a b (xs @ ys) = slice (a - length xs) (b - length xs) ys"
  by (simp add: slice_def)

lemma slice_slice [slice_simps]:
  assumes "d \<le> b - a" shows "slice c d (slice a b xs) = slice (a + c) (a + d) xs"
  using assms by (simp add: slice_def drop_take add.commute)

lemma slice_split: "a \<le> b \<Longrightarrow> b \<le> c \<Longrightarrow> slice a b xs @ slice b c xs = slice a c xs"
proof -
  assume ab: "a \<le> b" and bc: "b \<le> c"
  have "slice a c xs = take (b - a) (drop a xs) @ take (c - b) (drop (b - a) (drop a xs))"
    unfolding slice_def using ab bc take_add [of "b - a" "c - b" "drop a xs"] by simp
  then show ?thesis using ab bc by (simp add: slice_def)
qed

lemma overwrite_slice_self: "a \<le> b \<Longrightarrow> b \<le> length xs \<Longrightarrow> overwrite xs a (slice a b xs) = xs"
  by (intro nth_equalityI) (auto simp: nth_overwrite nth_slice)

lemma concat_slices:
  "concat (map (\<lambda>i. slice (i * n) (Suc i * n) xs) [a..<b]) = slice (a * n) (b * n) xs" if "a \<le> b"
  using that
proof (induction b)
  case (Suc b)
  show ?case
  proof (cases "a = Suc b")
    case False
    then have "a \<le> b" using Suc.prems by simp
    with Suc.IH show ?thesis by (simp add: slice_split mult_le_mono1)
  qed simp
qed simp


lemma length_concat_blocks:
  "(\<And>x. x \<in> set xss \<Longrightarrow> length x = n) \<Longrightarrow> length (concat xss) = length xss * n"
  by (induction xss) auto

lemma slice_concat_range:
  assumes "\<And>i. i < m \<Longrightarrow> length (f i) = n" "a \<le> b" "b \<le> m"
  shows "slice (a * n) (b * n) (concat (map f [0..<m])) = concat (map f [a..<b])"
proof -
  have "slice (i * n) (Suc i * n) (concat (map f [0..<m])) = f i" if "i < m" for i
    by (subst slice_concat_blocks [where n = n]) (use assms(1) that in auto)
  then have "concat (map f [a..<b]) =
      concat (map (\<lambda>i. slice (i * n) (Suc i * n) (concat (map f [0..<m]))) [a..<b])"
    using assms by (intro arg_cong [where f = concat] map_cong) auto
  then show ?thesis by (simp only: concat_slices [OF assms(2)])
qed

lemma slice_overwrite_inside:
  assumes "off + length ys \<le> length xs" "off \<le> a" "b \<le> off + length ys"
  shows "slice a b (overwrite xs off ys) = slice (a - off) (b - off) ys"
  using assms by (intro nth_equalityI) (auto simp: nth_slice nth_overwrite)


lemma overwrite_prefix: "overwrite (xs @ ys) (length xs) zs = xs @ overwrite ys 0 zs"
  by (simp add: overwrite_def)

lemma overwrite_append:
  "overwrite (overwrite xs off ys) (off + length ys) zs = overwrite xs off (ys @ zs)"
  if "off \<le> length xs"
  using that by (simp add: overwrite_def min_def add.commute add.left_commute)


lemma multiple_between_eq:
  fixes x :: nat
  assumes "x \<le> n * b" "n * b < x + b" "x mod b = 0"
  shows "n * b = x"
proof -
  obtain k where k: "x = k * b" using assms(3) by (metis mod_0_imp_dvd dvd_def mult.commute)
  then have "k * b \<le> n * b" "n * b < Suc k * b" using assms by simp_all
  then have "n = k" by (metis le_antisym less_Suc_eq_le mult_le_cancel2 mult_less_cancel2 not_less0 gr0I)
  then show ?thesis using k by simp
qed

lemma round_up_unaligned:
  fixes x :: nat
  assumes "0 < x mod b" and b: "0 < b"
  shows "(x + b - 1) div b * b + x mod b = x + b"
proof -
  have x: "x = x div b * b + x mod b" by simp
  have "x + b - 1 = (x mod b - 1) + Suc (x div b) * b" using assms x by simp
  then have "(x + b - 1) div b = (x mod b - 1) div b + Suc (x div b)"
    using b by (metis div_mult_self3 add.commute less_numeral_extra(3))
  moreover have "(x mod b - 1) div b = 0" using mod_less_divisor [OF b, of x] by (simp add: div_less)
  ultimately show ?thesis using x by simp
qed


lemma overwrite_slice_prefix:
  "a \<le> b \<Longrightarrow> b \<le> length xs \<Longrightarrow> overwrite xs a (slice a b xs @ ys) = overwrite xs b ys"
proof -
  assume a: "a \<le> b" and b: "b \<le> length xs"
  have "take a xs @ slice a b xs = take b xs"
    using slice_split [of 0 a b xs] a by (simp add: slice_def)
  then show ?thesis using a b by (simp add: overwrite_def add.assoc [symmetric])
qed

end
