(* ===== verification/Errors.thy ===== *)
theory Errors
  imports Prelude
begin

text \<open>
  The error type of the crate (\<^verbatim>\<open>core/src/error.rs\<close>): an error number with an optional
  message. \<open>result\<close> is the crate's \<open>Result<T>\<close>.
\<close>

datatype errno =
    TxAborted | NotFound | InvalidArgs | OutOfMemory | OutOfDisk | IoFailed
  | PermissionDenied | Unsupported | OsSpecUnknown | EncryptFailed | DecryptFailed
  | MacMismatched | NotBlockSizeAligned | TryLockFailed | SgxError | BadStatus
  | RecoveryNeeded | Unexpected

record error =
  err_errno :: errno
  err_msg :: "string option"

type_synonym 'a result = "(error, 'a) outcome"

definition error_new :: "errno \<Rightarrow> error" where
  "error_new e = \<lparr>err_errno = e, err_msg = None\<rparr>"

definition error_with_msg :: "errno \<Rightarrow> string \<Rightarrow> error" where
  "error_with_msg e m = \<lparr>err_errno = e, err_msg = Some m\<rparr>"

fun errno_to_str :: "errno \<Rightarrow> string" where
  "errno_to_str TxAborted = ''Transaction aborted''"
| "errno_to_str NotFound = ''Not found''"
| "errno_to_str InvalidArgs = ''Invalid arguments''"
| "errno_to_str OutOfMemory = ''Out of memory''"
| "errno_to_str OutOfDisk = ''Out of disk space''"
| "errno_to_str IoFailed = ''IO error''"
| "errno_to_str PermissionDenied = ''Permission denied''"
| "errno_to_str Unsupported = ''Unsupported''"
| "errno_to_str OsSpecUnknown = ''OS-specific unknown error''"
| "errno_to_str EncryptFailed = ''Encryption operation failed''"
| "errno_to_str DecryptFailed = ''Decryption operation failed''"
| "errno_to_str MacMismatched = ''MAC (Message Authentication Code) mismatched''"
| "errno_to_str NotBlockSizeAligned = ''Not aligned to `BLOCK_SIZE`''"
| "errno_to_str TryLockFailed = ''Try lock failed''"
| "errno_to_str SgxError = ''Sgx error''"
| "errno_to_str BadStatus = ''Bad File status''"
| "errno_to_str Unexpected = ''Unexpected error''"
| "errno_to_str RecoveryNeeded = ''Recovery needed''"

lemma error_simps [simp, outcome_simps]:
  "err_errno (error_new e) = e" "err_errno (error_with_msg e m) = e"
  "err_msg (error_new e) = None" "err_msg (error_with_msg e m) = Some m"
  by (simp_all add: error_new_def error_with_msg_def)

text \<open>The error descriptions identify the error number.\<close>

lemma errno_to_str_inj: "errno_to_str a = errno_to_str b \<longleftrightarrow> a = b"
  by (cases a; cases b) simp_all

end
