(* ===== verification/Block_Buf.thy ===== *)
theory Block_Buf
  imports Errors
begin

text \<open>
  \<open>core/src/bio/block_buf.rs\<close>: buffers whose length is a positive multiple of the block size,
  on top of the page allocator of \<open>core/src/os/std/mod.rs\<close>.  Fresh pages are not initialised:
  their bytes are the argument \<open>mem\<close>.  The allocator returning null is not modelled.
\<close>

abbreviation PAGE_SIZE :: nat where "PAGE_SIZE \<equiv> 4096"

abbreviation BLOCK_SIZE :: nat where "BLOCK_SIZE \<equiv> 4096"

type_synonym block_id = nat
type_synonym memory = "nat \<Rightarrow> byte"

section \<open>Pages\<close>

definition page_allocator_alloc :: "memory \<Rightarrow> nat \<Rightarrow> bytes option" where
  "page_allocator_alloc mem n = (if n = 0 then None else Some (map mem [0..<n * PAGE_SIZE]))"

definition pages_alloc :: "memory \<Rightarrow> nat \<Rightarrow> bytes result" where
  "pages_alloc mem n =
     ok_or (page_allocator_alloc mem n) (error_with_msg OutOfMemory ''page allocation failed'')"

section \<open>Owned and borrowed buffers\<close>

definition buf_alloc :: "memory \<Rightarrow> nat \<Rightarrow> bytes result" where
  "buf_alloc mem num_blocks =
     (if num_blocks = 0
      then Err (error_with_msg InvalidArgs ''num_blocks must be greater than 0 for allocation'')
      else pages_alloc mem num_blocks)"

definition buf_ref_nblocks :: "bytes \<Rightarrow> nat" where
  "buf_ref_nblocks buf = length buf div BLOCK_SIZE"

definition buf_ref_try_from :: "bytes \<Rightarrow> bytes result" where
  "buf_ref_try_from buf =
     (if buf = [] then Err (error_with_msg InvalidArgs ''empty buf in `BufRef::try_from`'')
      else if length buf mod BLOCK_SIZE \<noteq> 0
      then Err (error_with_msg NotBlockSizeAligned ''buf not block size aligned `BufRef::try_from`'')
      else Ok buf)"

definition buf_mut_nblocks :: "bytes \<Rightarrow> nat" where
  "buf_mut_nblocks buf = length buf div BLOCK_SIZE"

definition buf_mut_try_from :: "bytes \<Rightarrow> bytes result" where
  "buf_mut_try_from buf =
     (if buf = [] then Err (error_with_msg InvalidArgs ''empty buf in `BufMut::try_from`'')
      else if length buf mod BLOCK_SIZE \<noteq> 0
      then Err (error_with_msg NotBlockSizeAligned ''buf not block size aligned `BufMut::try_from`'')
      else Ok buf)"

section \<open>The block iterator\<close>

record buf_iter_state =
  bi_buf :: bytes
  bi_offset :: nat

definition buf_iter :: "bytes \<Rightarrow> buf_iter_state" where
  "buf_iter buf = \<lparr>bi_buf = buf, bi_offset = 0\<rparr>"

definition buf_iter_next :: "buf_iter_state \<Rightarrow> (error, bytes option) outcome \<times> buf_iter_state" where
  "buf_iter_next it =
     (if bi_offset it \<ge> length (bi_buf it) then (Ok None, it)
      else let offset = bi_offset it;
               it' = it\<lparr>bi_offset := offset + BLOCK_SIZE\<rparr>
           in (case (get_slice offset (offset + BLOCK_SIZE) (bi_buf it) :: bytes result) of
                 Ok block \<Rightarrow> (case buf_ref_try_from block of Ok r \<Rightarrow> Ok (Some r) | _ \<Rightarrow> Ok None)
               | _ \<Rightarrow> Panic, it'))"

text \<open>A loop over the iterator; \<open>n\<close> bounds the number of calls of \<open>next\<close>.\<close>

primrec buf_iter_collect :: "nat \<Rightarrow> buf_iter_state \<Rightarrow> bytes list result" where
  "buf_iter_collect 0 it = Hang"
| "buf_iter_collect (Suc n) it = (case buf_iter_next it of
     (Ok None, _) \<Rightarrow> Ok []
   | (Ok (Some block), it') \<Rightarrow> and_then (buf_iter_collect n it') (\<lambda>blocks. Ok (block # blocks))
   | (Err e, _) \<Rightarrow> Err e
   | (Panic, _) \<Rightarrow> Panic
   | (Hang, _) \<Rightarrow> Hang)"

section \<open>Lemmas\<close>

lemma buf_alloc_Ok [simp]: "0 < n \<Longrightarrow> buf_alloc mem n = Ok (map mem [0..<n * BLOCK_SIZE])"
  by (simp add: buf_alloc_def pages_alloc_def page_allocator_alloc_def)

lemma buf_alloc_0 [simp]:
  "buf_alloc mem 0 = Err (error_with_msg InvalidArgs ''num_blocks must be greater than 0 for allocation'')"
  by (simp add: buf_alloc_def)

lemma buf_alloc_length: "buf_alloc mem n = Ok buf \<Longrightarrow> length buf = n * BLOCK_SIZE \<and> 0 < n"
  by (cases "n = 0") auto

definition block_aligned :: "bytes \<Rightarrow> bool" where
  "block_aligned buf \<longleftrightarrow> buf \<noteq> [] \<and> length buf mod BLOCK_SIZE = 0"

lemma buf_ref_try_from_Ok [simp]: "block_aligned buf \<Longrightarrow> buf_ref_try_from buf = Ok buf"
  by (simp add: block_aligned_def buf_ref_try_from_def)

lemma buf_mut_try_from_Ok [simp]: "block_aligned buf \<Longrightarrow> buf_mut_try_from buf = Ok buf"
  by (simp add: block_aligned_def buf_mut_try_from_def)

lemma block_aligned_one [simp]: "length buf = BLOCK_SIZE \<Longrightarrow> block_aligned buf"
  by (auto simp: block_aligned_def)

lemma buf_ref_try_from_iff: "buf_ref_try_from buf = Ok r \<longleftrightarrow> r = buf \<and> block_aligned buf"
  by (auto simp: buf_ref_try_from_def block_aligned_def)

text \<open>
  The iterator of an aligned buffer yields its blocks in order and then ends: it never panics
  and needs one call of \<open>next\<close> more than there are blocks.
\<close>

lemma buf_iter_collect_from:
  assumes "length buf = (i + m) * BLOCK_SIZE"
  shows "buf_iter_collect (Suc m) \<lparr>bi_buf = buf, bi_offset = i * BLOCK_SIZE\<rparr> =
    Ok (map (\<lambda>j. slice (j * BLOCK_SIZE) (Suc j * BLOCK_SIZE) buf) [i..<i + m])"
  using assms
proof (induction m arbitrary: i)
  case (Suc m)
  let ?b = "slice (i * BLOCK_SIZE) (Suc i * BLOCK_SIZE) buf"
  have "buf_iter_next \<lparr>bi_buf = buf, bi_offset = i * BLOCK_SIZE\<rparr> =
      (Ok (Some ?b), \<lparr>bi_buf = buf, bi_offset = Suc i * BLOCK_SIZE\<rparr>)"
    using Suc.prems by (simp add: buf_iter_next_def Let_def add.commute)
  moreover have "buf_iter_collect (Suc m) \<lparr>bi_buf = buf, bi_offset = Suc i * BLOCK_SIZE\<rparr> =
      Ok (map (\<lambda>j. slice (j * BLOCK_SIZE) (Suc j * BLOCK_SIZE) buf) [Suc i..<Suc i + m])"
    using Suc.prems by (intro Suc.IH) simp
  moreover have "[i..<i + Suc m] = i # [Suc i..<Suc i + m]" by (simp add: upt_conv_Cons del: upt_Suc)
  ultimately show ?case
    by (simp add: buf_iter_collect.simps(2) [of "Suc m"] del: buf_iter_collect.simps upt_Suc)
qed (simp add: buf_iter_next_def)

lemma buf_iter_blocks:
  assumes "block_aligned buf"
  shows "\<exists>blocks. buf_iter_collect (Suc (buf_ref_nblocks buf)) (buf_iter buf) = Ok blocks \<and>
    length blocks = buf_ref_nblocks buf \<and> (\<forall>b\<in>set blocks. length b = BLOCK_SIZE) \<and>
    concat blocks = buf"
proof -
  have len: "length buf = (0 + buf_ref_nblocks buf) * BLOCK_SIZE"
    using assms by (simp add: block_aligned_def buf_ref_nblocks_def mod_eq_0_iff_dvd)
  have l: "length (slice (j * BLOCK_SIZE) (Suc j * BLOCK_SIZE) buf) = BLOCK_SIZE"
    if "j < buf_ref_nblocks buf" for j
  proof -
    have "Suc j * BLOCK_SIZE \<le> length buf" using that len by simp
    then show ?thesis by simp
  qed
  have "concat (map (\<lambda>j. slice (j * BLOCK_SIZE) (Suc j * BLOCK_SIZE) buf) [0..<buf_ref_nblocks buf]) = buf"
    using len by (simp only: concat_slices) (simp add: slice_def)
  then show ?thesis
    using buf_iter_collect_from [OF len] l
    by (intro exI [of _ "map (\<lambda>j. slice (j * BLOCK_SIZE) (Suc j * BLOCK_SIZE) buf) [0..<buf_ref_nblocks buf]"])
      (auto simp: buf_iter_def simp del: buf_iter_collect.simps)
qed

end
