(* ===== verification/Block_Set.thy ===== *)
theory Block_Set
  imports Block_Buf
begin

text \<open>
  \<open>core/src/bio/block_set.rs\<close>: the \<open>BlockSet\<close> trait, its default methods and \<open>MemDisk\<close>.

  A \<open>BlockSet\<close> has interior mutability: several handles share one storage.  The trait is a
  record of its methods over a world \<open>'s\<close> (the storage) and a handle \<open>'d\<close>.  A \<open>BufMut\<close>
  argument of \<open>read\<close> is its number of blocks, its content after the call is the result.
  \<open>block_set\<close> is the contract the clients of the trait rely on.
\<close>

section \<open>The trait\<close>

record ('s, 'd) bs_ops =
  bs_read :: "'s \<Rightarrow> 'd \<Rightarrow> block_id \<Rightarrow> nat \<Rightarrow> bytes result"
  bs_write :: "'s \<Rightarrow> 'd \<Rightarrow> block_id \<Rightarrow> bytes \<Rightarrow> unit result \<times> 's"
  bs_subset :: "'d \<Rightarrow> block_id \<Rightarrow> block_id \<Rightarrow> 'd result"
  bs_flush :: "'s \<Rightarrow> 'd \<Rightarrow> unit result \<times> 's"
  bs_nblocks :: "'d \<Rightarrow> nat"

definition end_block :: "nat \<Rightarrow> nat \<Rightarrow> block_id" where
  "end_block offset len = (offset + len + BLOCK_SIZE - 1) div BLOCK_SIZE"

definition read_slice ::
  "('s, 'd) bs_ops \<Rightarrow> memory \<Rightarrow> 's \<Rightarrow> 'd \<Rightarrow> nat \<Rightarrow> nat \<Rightarrow> bytes result"
where
  "read_slice B mem w d offset len =
     (let start_pos = offset div BLOCK_SIZE;
          end_pos = end_block offset len
      in if end_pos > bs_nblocks B d
         then Err (error_with_msg InvalidArgs ''read_slice position is out of range'')
         else and_then (buf_alloc mem (end_pos - start_pos)) (\<lambda>_.
              and_then (bs_read B w d start_pos (end_pos - start_pos)) (\<lambda>blocks.
              get_slice (offset mod BLOCK_SIZE) (offset mod BLOCK_SIZE + len) blocks)))"

text \<open>
  The buffer \<open>blocks\<close> of \<open>write_slice\<close>: the old bytes before the slice, the slice, and, when
  the slice ends inside a block, the bytes of block \<open>end_pos\<close> behind it.
\<close>

definition write_slice_blocks ::
  "('s, 'd) bs_ops \<Rightarrow> memory \<Rightarrow> 's \<Rightarrow> 'd \<Rightarrow> nat \<Rightarrow> bytes \<Rightarrow> bytes result"
where
  "write_slice_blocks B mem w d offset buf =
     (let start_pos = offset div BLOCK_SIZE;
          end_pos = end_block offset (length buf);
          start_offset = offset mod BLOCK_SIZE;
          end_offset = start_offset + length buf
      in and_then (buf_alloc mem (end_pos - start_pos)) (\<lambda>blocks.
         and_then (if start_offset \<noteq> 0
                   then and_then (buf_alloc mem 1) (\<lambda>_.
                        and_then (bs_read B w d start_pos 1) (\<lambda>start_block.
                        and_then (get_slice 0 start_offset start_block) (put_slice blocks 0)))
                   else Ok blocks) (\<lambda>blocks.
         and_then (put_slice blocks start_offset buf) (\<lambda>blocks.
         if end_offset mod BLOCK_SIZE \<noteq> 0
         then and_then (buf_alloc mem 1) (\<lambda>_.
              and_then (bs_read B w d end_pos 1) (\<lambda>end_block.
              and_then (get_slice (end_offset mod BLOCK_SIZE) (length end_block) end_block) (\<lambda>tail.
              if length blocks = end_offset + length tail
              then put_slice blocks end_offset tail else Panic)))
         else Ok blocks))))"

definition write_slice ::
  "('s, 'd) bs_ops \<Rightarrow> memory \<Rightarrow> 's \<Rightarrow> 'd \<Rightarrow> nat \<Rightarrow> bytes \<Rightarrow> unit result \<times> 's"
where
  "write_slice B mem w d offset buf =
     (if end_block offset (length buf) > bs_nblocks B d
      then (Err (error_with_msg InvalidArgs ''write_slice position is out of range''), w)
      else case write_slice_blocks B mem w d offset buf of
        Ok blocks \<Rightarrow> then_do (bs_write B w d (offset div BLOCK_SIZE) blocks) (\<lambda>_ w. (Ok (), w))
      | Err e \<Rightarrow> (Err e, w)
      | Panic \<Rightarrow> (Panic, w)
      | Hang \<Rightarrow> (Hang, w))"

section \<open>MemDisk\<close>

text \<open>The shared \<open>Arc<Mutex<Buf>>\<close> is the world; a handle is its region of blocks.\<close>

record mem_disk =
  region_start :: block_id
  region_end :: block_id

definition mem_disk_create :: "memory \<Rightarrow> nat \<Rightarrow> (mem_disk \<times> bytes) result" where
  "mem_disk_create mem num_blocks =
     and_then (buf_alloc mem num_blocks) (\<lambda>blocks.
       Ok (\<lparr>region_start = 0, region_end = num_blocks\<rparr>, blocks))"

definition mem_disk_read :: "bytes \<Rightarrow> mem_disk \<Rightarrow> block_id \<Rightarrow> nat \<Rightarrow> bytes result" where
  "mem_disk_read disk d pos nblocks =
     (if pos + nblocks > region_end d
      then Err (error_with_msg InvalidArgs ''read position is out of range'')
      else let offset = (region_start d + pos) * BLOCK_SIZE
           in get_slice offset (offset + nblocks * BLOCK_SIZE) disk)"

definition mem_disk_write :: "bytes \<Rightarrow> mem_disk \<Rightarrow> block_id \<Rightarrow> bytes \<Rightarrow> unit result \<times> bytes" where
  "mem_disk_write disk d pos buf =
     (if pos + buf_ref_nblocks buf > region_end d
      then (Err (error_with_msg InvalidArgs ''write position is out of range''), disk)
      else let offset = (region_start d + pos) * BLOCK_SIZE
           in if offset + length buf \<le> length disk
              then (Ok (), overwrite disk offset buf)
              else (Panic, disk))"

definition mem_disk_subset :: "mem_disk \<Rightarrow> block_id \<Rightarrow> block_id \<Rightarrow> mem_disk result" where
  "mem_disk_subset d a b =
     (if region_start d + b > region_end d
      then Err (error_with_msg InvalidArgs ''subset is out of range'')
      else Ok \<lparr>region_start = region_start d + a, region_end = region_start d + b\<rparr>)"

definition mem_disk_flush :: "bytes \<Rightarrow> mem_disk \<Rightarrow> unit result \<times> bytes" where
  "mem_disk_flush disk d = (Ok (), disk)"

definition mem_disk_nblocks :: "mem_disk \<Rightarrow> nat" where
  "mem_disk_nblocks d = region_end d - region_start d"

definition mem_disk_ops :: "(bytes, mem_disk) bs_ops" where
  "mem_disk_ops = \<lparr>bs_read = mem_disk_read, bs_write = mem_disk_write,
     bs_subset = mem_disk_subset, bs_flush = mem_disk_flush, bs_nblocks = mem_disk_nblocks\<rparr>"

lemma mem_disk_ops_simps [simp]:
  "bs_read mem_disk_ops = mem_disk_read" "bs_write mem_disk_ops = mem_disk_write"
  "bs_subset mem_disk_ops = mem_disk_subset" "bs_flush mem_disk_ops = mem_disk_flush"
  "bs_nblocks mem_disk_ops = mem_disk_nblocks"
  by (simp_all add: mem_disk_ops_def)

section \<open>The contract of a block set\<close>

text \<open>
  \<open>valid w d\<close>: the handle is backed by the storage.  \<open>blk w d i\<close>: the content of its block
  \<open>i\<close>.  \<open>sep d d'\<close>: the two handles share no block.
\<close>

locale block_set =
  fixes B :: "('s, 'd) bs_ops"
    and valid :: "'s \<Rightarrow> 'd \<Rightarrow> bool"
    and blk :: "'s \<Rightarrow> 'd \<Rightarrow> block_id \<Rightarrow> bytes"
    and sep :: "'d \<Rightarrow> 'd \<Rightarrow> bool"
  assumes blk_length: "valid w d \<Longrightarrow> i < bs_nblocks B d \<Longrightarrow> length (blk w d i) = BLOCK_SIZE"
    and read_blocks: "valid w d \<Longrightarrow> pos + n \<le> bs_nblocks B d \<Longrightarrow>
      bs_read B w d pos n = Ok (concat (map (blk w d) [pos..<pos + n]))"
    and write_blocks: "valid w d \<Longrightarrow> length buf = n * BLOCK_SIZE \<Longrightarrow> pos + n \<le> bs_nblocks B d \<Longrightarrow>
      \<exists>w'. bs_write B w d pos buf = (Ok (), w') \<and>
        (\<forall>d'. valid w d' \<longrightarrow> valid w' d') \<and>
        (\<forall>i < bs_nblocks B d. blk w' d i =
           (if pos \<le> i \<and> i < pos + n then slice ((i - pos) * BLOCK_SIZE) (Suc (i - pos) * BLOCK_SIZE) buf
            else blk w d i)) \<and>
        (\<forall>d' i. sep d d' \<longrightarrow> valid w d' \<longrightarrow> i < bs_nblocks B d' \<longrightarrow> blk w' d' i = blk w d' i)"
    and flush_blocks: "valid w d \<Longrightarrow> \<exists>w'. bs_flush B w d = (Ok (), w') \<and>
        (\<forall>d'. valid w d' \<longrightarrow> valid w' d' \<and> (\<forall>i < bs_nblocks B d'. blk w' d' i = blk w d' i))"
    and subset_blocks: "valid w d \<Longrightarrow> a \<le> b \<Longrightarrow> b \<le> bs_nblocks B d \<Longrightarrow>
      \<exists>d'. bs_subset B d a b = Ok d' \<and> bs_nblocks B d' = b - a \<and> valid w d' \<and>
        (\<forall>i < b - a. blk w d' i = blk w d (a + i))"
    and subset_sep: "valid w d \<Longrightarrow> bs_subset B d a b = Ok d1 \<Longrightarrow> bs_subset B d b c = Ok d2 \<Longrightarrow>
      a \<le> b \<Longrightarrow> b \<le> c \<Longrightarrow> sep d1 d2 \<and> sep d2 d1"
begin

definition content :: "'s \<Rightarrow> 'd \<Rightarrow> bytes" where
  "content w d = concat (map (blk w d) [0..<bs_nblocks B d])"

lemma length_content: "valid w d \<Longrightarrow> length (content w d) = bs_nblocks B d * BLOCK_SIZE"
  unfolding content_def by (subst length_concat_blocks [where n = BLOCK_SIZE]) (auto simp: blk_length)

lemma blk_content:
  "valid w d \<Longrightarrow> i < bs_nblocks B d \<Longrightarrow>
    slice (i * BLOCK_SIZE) (Suc i * BLOCK_SIZE) (content w d) = blk w d i"
  unfolding content_def by (subst slice_concat_blocks [where n = BLOCK_SIZE]) (auto simp: blk_length)

lemma read_content:
  assumes "valid w d" "pos + n \<le> bs_nblocks B d"
  shows "bs_read B w d pos n = Ok (slice (pos * BLOCK_SIZE) ((pos + n) * BLOCK_SIZE) (content w d))"
  using assms slice_concat_range [of "bs_nblocks B d" "blk w d" BLOCK_SIZE pos "pos + n"]
  by (simp add: read_blocks content_def blk_length)

lemma content_eqI:
  assumes "valid w d" "length xs = bs_nblocks B d * BLOCK_SIZE"
    "\<And>i. i < bs_nblocks B d \<Longrightarrow> slice (i * BLOCK_SIZE) (Suc i * BLOCK_SIZE) xs = blk w d i"
  shows "content w d = xs"
proof -
  have "content w d = concat (map (\<lambda>i. slice (i * BLOCK_SIZE) (Suc i * BLOCK_SIZE) xs) [0..<bs_nblocks B d])"
    unfolding content_def using assms(3) by (intro arg_cong [where f = concat] map_cong) auto
  also have "\<dots> = xs" using assms(2) by (simp only: concat_slices) (simp add: slice_def)
  finally show ?thesis .
qed

lemma write_content:
  assumes v: "valid w d" and len: "length buf = n * BLOCK_SIZE" and n: "pos + n \<le> bs_nblocks B d"
  shows "\<exists>w'. bs_write B w d pos buf = (Ok (), w') \<and> (\<forall>d'. valid w d' \<longrightarrow> valid w' d') \<and>
    content w' d = overwrite (content w d) (pos * BLOCK_SIZE) buf \<and>
    (\<forall>d'. sep d d' \<longrightarrow> valid w d' \<longrightarrow> content w' d' = content w d')"
proof -
  obtain w' where w': "bs_write B w d pos buf = (Ok (), w')" "\<forall>d'. valid w d' \<longrightarrow> valid w' d'"
    "\<forall>i < bs_nblocks B d. blk w' d i =
       (if pos \<le> i \<and> i < pos + n then slice ((i - pos) * BLOCK_SIZE) (Suc (i - pos) * BLOCK_SIZE) buf
        else blk w d i)"
    "\<forall>d' i. sep d d' \<longrightarrow> valid w d' \<longrightarrow> i < bs_nblocks B d' \<longrightarrow> blk w' d' i = blk w d' i"
    using write_blocks [OF assms] by blast
  have fits: "pos * BLOCK_SIZE + length buf \<le> length (content w d)"
    using length_content [OF v] len n by simp
  have "content w' d = overwrite (content w d) (pos * BLOCK_SIZE) buf"
  proof (rule content_eqI)
    fix i assume i: "i < bs_nblocks B d"
    show "slice (i * BLOCK_SIZE) (Suc i * BLOCK_SIZE) (overwrite (content w d) (pos * BLOCK_SIZE) buf) =
        blk w' d i"
    proof (cases "pos \<le> i \<and> i < pos + n")
      case True
      then show ?thesis using w'(3) i fits len
        by (simp add: slice_overwrite_inside diff_mult_distrib algebra_simps)
    next
      case False
      then have "Suc i * BLOCK_SIZE \<le> pos * BLOCK_SIZE \<or> pos * BLOCK_SIZE + length buf \<le> i * BLOCK_SIZE"
        using len by auto
      then show ?thesis using False w'(3) i fits blk_content [OF v i]
        by (simp only: slice_overwrite_disjoint) auto
    qed
  qed (use v w'(2) fits length_content [OF v] in auto)
  moreover have "content w' d' = content w d'" if "sep d d'" "valid w d'" for d'
    unfolding content_def using w'(4) that by (intro arg_cong [where f = concat] map_cong) auto
  ultimately show ?thesis using w'(1,2) by blast
qed

lemma flush_content:
  assumes "valid w d"
  shows "\<exists>w'. bs_flush B w d = (Ok (), w') \<and>
    (\<forall>d'. valid w d' \<longrightarrow> valid w' d' \<and> content w' d' = content w d')"
proof -
  obtain w' where w': "bs_flush B w d = (Ok (), w')"
    "\<forall>d'. valid w d' \<longrightarrow> valid w' d' \<and> (\<forall>i < bs_nblocks B d'. blk w' d' i = blk w d' i)"
    using flush_blocks [OF assms] by blast
  have "content w' d' = content w d'" if "valid w d'" for d'
    unfolding content_def using w'(2) that by (intro arg_cong [where f = concat] map_cong) auto
  with w' show ?thesis by blast
qed

lemma end_block_bounds:
  assumes "offset + len \<le> m * BLOCK_SIZE" "0 < len"
  shows "end_block offset len \<le> m" "offset div BLOCK_SIZE < end_block offset len"
    "offset + len \<le> end_block offset len * BLOCK_SIZE"
    "end_block offset len * BLOCK_SIZE < offset + len + BLOCK_SIZE"
  using assms unfolding end_block_def by linarith+

lemma read_slice_content:
  assumes v: "valid w d" and r: "offset + len \<le> bs_nblocks B d * BLOCK_SIZE" "0 < len"
  shows "read_slice B mem w d offset len = Ok (slice offset (offset + len) (content w d))"
proof -
  note e = end_block_bounds [OF r]
  define s m t where "s = offset div BLOCK_SIZE" and "m = offset mod BLOCK_SIZE"
    and "t = end_block offset len"
  have off: "offset = s * BLOCK_SIZE + m" by (simp add: s_def m_def)
  have rd: "bs_read B w d s (t - s) = Ok (slice (s * BLOCK_SIZE) (t * BLOCK_SIZE) (content w d))"
    using read_content [OF v, of s "t - s"] e by (simp add: s_def t_def)
  have len': "m + len \<le> t * BLOCK_SIZE - s * BLOCK_SIZE"
    using e off by (simp add: t_def)
  have "t * BLOCK_SIZE \<le> length (content w d)" using length_content [OF v] e by (simp add: t_def)
  then have g: "get_slice m (m + len) (slice (s * BLOCK_SIZE) (t * BLOCK_SIZE) (content w d)) =
      (Ok (slice offset (offset + len) (content w d)) :: bytes result)"
    using len' by (simp add: slice_slice off add.assoc)
  have "s < t" "t \<le> bs_nblocks B d" using e by (simp_all add: s_def t_def)
  then show ?thesis using rd g by (simp add: read_slice_def Let_def flip: s_def t_def m_def)
qed

text \<open>
  The bytes \<open>write_slice\<close> puts behind an unaligned slice: they are taken from the block that
  follows the last block of the slice.
\<close>

definition slice_tail :: "'s \<Rightarrow> 'd \<Rightarrow> nat \<Rightarrow> nat \<Rightarrow> bytes" where
  "slice_tail w d offset len =
     (if (offset + len) mod BLOCK_SIZE = 0 then []
      else slice (offset + len + BLOCK_SIZE) (Suc (end_block offset len) * BLOCK_SIZE) (content w d))"

lemma write_slice_head:
  assumes v: "valid w d" and r: "offset < bs_nblocks B d * BLOCK_SIZE"
    and len: "length blocks0 \<ge> offset mod BLOCK_SIZE"
  shows "\<exists>blocks. (if offset mod BLOCK_SIZE \<noteq> 0
       then and_then (buf_alloc mem 1) (\<lambda>_.
            and_then (bs_read B w d (offset div BLOCK_SIZE) 1) (\<lambda>start_block.
            and_then (get_slice 0 (offset mod BLOCK_SIZE) start_block) (put_slice blocks0 0)))
       else Ok blocks0) = Ok blocks \<and> length blocks = length blocks0 \<and>
     take (offset mod BLOCK_SIZE) blocks = slice (offset div BLOCK_SIZE * BLOCK_SIZE) offset (content w d)"
proof (cases "offset mod BLOCK_SIZE = 0")
  case True
  then show ?thesis by (auto simp: slice_def)
next
  case False
  define s m where "s = offset div BLOCK_SIZE" and "m = offset mod BLOCK_SIZE"
  have off: "offset = s * BLOCK_SIZE + m" by (simp add: s_def m_def)
  have m: "m < BLOCK_SIZE" by (simp add: m_def)
  have s: "Suc s \<le> bs_nblocks B d" using r off by linarith
  have rd: "bs_read B w d s 1 = Ok (slice (s * BLOCK_SIZE) (Suc s * BLOCK_SIZE) (content w d))"
    using read_content [OF v, of s 1] s by simp
  have "Suc s * BLOCK_SIZE \<le> length (content w d)" using length_content [OF v] s by simp
  then have g: "get_slice 0 m (slice (s * BLOCK_SIZE) (Suc s * BLOCK_SIZE) (content w d)) =
      (Ok (slice (s * BLOCK_SIZE) offset (content w d)) :: bytes result)"
    and l: "length (slice (s * BLOCK_SIZE) offset (content w d)) = m"
    using m off by (simp_all add: slice_slice)
  let ?h = "slice (s * BLOCK_SIZE) offset (content w d)"
  have "take m (overwrite blocks0 0 ?h) = ?h" using l by (simp add: overwrite_def)
  then show ?thesis using False rd g l len by (simp flip: s_def m_def)
qed

lemma write_slice_blocks_head:
  assumes v: "valid w d" and r: "offset + length buf \<le> bs_nblocks B d * BLOCK_SIZE" "buf \<noteq> []"
  defines "h \<equiv> slice (offset div BLOCK_SIZE * BLOCK_SIZE) offset (content w d)"
  defines "e \<equiv> offset mod BLOCK_SIZE + length buf"
  shows "\<exists>rest. length (h @ buf @ rest) = (end_block offset (length buf) - offset div BLOCK_SIZE) * BLOCK_SIZE \<and>
    length h = offset mod BLOCK_SIZE \<and>
    write_slice_blocks B mem w d offset buf =
      (if e mod BLOCK_SIZE \<noteq> 0
       then and_then (buf_alloc mem 1) (\<lambda>_.
            and_then (bs_read B w d (end_block offset (length buf)) 1) (\<lambda>end_block.
            and_then (get_slice (e mod BLOCK_SIZE) (length end_block) end_block) (\<lambda>tail.
            if length (h @ buf @ rest) = e + length tail then put_slice (h @ buf @ rest) e tail else Panic)))
       else Ok (h @ buf @ rest))"
proof -
  define s m t where "s = offset div BLOCK_SIZE" and "m = offset mod BLOCK_SIZE"
    and "t = end_block offset (length buf)"
  have off: "offset = s * BLOCK_SIZE + m" by (simp add: s_def m_def)
  have st: "s < t" "offset + length buf \<le> t * BLOCK_SIZE"
    unfolding s_def t_def using end_block_bounds [OF r(1)] r(2) by blast+
  have len: "m + length buf \<le> (t - s) * BLOCK_SIZE" and ts0: "0 < t - s"
    using st off by (simp_all add: diff_mult_distrib)
  have lt: "offset < bs_nblocks B d * BLOCK_SIZE" using r by (cases buf) auto
  obtain bs1 where b1: "(if m \<noteq> 0
       then and_then (buf_alloc mem 1) (\<lambda>_.
            and_then (bs_read B w d s 1) (\<lambda>start_block.
            and_then (get_slice 0 m start_block)
              (put_slice (map mem [0..<(t - s) * BLOCK_SIZE]) 0)))
       else Ok (map mem [0..<(t - s) * BLOCK_SIZE])) = Ok bs1"
    and l1: "length bs1 = (t - s) * BLOCK_SIZE" and h1: "take m bs1 = h"
    using write_slice_head [OF v lt, of "map mem [0..<(t - s) * BLOCK_SIZE]" mem] len
    unfolding s_def [symmetric] m_def [symmetric] h_def by auto
  have b2: "put_slice bs1 m buf = (Ok (h @ buf @ drop (m + length buf) bs1) :: bytes result)"
    using len l1 h1 by (simp add: overwrite_def)
  have hm: "length h = m" using h1 l1 len by (metis add_leD1 length_take min.absorb2)
  show ?thesis
    unfolding write_slice_blocks_def Let_def e_def s_def [symmetric] m_def [symmetric] t_def [symmetric]
    by (rule exI [of _ "drop (m + length buf) bs1"])
      (simp only: buf_alloc_Ok [OF ts0] and_then.simps b1 b2, use l1 hm len in simp)
qed

lemma write_slice_blocks_content:
  assumes v: "valid w d" and r: "offset + length buf \<le> bs_nblocks B d * BLOCK_SIZE" "buf \<noteq> []"
    and e: "(offset + length buf) mod BLOCK_SIZE = 0 \<or> end_block offset (length buf) < bs_nblocks B d"
  shows "write_slice_blocks B mem w d offset buf = Ok
    (slice (offset div BLOCK_SIZE * BLOCK_SIZE) offset (content w d) @ buf @ slice_tail w d offset (length buf))"
proof -
  define s m t where "s = offset div BLOCK_SIZE" and "m = offset mod BLOCK_SIZE"
    and "t = end_block offset (length buf)"
  have off: "offset = s * BLOCK_SIZE + m" by (simp add: s_def m_def)
  have mod: "(m + length buf) mod BLOCK_SIZE = (offset + length buf) mod BLOCK_SIZE"
    unfolding off by (simp add: mod_add_left_eq add.assoc)
  have st: "s < t" "offset + length buf \<le> t * BLOCK_SIZE" "t * BLOCK_SIZE < offset + length buf + BLOCK_SIZE"
    unfolding s_def t_def using end_block_bounds [OF r(1)] r(2) by blast+
  let ?h = "slice (s * BLOCK_SIZE) offset (content w d)"
  obtain rest where l: "length (?h @ buf @ rest) = (t - s) * BLOCK_SIZE" "length ?h = m"
    and u: "write_slice_blocks B mem w d offset buf =
      (if (m + length buf) mod BLOCK_SIZE \<noteq> 0
       then and_then (buf_alloc mem 1) (\<lambda>_.
            and_then (bs_read B w d t 1) (\<lambda>end_block.
            and_then (get_slice ((m + length buf) mod BLOCK_SIZE) (length end_block) end_block) (\<lambda>tail.
            if length (?h @ buf @ rest) = m + length buf + length tail
            then put_slice (?h @ buf @ rest) (m + length buf) tail else Panic)))
       else Ok (?h @ buf @ rest))"
    using write_slice_blocks_head [OF v r, of mem]
    unfolding s_def [symmetric] m_def [symmetric] t_def [symmetric] by blast
  show ?thesis
  proof (cases "(offset + length buf) mod BLOCK_SIZE = 0")
    case True
    have "t * BLOCK_SIZE = offset + length buf" using multiple_between_eq [OF st(2,3)] True by simp
    then have "rest = []" using l off st(1) by (simp add: diff_mult_distrib)
    then show ?thesis using True mod by (simp add: u slice_tail_def flip: s_def)
  next
    case False
    define q where "q = (offset + length buf) mod BLOCK_SIZE"
    have q: "q < BLOCK_SIZE" "q \<noteq> 0" using False by (simp_all add: q_def)
    have t: "t * BLOCK_SIZE + q = offset + length buf + BLOCK_SIZE"
      using round_up_unaligned [of "offset + length buf" BLOCK_SIZE] q
      by (simp add: t_def end_block_def q_def)
    have tn: "Suc t \<le> bs_nblocks B d" using e False by (simp add: t_def)
    then have cl: "Suc t * BLOCK_SIZE \<le> length (content w d)" using length_content [OF v] by simp
    have rd: "bs_read B w d t 1 = Ok (slice (t * BLOCK_SIZE) (Suc t * BLOCK_SIZE) (content w d))"
      using read_content [OF v, of t 1] tn by simp
    let ?tl = "slice_tail w d offset (length buf)"
    have tl: "?tl = slice (t * BLOCK_SIZE + q) (Suc t * BLOCK_SIZE) (content w d)"
      using False t by (simp add: slice_tail_def flip: t_def)
    have g: "get_slice q BLOCK_SIZE (slice (t * BLOCK_SIZE) (Suc t * BLOCK_SIZE) (content w d)) =
        (Ok ?tl :: bytes result)"
      using q cl by (simp add: tl slice_slice add.commute)
    have ltl: "length ?tl = BLOCK_SIZE - q" using cl by (simp add: tl)
    have fin: "m + length buf + length ?tl = (t - s) * BLOCK_SIZE"
      unfolding ltl using t q off st(1) by (simp add: diff_mult_distrib)
    have b3: "put_slice (?h @ buf @ rest) (m + length buf) ?tl = (Ok (?h @ buf @ ?tl) :: bytes result)"
      using fin l by (simp add: overwrite_def)
    show ?thesis using q mod l rd g fin cl b3 by (simp add: u flip: s_def q_def)
  qed
qed

lemma length_slice_tail:
  assumes v: "valid w d" and r: "offset + len \<le> bs_nblocks B d * BLOCK_SIZE" "0 < len"
    and e: "(offset + len) mod BLOCK_SIZE = 0 \<or> end_block offset len < bs_nblocks B d"
  shows "offset + len + length (slice_tail w d offset len) = end_block offset len * BLOCK_SIZE"
proof -
  define t where "t = end_block offset len"
  have t: "offset + len \<le> t * BLOCK_SIZE" "t * BLOCK_SIZE < offset + len + BLOCK_SIZE"
    unfolding t_def using end_block_bounds [OF r] by blast+
  show ?thesis
  proof (cases "(offset + len) mod BLOCK_SIZE = 0")
    case True
    then show ?thesis using multiple_between_eq [OF t] by (simp add: slice_tail_def flip: t_def)
  next
    case False
    then have "Suc t * BLOCK_SIZE \<le> length (content w d)"
      using e length_content [OF v] by (simp flip: t_def)
    then show ?thesis using t False by (simp add: slice_tail_def flip: t_def)
  qed
qed

lemma write_slice_content:
  assumes v: "valid w d" and r: "offset + length buf \<le> bs_nblocks B d * BLOCK_SIZE" "buf \<noteq> []"
    and e: "(offset + length buf) mod BLOCK_SIZE = 0 \<or> end_block offset (length buf) < bs_nblocks B d"
  shows "\<exists>w'. write_slice B mem w d offset buf = (Ok (), w') \<and> (\<forall>d'. valid w d' \<longrightarrow> valid w' d') \<and>
    content w' d = overwrite (content w d) offset (buf @ slice_tail w d offset (length buf)) \<and>
    (\<forall>d'. sep d d' \<longrightarrow> valid w d' \<longrightarrow> content w' d' = content w d')"
proof -
  define s t where "s = offset div BLOCK_SIZE" and "t = end_block offset (length buf)"
  have so: "s * BLOCK_SIZE \<le> offset" by (simp add: s_def)
  have st: "s < t" "t \<le> bs_nblocks B d"
    unfolding s_def t_def using end_block_bounds [OF r(1)] r(2) by blast+
  let ?b = "slice (s * BLOCK_SIZE) offset (content w d) @ buf @ slice_tail w d offset (length buf)"
  have oc: "offset \<le> length (content w d)" using length_content [OF v] r by simp
  have "offset + length buf + length (slice_tail w d offset (length buf)) = t * BLOCK_SIZE"
    unfolding t_def using length_slice_tail [OF v r(1) _ e] r(2) by blast
  then have len: "length ?b = (t - s) * BLOCK_SIZE" using so oc by (simp add: diff_mult_distrib)
  obtain w' where w': "bs_write B w d s ?b = (Ok (), w')" "\<forall>d'. valid w d' \<longrightarrow> valid w' d'"
    "content w' d = overwrite (content w d) (s * BLOCK_SIZE) ?b"
    "\<forall>d'. sep d d' \<longrightarrow> valid w d' \<longrightarrow> content w' d' = content w d'"
    using write_content [OF v len, of s] st by auto
  have "write_slice B mem w d offset buf = (Ok (), w')"
    using write_slice_blocks_content [OF assms] w'(1) st
    by (simp add: write_slice_def flip: s_def t_def)
  moreover have "content w' d = overwrite (content w d) offset (buf @ slice_tail w d offset (length buf))"
    using w'(3) overwrite_slice_prefix [OF so oc] by simp
  ultimately show ?thesis using w' by blast
qed

lemma write_slice_read_slice:
  assumes v: "valid w d" and r: "offset + length buf \<le> bs_nblocks B d * BLOCK_SIZE" "buf \<noteq> []"
    and e: "(offset + length buf) mod BLOCK_SIZE = 0 \<or> end_block offset (length buf) < bs_nblocks B d"
  shows "\<exists>w'. write_slice B mem w d offset buf = (Ok (), w') \<and>
    read_slice B mem w' d offset (length buf) = Ok buf"
proof -
  obtain w' where w': "write_slice B mem w d offset buf = (Ok (), w')" "valid w' d"
    "content w' d = overwrite (content w d) offset (buf @ slice_tail w d offset (length buf))"
    using write_slice_content [OF assms, of mem] v by blast
  have "end_block offset (length buf) * BLOCK_SIZE \<le> length (content w d)"
    using end_block_bounds(1) [OF r(1)] r(2) length_content [OF v] by simp
  then have fits: "offset + length (buf @ slice_tail w d offset (length buf)) \<le> length (content w d)"
    using length_slice_tail [OF v r(1) _ e] r(2) by simp
  have "slice offset (offset + length buf) (content w' d) = buf"
    unfolding w'(3) using fits by (subst slice_overwrite_inside) (auto simp: slice_def)
  moreover have "bs_nblocks B d * BLOCK_SIZE = length (content w' d)" using length_content [OF w'(2)] by simp
  ultimately show ?thesis
    using w'(1) read_slice_content [OF w'(2) r(1), of mem] r(2) by simp
qed

text \<open>\<open>only w w' d\<close>: the storage changed at most in the blocks of the handle \<open>d\<close>.\<close>

definition only :: "'s \<Rightarrow> 's \<Rightarrow> 'd \<Rightarrow> bool" where
  "only w w' d \<longleftrightarrow> (\<forall>d'. valid w d' \<longrightarrow> valid w' d') \<and>
     (\<forall>d'. sep d d' \<longrightarrow> valid w d' \<longrightarrow> content w' d' = content w d')"

lemma only_refl [simp]: "only w w d"
  by (simp add: only_def)

lemma only_trans: "only w w1 d \<Longrightarrow> only w1 w2 d \<Longrightarrow> only w w2 d"
  by (simp add: only_def)

lemma only_valid: "only w w' d \<Longrightarrow> valid w d' \<Longrightarrow> valid w' d'"
  by (simp add: only_def)

lemma only_content: "only w w' d \<Longrightarrow> sep d d' \<Longrightarrow> valid w d' \<Longrightarrow> content w' d' = content w d'"
  by (simp add: only_def)

lemma write_slice_only:
  assumes "valid w d" "offset + length buf \<le> bs_nblocks B d * BLOCK_SIZE" "buf \<noteq> []"
    "(offset + length buf) mod BLOCK_SIZE = 0 \<or> end_block offset (length buf) < bs_nblocks B d"
  shows "\<exists>w'. write_slice B mem w d offset buf = (Ok (), w') \<and> only w w' d \<and>
    content w' d = overwrite (content w d) offset (buf @ slice_tail w d offset (length buf))"
  using write_slice_content [OF assms, of mem] by (auto simp: only_def)

lemma write_only:
  assumes "valid w d" "length buf = BLOCK_SIZE" "pos < bs_nblocks B d"
  shows "\<exists>w'. bs_write B w d pos buf = (Ok (), w') \<and> only w w' d \<and>
    content w' d = overwrite (content w d) (pos * BLOCK_SIZE) buf"
  using write_content [of w d buf 1 pos] assms by (auto simp: only_def)

lemma flush_only:
  assumes "valid w d"
  shows "\<exists>w'. bs_flush B w d = (Ok (), w') \<and> only w w' d \<and> (\<forall>d'. valid w d' \<longrightarrow> content w' d' = content w d')"
  using flush_content [OF assms] by (auto simp: only_def)

end

section \<open>MemDisk satisfies the contract\<close>

definition mem_disk_valid :: "bytes \<Rightarrow> mem_disk \<Rightarrow> bool" where
  "mem_disk_valid disk d \<longleftrightarrow>
     region_start d \<le> region_end d \<and> region_end d * BLOCK_SIZE \<le> length disk"

definition mem_disk_blk :: "bytes \<Rightarrow> mem_disk \<Rightarrow> block_id \<Rightarrow> bytes" where
  "mem_disk_blk disk d i =
     slice ((region_start d + i) * BLOCK_SIZE) (Suc (region_start d + i) * BLOCK_SIZE) disk"

definition mem_disk_sep :: "mem_disk \<Rightarrow> mem_disk \<Rightarrow> bool" where
  "mem_disk_sep d d' \<longleftrightarrow> region_end d \<le> region_start d' \<or> region_end d' \<le> region_start d"

lemma mem_disk_write_valid:
  assumes "mem_disk_valid w d" "length buf = n * BLOCK_SIZE" "pos + n \<le> mem_disk_nblocks d"
  shows "mem_disk_write w d pos buf = (Ok (), overwrite w ((region_start d + pos) * BLOCK_SIZE) buf)"
    "(region_start d + pos) * BLOCK_SIZE + length buf \<le> length w"
proof -
  have "(region_start d + pos + n) * BLOCK_SIZE \<le> region_end d * BLOCK_SIZE"
    using assms by (intro mult_le_mono1) (auto simp: mem_disk_nblocks_def mem_disk_valid_def)
  then show l: "(region_start d + pos) * BLOCK_SIZE + length buf \<le> length w"
    using assms by (simp add: mem_disk_valid_def algebra_simps)
  show "mem_disk_write w d pos buf = (Ok (), overwrite w ((region_start d + pos) * BLOCK_SIZE) buf)"
    using l assms by (simp add: mem_disk_write_def Let_def buf_ref_nblocks_def mem_disk_nblocks_def)
qed

lemma mem_disk_blk_overwrite:
  assumes "off * BLOCK_SIZE + n * BLOCK_SIZE \<le> length w" "length buf = n * BLOCK_SIZE"
  shows "mem_disk_blk (overwrite w (off * BLOCK_SIZE) buf) d i =
    (if off \<le> region_start d + i \<and> region_start d + i < off + n
     then slice ((region_start d + i - off) * BLOCK_SIZE) (Suc (region_start d + i - off) * BLOCK_SIZE) buf
     else mem_disk_blk w d i)"
proof -
  define j where "j = region_start d + i"
  show ?thesis
  proof (cases "off \<le> j \<and> j < off + n")
    case True
    then have "slice (j * BLOCK_SIZE) (Suc j * BLOCK_SIZE) (overwrite w (off * BLOCK_SIZE) buf) =
        slice ((j - off) * BLOCK_SIZE) (Suc (j - off) * BLOCK_SIZE) buf"
      using assms by (simp add: slice_overwrite_inside diff_mult_distrib algebra_simps)
    then show ?thesis using True by (simp add: mem_disk_blk_def flip: j_def)
  next
    case False
    then have "Suc j * BLOCK_SIZE \<le> off * BLOCK_SIZE \<or> off * BLOCK_SIZE + length buf \<le> j * BLOCK_SIZE"
      using assms by auto
    then have "slice (j * BLOCK_SIZE) (Suc j * BLOCK_SIZE) (overwrite w (off * BLOCK_SIZE) buf) =
        slice (j * BLOCK_SIZE) (Suc j * BLOCK_SIZE) w"
      using assms by (intro slice_overwrite_disjoint) simp_all
    then show ?thesis using False unfolding mem_disk_blk_def j_def [symmetric] by auto
  qed
qed

interpretation md: block_set mem_disk_ops mem_disk_valid mem_disk_blk mem_disk_sep
proof (unfold_locales, goal_cases)
  case (1 w d i)
  then have "Suc (region_start d + i) * BLOCK_SIZE \<le> region_end d * BLOCK_SIZE"
    by (intro mult_le_mono1) (simp add: mem_disk_nblocks_def)
  then show ?case using 1 by (simp add: mem_disk_blk_def mem_disk_valid_def)
next
  case (2 w d pos n)
  have "(region_start d + pos + n) * BLOCK_SIZE \<le> region_end d * BLOCK_SIZE"
    using 2 by (intro mult_le_mono1) (auto simp: mem_disk_nblocks_def mem_disk_valid_def)
  then have l: "(region_start d + pos + n) * BLOCK_SIZE \<le> length w"
    using 2 by (simp add: mem_disk_valid_def)
  have "map (mem_disk_blk w d) [pos..<pos + n] =
      map (\<lambda>i. slice (i * BLOCK_SIZE) (Suc i * BLOCK_SIZE) w) [region_start d + pos..<region_start d + pos + n]"
    by (intro nth_equalityI) (simp_all add: mem_disk_blk_def add.assoc)
  then have "concat (map (mem_disk_blk w d) [pos..<pos + n]) =
      slice ((region_start d + pos) * BLOCK_SIZE) ((region_start d + pos + n) * BLOCK_SIZE) w"
    by (simp only: concat_slices)
  then show ?case using 2 l
    by (simp add: mem_disk_read_def mem_disk_nblocks_def Let_def algebra_simps)
next
  case (3 w d buf n pos)
  define off where "off = region_start d + pos"
  have wr: "mem_disk_write w d pos buf = (Ok (), overwrite w (off * BLOCK_SIZE) buf)"
    and l: "off * BLOCK_SIZE + length buf \<le> length w"
    using mem_disk_write_valid [OF 3(1,2)] 3(3) by (simp_all add: off_def)
  note b = mem_disk_blk_overwrite [of off n w buf]
  show ?case
  proof (intro exI conjI allI impI)
    show "bs_write mem_disk_ops w d pos buf = (Ok (), overwrite w (off * BLOCK_SIZE) buf)" using wr by simp
  next
    fix d' assume "mem_disk_valid w d'"
    then show "mem_disk_valid (overwrite w (off * BLOCK_SIZE) buf) d'" using l by (simp add: mem_disk_valid_def)
  next
    fix i assume "i < bs_nblocks mem_disk_ops d"
    then show "mem_disk_blk (overwrite w (off * BLOCK_SIZE) buf) d i =
        (if pos \<le> i \<and> i < pos + n then slice ((i - pos) * BLOCK_SIZE) (Suc (i - pos) * BLOCK_SIZE) buf
         else mem_disk_blk w d i)"
      using b [of d i] l 3(2) by (simp add: off_def)
  next
    fix d' i assume s: "mem_disk_sep d d'" "mem_disk_valid w d'" "i < bs_nblocks mem_disk_ops d'"
    then have "\<not> (off \<le> region_start d' + i \<and> region_start d' + i < off + n)"
      using 3(3) by (auto simp: mem_disk_sep_def off_def mem_disk_nblocks_def)
    then show "mem_disk_blk (overwrite w (off * BLOCK_SIZE) buf) d' i = mem_disk_blk w d' i"
      using b [of d' i] l 3(2) by auto
  qed
next
  case (4 w d)
  then show ?case by (auto simp: mem_disk_flush_def)
next
  case (5 w d a b)
  have "(region_start d + b) * BLOCK_SIZE \<le> region_end d * BLOCK_SIZE"
    using 5 by (intro mult_le_mono1) (auto simp: mem_disk_nblocks_def mem_disk_valid_def)
  then show ?case using 5
    by (auto simp: mem_disk_subset_def mem_disk_nblocks_def mem_disk_valid_def mem_disk_blk_def add.assoc)
next
  case (6 w d a b d1 c d2)
  then show ?case by (auto simp: mem_disk_subset_def mem_disk_sep_def split: if_splits)
qed


section \<open>Properties of MemDisk\<close>

text \<open>The bytes of a handle as one string.\<close>

definition mem_disk_content :: "bytes \<Rightarrow> mem_disk \<Rightarrow> bytes" where
  "mem_disk_content w d = slice (region_start d * BLOCK_SIZE) (region_end d * BLOCK_SIZE) w"

lemma md_content:
  assumes "mem_disk_valid w d" shows "md.content w d = mem_disk_content w d"
proof (rule md.content_eqI [OF assms])
  have v: "region_start d * BLOCK_SIZE \<le> region_end d * BLOCK_SIZE" "region_end d * BLOCK_SIZE \<le> length w"
    using assms by (simp_all add: mem_disk_valid_def)
  then show "length (mem_disk_content w d) = bs_nblocks mem_disk_ops d * BLOCK_SIZE"
    by (simp add: mem_disk_content_def mem_disk_nblocks_def diff_mult_distrib)
  fix i assume i: "i < bs_nblocks mem_disk_ops d"
  have "Suc i * BLOCK_SIZE \<le> (region_end d - region_start d) * BLOCK_SIZE"
    using i by (intro mult_le_mono1) (simp add: mem_disk_nblocks_def)
  then have "Suc i * BLOCK_SIZE \<le> region_end d * BLOCK_SIZE - region_start d * BLOCK_SIZE"
    by (simp add: diff_mult_distrib)
  then show "slice (i * BLOCK_SIZE) (Suc i * BLOCK_SIZE) (mem_disk_content w d) = mem_disk_blk w d i"
    unfolding mem_disk_content_def mem_disk_blk_def by (simp add: slice_slice algebra_simps)
qed

lemma mem_disk_create_valid:
  "0 < n \<Longrightarrow> mem_disk_create mem n = Ok (d, w) \<Longrightarrow> mem_disk_valid w d \<and> mem_disk_nblocks d = n"
  by (auto simp: mem_disk_create_def mem_disk_valid_def mem_disk_nblocks_def)


text \<open>C13: Writing blocks through a handle of a \<open>MemDisk\<close> that is backed by its storage succeeds;
  reading them back gives the written bytes, blocks of the handle outside the written range
  read as before, and no byte of a handle with a disjoint region changes.\<close>

theorem mem_disk_write_read_back:
  assumes v: "mem_disk_valid w d" and len: "length buf = n * BLOCK_SIZE" "0 < n"
    and r: "pos + n \<le> mem_disk_nblocks d"
  shows "\<exists>w'. mem_disk_write w d pos buf = (Ok (), w') \<and> mem_disk_valid w' d \<and>
    mem_disk_read w' d pos n = Ok buf \<and>
    (\<forall>p m. p + m \<le> mem_disk_nblocks d \<longrightarrow> p + m \<le> pos \<or> pos + n \<le> p \<longrightarrow>
       mem_disk_read w' d p m = mem_disk_read w d p m) \<and>
    (\<forall>d'. mem_disk_valid w d' \<longrightarrow> mem_disk_sep d d' \<longrightarrow> mem_disk_content w' d' = mem_disk_content w d')"
proof -
  obtain w' where w': "mem_disk_write w d pos buf = (Ok (), w')"
    "\<forall>d'. mem_disk_valid w d' \<longrightarrow> mem_disk_valid w' d'"
    "md.content w' d = overwrite (md.content w d) (pos * BLOCK_SIZE) buf"
    "\<forall>d'. mem_disk_sep d d' \<longrightarrow> mem_disk_valid w d' \<longrightarrow> md.content w' d' = md.content w d'"
    using md.write_content [of w d buf n pos] v len r by auto
  have v': "mem_disk_valid w' d" using w'(2) v by blast
  have fits: "pos * BLOCK_SIZE + length buf \<le> length (md.content w d)"
    using md.length_content [OF v] len r by simp
  have "mem_disk_read w' d pos n = Ok buf"
    using md.read_content [OF v', of pos n] r fits len w'(3)
    by (simp add: slice_overwrite_inside algebra_simps) (simp add: slice_def)
  moreover have "mem_disk_read w' d p m = mem_disk_read w d p m"
    if "p + m \<le> mem_disk_nblocks d" "p + m \<le> pos \<or> pos + n \<le> p" for p m
  proof -
    have "(p + m) * BLOCK_SIZE \<le> pos * BLOCK_SIZE \<or> pos * BLOCK_SIZE + length buf \<le> p * BLOCK_SIZE"
      using that len by auto
    then have "slice (p * BLOCK_SIZE) ((p + m) * BLOCK_SIZE) (md.content w' d) =
        slice (p * BLOCK_SIZE) ((p + m) * BLOCK_SIZE) (md.content w d)"
      unfolding w'(3) by (rule slice_overwrite_disjoint [OF fits])
    then show ?thesis
      using md.read_content [OF v', of p m] md.read_content [OF v, of p m] that by simp
  qed
  ultimately show ?thesis using w' v' md_content by auto
qed

theorem mem_disk_write_read_back_witness:
  "\<exists>w'. mem_disk_write (zeros 8192) \<lparr>region_start = 0, region_end = 2\<rparr> 1 (replicate 4096 7) = (Ok (), w') \<and>
    mem_disk_read w' \<lparr>region_start = 0, region_end = 2\<rparr> 1 1 = Ok (replicate 4096 7)"
  using mem_disk_write_read_back [of "zeros 8192" "\<lparr>region_start = 0, region_end = 2\<rparr>"
      "replicate 4096 7" 1 1]
  by (auto simp: mem_disk_valid_def mem_disk_nblocks_def)

text \<open>C14: \<open>write_slice\<close> on a \<open>MemDisk\<close> stores the bytes at the offset and \<open>read_slice\<close> returns them,
  for every offset and length inside the disk whose end is block aligned or is followed by
  one more block; bytes before the slice and from the end of its last block on are kept.\<close>

theorem mem_disk_write_slice_read_slice:
  assumes v: "mem_disk_valid w d" and r: "offset + length buf \<le> mem_disk_nblocks d * BLOCK_SIZE" "buf \<noteq> []"
    and e: "(offset + length buf) mod BLOCK_SIZE = 0 \<or> end_block offset (length buf) < mem_disk_nblocks d"
  shows "\<exists>w'. write_slice mem_disk_ops mem w d offset buf = (Ok (), w') \<and>
    read_slice mem_disk_ops mem w' d offset (length buf) = Ok buf \<and>
    take offset (mem_disk_content w' d) = take offset (mem_disk_content w d) \<and>
    drop (end_block offset (length buf) * BLOCK_SIZE) (mem_disk_content w' d) =
      drop (end_block offset (length buf) * BLOCK_SIZE) (mem_disk_content w d)"
proof -
  obtain w' where w': "write_slice mem_disk_ops mem w d offset buf = (Ok (), w')" "mem_disk_valid w' d"
    "md.content w' d = overwrite (md.content w d) offset (buf @ md.slice_tail w d offset (length buf))"
    using md.write_slice_content [of w d offset buf mem] assms by auto
  have rd: "read_slice mem_disk_ops mem w' d offset (length buf) = Ok buf"
    using md.write_slice_read_slice [of w d offset buf mem] assms w'(1) by auto
  have t: "offset + length buf + length (md.slice_tail w d offset (length buf)) =
      end_block offset (length buf) * BLOCK_SIZE"
    using md.length_slice_tail [of w d offset "length buf"] assms by simp
  have c: "md.content w' d = mem_disk_content w' d" "md.content w d = mem_disk_content w d"
    using md_content w'(2) v by blast+
  have l: "offset \<le> length (mem_disk_content w d)" using md.length_content [OF v] r c by simp
  have "take offset (mem_disk_content w' d) = take offset (mem_disk_content w d)"
    "drop (end_block offset (length buf) * BLOCK_SIZE) (mem_disk_content w' d) =
      drop (end_block offset (length buf) * BLOCK_SIZE) (mem_disk_content w d)"
    using w'(3) t l unfolding c overwrite_def t [symmetric] by (simp_all add: add.assoc)
  with w'(1) rd show ?thesis by blast
qed

theorem mem_disk_write_slice_read_slice_witness:
  "\<exists>w'. write_slice mem_disk_ops (\<lambda>_. 0) (zeros 12288) \<lparr>region_start = 0, region_end = 3\<rparr> 4090
      (replicate 8 5) = (Ok (), w') \<and>
    read_slice mem_disk_ops (\<lambda>_. 0) w' \<lparr>region_start = 0, region_end = 3\<rparr> 4090 8 = Ok (replicate 8 5)"
  using mem_disk_write_slice_read_slice [of "zeros 12288" "\<lparr>region_start = 0, region_end = 3\<rparr>" 4090
      "replicate 8 5" "\<lambda>_. 0"]
  by (auto simp: mem_disk_valid_def mem_disk_nblocks_def end_block_def)


text \<open>On a \<open>MemDisk\<close> that starts at block 0, \<open>write_slice\<close> rejects every slice that ends
  inside the last block, although the bytes lie on the disk.\<close>

theorem write_slice_last_block_fails:
  assumes v: "mem_disk_valid w d" "region_start d = 0"
    and r: "offset + length buf < mem_disk_nblocks d * BLOCK_SIZE" "buf \<noteq> []"
    and e: "end_block offset (length buf) = mem_disk_nblocks d"
  shows "write_slice mem_disk_ops mem w d offset buf =
    (Err (error_with_msg InvalidArgs ''read position is out of range''), w)"
proof -
  have pos: "0 < length buf" using r(2) by simp
  have "(offset + length buf) mod BLOCK_SIZE \<noteq> 0"
    using multiple_between_eq [of "offset + length buf" "mem_disk_nblocks d" BLOCK_SIZE] r(1)
      md.end_block_bounds(4) [of offset "length buf" "mem_disk_nblocks d"] e pos by auto
  then have u: "(offset mod BLOCK_SIZE + length buf) mod BLOCK_SIZE \<noteq> 0" by (simp add: mod_add_left_eq)
  have "mem_disk_read w d (mem_disk_nblocks d) 1 = Err (error_with_msg InvalidArgs ''read position is out of range'')"
    using v by (simp add: mem_disk_read_def mem_disk_nblocks_def)
  then have "write_slice_blocks mem_disk_ops mem w d offset buf =
      Err (error_with_msg InvalidArgs ''read position is out of range'')"
    using md.write_slice_blocks_head [OF v(1), of offset buf mem] r u e by auto
  then show ?thesis using e by (simp add: write_slice_def)
qed

theorem write_slice_last_block_fails_witness:
  "write_slice mem_disk_ops (\<lambda>_. 0) (zeros 4096) \<lparr>region_start = 0, region_end = 1\<rparr> 0 (replicate 8 5) =
    (Err (error_with_msg InvalidArgs ''read position is out of range''), zeros 4096)"
  by (rule write_slice_last_block_fails)
    (simp_all add: mem_disk_valid_def mem_disk_nblocks_def end_block_def)

text \<open>C25: The bound of \<open>MemDisk::read\<close> is the end of the region counted from the start of the
  whole disk: a handle whose region does not start at block 0 reads the block behind its region.\<close>

theorem mem_disk_read_escapes_region:
  assumes "0 < region_start d" "region_start d \<le> region_end d" "Suc (region_end d) * BLOCK_SIZE \<le> length w"
  shows "mem_disk_read w d (mem_disk_nblocks d) 1 =
    Ok (slice (region_end d * BLOCK_SIZE) (Suc (region_end d) * BLOCK_SIZE) w)"
  using assms by (simp add: mem_disk_read_def mem_disk_nblocks_def Let_def algebra_simps)

theorem mem_disk_read_escapes_region_witness:
  "mem_disk_read (replicate 8192 1 @ replicate 4096 2) \<lparr>region_start = 1, region_end = 2\<rparr> 1 1 =
    Ok (replicate 4096 2)"
  using mem_disk_read_escapes_region [of "\<lparr>region_start = 1, region_end = 2\<rparr>"
      "replicate 8192 1 @ replicate 4096 2"]
  by (simp add: mem_disk_nblocks_def slice_append_right)

end
