(* ===== verification/Block_Log.thy ===== *)
theory Block_Log
  imports Block_Set
begin

text \<open>
  \<open>core/src/bio/block_log.rs\<close> and \<open>core/src/bio/block_ring.rs\<close>: append-only logs of blocks, in memory and
  as a ring over a block set.  The trait is a record of its methods over the state \<open>'l\<close> of a log;
  \<open>block_log\<close> is its contract, which both logs satisfy.
\<close>

section \<open>The trait\<close>

record 'l bl_ops =
  bl_read :: "'l \<Rightarrow> block_id \<Rightarrow> nat \<Rightarrow> bytes result"
  bl_append :: "bytes \<Rightarrow> 'l \<Rightarrow> block_id result \<times> 'l"
  bl_flush :: "'l \<Rightarrow> unit result \<times> 'l"
  bl_nblocks :: "'l \<Rightarrow> nat"

section \<open>MemLog\<close>

record mem_log =
  ml_log :: bytes
  ml_append_pos :: nat

definition mem_log_create :: "memory \<Rightarrow> nat \<Rightarrow> mem_log result" where
  "mem_log_create mem num_blocks =
     and_then (buf_alloc mem num_blocks) (\<lambda>log. Ok \<lparr>ml_log = log, ml_append_pos = 0\<rparr>)"

definition mem_log_offset :: "block_id \<Rightarrow> nat" where
  "mem_log_offset pos = pos * BLOCK_SIZE"

definition mem_log_nblocks :: "mem_log \<Rightarrow> nat" where
  "mem_log_nblocks l = ml_append_pos l"

definition mem_log_read :: "mem_log \<Rightarrow> block_id \<Rightarrow> nat \<Rightarrow> bytes result" where
  "mem_log_read l pos nblocks =
     (if pos + nblocks > mem_log_nblocks l
      then Err (error_with_msg InvalidArgs ''read range out of bound'')
      else get_slice (mem_log_offset pos) (mem_log_offset pos + nblocks * BLOCK_SIZE) (ml_log l))"

definition mem_log_append :: "bytes \<Rightarrow> mem_log \<Rightarrow> block_id result \<times> mem_log" where
  "mem_log_append buf l =
     (let nblocks = buf_ref_nblocks buf; pos = ml_append_pos l in
      if pos + nblocks > buf_ref_nblocks (ml_log l)
      then (Err (error_with_msg InvalidArgs ''append range out of bound''), l)
      else if length buf \<noteq> nblocks * BLOCK_SIZE then (Panic, l)
      else then_do (put_slice (ml_log l) (mem_log_offset pos) buf, l) (\<lambda>log l.
           (Ok pos, l\<lparr>ml_log := log, ml_append_pos := pos + nblocks\<rparr>)))"

definition mem_log_flush :: "mem_log \<Rightarrow> unit result \<times> mem_log" where
  "mem_log_flush l = (Ok (), l)"

definition mem_log_ops :: "mem_log bl_ops" where
  "mem_log_ops = \<lparr>bl_read = mem_log_read, bl_append = mem_log_append, bl_flush = mem_log_flush,
     bl_nblocks = mem_log_nblocks\<rparr>"

section \<open>BlockRing\<close>

record 'd block_ring =
  rg_storage :: 'd
  rg_cursor :: "block_id option"

definition ring_new :: "'d \<Rightarrow> 'd block_ring" where
  "ring_new storage = \<lparr>rg_storage = storage, rg_cursor = None\<rparr>"

definition ring_set_cursor :: "block_id \<Rightarrow> 'd block_ring \<Rightarrow> 'd block_ring" where
  "ring_set_cursor new_cursor r = r\<lparr>rg_cursor := Some new_cursor\<rparr>"

definition ring_read :: "('s, 'd) bs_ops \<Rightarrow> 's \<times> 'd block_ring \<Rightarrow> block_id \<Rightarrow> nat \<Rightarrow> bytes result" where
  "ring_read B = (\<lambda>(w, r) pos n.
     if bs_nblocks B (rg_storage r) = 0 then Panic
     else bs_read B w (rg_storage r) (pos mod bs_nblocks B (rg_storage r)) n)"

definition ring_append ::
  "('s, 'd) bs_ops \<Rightarrow> bytes \<Rightarrow> 's \<times> 'd block_ring \<Rightarrow> block_id result \<times> 's \<times> 'd block_ring"
where
  "ring_append B buf = (\<lambda>(w, r). case rg_cursor r of
     None \<Rightarrow> (Panic, w, r)
   | Some cursor \<Rightarrow>
       if bs_nblocks B (rg_storage r) = 0 then (Panic, w, r)
       else let pos = cursor mod bs_nblocks B (rg_storage r);
                new_cursor = cursor + buf_ref_nblocks buf
            in (case bs_write B w (rg_storage r) pos buf of (res, w) \<Rightarrow>
                then_do (res, w, r) (\<lambda>_ (w, r). (Ok cursor, w, ring_set_cursor new_cursor r))))"

definition ring_flush :: "('s, 'd) bs_ops \<Rightarrow> 's \<times> 'd block_ring \<Rightarrow> unit result \<times> 's \<times> 'd block_ring" where
  "ring_flush B = (\<lambda>(w, r). case bs_flush B w (rg_storage r) of (res, w) \<Rightarrow> (res, w, r))"

definition ring_nblocks :: "'s \<times> 'd block_ring \<Rightarrow> nat" where
  "ring_nblocks = (\<lambda>(w, r). case rg_cursor r of Some cursor \<Rightarrow> cursor | None \<Rightarrow> 0)"

definition ring_ops :: "('s, 'd) bs_ops \<Rightarrow> ('s \<times> 'd block_ring) bl_ops" where
  "ring_ops B = \<lparr>bl_read = ring_read B, bl_append = ring_append B, bl_flush = ring_flush B, bl_nblocks = ring_nblocks\<rparr>"

text \<open>Appending buffers one by one.\<close>

primrec log_append_all :: "'l bl_ops \<Rightarrow> bytes list \<Rightarrow> 'l \<Rightarrow> unit result \<times> 'l" where
  "log_append_all L [] l = (Ok (), l)"
| "log_append_all L (b # bs) l = then_do (bl_append L b l) (\<lambda>_ l. log_append_all L bs l)"

section \<open>The contract\<close>

text \<open>
  \<open>block l p\<close> is the block at position \<open>p\<close> of the log, kept from \<open>oldest l\<close> on.  \<open>range_ok l p n\<close>: the
  storage can hold the blocks from \<open>p\<close> to \<open>p + n\<close> in one piece.
\<close>

locale block_log =
  fixes L :: "'l bl_ops"
    and inv :: "'l \<Rightarrow> bool"
    and block :: "'l \<Rightarrow> block_id \<Rightarrow> bytes"
    and oldest :: "'l \<Rightarrow> block_id"
    and range_ok :: "'l \<Rightarrow> block_id \<Rightarrow> nat \<Rightarrow> bool"
  assumes log_read: "inv l \<Longrightarrow> oldest l \<le> pos \<Longrightarrow> pos + n \<le> bl_nblocks L l \<Longrightarrow> range_ok l pos n \<Longrightarrow>
      bl_read L l pos n = Ok (concat (map (block l) [pos..<pos + n]))"
    and log_append: "inv l \<Longrightarrow> length buf = n * BLOCK_SIZE \<Longrightarrow> range_ok l (bl_nblocks L l) n \<Longrightarrow>
      \<exists>l'. bl_append L buf l = (Ok (bl_nblocks L l), l') \<and> inv l' \<and> bl_nblocks L l' = bl_nblocks L l + n \<and>
        oldest l \<le> oldest l' \<and> range_ok l' = range_ok l \<and>
        (\<forall>p. oldest l' \<le> p \<longrightarrow> p < bl_nblocks L l \<longrightarrow> block l' p = block l p) \<and>
        (\<forall>i < n. oldest l' \<le> bl_nblocks L l + i \<longrightarrow>
           block l' (bl_nblocks L l + i) = slice (i * BLOCK_SIZE) (Suc i * BLOCK_SIZE) buf)"
    and log_flush: "inv l \<Longrightarrow> \<exists>l'. bl_flush L l = (Ok (), l') \<and> inv l' \<and> bl_nblocks L l' = bl_nblocks L l \<and>
        oldest l' = oldest l \<and> range_ok l' = range_ok l \<and> (\<forall>p. oldest l \<le> p \<longrightarrow> p < bl_nblocks L l \<longrightarrow> block l' p = block l p)"
begin

lemma append_all_Ok:
  assumes "inv l" "\<forall>b\<in>set bs. length b = BLOCK_SIZE" "\<forall>i < length bs. range_ok l (bl_nblocks L l + i) 1"
  shows "\<exists>l'. log_append_all L bs l = (Ok (), l') \<and> inv l' \<and> bl_nblocks L l' = bl_nblocks L l + length bs \<and>
    oldest l \<le> oldest l' \<and> range_ok l' = range_ok l \<and>
    (\<forall>p. oldest l' \<le> p \<longrightarrow> p < bl_nblocks L l \<longrightarrow> block l' p = block l p) \<and>
    (\<forall>i < length bs. oldest l' \<le> bl_nblocks L l + i \<longrightarrow> block l' (bl_nblocks L l + i) = bs ! i)"
  using assms
proof (induction bs arbitrary: l)
  case (Cons b bs)
  have b: "length b = 1 * BLOCK_SIZE" "range_ok l (bl_nblocks L l) 1" using Cons.prems by auto
  obtain l1 where l1: "bl_append L b l = (Ok (bl_nblocks L l), l1)" "inv l1" "bl_nblocks L l1 = bl_nblocks L l + 1"
    "oldest l \<le> oldest l1" "range_ok l1 = range_ok l" "\<forall>p. oldest l1 \<le> p \<longrightarrow> p < bl_nblocks L l \<longrightarrow> block l1 p = block l p"
    "oldest l1 \<le> bl_nblocks L l \<Longrightarrow> block l1 (bl_nblocks L l) = slice 0 BLOCK_SIZE b"
    using log_append [OF Cons.prems(1) b] by auto
  have "\<forall>i < length bs. range_ok l1 (bl_nblocks L l1 + i) 1" using Cons.prems(3) l1(3,5) by fastforce
  then obtain l2 where l2: "log_append_all L bs l1 = (Ok (), l2)" "inv l2" "bl_nblocks L l2 = bl_nblocks L l1 + length bs"
    "oldest l1 \<le> oldest l2" "range_ok l2 = range_ok l1" "\<forall>p. oldest l2 \<le> p \<longrightarrow> p < bl_nblocks L l1 \<longrightarrow> block l2 p = block l1 p"
    "\<forall>i < length bs. oldest l2 \<le> bl_nblocks L l1 + i \<longrightarrow> block l2 (bl_nblocks L l1 + i) = bs ! i"
    using Cons.IH [OF l1(2)] Cons.prems(2) by auto
  have "block l2 p = block l p" if "oldest l2 \<le> p" "p < bl_nblocks L l" for p
    using l2(4,6) l1(3,6) that by simp
  moreover have "block l2 (bl_nblocks L l + i) = (b # bs) ! i" if "i < Suc (length bs)" "oldest l2 \<le> bl_nblocks L l + i" for i
  proof (cases i)
    case 0
    then show ?thesis using l2(4,6) l1(3,7) that(2) Cons.prems(2) by (simp add: slice_def)
  next
    case (Suc j)
    then show ?thesis using l2(7) l1(3) that by simp
  qed
  ultimately show ?case using l1 l2 by simp
qed simp

lemma append_all_read:
  assumes l: "inv l" "\<forall>b\<in>set bs. length b = BLOCK_SIZE" "\<forall>i < length bs. range_ok l (bl_nblocks L l + i) 1"
  shows "\<exists>l'. log_append_all L bs l = (Ok (), l') \<and> inv l' \<and> bl_nblocks L l' = bl_nblocks L l + length bs \<and>
    range_ok l' = range_ok l \<and>
    (\<forall>i < length bs. oldest l' \<le> bl_nblocks L l + i \<longrightarrow> bl_read L l' (bl_nblocks L l + i) 1 = Ok (bs ! i))"
proof -
  obtain l' where l': "log_append_all L bs l = (Ok (), l')" "inv l'" "bl_nblocks L l' = bl_nblocks L l + length bs" "range_ok l' = range_ok l"
    "\<forall>i < length bs. oldest l' \<le> bl_nblocks L l + i \<longrightarrow> block l' (bl_nblocks L l + i) = bs ! i"
    using append_all_Ok [OF l] by blast
  have "bl_read L l' (bl_nblocks L l + i) 1 = Ok (bs ! i)" if "i < length bs" "oldest l' \<le> bl_nblocks L l + i" for i
    using log_read [OF l'(2) that(2), of 1] l'(3-5) l(3) that by simp
  then show ?thesis using l' by blast
qed

end

section \<open>MemLog satisfies the contract\<close>

definition mem_log_inv :: "mem_log \<Rightarrow> bool" where
  "mem_log_inv l \<longleftrightarrow> ml_append_pos l * BLOCK_SIZE \<le> length (ml_log l) \<and> length (ml_log l) mod BLOCK_SIZE = 0"

definition mem_log_block :: "mem_log \<Rightarrow> block_id \<Rightarrow> bytes" where
  "mem_log_block l p = slice (p * BLOCK_SIZE) (Suc p * BLOCK_SIZE) (ml_log l)"

definition mem_log_range :: "mem_log \<Rightarrow> block_id \<Rightarrow> nat \<Rightarrow> bool" where
  "mem_log_range l p n \<longleftrightarrow> p + n \<le> buf_ref_nblocks (ml_log l)"

lemma mem_log_append_Ok:
  assumes l: "mem_log_inv l" and buf: "length buf = n * BLOCK_SIZE" and r: "mem_log_range l (ml_append_pos l) n"
  shows "mem_log_append buf l = (Ok (ml_append_pos l),
      l\<lparr>ml_log := overwrite (ml_log l) (ml_append_pos l * BLOCK_SIZE) buf, ml_append_pos := ml_append_pos l + n\<rparr>)"
    "(ml_append_pos l + n) * BLOCK_SIZE \<le> length (ml_log l)"
proof -
  have "buf_ref_nblocks (ml_log l) * BLOCK_SIZE = length (ml_log l)"
    using l by (simp add: mem_log_inv_def buf_ref_nblocks_def mod_eq_0_iff_dvd)
  moreover have "(ml_append_pos l + n) * BLOCK_SIZE \<le> buf_ref_nblocks (ml_log l) * BLOCK_SIZE"
    using r by (intro mult_le_mono1) (simp add: mem_log_range_def)
  ultimately show le: "(ml_append_pos l + n) * BLOCK_SIZE \<le> length (ml_log l)" by simp
  have "buf_ref_nblocks buf = n" using buf by (simp add: buf_ref_nblocks_def)
  then show "mem_log_append buf l = (Ok (ml_append_pos l),
      l\<lparr>ml_log := overwrite (ml_log l) (ml_append_pos l * BLOCK_SIZE) buf, ml_append_pos := ml_append_pos l + n\<rparr>)"
    using r buf le by (simp add: mem_log_append_def mem_log_offset_def mem_log_range_def Let_def)
qed

lemma overwrite_block:
  assumes "(p + n) * BLOCK_SIZE \<le> length xs" "length buf = n * BLOCK_SIZE"
  shows "slice (q * BLOCK_SIZE) (Suc q * BLOCK_SIZE) (overwrite xs (p * BLOCK_SIZE) buf) =
    (if p \<le> q \<and> q < p + n then slice ((q - p) * BLOCK_SIZE) (Suc (q - p) * BLOCK_SIZE) buf
     else slice (q * BLOCK_SIZE) (Suc q * BLOCK_SIZE) xs)"
proof (cases "p \<le> q \<and> q < p + n")
  case True
  then obtain i where q: "q = p + i" "i < n" by (metis add_less_cancel_left le_Suc_ex)
  have "Suc i * BLOCK_SIZE \<le> n * BLOCK_SIZE" using q(2) by (intro mult_le_mono1) simp
  then show ?thesis using True q assms slice_overwrite_inside [of "p * BLOCK_SIZE" buf xs "q * BLOCK_SIZE" "Suc q * BLOCK_SIZE"]
    by (simp add: algebra_simps)
next
  case False
  then have "Suc q \<le> p \<or> p + n \<le> q" by auto
  then have "Suc q * BLOCK_SIZE \<le> p * BLOCK_SIZE \<or> p * BLOCK_SIZE + length buf \<le> q * BLOCK_SIZE"
    using assms(2) mult_le_mono1 [of "Suc q" p BLOCK_SIZE] mult_le_mono1 [of "p + n" q BLOCK_SIZE] by (auto simp: algebra_simps)
  then show ?thesis using False assms by (subst slice_overwrite_disjoint) (auto simp: algebra_simps)
qed

interpretation ml: block_log mem_log_ops mem_log_inv mem_log_block "\<lambda>_. 0" mem_log_range
proof (unfold_locales, goal_cases)
  case (1 l pos n)
  have "(pos + n) * BLOCK_SIZE \<le> ml_append_pos l * BLOCK_SIZE"
    using 1 by (intro mult_le_mono1) (simp add: mem_log_ops_def mem_log_nblocks_def)
  then have le: "(pos + n) * BLOCK_SIZE \<le> length (ml_log l)" using 1 by (simp add: mem_log_inv_def)
  then show ?case using 1 concat_slices [of pos "pos + n" BLOCK_SIZE "ml_log l"]
    by (simp add: mem_log_ops_def mem_log_read_def mem_log_offset_def mem_log_block_def [abs_def] mem_log_nblocks_def algebra_simps)
next
  case (2 l buf n)
  let ?l = "l\<lparr>ml_log := overwrite (ml_log l) (ml_append_pos l * BLOCK_SIZE) buf, ml_append_pos := ml_append_pos l + n\<rparr>"
  have r: "mem_log_range l (ml_append_pos l) n" using 2(3) by (simp add: mem_log_ops_def mem_log_nblocks_def)
  note a = mem_log_append_Ok [OF 2(1,2) r]
  have len: "length (ml_log ?l) = length (ml_log l)" using a(2) 2(2) by (simp add: algebra_simps)
  then have "mem_log_inv ?l" "mem_log_range ?l = mem_log_range l"
    using 2(1) a(2) by (simp_all add: mem_log_inv_def mem_log_range_def fun_eq_iff buf_ref_nblocks_def)
  moreover have "mem_log_block ?l q = (if ml_append_pos l \<le> q \<and> q < ml_append_pos l + n
      then slice ((q - ml_append_pos l) * BLOCK_SIZE) (Suc (q - ml_append_pos l) * BLOCK_SIZE) buf else mem_log_block l q)" for q
    using overwrite_block [OF a(2) 2(2), of q] by (simp add: mem_log_block_def)
  ultimately show ?case using a(1) by (intro exI [of _ ?l]) (simp add: mem_log_ops_def mem_log_nblocks_def)
next
  case (3 l)
  then show ?case by (simp add: mem_log_ops_def mem_log_flush_def)
qed

section \<open>A ring over a block set satisfies the contract\<close>

context block_set
begin

definition ring_inv :: "'s \<times> 'd block_ring \<Rightarrow> bool" where
  "ring_inv l \<longleftrightarrow> valid (fst l) (rg_storage (snd l)) \<and> 0 < bs_nblocks B (rg_storage (snd l)) \<and> rg_cursor (snd l) \<noteq> None"

definition ring_block :: "'s \<times> 'd block_ring \<Rightarrow> block_id \<Rightarrow> bytes" where
  "ring_block l p = blk (fst l) (rg_storage (snd l)) (p mod bs_nblocks B (rg_storage (snd l)))"

definition ring_oldest :: "'s \<times> 'd block_ring \<Rightarrow> block_id" where
  "ring_oldest l = ring_nblocks l - bs_nblocks B (rg_storage (snd l))"

definition ring_range :: "'s \<times> 'd block_ring \<Rightarrow> block_id \<Rightarrow> nat \<Rightarrow> bool" where
  "ring_range l p n \<longleftrightarrow> p mod bs_nblocks B (rg_storage (snd l)) + n \<le> bs_nblocks B (rg_storage (snd l))"

end

lemma mod_add_inside: "c mod N + i < N \<Longrightarrow> (c + i) mod N = c mod N + (i::nat)"
  using mod_add_left_eq [of c N i] by simp

lemma mod_window_neq:
  fixes p c N n i :: nat
  assumes "c + n - N \<le> p" "p < c" "0 < N" "c mod N + n \<le> N"
  shows "\<not> (c mod N \<le> p mod N \<and> p mod N < c mod N + n)"
proof
  assume a: "c mod N \<le> p mod N \<and> p mod N < c mod N + n"
  obtain i where i: "p mod N = c mod N + i" "i < n" using a by (metis add_less_cancel_left le_Suc_ex)
  have "(c + i) mod N = c mod N + i" using i(2) assms(4) by (intro mod_add_inside) simp
  then have "p mod N = (c + i) mod N" using i(1) by simp
  moreover have "p < c + i" using assms(2) by simp
  ultimately have "N dvd c + i - p" by (metis less_imp_le mod_eq_dvd_iff_nat)
  then have "N \<le> c + i - p" using \<open>p < c + i\<close> by (intro dvd_imp_le) auto
  then show False using i(2) assms(1,2) by linarith
qed

sublocale block_set \<subseteq> ring: block_log "ring_ops B" ring_inv ring_block ring_oldest ring_range
proof (unfold_locales, goal_cases)
  case (1 l pos n)
  obtain w r c where l: "l = (w, r)" "rg_cursor r = Some c" using 1(1) by (cases l) (auto simp: ring_inv_def)
  let ?d = "rg_storage r" and ?N = "bs_nblocks B (rg_storage r)"
  have v: "valid w ?d" "0 < ?N" using 1(1) l by (auto simp: ring_inv_def)
  have "blk w ?d i = ring_block l (pos + (i - pos mod ?N))" if "pos mod ?N \<le> i" "i < pos mod ?N + n" for i
  proof -
    have "(pos + (i - pos mod ?N)) mod ?N = i"
      using that 1(4) l mod_add_inside [of pos ?N "i - pos mod ?N"] by (simp add: ring_range_def)
    then show ?thesis by (simp add: ring_block_def l)
  qed
  then have "map (blk w ?d) [pos mod ?N..<pos mod ?N + n] = map (ring_block l) [pos..<pos + n]"
    by (intro nth_equalityI) simp_all
  then show ?case using read_blocks [OF v(1), of "pos mod ?N" n] 1(4) v l by (simp add: ring_ops_def ring_read_def ring_range_def)
next
  case (2 l buf n)
  obtain w r c where l: "l = (w, r)" "rg_cursor r = Some c" using 2(1) by (cases l) (auto simp: ring_inv_def)
  let ?d = "rg_storage r" and ?N = "bs_nblocks B (rg_storage r)"
  have v: "valid w ?d" "0 < ?N" "c mod ?N + n \<le> ?N" using 2(1,3) l by (auto simp: ring_inv_def ring_range_def ring_ops_def ring_nblocks_def)
  obtain w' where w': "bs_write B w ?d (c mod ?N) buf = (Ok (), w')" "valid w' ?d"
    "\<forall>i < ?N. blk w' ?d i = (if c mod ?N \<le> i \<and> i < c mod ?N + n then slice ((i - c mod ?N) * BLOCK_SIZE) (Suc (i - c mod ?N) * BLOCK_SIZE) buf else blk w ?d i)"
    using write_blocks [OF v(1) 2(2) v(3)] v(1) by blast
  let ?l = "(w', r\<lparr>rg_cursor := Some (c + n)\<rparr>)"
  have a: "bl_append (ring_ops B) buf l = (Ok c, ?l)"
    using w'(1) v(2) l 2(2) by (simp add: ring_ops_def ring_append_def ring_set_cursor_def buf_ref_nblocks_def)
  have old: "ring_block ?l p = ring_block l p" if "c + n - ?N \<le> p" "p < c" for p
    using mod_window_neq [OF that v(2,3)] w'(3) v(2) by (auto simp: ring_block_def l)
  have new: "ring_block ?l (c + i) = slice (i * BLOCK_SIZE) (Suc i * BLOCK_SIZE) buf" if "i < n" for i
  proof -
    have "(c + i) mod ?N = c mod ?N + i" using that v by (intro mod_add_inside) simp
    then show ?thesis using w'(3) that v by (simp add: ring_block_def)
  qed
  show ?case
    using a old new w'(2) v(2) l
    by (intro exI [of _ ?l]) (simp add: ring_ops_def ring_nblocks_def ring_inv_def ring_oldest_def ring_range_def fun_eq_iff)
next
  case (3 l)
  obtain w r c where l: "l = (w, r)" "rg_cursor r = Some c" using 3(1) by (cases l) (auto simp: ring_inv_def)
  have v: "valid w (rg_storage r)" "0 < bs_nblocks B (rg_storage r)" using 3(1) l by (auto simp: ring_inv_def)
  obtain w' where w': "bs_flush B w (rg_storage r) = (Ok (), w')" "valid w' (rg_storage r)"
    "\<forall>i < bs_nblocks B (rg_storage r). blk w' (rg_storage r) i = blk w (rg_storage r) i"
    using flush_blocks [OF v(1)] v(1) by blast
  then show ?case using l v(2)
    by (intro exI [of _ "(w', r)"])
      (simp add: ring_ops_def ring_flush_def ring_inv_def ring_nblocks_def ring_oldest_def ring_range_def ring_block_def fun_eq_iff)
qed

section \<open>Properties\<close>

text \<open>C27: An in-memory log created with room for the blocks returns every block appended to it, at the position
  given by the order of the appends, however many appends follow.\<close>

theorem mem_log_append_read:
  assumes "mem_log_create mem cap = Ok l" "\<forall>b\<in>set bs. length b = BLOCK_SIZE" "length bs \<le> cap"
  shows "\<exists>l'. log_append_all mem_log_ops bs l = (Ok (), l') \<and> mem_log_nblocks l' = length bs \<and>
    (\<forall>i < length bs. mem_log_read l' i 1 = Ok (bs ! i))"
proof -
  have l: "0 < cap" "l = \<lparr>ml_log = map mem [0..<cap * BLOCK_SIZE], ml_append_pos = 0\<rparr>"
    using assms(1) by (cases "cap = 0"; simp add: mem_log_create_def)+
  have "mem_log_inv l" "\<forall>i < length bs. mem_log_range l (bl_nblocks mem_log_ops l + i) 1" "bl_nblocks mem_log_ops l = 0"
    using assms(3) by (auto simp: l mem_log_inv_def mem_log_range_def buf_ref_nblocks_def mem_log_ops_def mem_log_nblocks_def)
  from ml.append_all_read [OF this(1) assms(2) this(2)] this(3) show ?thesis
    by (auto simp: mem_log_ops_def)
qed

theorem mem_log_append_read_witness:
  "\<exists>l l'. mem_log_create (\<lambda>_. 0) 2 = Ok l \<and>
    log_append_all mem_log_ops [replicate BLOCK_SIZE 1, replicate BLOCK_SIZE 2] l = (Ok (), l') \<and>
    mem_log_read l' 1 1 = Ok (replicate BLOCK_SIZE 2)"
proof -
  obtain l where l: "mem_log_create (\<lambda>_. 0) 2 = Ok l" by (simp add: mem_log_create_def)
  from mem_log_append_read [OF this, of "[replicate BLOCK_SIZE 1, replicate BLOCK_SIZE 2]"]
  obtain l' where "log_append_all mem_log_ops [replicate BLOCK_SIZE 1, replicate BLOCK_SIZE 2] l = (Ok (), l')"
    "\<forall>i < 2. mem_log_read l' i 1 = Ok ([replicate BLOCK_SIZE 1, replicate BLOCK_SIZE 2] ! i)"
    by (auto simp: numeral_2_eq_2)
  then show ?thesis using l by fastforce
qed



text \<open>An append that does not fit between the cursor's place in the ring and the end of the storage is refused
  with \<open>InvalidArgs\<close>, and neither the storage nor the cursor moves: the ring is an infinite log only for
  appends that divide it.\<close>

theorem ring_append_across_end_fails:
  assumes "region_start d = 0" "rg_storage r = d" "rg_cursor r = Some c" "0 < mem_disk_nblocks d"
    "mem_disk_nblocks d < c mod mem_disk_nblocks d + buf_ref_nblocks buf"
  shows "ring_append mem_disk_ops buf (w, r) =
    (Err (error_with_msg InvalidArgs ''write position is out of range''), w, r)"
  using assms by (simp add: ring_append_def mem_disk_write_def mem_disk_nblocks_def Let_def)

theorem ring_append_across_end_fails_witness:
  "ring_append mem_disk_ops (replicate 8192 7) (zeros 8192, ring_set_cursor 1 (ring_new \<lparr>region_start = 0, region_end = 2\<rparr>)) =
    (Err (error_with_msg InvalidArgs ''write position is out of range''), zeros 8192,
     ring_set_cursor 1 (ring_new \<lparr>region_start = 0, region_end = 2\<rparr>))"
  by (rule ring_append_across_end_fails [where d = "\<lparr>region_start = 0, region_end = 2\<rparr>" and c = 1])
    (simp_all add: ring_set_cursor_def ring_new_def mem_disk_nblocks_def buf_ref_nblocks_def)

end
