(* ===== verification/Node_Layout.thy ===== *)
theory Node_Layout
  imports Errors
begin

text \<open>
  The numbering of the nodes of a protected file: \<open>get_node_numbers\<close> and its users in
  \<open>core/src/pfs/sys/file/node.rs\<close> and \<open>core/src/pfs/sys/host/mod.rs\<close>, with the constants of
  \<open>node.rs\<close> and \<open>metadata.rs\<close>.  Physical node 0 is the metadata node, node 1 the root of the
  Merkle hash tree (MHT); each MHT node is followed by the 96 data nodes attached to it.
  Arithmetic that underflows panics.
\<close>

abbreviation NODE_SIZE :: nat where "NODE_SIZE \<equiv> 4096"
abbreviation (input) ROOT_MHT_PHY_NUM :: nat where "ROOT_MHT_PHY_NUM \<equiv> 1"
abbreviation (input) META_DATA_PHY_NUM :: nat where "META_DATA_PHY_NUM \<equiv> 0"
abbreviation MD_USER_DATA_SIZE :: nat where "MD_USER_DATA_SIZE \<equiv> 3072"
abbreviation ATTACHED_DATA_NODES_COUNT :: nat where "ATTACHED_DATA_NODES_COUNT \<equiv> 96"
abbreviation CHILD_MHT_NODES_COUNT :: nat where "CHILD_MHT_NODES_COUNT \<equiv> 32"

section \<open>Definitions\<close>

definition get_node_numbers :: "nat \<Rightarrow> nat \<times> nat \<times> nat \<times> nat" where
  "get_node_numbers offset =
     (if offset < MD_USER_DATA_SIZE then (0, 0, 0, 0)
      else let data_logic_number = (offset - MD_USER_DATA_SIZE) div NODE_SIZE;
               mht_logic_number = data_logic_number div ATTACHED_DATA_NODES_COUNT;
               data_physical_number = data_logic_number + 1 + 1 + mht_logic_number;
               mht_physical_number =
                 data_physical_number - data_logic_number mod ATTACHED_DATA_NODES_COUNT - 1
           in (mht_logic_number, data_logic_number, mht_physical_number, data_physical_number))"

definition get_data_node_numbers :: "nat \<Rightarrow> nat \<times> nat" where
  "get_data_node_numbers offset =
     (case get_node_numbers offset of (_, logic, _, physical) \<Rightarrow> (logic, physical))"

definition get_mht_node_numbers :: "nat \<Rightarrow> nat \<times> nat" where
  "get_mht_node_numbers offset =
     (case get_node_numbers offset of (logic, _, physical, _) \<Rightarrow> (logic, physical))"

definition is_data_node :: "nat \<Rightarrow> bool" where
  "is_data_node physical_number =
     (if physical_number = 0 then False
      else (physical_number - 1) mod (ATTACHED_DATA_NODES_COUNT + 1) \<noteq> 0)"

definition is_mht_node :: "nat \<Rightarrow> bool" where
  "is_mht_node physical_number =
     (if physical_number \<le> 1 then True
      else (physical_number - 1) mod (ATTACHED_DATA_NODES_COUNT + 1) = 0)"

definition calculate_mht_logical_number :: "nat \<Rightarrow> nat result" where
  "calculate_mht_logical_number physical_number =
     (if physical_number < 2 then Panic
      else Ok ((physical_number - 2) div (ATTACHED_DATA_NODES_COUNT + 1)))"

definition calculate_data_logical_number :: "nat \<Rightarrow> nat result" where
  "calculate_data_logical_number physical_number =
     (if physical_number < 2 then Panic
      else let mht_logic_number = (physical_number - 2) div (ATTACHED_DATA_NODES_COUNT + 1)
           in Ok (physical_number - 2 - mht_logic_number))"

definition mht_physical_number :: "nat \<Rightarrow> nat" where
  "mht_physical_number logic_number = 1 + logic_number * (ATTACHED_DATA_NODES_COUNT + 1)"

text \<open>The physical number of a data node and the logic number of its parent.\<close>

definition data_phys :: "nat \<Rightarrow> nat" where
  "data_phys l = l + 2 + l div ATTACHED_DATA_NODES_COUNT"

definition data_logic :: "nat \<Rightarrow> nat" where
  "data_logic offset = (offset - MD_USER_DATA_SIZE) div NODE_SIZE"

definition mht_parent :: "nat \<Rightarrow> nat" where
  "mht_parent m = (m - 1) div CHILD_MHT_NODES_COUNT"

section \<open>Lemmas\<close>

lemma data_phys_split: "data_phys l = 97 * (l div 96) + l mod 96 + 2"
  by (simp add: data_phys_def)

lemma group_unique:
  fixes q q' :: nat
  assumes "97 * q + r = 97 * q' + r'" "r < 97" "r' < 97"
  shows "q = q' \<and> r = r'"
proof -
  have "(97 * q + r) div 97 = q" "(97 * q' + r') div 97 = q'" using assms(2,3) by simp_all
  then show ?thesis using assms(1) by simp
qed

lemma get_node_numbers_eq:
  assumes "MD_USER_DATA_SIZE \<le> offset"
  shows "get_node_numbers offset =
    (data_logic offset div 96, data_logic offset, mht_physical_number (data_logic offset div 96),
     data_phys (data_logic offset))"
proof -
  define l where "l = data_logic offset"
  have "l + 1 + 1 + l div 96 - l mod 96 - 1 = mht_physical_number (l div 96)"
  proof -
    define q r where "q = l div 96" and "r = l mod 96"
    have "l = 96 * q + r" by (simp add: q_def r_def)
    then have "l + 1 + 1 + q - r - 1 = 1 + q * 97" by simp
    then show ?thesis by (simp add: mht_physical_number_def flip: q_def r_def)
  qed
  then show ?thesis
    using assms by (simp add: get_node_numbers_def Let_def data_phys_def flip: l_def data_logic_def)
qed

lemma get_data_node_numbers_eq [simp]:
  "MD_USER_DATA_SIZE \<le> offset \<Longrightarrow>
    get_data_node_numbers offset = (data_logic offset, data_phys (data_logic offset))"
  by (simp add: get_data_node_numbers_def get_node_numbers_eq)

lemma get_mht_node_numbers_eq [simp]:
  "MD_USER_DATA_SIZE \<le> offset \<Longrightarrow> get_mht_node_numbers offset =
    (data_logic offset div 96, mht_physical_number (data_logic offset div 96))"
  by (simp add: get_mht_node_numbers_def get_node_numbers_eq)

lemma mht_physical_number_inj [simp]: "mht_physical_number m = mht_physical_number n \<longleftrightarrow> m = n"
  by (simp add: mht_physical_number_def)

lemma data_phys_inj [simp]: "data_phys l = data_phys k \<longleftrightarrow> l = k"
proof
  assume "data_phys l = data_phys k"
  then have "97 * (l div 96) + l mod 96 = 97 * (k div 96) + k mod 96" by (simp add: data_phys_split)
  then have "l div 96 = k div 96 \<and> l mod 96 = k mod 96" by (rule group_unique) simp_all
  then show "l = k" by (metis div_mult_mod_eq)
qed simp

lemma data_phys_neq_mht [simp]:
  "data_phys l \<noteq> mht_physical_number m" "mht_physical_number m \<noteq> data_phys l"
proof -
  have "97 * (l div 96) + (l mod 96 + 1) \<noteq> 97 * m + 0"
  proof
    assume "97 * (l div 96) + (l mod 96 + 1) = 97 * m + 0"
    then have "l mod 96 + 1 = 0" using group_unique [of "l div 96" "l mod 96 + 1" m 0] by simp
    then show False by simp
  qed
  then show "data_phys l \<noteq> mht_physical_number m" "mht_physical_number m \<noteq> data_phys l"
    by (auto simp: data_phys_split mht_physical_number_def)
qed

lemma mht_physical_number_0 [simp]: "mht_physical_number 0 = 1"
  by (simp add: mht_physical_number_def)

lemma phys_pos [simp]: "0 < data_phys l" "0 < mht_physical_number m" "1 < data_phys l"
  by (simp_all add: data_phys_def mht_physical_number_def)

lemma data_phys_neq_0 [simp]: "data_phys l \<noteq> 0" "data_phys l \<noteq> Suc 0" "mht_physical_number m \<noteq> 0"
  by (simp_all add: data_phys_def mht_physical_number_def)

lemma mht_phys_eq_1 [simp]: "mht_physical_number m = Suc 0 \<longleftrightarrow> m = 0"
  by (simp add: mht_physical_number_def)

lemma mht_parent_less [simp]: "0 < m \<Longrightarrow> mht_parent m < m"
  by (simp add: mht_parent_def)

lemma is_data_node_data_phys [simp]: "is_data_node (data_phys l)"
proof -
  have "data_phys l - 1 = 97 * (l div 96) + (l mod 96 + 1)" by (simp add: data_phys_split)
  moreover have "(97 * (l div 96) + (l mod 96 + 1)) mod 97 = l mod 96 + 1"
    by (simp add: mod_mult_self4)
  ultimately show ?thesis by (simp add: is_data_node_def)
qed

lemma is_data_node_mht_phys [simp]: "\<not> is_data_node (mht_physical_number m)"
  by (simp add: is_data_node_def mht_physical_number_def)

lemma is_mht_node_iff: "is_mht_node p \<longleftrightarrow> \<not> is_data_node p"
  by (auto simp: is_mht_node_def is_data_node_def le_Suc_eq)

lemma calculate_data_phys [simp]:
  "calculate_mht_logical_number (data_phys l) = Ok (l div 96)"
  "calculate_data_logical_number (data_phys l) = Ok l"
proof -
  have d: "(data_phys l - 2) div 97 = l div 96"
    by (simp add: data_phys_split)
  then show "calculate_mht_logical_number (data_phys l) = Ok (l div 96)"
    by (simp add: calculate_mht_logical_number_def data_phys_def)
  show "calculate_data_logical_number (data_phys l) = Ok l"
    using d by (simp add: calculate_data_logical_number_def Let_def) (simp add: data_phys_def)
qed

text \<open>Every physical number from 1 on is the number of one data node or of one MHT node.\<close>

lemma phys_cases:
  assumes "0 < p"
  obtains l where "p = data_phys l" | m where "p = mht_physical_number m"
proof (cases "(p - 1) mod 97 = 0")
  case True
  then have "p = mht_physical_number ((p - 1) div 97)"
    using assms div_mult_mod_eq [of "p - 1" 97] by (simp add: mht_physical_number_def)
  then show thesis by (rule that(2))
next
  case False
  define l where "l = (p - 1) div 97 * 96 + ((p - 1) mod 97 - 1)"
  have r: "(p - 1) mod 97 - 1 < 96" by (simp add: less_diff_conv2 Suc_leI)
  have "l div 96 = (p - 1) div 97" "l mod 96 = (p - 1) mod 97 - 1"
    using r by (simp_all add: l_def div_add1_eq)
  then have "data_phys l = 97 * ((p - 1) div 97) + ((p - 1) mod 97 - 1) + 2"
    by (simp add: data_phys_split)
  also have "\<dots> = p" using False assms mult_div_mod_eq [of 97 "p - 1"] by linarith
  finally show thesis using that(1) by metis
qed

lemma data_phys_mono: "l \<le> k \<Longrightarrow> data_phys l \<le> data_phys k"
  by (simp add: data_phys_def add_mono div_le_mono)

lemma mht_phys_before_data: "mht_physical_number (l div 96) < data_phys l"
  by (simp add: mht_physical_number_def data_phys_split)

section \<open>Properties\<close>





text \<open>Physical node 1 is the root of the hash tree and not a data node, and the data nodes of
  the second group end at 194.\<close>

theorem root_is_not_data_node: "\<not> is_data_node 1 \<and> is_data_node 194 \<and> \<not> is_data_node 195"
  by (simp add: is_data_node_def)

end
