(* ===== verification/Os_Crypto.thy ===== *)
theory Os_Crypto
  imports Errors
begin

text \<open>
  The cryptographic wrappers of \<open>core/src/os/std/mod.rs\<close> (\<open>Aead\<close>, \<open>Skcipher\<close>, \<open>Rng\<close>).

  The OpenSSL functions they call are third-party code and a parameter, the record \<open>openssl\<close>;
  \<open>ossl_rand n len\<close> is the answer of the \<open>n\<close>-th call of \<open>rand_bytes\<close>.  \<open>aead_correct\<close> is what
  the callers rely on: AES-128-GCM encryption succeeds, keeps the length, yields a 16-byte tag,
  and decryption inverts it and accepts no other pair of ciphertext and tag.
\<close>

type_synonym key = bytes
type_synonym iv = bytes
type_synonym mac = bytes

record openssl =
  ossl_encrypt_aead :: "key \<Rightarrow> iv \<Rightarrow> bytes \<Rightarrow> bytes \<Rightarrow> (bytes \<times> mac) option"
  ossl_decrypt_aead :: "key \<Rightarrow> iv \<Rightarrow> bytes \<Rightarrow> bytes \<Rightarrow> mac \<Rightarrow> bytes option"
  ossl_encrypt :: "key \<Rightarrow> iv \<Rightarrow> bytes \<Rightarrow> bytes option"
  ossl_decrypt :: "key \<Rightarrow> iv \<Rightarrow> bytes \<Rightarrow> bytes option"
  ossl_rand :: "nat \<Rightarrow> nat \<Rightarrow> bytes option"

definition key_default :: key where
  "key_default = zeros 16"

definition mac_default :: mac where
  "mac_default = zeros 16"

definition iv_zeroed :: iv where
  "iv_zeroed = zeros 12"

section \<open>The wrappers\<close>

text \<open>\<open>out_len\<close> is the length of the output slice the result is copied to.\<close>

definition aead_encrypt ::
  "openssl \<Rightarrow> bytes \<Rightarrow> key \<Rightarrow> iv \<Rightarrow> bytes \<Rightarrow> nat \<Rightarrow> (bytes \<times> mac) result"
where
  "aead_encrypt C input key iv aad out_len =
     and_then (ok_or (ossl_encrypt_aead C key iv aad input) (error_new EncryptFailed)) (\<lambda>(result, mac).
       if length result = out_len then Ok (result, mac) else Panic)"

definition aead_decrypt ::
  "openssl \<Rightarrow> bytes \<Rightarrow> key \<Rightarrow> iv \<Rightarrow> bytes \<Rightarrow> mac \<Rightarrow> nat \<Rightarrow> bytes result"
where
  "aead_decrypt C input key iv aad mac out_len =
     and_then (ok_or (ossl_decrypt_aead C key iv aad input mac) (error_new DecryptFailed)) (\<lambda>result.
       if length result = out_len then Ok result else Panic)"

definition skcipher_encrypt :: "openssl \<Rightarrow> bytes \<Rightarrow> key \<Rightarrow> iv \<Rightarrow> nat \<Rightarrow> bytes result" where
  "skcipher_encrypt C input key iv out_len =
     and_then (ok_or (ossl_encrypt C key iv input) (error_new EncryptFailed)) (\<lambda>result.
       if length result = out_len then Ok result else Panic)"

definition skcipher_decrypt :: "openssl \<Rightarrow> bytes \<Rightarrow> key \<Rightarrow> iv \<Rightarrow> nat \<Rightarrow> bytes result" where
  "skcipher_decrypt C input key iv out_len =
     and_then (ok_or (ossl_decrypt C key iv input) (error_new DecryptFailed)) (\<lambda>result.
       if length result = out_len then Ok result else Panic)"

text \<open>The random number generator: the state is the number of calls made so far.\<close>

definition rng_fill_bytes :: "openssl \<Rightarrow> nat \<Rightarrow> nat \<Rightarrow> bytes result \<times> nat" where
  "rng_fill_bytes C len n = (ok_or (ossl_rand C n len) (error_new OsSpecUnknown), Suc n)"

definition random_init :: "openssl \<Rightarrow> nat \<Rightarrow> nat \<Rightarrow> bytes \<times> nat" where
  "random_init C len n = (case rng_fill_bytes C len n of
     (Ok bs, n') \<Rightarrow> (bs, n') | (_, n') \<Rightarrow> (zeros len, n'))"

section \<open>What is assumed of OpenSSL\<close>

definition aead_correct :: "openssl \<Rightarrow> bool" where
  "aead_correct C \<longleftrightarrow>
     (\<forall>key iv aad pt. \<exists>ct mac. ossl_encrypt_aead C key iv aad pt = Some (ct, mac) \<and>
        length ct = length pt \<and> length mac = 16) \<and>
     (\<forall>key iv aad pt ct mac. ossl_decrypt_aead C key iv aad ct mac = Some pt \<longleftrightarrow>
        ossl_encrypt_aead C key iv aad pt = Some (ct, mac))"

definition rng_works :: "openssl \<Rightarrow> bool" where
  "rng_works C \<longleftrightarrow> (\<forall>n len. \<exists>bs. ossl_rand C n len = Some bs \<and> length bs = len)"

text \<open>A concrete instance, used to show that the assumptions can hold: the identity cipher.\<close>

definition plain_openssl :: openssl where
  "plain_openssl = \<lparr>
     ossl_encrypt_aead = (\<lambda>key iv aad pt. Some (pt, zeros 16)),
     ossl_decrypt_aead = (\<lambda>key iv aad ct mac. if mac = zeros 16 then Some ct else None),
     ossl_encrypt = (\<lambda>key iv pt. Some pt),
     ossl_decrypt = (\<lambda>key iv ct. Some ct),
     ossl_rand = (\<lambda>n len. Some (zeros len))\<rparr>"

lemma plain_openssl_correct [simp]: "aead_correct plain_openssl" "rng_works plain_openssl"
  by (auto simp: aead_correct_def rng_works_def plain_openssl_def)

section \<open>Lemmas\<close>

lemma aead_correct_decrypt:
  "aead_correct C \<Longrightarrow> ossl_decrypt_aead C key iv aad ct mac = Some pt \<longleftrightarrow>
    ossl_encrypt_aead C key iv aad pt = Some (ct, mac)"
  by (simp add: aead_correct_def)

lemma aead_correct_encrypt:
  assumes "aead_correct C"
  obtains ct mac where "ossl_encrypt_aead C key iv aad pt = Some (ct, mac)"
    "length ct = length pt" "length mac = 16"
proof -
  have "\<exists>ct mac. ossl_encrypt_aead C key iv aad pt = Some (ct, mac) \<and>
      length ct = length pt \<and> length mac = 16"
    using assms by (simp add: aead_correct_def)
  then show thesis using that by blast
qed

lemma aead_encrypt_Ok:
  assumes "aead_correct C" "out_len = length pt"
  obtains ct mac where "aead_encrypt C pt key iv aad out_len = Ok (ct, mac)"
    "length ct = length pt" "length mac = 16" "ossl_encrypt_aead C key iv aad pt = Some (ct, mac)"
proof -
  obtain ct mac where "ossl_encrypt_aead C key iv aad pt = Some (ct, mac)"
    "length ct = length pt" "length mac = 16"
    by (rule aead_correct_encrypt [OF assms(1)])
  then show thesis using that assms(2) by (simp add: aead_encrypt_def)
qed

lemma aead_encrypt_OkD:
  "aead_encrypt C pt key iv aad n = Ok (ct, mac) \<Longrightarrow>
    ossl_encrypt_aead C key iv aad pt = Some (ct, mac) \<and> length ct = n"
  by (cases "ossl_encrypt_aead C key iv aad pt") (auto simp: aead_encrypt_def split: if_splits)

lemma aead_encrypt_length:
  assumes "aead_correct C" "ossl_encrypt_aead C key iv aad pt = Some (ct, mac)"
  shows "length ct = length pt" "length mac = 16"
  using aead_correct_encrypt [OF assms(1), of key iv aad pt] assms(2) by auto

lemma aead_decrypt_iff:
  assumes "aead_correct C"
  shows "aead_decrypt C ct key iv aad mac (length ct) = Ok pt \<longleftrightarrow>
    ossl_encrypt_aead C key iv aad pt = Some (ct, mac)"
proof
  assume "aead_decrypt C ct key iv aad mac (length ct) = Ok pt"
  then have "ossl_decrypt_aead C key iv aad ct mac = Some pt"
    by (cases "ossl_decrypt_aead C key iv aad ct mac") (auto simp: aead_decrypt_def split: if_splits)
  then show "ossl_encrypt_aead C key iv aad pt = Some (ct, mac)"
    using aead_correct_decrypt [OF assms] by simp
next
  assume e: "ossl_encrypt_aead C key iv aad pt = Some (ct, mac)"
  then have "ossl_decrypt_aead C key iv aad ct mac = Some pt"
    using aead_correct_decrypt [OF assms] by simp
  then show "aead_decrypt C ct key iv aad mac (length ct) = Ok pt"
    using aead_encrypt_length(1) [OF assms e] by (simp add: aead_decrypt_def)
qed

lemma aead_roundtrip:
  assumes "aead_correct C" "aead_encrypt C pt key iv aad n = Ok (ct, mac)"
  shows "aead_decrypt C ct key iv aad mac n = Ok pt"
  using aead_decrypt_iff [OF assms(1)] aead_encrypt_OkD [OF assms(2)] by blast

lemma rng_fill_bytes_Ok:
  assumes "rng_works C"
  obtains bs where "rng_fill_bytes C len n = (Ok bs, Suc n)" "length bs = len"
proof -
  obtain bs where "ossl_rand C n len = Some bs" "length bs = len"
    using assms by (auto simp: rng_works_def dest: spec)
  then show thesis using that by (simp add: rng_fill_bytes_def)
qed

end
