(* ===== verification/Host.thy ===== *)
theory Host
  imports Block_Set Node_Layout Os_Crypto
begin

text \<open>
  The host side of a protected file: \<open>BlockFile\<close> (\<open>core/src/pfs/sys/host/block_file.rs\<close>), and
  \<open>RawJournal\<close> and \<open>RecoveryJournal\<close> (\<open>core/src/pfs/sys/host/journal.rs\<close>), with the
  \<open>HostFs\<close> trait and \<open>JournalFlag\<close> of \<open>host/mod.rs\<close>.  They work on any block set; the state
  of a function is the world of the block set with the object itself.  \<open>env\<close> collects what
  the code gets from outside: the block set, the content of fresh memory, OpenSSL, and the
  order in which a \<open>HashMap\<close> yields its entries.
\<close>

record ('s, 'd) env =
  env_bs :: "('s, 'd) bs_ops"
  env_mem :: memory
  env_ossl :: openssl
  env_order :: "(nat \<times> nat) list \<Rightarrow> (nat \<times> nat) list"

section \<open>BlockFile\<close>

record 'd block_file =
  bf_disk :: 'd
  bf_size :: nat

definition block_file_create :: "('s, 'd) env \<Rightarrow> 'd \<Rightarrow> 'd block_file" where
  "block_file_create E raw_disk =
     \<lparr>bf_disk = raw_disk, bf_size = bs_nblocks (env_bs E) raw_disk * NODE_SIZE\<rparr>"

definition block_file_read :: "('s, 'd) env \<Rightarrow> 's \<Rightarrow> 'd block_file \<Rightarrow> nat \<Rightarrow> bytes \<Rightarrow> bytes result" where
  "block_file_read E w f number buf =
     (if length buf \<noteq> NODE_SIZE
      then Err (error_with_msg NotBlockSizeAligned ''read buffer size not aligned to block size'')
      else and_then (buf_mut_try_from buf) (\<lambda>buf_mut.
           bs_read (env_bs E) w (bf_disk f) number (buf_mut_nblocks buf_mut)))"

text \<open>A block number whose end offset leaves \<open>usize\<close> panics.\<close>

definition block_file_write ::
  "('s, 'd) env \<Rightarrow> nat \<Rightarrow> bytes \<Rightarrow> 's \<times> 'd block_file \<Rightarrow> unit result \<times> 's \<times> 'd block_file"
where
  "block_file_write E number buf = (\<lambda>(w, f).
     if length buf \<noteq> NODE_SIZE
     then (Err (error_with_msg NotBlockSizeAligned ''write buffer size not aligned to block size''), w, f)
     else if (number + 1) * NODE_SIZE \<ge> 2 ^ 64 then (Panic, w, f)
     else let f = f\<lparr>bf_size := max ((number + 1) * NODE_SIZE) (bf_size f)\<rparr>
          in case buf_ref_try_from buf of
               Ok buf_ref \<Rightarrow>
                 then_do (case bs_write (env_bs E) w (bf_disk f) number buf_ref of (r, w) \<Rightarrow> (r, w, f))
                   (\<lambda>_ s. (Ok (), s))
             | Err e \<Rightarrow> (Err e, w, f) | Panic \<Rightarrow> (Panic, w, f) | Hang \<Rightarrow> (Hang, w, f))"

definition block_file_flush ::
  "('s, 'd) env \<Rightarrow> 's \<times> 'd block_file \<Rightarrow> unit result \<times> 's \<times> 'd block_file"
where
  "block_file_flush E = (\<lambda>(w, f).
     then_do (case bs_flush (env_bs E) w (bf_disk f) of (r, w) \<Rightarrow> (r, w, f)) (\<lambda>_ s. (Ok (), s)))"

definition block_file_size :: "('s, 'd) env \<Rightarrow> 'd block_file \<Rightarrow> nat" where
  "block_file_size E f = bs_nblocks (env_bs E) (bf_disk f) * NODE_SIZE"

section \<open>RawJournal\<close>

abbreviation DEFAULT_BUF_SIZE :: nat where "DEFAULT_BUF_SIZE \<equiv> 4194304"
abbreviation INNER_OFFSET :: nat where "INNER_OFFSET \<equiv> BLOCK_SIZE"
abbreviation RECOVERY_NODE_SIZE :: nat where "RECOVERY_NODE_SIZE \<equiv> 4104"

record 'd raw_journal =
  rj_buf :: bytes
  rj_flush_pos :: nat
  rj_disk :: 'd

definition raw_create :: "'d \<Rightarrow> 'd raw_journal" where
  "raw_create disk = \<lparr>rj_buf = [], rj_flush_pos = INNER_OFFSET, rj_disk = disk\<rparr>"

definition raw_write_slice ::
  "('s, 'd) env \<Rightarrow> nat \<Rightarrow> bytes \<Rightarrow> 's \<times> 'd raw_journal \<Rightarrow> unit result \<times> 's \<times> 'd raw_journal"
where
  "raw_write_slice E offset data = (\<lambda>(w, j).
     case write_slice (env_bs E) (env_mem E) w (rj_disk j) offset data of (r, w) \<Rightarrow> (r, w, j))"

definition raw_disk_flush ::
  "('s, 'd) env \<Rightarrow> 's \<times> 'd raw_journal \<Rightarrow> unit result \<times> 's \<times> 'd raw_journal"
where
  "raw_disk_flush E = (\<lambda>(w, j). case bs_flush (env_bs E) w (rj_disk j) of (r, w) \<Rightarrow> (r, w, j))"

definition raw_flush ::
  "('s, 'd) env \<Rightarrow> 's \<times> 'd raw_journal \<Rightarrow> unit result \<times> 's \<times> 'd raw_journal"
where
  "raw_flush E = (\<lambda>(w, j).
     let offset = rj_flush_pos j;
         j = j\<lparr>rj_flush_pos := offset + length (rj_buf j)\<rparr>
     in then_do (if rj_buf j \<noteq> [] then raw_write_slice E offset (rj_buf j) (w, j) else (Ok (), w, j)) (\<lambda>_ (w, j).
        then_do (raw_write_slice E 0 (le_bytes 8 (rj_flush_pos j)) (w, j)) (\<lambda>_ s.
        then_do (raw_disk_flush E s) (\<lambda>_ (w, j).
        (Ok (), w, j\<lparr>rj_buf := []\<rparr>)))))"

definition raw_append ::
  "('s, 'd) env \<Rightarrow> bytes \<Rightarrow> 's \<times> 'd raw_journal \<Rightarrow> unit result \<times> 's \<times> 'd raw_journal"
where
  "raw_append E data = (\<lambda>(w, j).
     let j = j\<lparr>rj_buf := rj_buf j @ data\<rparr>
     in if length (rj_buf j) \<ge> DEFAULT_BUF_SIZE
        then then_do (raw_flush E (w, j)) (\<lambda>_ s. (Ok (), s))
        else (Ok (), w, j))"

definition raw_read :: "('s, 'd) env \<Rightarrow> 's \<Rightarrow> 'd raw_journal \<Rightarrow> nat \<Rightarrow> nat \<Rightarrow> bytes result" where
  "raw_read E w j offset len =
     read_slice (env_bs E) (env_mem E) w (rj_disk j) (offset + INNER_OFFSET) len"

definition raw_size :: "('s, 'd) env \<Rightarrow> 's \<Rightarrow> 'd raw_journal \<Rightarrow> nat result" where
  "raw_size E w j =
     and_then (buf_alloc (env_mem E) 1) (\<lambda>_.
     and_then (bs_read (env_bs E) w (rj_disk j) 0 1) (\<lambda>buf.
     and_then (get_slice 0 8 buf) (\<lambda>b.
     let size = le_val b
     in if size < INNER_OFFSET
        then Err (error_with_msg InvalidArgs ''journal size is less than inner offset'')
        else Ok (size - INNER_OFFSET))))"

definition raw_reset ::
  "('s, 'd) env \<Rightarrow> 's \<times> 'd raw_journal \<Rightarrow> unit result \<times> 's \<times> 'd raw_journal"
where
  "raw_reset E = (\<lambda>(w, j).
     let j = j\<lparr>rj_buf := [], rj_flush_pos := INNER_OFFSET\<rparr>
     in then_do (raw_write_slice E 0 (le_bytes 8 (rj_flush_pos j)) (w, j)) (\<lambda>_ s. (Ok (), s)))"

section \<open>RecoveryJournal\<close>

datatype journal_flag = FlagNode | FlagCommit

fun journal_flag_byte :: "journal_flag \<Rightarrow> byte" where
  "journal_flag_byte FlagNode = 0"
| "journal_flag_byte FlagCommit = 1"

definition journal_flag_from :: "byte \<Rightarrow> journal_flag result" where
  "journal_flag_from b = (if b = 0 then Ok FlagNode else if b = 1 then Ok FlagCommit else Panic)"

definition journal_append ::
  "('s, 'd) env \<Rightarrow> bytes \<Rightarrow> 's \<times> 'd raw_journal \<Rightarrow> unit result \<times> 's \<times> 'd raw_journal"
where
  "journal_append E data s =
     (if length data \<noteq> RECOVERY_NODE_SIZE
      then (Err (error_with_msg InvalidArgs ''recovery node size is not equal to recovery node size''), s)
      else then_do (raw_append E [journal_flag_byte FlagNode] s) (\<lambda>_ s. raw_append E data s))"

definition journal_commit ::
  "('s, 'd) env \<Rightarrow> 's \<times> 'd raw_journal \<Rightarrow> unit result \<times> 's \<times> 'd raw_journal"
where
  "journal_commit E s = then_do (raw_append E [journal_flag_byte FlagCommit] s) (\<lambda>_ s. (Ok (), s))"

text \<open>A batch of records followed by a commit mark, and the bytes it leaves in the log.\<close>

primrec journal_append_all ::
  "('s, 'd) env \<Rightarrow> bytes list \<Rightarrow> 's \<times> 'd raw_journal \<Rightarrow> unit result \<times> 's \<times> 'd raw_journal"
where
  "journal_append_all E [] s = (Ok (), s)"
| "journal_append_all E (d # ds) s = then_do (journal_append E d s) (\<lambda>_ s. journal_append_all E ds s)"

definition journal_batch ::
  "('s, 'd) env \<Rightarrow> bytes list \<Rightarrow> 's \<times> 'd raw_journal \<Rightarrow> unit result \<times> 's \<times> 'd raw_journal"
where
  "journal_batch E ds s =
     then_do (journal_append_all E ds s) (\<lambda>_ s. then_do (journal_commit E s) (\<lambda>_ s. raw_flush E s))"

definition record_bytes :: "bytes list \<Rightarrow> bytes" where
  "record_bytes ds = concat (map (\<lambda>d. journal_flag_byte FlagNode # d) ds)"

lemma journal_flag_roundtrip [simp]: "journal_flag_from (journal_flag_byte f) = Ok f"
  by (cases f) (simp_all add: journal_flag_from_def)


section \<open>The journal as a log of bytes\<close>

context block_set
begin

text \<open>
  \<open>journal_inv w j log\<close>: the bytes appended since the last reset are \<open>log\<close>; the first part of
  them is on the disk behind the header block, the rest in the buffer.  The journal needs one
  spare block behind its last byte because \<open>write_slice\<close> reads there.
\<close>

definition journal_inv :: "'s \<Rightarrow> 'd raw_journal \<Rightarrow> bytes \<Rightarrow> bool" where
  "journal_inv w j log \<longleftrightarrow> valid w (rj_disk j) \<and> bs_nblocks B (rj_disk j) * BLOCK_SIZE < 2 ^ 64 \<and>
     2 \<le> bs_nblocks B (rj_disk j) \<and>
     INNER_OFFSET \<le> rj_flush_pos j \<and> rj_flush_pos j \<le> bs_nblocks B (rj_disk j) * BLOCK_SIZE \<and>
     slice INNER_OFFSET (rj_flush_pos j) (content w (rj_disk j)) @ rj_buf j = log"

definition journal_room :: "'d raw_journal \<Rightarrow> bytes \<Rightarrow> bool" where
  "journal_room j log \<longleftrightarrow> INNER_OFFSET + length log \<le> (bs_nblocks B (rj_disk j) - 1) * BLOCK_SIZE"

definition journal_header :: "'s \<Rightarrow> 'd raw_journal \<Rightarrow> bytes \<Rightarrow> bool" where
  "journal_header w j log \<longleftrightarrow>
     slice 0 8 (content w (rj_disk j)) = le_bytes 8 (INNER_OFFSET + length log)"

lemma journal_inv_pos:
  assumes "journal_inv w j log"
  shows "rj_flush_pos j + length (rj_buf j) = INNER_OFFSET + length log"
proof -
  have "length log = length (slice INNER_OFFSET (rj_flush_pos j) (content w (rj_disk j))) + length (rj_buf j)"
    using assms by (auto simp: journal_inv_def)
  then show ?thesis using assms length_content [of w "rj_disk j"] by (auto simp: journal_inv_def)
qed

lemma raw_write_slice_Ok:
  assumes "env_bs E = B" "valid w (rj_disk j)" "data \<noteq> []"
    "offset + length data \<le> (bs_nblocks B (rj_disk j) - 1) * BLOCK_SIZE" "0 < bs_nblocks B (rj_disk j)"
  shows "\<exists>w'. raw_write_slice E offset data (w, j) = (Ok (), w', j) \<and> only w w' (rj_disk j) \<and>
    slice offset (offset + length data) (content w' (rj_disk j)) = data \<and>
    (\<forall>a b. b \<le> offset \<longrightarrow> slice a b (content w' (rj_disk j)) = slice a b (content w (rj_disk j))) \<and>
    (\<forall>a b. end_block offset (length data) * BLOCK_SIZE \<le> a \<longrightarrow>
       slice a b (content w' (rj_disk j)) = slice a b (content w (rj_disk j)))"
proof -
  let ?d = "rj_disk j" and ?t = "slice_tail w (rj_disk j) offset (length data)"
  have r: "offset + length data \<le> bs_nblocks B ?d * BLOCK_SIZE" "0 < length data"
    using assms(3,4) by (auto simp: diff_mult_distrib)
  have e: "end_block offset (length data) \<le> bs_nblocks B ?d - 1"
    using end_block_bounds(1) [OF assms(4)] assms(3) by simp
  then have e': "end_block offset (length data) < bs_nblocks B ?d" using assms(5) by linarith
  obtain w' where w': "write_slice B (env_mem E) w ?d offset data = (Ok (), w')" "only w w' ?d"
    "content w' ?d = overwrite (content w ?d) offset (data @ ?t)"
    using write_slice_only [OF assms(2) r(1) assms(3), of "env_mem E"] e' by blast
  have t: "offset + length data + length ?t = end_block offset (length data) * BLOCK_SIZE"
    using length_slice_tail [OF assms(2) r] e' by blast
  have "end_block offset (length data) * BLOCK_SIZE \<le> bs_nblocks B ?d * BLOCK_SIZE"
    using e' by (intro mult_le_mono1) simp
  then have fits: "offset + length (data @ ?t) \<le> length (content w ?d)"
    using t length_content [OF assms(2)] by simp
  have "slice offset (offset + length data) (content w' ?d) = data"
    unfolding w'(3) using fits by (subst slice_overwrite_inside) (auto simp: slice_def)
  moreover have "slice a b (content w' ?d) = slice a b (content w ?d)"
    if "b \<le> offset \<or> end_block offset (length data) * BLOCK_SIZE \<le> a" for a b
    unfolding w'(3) by (rule slice_overwrite_disjoint [OF fits]) (use that t in auto)
  ultimately show ?thesis using w'(1,2) assms(1) by (simp add: raw_write_slice_def)
qed

lemma raw_disk_flush_Ok:
  assumes "env_bs E = B" "valid w (rj_disk j)"
  shows "\<exists>w'. raw_disk_flush E (w, j) = (Ok (), w', j) \<and> only w w' (rj_disk j) \<and>
    content w' (rj_disk j) = content w (rj_disk j)"
  using flush_only [OF assms(2)] assms by (auto simp: raw_disk_flush_def)

lemma raw_set_header_Ok:
  assumes "env_bs E = B" "valid w (rj_disk j)" "2 \<le> bs_nblocks B (rj_disk j)"
  shows "\<exists>w'. raw_write_slice E 0 (le_bytes 8 v) (w, j) = (Ok (), w', j) \<and> only w w' (rj_disk j) \<and>
    slice 0 8 (content w' (rj_disk j)) = le_bytes 8 v \<and>
    (\<forall>b. slice INNER_OFFSET b (content w' (rj_disk j)) = slice INNER_OFFSET b (content w (rj_disk j)))"
proof -
  have ne: "le_bytes 8 v \<noteq> []" using length_le_bytes [of 8 v] by (metis list.size(3) zero_neq_numeral)
  have "1 * BLOCK_SIZE \<le> (bs_nblocks B (rj_disk j) - 1) * BLOCK_SIZE"
    using assms(3) by (intro mult_le_mono1) simp
  then have f: "0 + length (le_bytes 8 v) \<le> (bs_nblocks B (rj_disk j) - 1) * BLOCK_SIZE" by simp
  have e: "end_block 0 (length (le_bytes 8 v)) * BLOCK_SIZE = INNER_OFFSET" by (simp add: end_block_def)
  show ?thesis
    using raw_write_slice_Ok [OF assms(1,2) ne f] assms(3) unfolding e by auto
qed

lemma raw_flush_Ok:
  assumes E: "env_bs E = B" and inv: "journal_inv w j log" and room: "journal_room j log"
  shows "\<exists>w' j'. raw_flush E (w, j) = (Ok (), w', j') \<and> journal_inv w' j' log \<and> rj_buf j' = [] \<and>
    rj_disk j' = rj_disk j \<and> only w w' (rj_disk j) \<and> journal_header w' j' log"
proof -
  let ?d = "rj_disk j" and ?p = "rj_flush_pos j"
  define j1 where "j1 = j\<lparr>rj_flush_pos := ?p + length (rj_buf j)\<rparr>"
  have d1: "rj_disk j1 = ?d" "rj_buf j1 = rj_buf j" "rj_flush_pos j1 = INNER_OFFSET + length log"
    using journal_inv_pos [OF inv] by (simp_all add: j1_def)
  have v: "valid w ?d" "2 \<le> bs_nblocks B ?d" "INNER_OFFSET \<le> ?p"
    "slice INNER_OFFSET ?p (content w ?d) @ rj_buf j = log"
    using inv by (auto simp: journal_inv_def)
  have rm: "?p + length (rj_buf j) \<le> (bs_nblocks B ?d - 1) * BLOCK_SIZE"
    using room journal_inv_pos [OF inv] by (simp add: journal_room_def)
  obtain w1 where w1: "(if rj_buf j1 \<noteq> [] then raw_write_slice E ?p (rj_buf j1) (w, j1) else (Ok (), w, j1)) = (Ok (), w1, j1)"
    "only w w1 ?d" "slice INNER_OFFSET (INNER_OFFSET + length log) (content w1 ?d) = log"
  proof (cases "rj_buf j = []")
    case True
    then show thesis using that [of w] v(4) journal_inv_pos [OF inv] d1 by simp
  next
    case False
    obtain w1 where w1: "raw_write_slice E ?p (rj_buf j) (w, j1) = (Ok (), w1, j1)" "only w w1 ?d"
      "slice ?p (?p + length (rj_buf j)) (content w1 ?d) = rj_buf j"
      "slice INNER_OFFSET ?p (content w1 ?d) = slice INNER_OFFSET ?p (content w ?d)"
      using raw_write_slice_Ok [OF E, of w j1 "rj_buf j" ?p] v d1 rm False by auto
    have "slice INNER_OFFSET (INNER_OFFSET + length log) (content w1 ?d) = log"
      using slice_split [of INNER_OFFSET ?p "?p + length (rj_buf j)" "content w1 ?d"] v(3,4) w1(3,4)
        journal_inv_pos [OF inv] by simp
    then show thesis using that w1(1,2) d1 False by simp
  qed
  obtain w2 where w2: "raw_write_slice E 0 (le_bytes 8 (rj_flush_pos j1)) (w1, j1) = (Ok (), w2, j1)"
    "only w1 w2 ?d" "slice 0 8 (content w2 ?d) = le_bytes 8 (rj_flush_pos j1)"
    "slice INNER_OFFSET (INNER_OFFSET + length log) (content w2 ?d) = log"
    using raw_set_header_Ok [OF E, of w1 j1 "rj_flush_pos j1"] v(2) d1(1) only_valid [OF w1(2) v(1)] w1(3) by auto
  obtain w3 where w3: "raw_disk_flush E (w2, j1) = (Ok (), w3, j1)" "only w2 w3 ?d" "content w3 ?d = content w2 ?d"
    using raw_disk_flush_Ok [OF E, of w2 j1] d1(1) only_valid [OF w2(2)] only_valid [OF w1(2) v(1)] by auto
  have o: "only w w3 ?d" using only_trans w1(2) w2(2) w3(2) by blast
  have "raw_flush E (w, j) = (Ok (), w3, j1\<lparr>rj_buf := []\<rparr>)"
    unfolding raw_flush_def Let_def j1_def [symmetric] case_prod_conv
    by (simp only: w1(1) w2(1) w3(1) then_do.simps case_prod_conv)
  moreover have "journal_inv w3 (j1\<lparr>rj_buf := []\<rparr>) log"
    using inv d1 w2(4) w3(3) only_valid [OF o v(1)] room
    by (auto simp: journal_inv_def journal_room_def diff_mult_distrib)
  ultimately show ?thesis
    using o w2(3) w3(3) d1 by (auto simp: journal_header_def)
qed

lemma journal_inv_buffer:
  assumes "journal_inv w j log"
  shows "journal_inv w (j\<lparr>rj_buf := rj_buf j @ data\<rparr>) (log @ data)"
  using assms by (auto simp: journal_inv_def)

lemma raw_append_Ok:
  assumes E: "env_bs E = B" and inv: "journal_inv w j log" and room: "journal_room j (log @ data)"
  shows "\<exists>w' j'. raw_append E data (w, j) = (Ok (), w', j') \<and> journal_inv w' j' (log @ data) \<and>
    rj_disk j' = rj_disk j \<and> only w w' (rj_disk j)"
proof -
  define j1 where "j1 = j\<lparr>rj_buf := rj_buf j @ data\<rparr>"
  have inv1: "journal_inv w j1 (log @ data)" unfolding j1_def by (rule journal_inv_buffer [OF inv])
  have room1: "journal_room j1 (log @ data)" "rj_disk j1 = rj_disk j"
    using room by (simp_all add: journal_room_def j1_def)
  obtain w' j' where "raw_flush E (w, j1) = (Ok (), w', j')" "journal_inv w' j' (log @ data)"
    "rj_disk j' = rj_disk j" "only w w' (rj_disk j)"
    using raw_flush_Ok [OF E inv1 room1(1)] room1(2) by auto
  then show ?thesis
    using inv1 room1(2) by (auto simp: raw_append_def Let_def simp flip: j1_def)
qed

lemma raw_reset_Ok:
  assumes E: "env_bs E = B" and inv: "journal_inv w j log"
  shows "\<exists>w' j'. raw_reset E (w, j) = (Ok (), w', j') \<and> journal_inv w' j' [] \<and> rj_buf j' = [] \<and>
    rj_disk j' = rj_disk j \<and> only w w' (rj_disk j) \<and> journal_header w' j' []"
proof -
  define j1 where "j1 = j\<lparr>rj_buf := [], rj_flush_pos := INNER_OFFSET\<rparr>"
  have v: "valid w (rj_disk j)" "2 \<le> bs_nblocks B (rj_disk j)" using inv by (auto simp: journal_inv_def)
  obtain w' where w': "raw_write_slice E 0 (le_bytes 8 INNER_OFFSET) (w, j1) = (Ok (), w', j1)"
    "only w w' (rj_disk j)" "slice 0 8 (content w' (rj_disk j)) = le_bytes 8 INNER_OFFSET"
    using raw_set_header_Ok [OF E, of w j1 INNER_OFFSET] v by (auto simp: j1_def)
  have "raw_reset E (w, j) = (Ok (), w', j1)"
    using w'(1) by (simp add: raw_reset_def Let_def j1_def)
  moreover have "journal_inv w' j1 []"
    using inv only_valid [OF w'(2) v(1)] v(2) by (auto simp: journal_inv_def j1_def)
  ultimately show ?thesis using w' by (auto simp: journal_header_def j1_def)
qed

lemma raw_size_Ok:
  assumes E: "env_bs E = B" and inv: "journal_inv w j log" and h: "journal_header w j log"
    and len: "INNER_OFFSET + length log \<le> bs_nblocks B (rj_disk j) * BLOCK_SIZE"
  shows "raw_size E w j = Ok (length log)"
proof -
  let ?d = "rj_disk j"
  have v: "valid w ?d" "1 \<le> bs_nblocks B ?d" "bs_nblocks B ?d * BLOCK_SIZE < 2 ^ 64"
    using inv by (auto simp: journal_inv_def)
  have "1 * BLOCK_SIZE \<le> bs_nblocks B ?d * BLOCK_SIZE" using v(2) by (intro mult_le_mono1)
  then have cl: "BLOCK_SIZE \<le> length (content w ?d)" using length_content [OF v(1)] by simp
  have "bs_read B w ?d 0 1 = Ok (slice 0 BLOCK_SIZE (content w ?d))"
    using read_content [OF v(1), of 0 1] v(2) by simp
  moreover have "get_slice 0 8 (slice 0 BLOCK_SIZE (content w ?d)) =
      (Ok (le_bytes 8 (INNER_OFFSET + length log)) :: bytes result)"
    using cl h by (simp add: slice_slice journal_header_def)
  moreover have "le_val (le_bytes 8 (INNER_OFFSET + length log)) = INNER_OFFSET + length log"
    using len v(3) by (intro le_roundtrip) simp
  ultimately show ?thesis by (simp add: raw_size_def E Let_def)
qed

lemma raw_read_Ok:
  assumes E: "env_bs E = B" and inv: "journal_inv w j log" and buf: "rj_buf j = []"
    and r: "offset + len \<le> length log" "0 < len"
  shows "raw_read E w j offset len = Ok (slice offset (offset + len) log)"
proof -
  let ?d = "rj_disk j"
  have v: "valid w ?d" "rj_flush_pos j \<le> bs_nblocks B ?d * BLOCK_SIZE"
    "log = slice INNER_OFFSET (INNER_OFFSET + length log) (content w ?d)"
    using inv buf journal_inv_pos [OF inv] by (auto simp: journal_inv_def)
  have "INNER_OFFSET + length log \<le> bs_nblocks B ?d * BLOCK_SIZE"
    using v(2) journal_inv_pos [OF inv] buf by simp
  then have "raw_read E w j offset len =
      Ok (slice (offset + INNER_OFFSET) (offset + INNER_OFFSET + len) (content w ?d))"
    using r read_slice_content [OF v(1), of "offset + INNER_OFFSET" len "env_mem E"]
    by (simp add: raw_read_def E)
  also have "slice (offset + INNER_OFFSET) (offset + INNER_OFFSET + len) (content w ?d) =
      slice offset (offset + len) (slice INNER_OFFSET (INNER_OFFSET + length log) (content w ?d))"
    using r by (simp add: slice_slice algebra_simps)
  finally show ?thesis using v(3) by simp
qed

text \<open>The records of the recovery journal.\<close>

lemma journal_append_Ok:
  assumes E: "env_bs E = B" and inv: "journal_inv w j log"
    and len: "length data = RECOVERY_NODE_SIZE"
    and room: "journal_room j (log @ journal_flag_byte FlagNode # data)"
  shows "\<exists>w' j'. journal_append E data (w, j) = (Ok (), w', j') \<and>
    journal_inv w' j' (log @ journal_flag_byte FlagNode # data) \<and> rj_disk j' = rj_disk j \<and>
    only w w' (rj_disk j)"
proof -
  have "journal_room j (log @ [journal_flag_byte FlagNode])" using room by (simp add: journal_room_def)
  then obtain w1 j1 where w1: "raw_append E [journal_flag_byte FlagNode] (w, j) = (Ok (), w1, j1)"
    "journal_inv w1 j1 (log @ [journal_flag_byte FlagNode])" "rj_disk j1 = rj_disk j" "only w w1 (rj_disk j)"
    using raw_append_Ok [OF E inv] by blast
  have "journal_room j1 ((log @ [journal_flag_byte FlagNode]) @ data)"
    using room w1(3) by (simp add: journal_room_def)
  then obtain w2 j2 where w2: "raw_append E data (w1, j1) = (Ok (), w2, j2)"
    "journal_inv w2 j2 ((log @ [journal_flag_byte FlagNode]) @ data)" "rj_disk j2 = rj_disk j" "only w1 w2 (rj_disk j)"
    using raw_append_Ok [OF E w1(2)] w1(3) by metis
  show ?thesis
    using w1 w2 len only_trans [OF w1(4) w2(4)] by (auto simp: journal_append_def)
qed

lemma journal_commit_Ok:
  assumes E: "env_bs E = B" and inv: "journal_inv w j log"
    and room: "journal_room j (log @ [journal_flag_byte FlagCommit])"
  shows "\<exists>w' j'. journal_commit E (w, j) = (Ok (), w', j') \<and>
    journal_inv w' j' (log @ [journal_flag_byte FlagCommit]) \<and> rj_disk j' = rj_disk j \<and>
    only w w' (rj_disk j)"
  using raw_append_Ok [OF E inv room] by (auto simp: journal_commit_def)

lemma journal_append_all_Ok:
  assumes E: "env_bs E = B" and inv: "journal_inv w j log"
    and len: "\<forall>d\<in>set ds. length d = RECOVERY_NODE_SIZE"
    and room: "journal_room j (log @ record_bytes ds)"
  shows "\<exists>w' j'. journal_append_all E ds (w, j) = (Ok (), w', j') \<and>
    journal_inv w' j' (log @ record_bytes ds) \<and> rj_disk j' = rj_disk j \<and> only w w' (rj_disk j)"
  using inv len room
proof (induction ds arbitrary: w j log)
  case Nil
  then show ?case by (simp add: record_bytes_def)
next
  case (Cons d ds)
  let ?log = "log @ journal_flag_byte FlagNode # d"
  have "journal_room j ?log" using Cons.prems(3) by (simp add: journal_room_def record_bytes_def)
  then obtain w1 j1 where w1: "journal_append E d (w, j) = (Ok (), w1, j1)" "journal_inv w1 j1 ?log"
    "rj_disk j1 = rj_disk j" "only w w1 (rj_disk j)"
    using journal_append_Ok [OF E Cons.prems(1), of d] Cons.prems(2) by auto
  have r1: "journal_room j1 (?log @ record_bytes ds)"
    using Cons.prems(3) w1(3) by (simp add: journal_room_def record_bytes_def)
  obtain w2 j2 where w2: "journal_append_all E ds (w1, j1) = (Ok (), w2, j2)"
    "journal_inv w2 j2 (?log @ record_bytes ds)" "rj_disk j2 = rj_disk j" "only w1 w2 (rj_disk j)"
    using Cons.IH [OF w1(2) _ r1] Cons.prems(2) w1(3) by auto
  show ?case using w1 w2 only_trans [OF w1(4) w2(4)] by (auto simp: record_bytes_def)
qed

lemma journal_batch_Ok:
  assumes E: "env_bs E = B" and inv: "journal_inv w j log"
    and len: "\<forall>d\<in>set ds. length d = RECOVERY_NODE_SIZE"
    and room: "journal_room j (log @ record_bytes ds @ [journal_flag_byte FlagCommit])"
  shows "\<exists>w' j'. journal_batch E ds (w, j) = (Ok (), w', j') \<and> rj_buf j' = [] \<and>
    journal_inv w' j' (log @ record_bytes ds @ [journal_flag_byte FlagCommit]) \<and>
    journal_header w' j' (log @ record_bytes ds @ [journal_flag_byte FlagCommit]) \<and>
    rj_disk j' = rj_disk j \<and> only w w' (rj_disk j)"
proof -
  have "journal_room j (log @ record_bytes ds)" using room by (simp add: journal_room_def)
  then obtain w1 j1 where w1: "journal_append_all E ds (w, j) = (Ok (), w1, j1)"
    "journal_inv w1 j1 (log @ record_bytes ds)" "rj_disk j1 = rj_disk j" "only w w1 (rj_disk j)"
    using journal_append_all_Ok [OF E inv len] by blast
  have r1: "journal_room j1 ((log @ record_bytes ds) @ [journal_flag_byte FlagCommit])"
    using room w1(3) by (simp add: journal_room_def)
  then obtain w2 j2 where w2: "journal_commit E (w1, j1) = (Ok (), w2, j2)"
    "journal_inv w2 j2 ((log @ record_bytes ds) @ [journal_flag_byte FlagCommit])"
    "rj_disk j2 = rj_disk j" "only w1 w2 (rj_disk j)"
    using journal_commit_Ok [OF E w1(2)] w1(3) by auto
  have r2: "journal_room j2 ((log @ record_bytes ds) @ [journal_flag_byte FlagCommit])"
    using room w2(3) by (simp add: journal_room_def)
  obtain w3 j3 where w3: "raw_flush E (w2, j2) = (Ok (), w3, j3)" "rj_buf j3 = []"
    "journal_inv w3 j3 ((log @ record_bytes ds) @ [journal_flag_byte FlagCommit])"
    "journal_header w3 j3 ((log @ record_bytes ds) @ [journal_flag_byte FlagCommit])"
    "rj_disk j3 = rj_disk j" "only w2 w3 (rj_disk j)"
    using raw_flush_Ok [OF E w2(2) r2] w2(3) by auto
  show ?thesis
    using w1 w2 w3 only_trans [OF only_trans [OF w1(4) w2(4)] w3(6)] by (auto simp: journal_batch_def)
qed

text \<open>The block file.\<close>

lemma block_file_read_Ok:
  assumes "env_bs E = B" "valid w (bf_disk f)" "number < bs_nblocks B (bf_disk f)" "length buf = NODE_SIZE"
  shows "block_file_read E w f number buf = Ok (blk w (bf_disk f) number)"
  using assms read_blocks [of w "bf_disk f" number 1]
  by (simp add: block_file_read_def buf_mut_nblocks_def)

lemma block_file_write_Ok:
  assumes "env_bs E = B" "valid w (bf_disk f)" "number < bs_nblocks B (bf_disk f)" "length buf = NODE_SIZE"
    and sz: "bs_nblocks B (bf_disk f) * BLOCK_SIZE < 2 ^ 64"
  shows "\<exists>w' f'. block_file_write E number buf (w, f) = (Ok (), w', f') \<and> bf_disk f' = bf_disk f \<and>
    only w w' (bf_disk f) \<and>
    (\<forall>i < bs_nblocks B (bf_disk f). blk w' (bf_disk f) i = (if i = number then buf else blk w (bf_disk f) i))"
proof -
  let ?d = "bf_disk f"
  have "Suc number * BLOCK_SIZE \<le> bs_nblocks B ?d * BLOCK_SIZE" using assms(3) by (intro mult_le_mono1) simp
  then have small: "\<not> (number + 1) * NODE_SIZE \<ge> 2 ^ 64" using sz by simp
  obtain w' where w': "bs_write B w ?d number buf = (Ok (), w')" "\<forall>d'. valid w d' \<longrightarrow> valid w' d'"
    "\<forall>i < bs_nblocks B ?d. blk w' ?d i =
       (if number \<le> i \<and> i < number + 1 then slice ((i - number) * BLOCK_SIZE) (Suc (i - number) * BLOCK_SIZE) buf
        else blk w ?d i)"
    using write_blocks [of w ?d buf 1 number] assms by auto
  have o: "only w w' ?d" using write_only [OF assms(2), of buf number] w'(1) assms by auto
  have "\<forall>i < bs_nblocks B ?d. blk w' ?d i = (if i = number then buf else blk w ?d i)"
    using w'(3) assms(4) by (auto simp: slice_def)
  then show ?thesis using w'(1) o small assms
    by (auto simp: block_file_write_def Let_def)
qed

lemma block_file_flush_Ok:
  assumes "env_bs E = B" "valid w (bf_disk f)"
  shows "\<exists>w'. block_file_flush E (w, f) = (Ok (), w', f) \<and> only w w' (bf_disk f) \<and>
    (\<forall>d'. valid w d' \<longrightarrow> content w' d' = content w d')"
  using flush_only [OF assms(2)] assms(1) by (auto simp: block_file_flush_def)

end

section \<open>Properties on MemDisk\<close>

lemma md_journal_fresh:
  assumes "mem_disk_valid w d" "2 \<le> mem_disk_nblocks d" "mem_disk_nblocks d * BLOCK_SIZE < 2 ^ 64"
  shows "md.journal_inv w (raw_create d) []"
  using assms by (auto simp: md.journal_inv_def raw_create_def)

text \<open>C10: A batch of recovery records appended to a fresh journal, committed and flushed, is durable: a
  journal object created anew over the same blocks reports the size of the batch and reads
  back every byte of it in order; a separate region of the disk, such as the data region of
  the file, is not touched.\<close>

theorem journal_batch_is_durable:
  assumes E: "env_bs E = mem_disk_ops" and v: "mem_disk_valid w d" "2 \<le> mem_disk_nblocks d"
      "mem_disk_nblocks d * BLOCK_SIZE < 2 ^ 64"
    and len: "\<forall>r\<in>set ds. length r = RECOVERY_NODE_SIZE"
    and room: "INNER_OFFSET + length ds * (RECOVERY_NODE_SIZE + 1) + 1 \<le> (mem_disk_nblocks d - 1) * BLOCK_SIZE"
  shows "\<exists>w' j'. journal_batch E ds (w, raw_create d) = (Ok (), w', j') \<and>
    raw_size E w' (raw_create d) = Ok (length ds * (RECOVERY_NODE_SIZE + 1) + 1) \<and>
    (\<forall>offset n. 0 < n \<longrightarrow> offset + n \<le> length ds * (RECOVERY_NODE_SIZE + 1) + 1 \<longrightarrow>
       raw_read E w' (raw_create d) offset n =
         Ok (slice offset (offset + n) (record_bytes ds @ [journal_flag_byte FlagCommit]))) \<and>
    (\<forall>d'. mem_disk_sep d d' \<longrightarrow> mem_disk_valid w d' \<longrightarrow> mem_disk_content w' d' = mem_disk_content w d')"
proof -
  let ?log = "record_bytes ds @ [journal_flag_byte FlagCommit]"
  have rl: "length (record_bytes ds) = length ds * (RECOVERY_NODE_SIZE + 1)"
    using len by (induction ds) (auto simp: record_bytes_def)
  have r: "md.journal_room (raw_create d) ([] @ ?log)"
    using room rl by (simp add: md.journal_room_def raw_create_def)
  obtain w' j' where j: "journal_batch E ds (w, raw_create d) = (Ok (), w', j')" "rj_buf j' = []"
    "md.journal_inv w' j' ?log" "md.journal_header w' j' ?log" "rj_disk j' = d" "md.only w w' d"
    using md.journal_batch_Ok [OF E md_journal_fresh [OF v] len r] by (auto simp: raw_create_def)
  have same: "raw_size E w' (raw_create d) = raw_size E w' j'" "raw_read E w' (raw_create d) = raw_read E w' j'"
    using j(5) by (auto simp: raw_size_def raw_read_def raw_create_def fun_eq_iff)
  have "INNER_OFFSET + length ?log \<le> mem_disk_nblocks d * BLOCK_SIZE" using room rl by (simp add: diff_mult_distrib)
  then have sz: "raw_size E w' j' = Ok (length ?log)"
    using md.raw_size_Ok [OF E j(3,4)] j(5) by simp
  have rd: "raw_read E w' j' offset n = Ok (slice offset (offset + n) ?log)"
    if "offset + n \<le> length ?log" "0 < n" for offset n
    by (rule md.raw_read_Ok [OF E j(3,2) that])
  have "mem_disk_content w' d' = mem_disk_content w d'" if "mem_disk_sep d d'" "mem_disk_valid w d'" for d'
    using md.only_content [OF j(6) that] md_content that(2) md.only_valid [OF j(6) that(2)] by simp
  then show ?thesis using j(1) same sz rd rl by auto
qed

theorem journal_batch_is_durable_witness:
  "\<exists>w' j'. journal_batch \<lparr>env_bs = mem_disk_ops, env_mem = \<lambda>_. 0, env_ossl = plain_openssl, env_order = \<lambda>xs. xs\<rparr> [zeros 4104]
      (zeros 20480, raw_create \<lparr>region_start = 0, region_end = 5\<rparr>) = (Ok (), w', j') \<and>
    raw_size \<lparr>env_bs = mem_disk_ops, env_mem = \<lambda>_. 0, env_ossl = plain_openssl, env_order = \<lambda>xs. xs\<rparr> w'
      (raw_create \<lparr>region_start = 0, region_end = 5\<rparr>) = Ok 4106"
  using journal_batch_is_durable [of "\<lparr>env_bs = mem_disk_ops, env_mem = \<lambda>_. 0, env_ossl = plain_openssl, env_order = \<lambda>xs. xs\<rparr>"
      "zeros 20480" "\<lparr>region_start = 0, region_end = 5\<rparr>" "[zeros 4104]"]
  by (auto simp: mem_disk_valid_def mem_disk_nblocks_def)

end
