(* ===== verification/Open_Mode.thy ===== *)
theory Open_Mode
  imports Os_Crypto
begin

text \<open>
  Flags, options and modes of a protected file: the \<open>impl_bitflags!\<close> operations with \<open>KeyPolicy\<close>
  (\<open>core/src/pfs/sgx.rs\<close>), \<open>OpenOptions\<close>, \<open>OpenMode\<close>, \<open>FileStatus\<close>, \<open>CloseMode\<close>
  (\<open>core/src/pfs/sys/file/mod.rs\<close>), \<open>EncryptMode\<close> (\<open>core/src/pfs/sys/mod.rs\<close>) and
  \<open>EncryptFlags\<close> (\<open>core/src/pfs/sys/metadata.rs\<close>).
\<close>

unbundle bit_operations_syntax

section \<open>KeyPolicy\<close>

type_synonym key_policy = "16 word"

abbreviation MRENCLAVE :: key_policy where "MRENCLAVE \<equiv> 0x0001"
abbreviation MRSIGNER :: key_policy where "MRSIGNER \<equiv> 0x0002"
abbreviation NOISVPRODID :: key_policy where "NOISVPRODID \<equiv> 0x0004"
abbreviation CONFIGID :: key_policy where "CONFIGID \<equiv> 0x0008"
abbreviation ISVFAMILYID :: key_policy where "ISVFAMILYID \<equiv> 0x0010"
abbreviation ISVEXTPRODID :: key_policy where "ISVEXTPRODID \<equiv> 0x0020"

definition KSS :: key_policy where
  "KSS = 0x0008 OR 0x0010 OR 0x0020"

definition kp_empty :: key_policy where
  "kp_empty = 0"

definition kp_all :: key_policy where
  "kp_all = MRENCLAVE OR MRSIGNER OR NOISVPRODID OR CONFIGID OR ISVFAMILYID OR ISVEXTPRODID OR KSS"

definition kp_from_bits :: "16 word \<Rightarrow> key_policy option" where
  "kp_from_bits bits = (if bits AND NOT kp_all = 0 then Some bits else None)"

definition kp_from_bits_truncate :: "16 word \<Rightarrow> key_policy" where
  "kp_from_bits_truncate bits = bits AND kp_all"

definition kp_is_empty :: "key_policy \<Rightarrow> bool" where
  "kp_is_empty p \<longleftrightarrow> p = kp_empty"

definition kp_is_all :: "key_policy \<Rightarrow> bool" where
  "kp_is_all p \<longleftrightarrow> p = kp_all"

definition kp_contains :: "key_policy \<Rightarrow> key_policy \<Rightarrow> bool" where
  "kp_contains p other \<longleftrightarrow> p AND other = other"

definition kp_intersects :: "key_policy \<Rightarrow> key_policy \<Rightarrow> bool" where
  "kp_intersects p other \<longleftrightarrow> \<not> kp_is_empty (p AND other)"

definition kp_insert :: "key_policy \<Rightarrow> key_policy \<Rightarrow> key_policy" where
  "kp_insert p other = p OR other"

definition kp_remove :: "key_policy \<Rightarrow> key_policy \<Rightarrow> key_policy" where
  "kp_remove p other = p AND NOT other"

definition kp_toggle :: "key_policy \<Rightarrow> key_policy \<Rightarrow> key_policy" where
  "kp_toggle p other = p XOR other"

definition kp_not :: "key_policy \<Rightarrow> key_policy" where
  "kp_not p = NOT p AND kp_all"

definition kp_is_valid :: "key_policy \<Rightarrow> bool" where
  "kp_is_valid p \<longleftrightarrow> p AND NOT kp_all = 0"

section \<open>Options\<close>

record open_options =
  oo_read :: bool
  oo_write :: bool
  oo_append :: bool
  oo_binary :: bool
  oo_update :: bool

definition open_options_new :: open_options where
  "open_options_new = \<lparr>oo_read = False, oo_write = False, oo_append = False,
     oo_binary = False, oo_update = False\<rparr>"

definition open_options_readonly :: "open_options \<Rightarrow> bool" where
  "open_options_readonly opts = (oo_read opts \<and> \<not> oo_update opts)"

definition open_options_check :: "open_options \<Rightarrow> unit result" where
  "open_options_check opts = (case (oo_read opts, oo_write opts, oo_append opts) of
     (True, False, False) \<Rightarrow> Ok ()
   | (False, True, False) \<Rightarrow> Ok ()
   | (False, False, True) \<Rightarrow> Ok ()
   | _ \<Rightarrow> Err (error_new InvalidArgs))"

section \<open>Modes\<close>

datatype encrypt_mode = EncryptAutoKey key_policy | EncryptUserKey key | EncryptIntegrityOnly

datatype open_mode =
  AutoKey key_policy | UserKey key | IntegrityOnly | ImportKey key key_policy | ExportKey

fun open_mode_from :: "encrypt_mode \<Rightarrow> open_mode" where
  "open_mode_from (EncryptAutoKey key_policy) = AutoKey key_policy"
| "open_mode_from (EncryptUserKey key) = UserKey key"
| "open_mode_from EncryptIntegrityOnly = IntegrityOnly"

fun is_auto_key :: "open_mode \<Rightarrow> bool" where
  "is_auto_key (AutoKey _) = True"
| "is_auto_key _ = False"

fun mode_import_key :: "open_mode \<Rightarrow> key option" where
  "mode_import_key (ImportKey key _) = Some key"
| "mode_import_key _ = None"

fun mode_user_key :: "open_mode \<Rightarrow> key option" where
  "mode_user_key (UserKey key) = Some key"
| "mode_user_key _ = None"

fun mode_key_policy :: "open_mode \<Rightarrow> key_policy option" where
  "mode_key_policy (AutoKey key_policy) = Some key_policy"
| "mode_key_policy (ImportKey _ key_policy) = Some key_policy"
| "mode_key_policy _ = None"

definition open_mode_check :: "open_mode \<Rightarrow> unit result" where
  "open_mode_check mode = (case mode_key_policy mode of
     Some key_policy \<Rightarrow>
       (if \<not> kp_is_valid key_policy then Err (error_new InvalidArgs)
        else if \<not> kp_intersects key_policy (MRENCLAVE OR MRSIGNER) then Err (error_new InvalidArgs)
        else Ok ())
   | None \<Rightarrow> Ok ())"

text \<open>
  \<open>EncryptFlags\<close> is a \<open>repr(u8)\<close> enum that is also read from disk as raw bytes: a byte that is
  no discriminant is kept as \<open>EF_Invalid\<close>.
\<close>

datatype encrypt_flags = EF_AutoKey | EF_UserKey | EF_IntegrityOnly | EF_Invalid byte

fun encrypt_flags_from :: "open_mode \<Rightarrow> encrypt_flags" where
  "encrypt_flags_from (AutoKey _) = EF_AutoKey"
| "encrypt_flags_from ExportKey = EF_AutoKey"
| "encrypt_flags_from (ImportKey _ _) = EF_AutoKey"
| "encrypt_flags_from (UserKey _) = EF_UserKey"
| "encrypt_flags_from IntegrityOnly = EF_IntegrityOnly"

fun encrypt_flags_byte :: "encrypt_flags \<Rightarrow> byte" where
  "encrypt_flags_byte EF_AutoKey = 0x00"
| "encrypt_flags_byte EF_UserKey = 0x01"
| "encrypt_flags_byte EF_IntegrityOnly = 0x02"
| "encrypt_flags_byte (EF_Invalid b) = b"

definition encrypt_flags_of_byte :: "byte \<Rightarrow> encrypt_flags" where
  "encrypt_flags_of_byte b =
     (if b = 0 then EF_AutoKey else if b = 1 then EF_UserKey
      else if b = 2 then EF_IntegrityOnly else EF_Invalid b)"

datatype file_status =
    StatusOk | NotInitialized | FlushError | WriteToDiskFailed | CryptoError | Corrupted
  | MemoryCorrupted | Closed

definition status_is_ok :: "file_status \<Rightarrow> bool" where
  "status_is_ok st \<longleftrightarrow> st = StatusOk"

datatype close_mode = CloseNormal | CloseImport | CloseExport

section \<open>Lemmas\<close>

lemma kp_all_eq: "kp_all = 0x3F"
  by (simp add: kp_all_def KSS_def)

lemma encrypt_flags_roundtrip [simp]: "encrypt_flags_byte (encrypt_flags_of_byte b) = b"
  by (simp add: encrypt_flags_of_byte_def)

lemma encrypt_flags_of_mode_byte [simp]:
  "encrypt_flags_of_byte (encrypt_flags_byte (encrypt_flags_from mode)) = encrypt_flags_from mode"
  by (cases mode) (simp_all add: encrypt_flags_of_byte_def)

lemma open_options_check_iff:
  "open_options_check opts = Ok () \<longleftrightarrow>
    (oo_read opts \<and> \<not> oo_write opts \<and> \<not> oo_append opts) \<or> (\<not> oo_read opts \<and> oo_write opts \<and> \<not> oo_append opts) \<or>
    (\<not> oo_read opts \<and> \<not> oo_write opts \<and> oo_append opts)"
  by (cases "oo_read opts"; cases "oo_write opts"; cases "oo_append opts") (simp_all add: open_options_check_def)

section \<open>Properties\<close>


end
