(* ===== verification/Keys.thy ===== *)
theory Keys
  imports Open_Mode
begin

text \<open>
  \<open>core/src/pfs/sys/keys.rs\<close>: the key hierarchy.  Every \<open>derive_key\<close> draws a nonce, so the
  functions thread the state of the random number generator, and those on a \<open>MasterKey\<close> also
  the key with its usage counter.
\<close>

type_synonym key_id = bytes

datatype key_type = KeyMetadata | KeyMaster | KeyRandom

record master_key =
  mk_key :: key
  mk_key_id :: key_id
  mk_count :: nat

datatype metadata_key = MkUserKey key

record kdf_input =
  kdf_index :: nat
  kdf_label :: bytes
  kdf_node_number :: nat
  kdf_nonce :: key_id
  kdf_output_len :: nat

datatype fs_key_gen =
  EncryptWithIntegrity metadata_key master_key | KgIntegrityOnly | KgImport metadata_key | KgExport metadata_key

section \<open>KdfInput\<close>

definition key_id_default :: key_id where
  "key_id_default = zeros 32"

definition ascii :: "string \<Rightarrow> bytes" where
  "ascii s = map (\<lambda>c. word_of_nat (of_char c)) s"

fun kdf_label_name :: "key_type \<Rightarrow> string" where
  "kdf_label_name KeyMetadata = ''SGX-PROTECTED-FS-METADATA-KEY''"
| "kdf_label_name KeyMaster = ''SGX-PROTECTED-FS-MASTER-KEY''"
| "kdf_label_name KeyRandom = ''SGX-PROTECTED-FS-RANDOM-KEY''"

definition kdf_new :: "key_type \<Rightarrow> nat \<Rightarrow> key_id \<Rightarrow> kdf_input result" where
  "kdf_new key_type node_number nonce =
     and_then (put_slice (zeros 64) 0 (ascii (kdf_label_name key_type))) (\<lambda>label.
       Ok \<lparr>kdf_index = 0x01, kdf_label = label, kdf_node_number = node_number,
           kdf_nonce = nonce, kdf_output_len = 0x80\<rparr>)"

text \<open>The CMAC over the input is not computed: the key that is passed in is returned.\<close>

definition kdf_derive_key ::
  "openssl \<Rightarrow> key \<Rightarrow> key_type \<Rightarrow> nat \<Rightarrow> nat \<Rightarrow> (key \<times> key_id) result \<times> nat"
where
  "kdf_derive_key C key key_type node_number rng =
     (case kdf_new key_type node_number key_id_default of
        Ok kdf \<Rightarrow>
          (case rng_fill_bytes C 32 rng of
             (Ok nonce, rng') \<Rightarrow> (let kdf' = kdf\<lparr>kdf_nonce := nonce\<rparr> in (Ok (key, kdf_nonce kdf'), rng'))
           | (_, rng') \<Rightarrow> (Panic, rng'))
      | _ \<Rightarrow> (Panic, rng))"

definition kdf_restore_key :: "key \<Rightarrow> key_type \<Rightarrow> nat \<Rightarrow> key_id \<Rightarrow> key result" where
  "kdf_restore_key key key_type node_number key_id =
     and_then (kdf_new key_type node_number key_id) (\<lambda>kdf. Ok key)"

section \<open>MasterKey\<close>

abbreviation MAX_USAGES :: nat where "MAX_USAGES \<equiv> 65536"

definition master_key_new :: "openssl \<Rightarrow> nat \<Rightarrow> master_key result \<times> nat" where
  "master_key_new C rng =
     (case kdf_derive_key C key_default KeyMaster 0 rng of (r, rng') \<Rightarrow>
        (and_then r (\<lambda>(key, key_id). Ok \<lparr>mk_key = key, mk_key_id = key_id, mk_count = 0\<rparr>), rng'))"

definition master_key_update ::
  "openssl \<Rightarrow> master_key \<Rightarrow> nat \<Rightarrow> (key \<times> key_id) result \<times> master_key \<times> nat"
where
  "master_key_update C mk rng =
     (if mk_count mk \<ge> MAX_USAGES
      then case master_key_new C rng of
             (Ok mk', rng') \<Rightarrow> (Ok (mk_key mk', mk_key_id mk'), mk', rng')
           | (Err e, rng') \<Rightarrow> (Err e, mk, rng')
           | (Panic, rng') \<Rightarrow> (Panic, mk, rng')
           | (Hang, rng') \<Rightarrow> (Hang, mk, rng')
      else let mk' = mk\<lparr>mk_count := mk_count mk + 1\<rparr>
           in (Ok (mk_key mk', mk_key_id mk'), mk', rng))"

definition master_key_derive_key ::
  "openssl \<Rightarrow> master_key \<Rightarrow> key_type \<Rightarrow> nat \<Rightarrow> nat \<Rightarrow> (key \<times> key_id) result \<times> master_key \<times> nat"
where
  "master_key_derive_key C mk key_type node_number rng =
     (case key_type of
        KeyMaster \<Rightarrow> master_key_update C mk rng
      | KeyRandom \<Rightarrow>
          then_do (master_key_update C mk rng) (\<lambda>(key, _) (mk', rng').
            case kdf_derive_key C key KeyRandom node_number rng' of (r, rng'') \<Rightarrow> (r, mk', rng''))
      | KeyMetadata \<Rightarrow> (Err (error_new Unsupported), mk, rng))"

section \<open>MetadataKey\<close>

definition metadata_key_new :: "key option \<Rightarrow> key_policy option \<Rightarrow> metadata_key result" where
  "metadata_key_new user_key policy = (case user_key of Some k \<Rightarrow> Ok (MkUserKey k) | None \<Rightarrow> Panic)"

fun metadata_key_derive_key ::
  "openssl \<Rightarrow> metadata_key \<Rightarrow> key_type \<Rightarrow> nat \<Rightarrow> (key \<times> key_id) result \<times> nat"
where
  "metadata_key_derive_key C (MkUserKey user_key) key_type rng =
     (if key_type \<noteq> KeyMetadata then (Err (error_new InvalidArgs), rng)
      else kdf_derive_key C user_key KeyMetadata 0 rng)"

fun metadata_key_restore_key :: "metadata_key \<Rightarrow> key_type \<Rightarrow> key_id \<Rightarrow> key result" where
  "metadata_key_restore_key (MkUserKey user_key) key_type key_id =
     (if key_type \<noteq> KeyMetadata then Err (error_new InvalidArgs)
      else kdf_restore_key user_key KeyMetadata 0 key_id)"

section \<open>FsKeyGen\<close>

definition fs_key_gen_new :: "openssl \<Rightarrow> open_mode \<Rightarrow> nat \<Rightarrow> fs_key_gen result \<times> nat" where
  "fs_key_gen_new C mode rng =
     (case mode of
        AutoKey key_policy \<Rightarrow>
          (case metadata_key_new None (Some key_policy) of
             Ok mdk \<Rightarrow> then_do (master_key_new C rng) (\<lambda>mk rng'. (Ok (EncryptWithIntegrity mdk mk), rng'))
           | Err e \<Rightarrow> (Err e, rng) | Panic \<Rightarrow> (Panic, rng) | Hang \<Rightarrow> (Hang, rng))
      | UserKey user_key \<Rightarrow>
          (case metadata_key_new (Some user_key) None of
             Ok mdk \<Rightarrow> then_do (master_key_new C rng) (\<lambda>mk rng'. (Ok (EncryptWithIntegrity mdk mk), rng'))
           | Err e \<Rightarrow> (Err e, rng) | Panic \<Rightarrow> (Panic, rng) | Hang \<Rightarrow> (Hang, rng))
      | IntegrityOnly \<Rightarrow> (Ok KgIntegrityOnly, rng)
      | ImportKey _ key_policy \<Rightarrow>
          (and_then (metadata_key_new None (Some key_policy)) (\<lambda>mdk. Ok (KgImport mdk)), rng)
      | ExportKey \<Rightarrow> (and_then (metadata_key_new None None) (\<lambda>mdk. Ok (KgExport mdk)), rng))"

fun fs_derive_key ::
  "openssl \<Rightarrow> fs_key_gen \<Rightarrow> key_type \<Rightarrow> nat \<Rightarrow> nat \<Rightarrow> (key \<times> key_id) result \<times> fs_key_gen \<times> nat"
where
  "fs_derive_key C (EncryptWithIntegrity mdk mk) key_type node_number rng =
     (case key_type of
        KeyMetadata \<Rightarrow>
          (case metadata_key_derive_key C mdk KeyMetadata rng of (r, rng') \<Rightarrow>
             (r, EncryptWithIntegrity mdk mk, rng'))
      | KeyMaster \<Rightarrow>
          (case master_key_derive_key C mk KeyMaster 0 rng of (r, mk', rng') \<Rightarrow>
             (r, EncryptWithIntegrity mdk mk', rng'))
      | KeyRandom \<Rightarrow>
          (case master_key_derive_key C mk KeyRandom node_number rng of (r, mk', rng') \<Rightarrow>
             (r, EncryptWithIntegrity mdk mk', rng')))"
| "fs_derive_key C KgIntegrityOnly key_type node_number rng =
     (Ok (key_default, key_id_default), KgIntegrityOnly, rng)"
| "fs_derive_key C (KgImport mdk) key_type node_number rng =
     (if key_type \<noteq> KeyMetadata then (Err (error_new InvalidArgs), KgImport mdk, rng)
      else case metadata_key_derive_key C mdk KeyMetadata rng of (r, rng') \<Rightarrow> (r, KgImport mdk, rng'))"
| "fs_derive_key C (KgExport mdk) key_type node_number rng =
     (Err (error_new InvalidArgs), KgExport mdk, rng)"

fun fs_restore_key :: "fs_key_gen \<Rightarrow> key_type \<Rightarrow> key_id \<Rightarrow> key result" where
  "fs_restore_key (EncryptWithIntegrity mdk _) key_type key_id =
     (case key_type of
        KeyMetadata \<Rightarrow> metadata_key_restore_key mdk key_type key_id
      | _ \<Rightarrow> Err (error_new InvalidArgs))"
| "fs_restore_key KgIntegrityOnly key_type key_id = Ok key_default"
| "fs_restore_key (KgImport _) key_type key_id = Err (error_new InvalidArgs)"
| "fs_restore_key (KgExport mdk) key_type key_id =
     (case key_type of
        KeyMetadata \<Rightarrow> metadata_key_restore_key mdk key_type key_id
      | _ \<Rightarrow> Err (error_new InvalidArgs))"

section \<open>Lemmas\<close>

lemma length_ascii [simp]: "length (ascii s) = length s"
  by (simp add: ascii_def)

lemma kdf_new_Ok: "\<exists>kdf. kdf_new kt n nonce = Ok kdf"
  by (cases kt) (simp_all add: kdf_new_def)

lemma kdf_derive_key_Ok:
  assumes "rng_works C"
  obtains nonce where "kdf_derive_key C key kt n rng = (Ok (key, nonce), Suc rng)" "length nonce = 32"
proof -
  obtain kdf where "kdf_new kt n key_id_default = Ok kdf" using kdf_new_Ok by blast
  moreover obtain nonce where "rng_fill_bytes C 32 rng = (Ok nonce, Suc rng)" "length nonce = 32"
    by (rule rng_fill_bytes_Ok [OF assms])
  ultimately show thesis using that by (simp add: kdf_derive_key_def)
qed

lemma kdf_restore_key_eq [simp]: "kdf_restore_key key kt n kid = Ok key"
  using kdf_new_Ok [of kt n kid] by (auto simp: kdf_restore_key_def)

lemma kdf_derive_key_same:
  "kdf_derive_key C key kt n rng = (Ok (key', kid), rng') \<Longrightarrow> key' = key"
  by (auto simp: kdf_derive_key_def split: outcome.splits prod.splits)

definition mk_ok :: "master_key \<Rightarrow> bool" where
  "mk_ok mk \<longleftrightarrow> mk_key mk = key_default \<and> mk_count mk \<le> MAX_USAGES"

lemma master_key_new_Ok:
  assumes "rng_works C"
  obtains mk where "master_key_new C rng = (Ok mk, Suc rng)" "mk_ok mk" "mk_count mk = 0"
proof -
  obtain nonce where "kdf_derive_key C key_default KeyMaster 0 rng = (Ok (key_default, nonce), Suc rng)"
    by (rule kdf_derive_key_Ok [OF assms])
  then show thesis using that by (simp add: master_key_new_def mk_ok_def)
qed

lemma master_key_update_Ok:
  assumes "rng_works C" "mk_ok mk"
  obtains mk' kid rng' where "master_key_update C mk rng = (Ok (key_default, kid), mk', rng')" "mk_ok mk'"
proof (cases "mk_count mk \<ge> MAX_USAGES")
  case True
  obtain mk' where "master_key_new C rng = (Ok mk', Suc rng)" "mk_ok mk'"
    by (rule master_key_new_Ok [OF assms(1)])
  then show thesis using that True by (simp add: master_key_update_def mk_ok_def)
next
  case False
  then show thesis using that assms(2) by (simp add: master_key_update_def mk_ok_def Let_def)
qed

lemma master_key_derive_random:
  assumes "rng_works C" "mk_ok mk"
  obtains mk' kid rng' where "master_key_derive_key C mk KeyRandom n rng = (Ok (key_default, kid), mk', rng')"
    "mk_ok mk'"
proof -
  obtain mk' kid rng' where u: "master_key_update C mk rng = (Ok (key_default, kid), mk', rng')" "mk_ok mk'"
    by (rule master_key_update_Ok [OF assms])
  obtain kid' where "kdf_derive_key C key_default KeyRandom n rng' = (Ok (key_default, kid'), Suc rng')"
    by (rule kdf_derive_key_Ok [OF assms(1)])
  then show thesis using that u by (simp add: master_key_derive_key_def)
qed

text \<open>The generators that occur: those \<open>fs_key_gen_new\<close> returns, with a bounded counter.\<close>

fun kg_ok :: "fs_key_gen \<Rightarrow> bool" where
  "kg_ok (EncryptWithIntegrity _ mk) = mk_ok mk"
| "kg_ok KgIntegrityOnly = True"
| "kg_ok _ = False"

fun kg_metadata_key :: "fs_key_gen \<Rightarrow> key" where
  "kg_metadata_key (EncryptWithIntegrity (MkUserKey k) _) = k"
| "kg_metadata_key _ = key_default"

lemma fs_derive_random_Ok:
  assumes "rng_works C" "kg_ok kg"
  obtains kid kg' rng' where "fs_derive_key C kg KeyRandom n rng = (Ok (key_default, kid), kg', rng')"
    "kg_ok kg'" "kg_metadata_key kg' = kg_metadata_key kg" "(kg' = KgIntegrityOnly) = (kg = KgIntegrityOnly)"
proof (cases kg)
  case (EncryptWithIntegrity mdk mk)
  obtain mk' kid rng' where "master_key_derive_key C mk KeyRandom n rng = (Ok (key_default, kid), mk', rng')"
    "mk_ok mk'"
    by (rule master_key_derive_random [OF assms(1), of mk n rng]) (use assms(2) EncryptWithIntegrity in auto)
  then show thesis using that EncryptWithIntegrity by (cases mdk) simp
qed (use assms that in auto)

lemma fs_derive_metadata_Ok:
  assumes "rng_works C" "kg_ok kg"
  obtains kid rng' where "fs_derive_key C kg KeyMetadata n rng = (Ok (kg_metadata_key kg, kid), kg, rng')"
    "length kid = 32"
proof (cases kg)
  case (EncryptWithIntegrity mdk mk)
  obtain k where mdk: "mdk = MkUserKey k" by (cases mdk)
  obtain kid where "kdf_derive_key C k KeyMetadata 0 rng = (Ok (k, kid), Suc rng)" "length kid = 32"
    by (rule kdf_derive_key_Ok [OF assms(1)])
  then show thesis using that EncryptWithIntegrity mdk by simp
next
  case KgIntegrityOnly
  then show thesis using that by (auto simp: key_id_default_def)
qed (use assms in auto)

lemma fs_restore_metadata: "kg_ok kg \<Longrightarrow> fs_restore_key kg KeyMetadata kid = Ok (kg_metadata_key kg)"
  by (cases kg rule: kg_metadata_key.cases) auto


section \<open>Properties\<close>

text \<open>\<open>n\<close> successive requests of a node key from one generator.\<close>

primrec derive_node_keys :: "openssl \<Rightarrow> fs_key_gen \<Rightarrow> nat list \<Rightarrow> nat \<Rightarrow> key list result \<times> fs_key_gen \<times> nat" where
  "derive_node_keys C kg [] rng = (Ok [], kg, rng)"
| "derive_node_keys C kg (n # ns) rng =
     then_do (fs_derive_key C kg KeyRandom n rng) (\<lambda>(key, _) (kg', rng').
     then_do (derive_node_keys C kg' ns rng') (\<lambda>keys s. (Ok (key # keys), s)))"

lemma derive_node_keys_zero:
  assumes "rng_works C" "kg_ok kg"
  shows "\<exists>s. derive_node_keys C kg ns rng = (Ok (replicate (length ns) key_default), s)"
  using assms(2)
proof (induction ns arbitrary: kg rng)
  case (Cons n ns)
  obtain kid kg' rng' where k: "fs_derive_key C kg KeyRandom n rng = (Ok (key_default, kid), kg', rng')" "kg_ok kg'"
    by (rule fs_derive_random_Ok [OF assms(1) Cons.prems])
  then show ?case using Cons.IH [OF k(2), of rng'] by auto
qed simp

lemma fs_key_gen_new_Ok:
  assumes "rng_works C" "mode = UserKey k \<or> mode = IntegrityOnly"
  obtains kg rng' where "fs_key_gen_new C mode rng = (Ok kg, rng')" "kg_ok kg"
    "kg_metadata_key kg = (if mode = IntegrityOnly then key_default else k)"
proof (cases "mode = IntegrityOnly")
  case True
  then show thesis using that by (simp add: fs_key_gen_new_def)
next
  case False
  obtain mk where "master_key_new C rng = (Ok mk, Suc rng)" "mk_ok mk"
    by (rule master_key_new_Ok [OF assms(1)])
  then show thesis using that False assms(2) by (simp add: fs_key_gen_new_def metadata_key_new_def)
qed

text \<open>C23: Every key the generator of a file opened with a user key derives for a data or MHT node is the
  all-zero key, whatever the user key and however many keys are drawn.\<close>

theorem node_keys_are_all_zero:
  assumes "rng_works C" "fs_key_gen_new C (UserKey k) rng = (Ok kg, rng1)"
  shows "\<exists>s. derive_node_keys C kg ns rng2 = (Ok (replicate (length ns) (zeros 16)), s)"
proof -
  obtain kg' rng' where "fs_key_gen_new C (UserKey k) rng = (Ok kg', rng')" "kg_ok kg'"
    by (rule fs_key_gen_new_Ok [OF assms(1), of "UserKey k" k rng]) auto
  then have "kg_ok kg" using assms(2) by simp
  from derive_node_keys_zero [OF assms(1) this] show ?thesis by (simp add: key_default_def)
qed

theorem node_keys_are_all_zero_witness:
  "\<exists>kg rng1 s. fs_key_gen_new plain_openssl (UserKey (replicate 16 7)) 0 = (Ok kg, rng1) \<and>
     derive_node_keys plain_openssl kg [2, 3] rng1 = (Ok [zeros 16, zeros 16], s)"
proof -
  obtain kg rng1 where k: "fs_key_gen_new plain_openssl (UserKey (replicate 16 7)) 0 = (Ok kg, rng1)"
    by (rule fs_key_gen_new_Ok [of plain_openssl "UserKey (replicate 16 7)" "replicate 16 7" 0]) auto
  from node_keys_are_all_zero [OF plain_openssl_correct(2) k, of "[2, 3]" rng1]
  obtain s where "derive_node_keys plain_openssl kg [2, 3] rng1 = (Ok [zeros 16, zeros 16], s)"
    by (auto simp: numeral_2_eq_2 simp del: derive_node_keys.simps)
  with k show ?thesis by blast
qed



end
