(* ===== verification/Nodes.thy ===== *)
theory Nodes
  imports Host Keys
begin

text \<open>
  \<open>core/src/pfs/sys/node.rs\<close>: the nodes of the Merkle hash tree and the data nodes.

  A \<open>FileNodeRef\<close> (\<open>Arc<RefCell<FileNode>>\<close>) is an address in a heap of nodes, so that a node
  updates the entry of its parent in place.  \<open>FileNode\<close> methods on a node that is not shared
  yet work on the node itself.  Double borrows of a \<open>RefCell\<close> are not modelled.
\<close>

section \<open>Node contents\<close>

record gcm_data =
  gd_key :: key
  gd_mac :: mac

record mht_node =
  mn_data :: "gcm_data list"
  mn_mht :: "gcm_data list"

datatype node_type = NtMht | NtData

datatype node = Mht mht_node | Data bytes

definition gcm_default :: gcm_data where
  "gcm_default = \<lparr>gd_key = zeros 16, gd_mac = zeros 16\<rparr>"

definition mht_default :: mht_node where
  "mht_default = \<lparr>mn_data = replicate ATTACHED_DATA_NODES_COUNT gcm_default,
     mn_mht = replicate CHILD_MHT_NODES_COUNT gcm_default\<rparr>"

fun node_new :: "node_type \<Rightarrow> node" where
  "node_new NtMht = Mht mht_default"
| "node_new NtData = Data (zeros NODE_SIZE)"

fun node_get_gcm_data :: "node \<Rightarrow> node_type \<Rightarrow> nat \<Rightarrow> gcm_data option" where
  "node_get_gcm_data (Mht m) NtMht index = Some (mn_mht m ! index)"
| "node_get_gcm_data (Mht m) NtData index = Some (mn_data m ! index)"
| "node_get_gcm_data (Data _) node_type index = None"

fun node_set_gcm_data :: "node_type \<Rightarrow> nat \<Rightarrow> gcm_data \<Rightarrow> node \<Rightarrow> node" where
  "node_set_gcm_data NtMht index g (Mht m) = Mht (m\<lparr>mn_mht := (mn_mht m)[index := g]\<rparr>)"
| "node_set_gcm_data NtData index g (Mht m) = Mht (m\<lparr>mn_data := (mn_data m)[index := g]\<rparr>)"
| "node_set_gcm_data node_type index g (Data d) = Data d"

text \<open>The memory layout (\<open>repr(C, packed)\<close>) behind \<open>as_ref\<close> and \<open>as_mut\<close>.\<close>

definition gcm_bytes :: "gcm_data \<Rightarrow> bytes" where
  "gcm_bytes g = gd_key g @ gd_mac g"

definition gcm_of_bytes :: "bytes \<Rightarrow> gcm_data" where
  "gcm_of_bytes bs = \<lparr>gd_key = slice 0 16 bs, gd_mac = slice 16 32 bs\<rparr>"

definition mht_bytes :: "mht_node \<Rightarrow> bytes" where
  "mht_bytes m = concat (map gcm_bytes (mn_data m @ mn_mht m))"

definition mht_of_bytes :: "bytes \<Rightarrow> mht_node" where
  "mht_of_bytes bs =
     (let gs = map (\<lambda>i. gcm_of_bytes (slice (i * 32) (Suc i * 32) bs)) [0..<128]
      in \<lparr>mn_data = take 96 gs, mn_mht = drop 96 gs\<rparr>)"

fun node_as_ref :: "node \<Rightarrow> bytes" where
  "node_as_ref (Mht m) = mht_bytes m"
| "node_as_ref (Data d) = d"

fun node_fill :: "node \<Rightarrow> bytes \<Rightarrow> node" where
  "node_fill (Mht _) bs = Mht (mht_of_bytes bs)"
| "node_fill (Data _) bs = Data bs"

section \<open>FileNode\<close>

type_synonym node_ref = nat

record file_node =
  fn_node_type :: node_type
  fn_logic_number :: nat
  fn_need_writing :: bool
  fn_new_node :: bool
  fn_encrypt_flags :: encrypt_flags
  fn_physical_number :: nat
  fn_node_data :: bytes
  fn_plaintext :: node
  fn_parent :: "node_ref option"

record node_heap =
  nodes :: "node_ref \<Rightarrow> file_node"
  next_ref :: node_ref

definition file_node_new :: "node_type \<Rightarrow> nat \<Rightarrow> nat \<Rightarrow> encrypt_flags \<Rightarrow> file_node" where
  "file_node_new node_type logic_number physical_number flags =
     \<lparr>fn_node_type = node_type, fn_logic_number = logic_number, fn_need_writing = False,
      fn_new_node = True, fn_encrypt_flags = flags, fn_physical_number = physical_number,
      fn_node_data = zeros NODE_SIZE, fn_plaintext = node_new node_type, fn_parent = None\<rparr>"

definition file_node_new_root :: "encrypt_flags \<Rightarrow> file_node" where
  "file_node_new_root flags = file_node_new NtMht 0 ROOT_MHT_PHY_NUM flags"

definition build_ref :: "file_node \<Rightarrow> node_heap \<Rightarrow> node_ref \<times> node_heap" where
  "build_ref n h = (next_ref h, h\<lparr>nodes := (nodes h)(next_ref h := n), next_ref := Suc (next_ref h)\<rparr>)"

definition upd_node :: "node_ref \<Rightarrow> (file_node \<Rightarrow> file_node) \<Rightarrow> node_heap \<Rightarrow> node_heap" where
  "upd_node r f h = h\<lparr>nodes := (nodes h)(r := f (nodes h r))\<rparr>"

definition is_mht :: "file_node \<Rightarrow> bool" where
  "is_mht n \<longleftrightarrow> fn_node_type n = NtMht"

definition is_data :: "file_node \<Rightarrow> bool" where
  "is_data n \<longleftrightarrow> fn_node_type n = NtData"

definition is_root_mht :: "file_node \<Rightarrow> bool" where
  "is_root_mht n \<longleftrightarrow> fn_logic_number n = 0 \<and> fn_physical_number n = ROOT_MHT_PHY_NUM"

text \<open>The index of the node in its parent; \<open>logic_number - 1\<close> of an MHT node 0 underflows.\<close>

definition child_index :: "file_node \<Rightarrow> nat result" where
  "child_index n = (case fn_node_type n of
     NtMht \<Rightarrow> (if fn_logic_number n = 0 then Panic
               else Ok ((fn_logic_number n - 1) mod CHILD_MHT_NODES_COUNT))
   | NtData \<Rightarrow> Ok (fn_logic_number n mod ATTACHED_DATA_NODES_COUNT))"

definition gcm_index :: "file_node \<Rightarrow> nat option result" where
  "gcm_index n =
     (if is_root_mht n then Ok None
      else if \<not> fn_physical_number n > ROOT_MHT_PHY_NUM then Panic
      else and_then (child_index n) (\<lambda>i. Ok (Some i)))"

definition get_gcm_data :: "node_heap \<Rightarrow> file_node \<Rightarrow> gcm_data option result" where
  "get_gcm_data h n = (case fn_parent n of
     None \<Rightarrow> Ok None
   | Some p \<Rightarrow> and_then (gcm_index n) (\<lambda>i. case i of
       None \<Rightarrow> Ok None
     | Some index \<Rightarrow> Ok (node_get_gcm_data (fn_plaintext (nodes h p)) (fn_node_type n) index)))"

definition set_gcm_data :: "gcm_data \<Rightarrow> node_ref \<Rightarrow> node_heap \<Rightarrow> unit result \<times> node_heap" where
  "set_gcm_data g r h = (let n = nodes h r in
     case gcm_index n of
       Ok (Some index) \<Rightarrow> (case fn_parent n of
          Some p \<Rightarrow> (Ok (), upd_node p (\<lambda>m. m\<lparr>fn_plaintext := node_set_gcm_data (fn_node_type n) index g (fn_plaintext m)\<rparr>) h)
        | None \<Rightarrow> (Ok (), h))
     | Ok None \<Rightarrow> (Ok (), h)
     | _ \<Rightarrow> (Panic, h))"

text \<open>
  \<open>encrypt\<close> puts the ciphertext into the node and the key with the tag into its parent.
\<close>

definition node_encrypt :: "openssl \<Rightarrow> key \<Rightarrow> node_ref \<Rightarrow> node_heap \<Rightarrow> mac result \<times> node_heap" where
  "node_encrypt C key r h =
     (let n = nodes h r in
      if \<not> is_root_mht n \<and> fn_parent n = None then (Err (error_new Unexpected), h)
      else case aead_encrypt C (node_as_ref (fn_plaintext n)) key iv_zeroed [] (length (fn_node_data n)) of
        Ok (ct, mac) \<Rightarrow>
          (let h1 = upd_node r (\<lambda>n. n\<lparr>fn_node_data := ct\<rparr>) h in
           if is_root_mht n then (Ok mac, h1)
           else case child_index n of
             Ok index \<Rightarrow>
               (Ok mac, upd_node (the (fn_parent n)) (\<lambda>m. m\<lparr>fn_plaintext :=
                  node_set_gcm_data (fn_node_type n) index \<lparr>gd_key = key, gd_mac = mac\<rparr> (fn_plaintext m)\<rparr>) h1)
           | _ \<Rightarrow> (Panic, h1))
      | Err e \<Rightarrow> (Err e, h) | Panic \<Rightarrow> (Panic, h) | Hang \<Rightarrow> (Hang, h))"

definition node_decrypt :: "openssl \<Rightarrow> key \<Rightarrow> mac \<Rightarrow> file_node \<Rightarrow> file_node result" where
  "node_decrypt C key mac n =
     and_then (aead_decrypt C (fn_node_data n) key iv_zeroed [] mac (length (node_as_ref (fn_plaintext n)))) (\<lambda>pt.
       Ok (n\<lparr>fn_plaintext := node_fill (fn_plaintext n) pt\<rparr>))"

definition node_derive_key ::
  "openssl \<Rightarrow> file_node \<Rightarrow> fs_key_gen \<Rightarrow> nat \<Rightarrow> key result \<times> fs_key_gen \<times> nat"
where
  "node_derive_key C n kg rng =
     then_do (fs_derive_key C kg KeyRandom (fn_physical_number n) rng) (\<lambda>(key, _) s. (Ok key, s))"

definition node_read_from_disk ::
  "('s, 'd) env \<Rightarrow> 's \<Rightarrow> 'd block_file \<Rightarrow> file_node \<Rightarrow> file_node result"
where
  "node_read_from_disk E w f n =
     (if fn_physical_number n = 0 then Panic
      else and_then (block_file_read E w f (fn_physical_number n) (fn_node_data n)) (\<lambda>bs.
           Ok (n\<lparr>fn_node_data := bs\<rparr>)))"

definition node_write_to_disk ::
  "('s, 'd) env \<Rightarrow> file_node \<Rightarrow> 's \<times> 'd block_file \<Rightarrow> file_node result \<times> 's \<times> 'd block_file"
where
  "node_write_to_disk E n s =
     (if fn_physical_number n = 0 then (Panic, s)
      else then_do (block_file_write E (fn_physical_number n) (fn_node_data n) s) (\<lambda>_ s.
           (Ok (n\<lparr>fn_need_writing := False, fn_new_node := False\<rparr>), s)))"

definition encrypted_node_bytes :: "nat \<Rightarrow> bytes \<Rightarrow> bytes" where
  "encrypted_node_bytes number data = le_bytes 8 number @ data"

definition node_write_recovery_file ::
  "('s, 'd) env \<Rightarrow> file_node \<Rightarrow> 's \<times> 'd raw_journal \<Rightarrow> unit result \<times> 's \<times> 'd raw_journal"
where
  "node_write_recovery_file E n s =
     (if fn_physical_number n = 0 then (Panic, s)
      else journal_append E (encrypted_node_bytes (fn_physical_number n) (fn_node_data n)) s)"

section \<open>Lemmas\<close>

definition gcm_wf :: "gcm_data \<Rightarrow> bool" where
  "gcm_wf g \<longleftrightarrow> length (gd_key g) = 16 \<and> length (gd_mac g) = 16"

definition mht_wf :: "mht_node \<Rightarrow> bool" where
  "mht_wf m \<longleftrightarrow> length (mn_data m) = 96 \<and> length (mn_mht m) = 32 \<and>
     (\<forall>g \<in> set (mn_data m). gcm_wf g) \<and> (\<forall>g \<in> set (mn_mht m). gcm_wf g)"

fun node_wf :: "node_type \<Rightarrow> node \<Rightarrow> bool" where
  "node_wf NtMht (Mht m) = mht_wf m"
| "node_wf NtData (Data d) = (length d = NODE_SIZE)"
| "node_wf _ _ = False"

lemma gcm_default_wf [simp]: "gcm_wf gcm_default"
  by (simp add: gcm_default_def gcm_wf_def)

lemma mht_default_wf [simp]: "mht_wf mht_default"
  by (simp add: mht_default_def mht_wf_def)

lemma node_new_wf [simp]: "node_wf t (node_new t)"
  by (cases t) simp_all

lemma gcm_roundtrip [simp]: "gcm_wf g \<Longrightarrow> gcm_of_bytes (gcm_bytes g) = g"
  by (cases g) (simp add: gcm_wf_def gcm_of_bytes_def gcm_bytes_def slice_def)

lemma length_gcm_bytes: "gcm_wf g \<Longrightarrow> length (gcm_bytes g) = 32"
  by (simp add: gcm_wf_def gcm_bytes_def)

lemma gcm_of_bytes_wf: "length bs = 32 \<Longrightarrow> gcm_wf (gcm_of_bytes bs)"
  by (simp add: gcm_wf_def gcm_of_bytes_def)

lemma gcm_bytes_of_bytes: "length bs = 32 \<Longrightarrow> gcm_bytes (gcm_of_bytes bs) = bs"
  using slice_split [of 0 16 32 bs] by (simp add: gcm_of_bytes_def gcm_bytes_def slice_0_ge)

lemma length_mht_bytes: "mht_wf m \<Longrightarrow> length (mht_bytes m) = NODE_SIZE"
  unfolding mht_bytes_def
  by (subst length_concat_blocks [where n = 32]) (auto simp: mht_wf_def length_gcm_bytes)

lemma mht_roundtrip [simp]:
  assumes "mht_wf m" shows "mht_of_bytes (mht_bytes m) = m"
proof -
  let ?gs = "mn_data m @ mn_mht m"
  have l: "length ?gs = 128" "\<And>g. g \<in> set ?gs \<Longrightarrow> gcm_wf g" using assms by (auto simp: mht_wf_def)
  have "slice (i * 32) (Suc i * 32) (concat (map gcm_bytes ?gs)) = gcm_bytes (?gs ! i)" if "i < 128" for i
    using that l by (subst slice_concat_blocks [where n = 32]) (auto simp: length_gcm_bytes simp del: map_append)
  then have "map (\<lambda>i. gcm_of_bytes (slice (i * 32) (Suc i * 32) (mht_bytes m))) [0..<128] = map ((!) ?gs) [0..<128]"
    using l(2) nth_mem [of _ ?gs] l(1) by (intro map_cong) (simp_all add: mht_bytes_def del: map_append)
  also have "\<dots> = ?gs" using l(1) map_nth [of ?gs] by simp
  finally show ?thesis using assms
    by (simp add: mht_of_bytes_def Let_def mht_wf_def del: upt_Suc)
qed

lemma mht_of_bytes_wf:
  assumes "length bs = NODE_SIZE" shows "mht_wf (mht_of_bytes bs)"
proof -
  have "gcm_wf (gcm_of_bytes (slice (i * 32) (Suc i * 32) bs))" if "i < 128" for i
  proof -
    have "Suc i * 32 \<le> length bs" using that assms by simp
    then show ?thesis by (intro gcm_of_bytes_wf) simp
  qed
  then have all: "\<forall>g \<in> set (map (\<lambda>i. gcm_of_bytes (slice (i * 32) (Suc i * 32) bs)) [0..<128]). gcm_wf g"
    by (simp only: set_map) auto
  define gs where "gs = map (\<lambda>i. gcm_of_bytes (slice (i * 32) (Suc i * 32) bs)) [0..<128]"
  have "length gs = 128" "\<forall>g \<in> set gs. gcm_wf g" using all by (simp_all add: gs_def)
  then show ?thesis
    unfolding mht_of_bytes_def Let_def mht_wf_def gs_def [symmetric]
    by (auto dest: in_set_takeD in_set_dropD)
qed

lemma mht_bytes_of_bytes:
  assumes "length bs = NODE_SIZE" shows "mht_bytes (mht_of_bytes bs) = bs"
proof -
  have "gcm_bytes (gcm_of_bytes (slice (i * 32) (Suc i * 32) bs)) = slice (i * 32) (Suc i * 32) bs" if "i < 128" for i
  proof -
    have "Suc i * 32 \<le> length bs" using that assms by simp
    then show ?thesis by (intro gcm_bytes_of_bytes) simp
  qed
  then have "mht_bytes (mht_of_bytes bs) = concat (map (\<lambda>i. slice (i * 32) (Suc i * 32) bs) [0..<128])"
    unfolding mht_bytes_def mht_of_bytes_def Let_def mht_node.simps append_take_drop_id map_map
    by (intro arg_cong [where f = concat] map_cong) simp_all
  also have "\<dots> = bs" using assms by (simp only: concat_slices) (simp add: slice_def)
  finally show ?thesis .
qed

lemma length_node_as_ref [simp]: "node_wf t n \<Longrightarrow> length (node_as_ref n) = NODE_SIZE"
  by (cases "(t, n)" rule: node_wf.cases) (auto simp: length_mht_bytes)

lemma node_fill_as_ref [simp]:
  "node_wf t n \<Longrightarrow> node_wf t n' \<Longrightarrow> node_fill n' (node_as_ref n) = n"
  by (cases n; cases n'; cases t) auto

lemma node_fill_wf: "node_wf t n \<Longrightarrow> length bs = NODE_SIZE \<Longrightarrow> node_wf t (node_fill n bs)"
  by (cases n; cases t) (auto simp: mht_of_bytes_wf)

lemma node_as_ref_fill: "length bs = NODE_SIZE \<Longrightarrow> node_as_ref (node_fill n bs) = bs"
  by (cases n) (auto simp: mht_bytes_of_bytes)

lemma node_as_ref_inj: "node_wf t n \<Longrightarrow> node_wf t n' \<Longrightarrow> node_as_ref n = node_as_ref n' \<longleftrightarrow> n = n'"
  by (metis node_fill_as_ref)

lemma node_set_gcm_wf:
  assumes "node_wf t n" "gcm_wf g"
  shows "node_wf t (node_set_gcm_data nt i g n)"
  using assms by (cases n; cases t; cases nt) (auto simp: mht_wf_def dest: subsetD [OF set_update_subset_insert])

lemma node_get_set_gcm:
  assumes "node_wf NtMht n" "i < (case nt of NtMht \<Rightarrow> 32 | NtData \<Rightarrow> 96)"
  shows "node_get_gcm_data (node_set_gcm_data nt i g n) nt j =
    (if i = j then Some g else node_get_gcm_data n nt j)"
  using assms by (cases n; cases nt) (auto simp: mht_wf_def nth_list_update)

lemma node_get_set_gcm_other:
  "nt \<noteq> nt' \<Longrightarrow> node_get_gcm_data (node_set_gcm_data nt i g n) nt' j = node_get_gcm_data n nt' j"
  by (cases n; cases nt; cases nt') auto


text \<open>\<open>sealed C key mac n ct\<close>: the ciphertext and tag are those of the node under the key.\<close>

definition sealed :: "openssl \<Rightarrow> key \<Rightarrow> mac \<Rightarrow> node \<Rightarrow> bytes \<Rightarrow> bool" where
  "sealed C key mac n ct \<longleftrightarrow> ossl_encrypt_aead C key iv_zeroed [] (node_as_ref n) = Some (ct, mac)"

definition fn_wf :: "file_node \<Rightarrow> bool" where
  "fn_wf n \<longleftrightarrow> node_wf (fn_node_type n) (fn_plaintext n) \<and> length (fn_node_data n) = NODE_SIZE"

lemma file_node_new_wf [simp]: "fn_wf (file_node_new t l p f)"
  by (simp add: fn_wf_def file_node_new_def)

lemma fn_wf_upd [simp]:
  "fn_wf n \<Longrightarrow> length ct = NODE_SIZE \<Longrightarrow> fn_wf (n\<lparr>fn_node_data := ct\<rparr>)"
  "fn_wf n \<Longrightarrow> node_wf (fn_node_type n) pt \<Longrightarrow> fn_wf (n\<lparr>fn_plaintext := pt\<rparr>)"
  "fn_wf (n\<lparr>fn_need_writing := b\<rparr>) = fn_wf n" "fn_wf (n\<lparr>fn_new_node := b\<rparr>) = fn_wf n"
  "fn_wf (n\<lparr>fn_parent := q\<rparr>) = fn_wf n" "fn_wf (n\<lparr>fn_encrypt_flags := f\<rparr>) = fn_wf n"
  by (simp_all add: fn_wf_def)

lemma fn_wfD [simp]:
  "fn_wf n \<Longrightarrow> length (node_as_ref (fn_plaintext n)) = NODE_SIZE"
  "fn_wf n \<Longrightarrow> length (fn_node_data n) = NODE_SIZE"
  "fn_wf n \<Longrightarrow> node_wf (fn_node_type n) (fn_plaintext n)"
  by (auto simp: fn_wf_def)

lemma node_number_upd [simp]:
  "child_index (n\<lparr>fn_node_data := ct\<rparr>) = child_index n" "is_root_mht (n\<lparr>fn_node_data := ct\<rparr>) = is_root_mht n"
  "child_index (n\<lparr>fn_plaintext := pt\<rparr>) = child_index n" "is_root_mht (n\<lparr>fn_plaintext := pt\<rparr>) = is_root_mht n"
  "child_index (n\<lparr>fn_need_writing := b\<rparr>) = child_index n" "is_root_mht (n\<lparr>fn_need_writing := b\<rparr>) = is_root_mht n"
  "child_index (n\<lparr>fn_parent := q\<rparr>) = child_index n" "is_root_mht (n\<lparr>fn_parent := q\<rparr>) = is_root_mht n"
  by (simp_all add: child_index_def is_root_mht_def split: node_type.split)

lemma file_node_new_simps [simp]:
  "fn_node_type (file_node_new t l p f) = t" "fn_logic_number (file_node_new t l p f) = l"
  "fn_physical_number (file_node_new t l p f) = p" "fn_need_writing (file_node_new t l p f) = False"
  "fn_new_node (file_node_new t l p f) = True" "fn_parent (file_node_new t l p f) = None"
  "fn_plaintext (file_node_new t l p f) = node_new t" "fn_node_data (file_node_new t l p f) = zeros NODE_SIZE"
  "fn_encrypt_flags (file_node_new t l p f) = f"
  by (simp_all add: file_node_new_def)

lemma nodes_upd_node [simp]: "nodes (upd_node r f h) = (nodes h)(r := f (nodes h r))"
  by (simp add: upd_node_def)

lemma next_ref_upd_node [simp]: "next_ref (upd_node r f h) = next_ref h"
  by (simp add: upd_node_def)

lemma child_index_Ok:
  "fn_node_type n = NtData \<Longrightarrow> child_index n = Ok (fn_logic_number n mod 96)"
  "fn_node_type n = NtMht \<Longrightarrow> 0 < fn_logic_number n \<Longrightarrow> child_index n = Ok ((fn_logic_number n - 1) mod 32)"
  by (simp_all add: child_index_def)

lemma child_index_bound:
  "child_index n = Ok i \<Longrightarrow> i < (case fn_node_type n of NtMht \<Rightarrow> 32 | NtData \<Rightarrow> 96)"
  by (auto simp: child_index_def split: node_type.splits if_splits)

lemma node_encrypt_child:
  assumes C: "aead_correct C" and n: "\<not> is_root_mht (nodes h r)" "fn_parent (nodes h r) = Some p"
    "fn_wf (nodes h r)" "child_index (nodes h r) = Ok i"
  obtains ct mac where
    "node_encrypt C key r h = (Ok mac,
       upd_node p (\<lambda>m. m\<lparr>fn_plaintext := node_set_gcm_data (fn_node_type (nodes h r)) i
           \<lparr>gd_key = key, gd_mac = mac\<rparr> (fn_plaintext m)\<rparr>)
         (upd_node r (\<lambda>n. n\<lparr>fn_node_data := ct\<rparr>) h))"
    "sealed C key mac (fn_plaintext (nodes h r)) ct" "length ct = NODE_SIZE" "length mac = 16"
proof -
  have len: "length (fn_node_data (nodes h r)) = length (node_as_ref (fn_plaintext (nodes h r)))"
    using n(3) by simp
  obtain ct mac where e: "aead_encrypt C (node_as_ref (fn_plaintext (nodes h r))) key iv_zeroed []
      (length (fn_node_data (nodes h r))) = Ok (ct, mac)"
    "length ct = length (node_as_ref (fn_plaintext (nodes h r)))" "length mac = 16"
    "ossl_encrypt_aead C key iv_zeroed [] (node_as_ref (fn_plaintext (nodes h r))) = Some (ct, mac)"
    by (rule aead_encrypt_Ok [OF C len])
  show thesis
    by (rule that [of mac ct]) (use e n len in \<open>simp_all add: node_encrypt_def Let_def sealed_def\<close>)
qed

lemma node_encrypt_root:
  assumes C: "aead_correct C" and n: "is_root_mht (nodes h r)" "fn_wf (nodes h r)"
  obtains ct mac where "node_encrypt C key r h = (Ok mac, upd_node r (\<lambda>n. n\<lparr>fn_node_data := ct\<rparr>) h)"
    "sealed C key mac (fn_plaintext (nodes h r)) ct" "length ct = NODE_SIZE" "length mac = 16"
proof -
  have len: "length (fn_node_data (nodes h r)) = length (node_as_ref (fn_plaintext (nodes h r)))"
    using n(2) by simp
  obtain ct mac where e: "aead_encrypt C (node_as_ref (fn_plaintext (nodes h r))) key iv_zeroed []
      (length (fn_node_data (nodes h r))) = Ok (ct, mac)"
    "length ct = length (node_as_ref (fn_plaintext (nodes h r)))" "length mac = 16"
    "ossl_encrypt_aead C key iv_zeroed [] (node_as_ref (fn_plaintext (nodes h r))) = Some (ct, mac)"
    by (rule aead_encrypt_Ok [OF C len])
  show thesis
    by (rule that [of mac ct]) (use e n len in \<open>simp_all add: node_encrypt_def Let_def sealed_def\<close>)
qed

lemma node_decrypt_sealed:
  assumes C: "aead_correct C" and n: "fn_wf n" "node_wf (fn_node_type n) pt" "sealed C key mac pt (fn_node_data n)"
  shows "node_decrypt C key mac n = Ok (n\<lparr>fn_plaintext := pt\<rparr>)"
proof -
  have "aead_decrypt C (fn_node_data n) key iv_zeroed [] mac (length (fn_node_data n)) = Ok (node_as_ref pt)"
    using aead_decrypt_iff [OF C] n(3) by (simp add: sealed_def)
  then show ?thesis using n by (simp add: node_decrypt_def)
qed

lemma node_decrypt_Ok_sealed:
  assumes C: "aead_correct C" and n: "fn_wf n" and d: "node_decrypt C key mac n = Ok n'"
  shows "\<exists>pt. n' = n\<lparr>fn_plaintext := pt\<rparr> \<and> node_wf (fn_node_type n) pt \<and> sealed C key mac pt (fn_node_data n)"
proof -
  have len: "length (node_as_ref (fn_plaintext n)) = length (fn_node_data n)" using n by simp
  obtain bs where bs: "aead_decrypt C (fn_node_data n) key iv_zeroed [] mac (length (fn_node_data n)) = Ok bs"
    "n' = n\<lparr>fn_plaintext := node_fill (fn_plaintext n) bs\<rparr>"
    using d by (auto simp: node_decrypt_def len outcome_simps)
  have e: "ossl_encrypt_aead C key iv_zeroed [] bs = Some (fn_node_data n, mac)"
    using bs(1) aead_decrypt_iff [OF C] by simp
  have l: "length bs = NODE_SIZE" using aead_encrypt_length(1) [OF C e] n by simp
  show ?thesis
    using bs(2) e l n node_fill_wf [of "fn_node_type n" "fn_plaintext n" bs]
    by (intro exI [of _ "node_fill (fn_plaintext n) bs"]) (simp add: sealed_def node_as_ref_fill)
qed

section \<open>Properties\<close>

text \<open>C11: Encrypting a node links it into the tree: the parent's entry for the node then holds the key
  and tag under which the new ciphertext decrypts to exactly the node's plaintext, and the
  entries of all other children of the parent are unchanged.\<close>

theorem node_encrypt_links_parent:
  assumes C: "aead_correct C" and n: "\<not> is_root_mht (nodes h r)" "fn_parent (nodes h r) = Some p" "p \<noteq> r"
    "fn_wf (nodes h r)" "fn_physical_number (nodes h r) > ROOT_MHT_PHY_NUM" "child_index (nodes h r) = Ok i"
    and m: "node_wf NtMht (fn_plaintext (nodes h p))" and k: "length key = 16"
  shows "\<exists>mac h' g. node_encrypt C key r h = (Ok mac, h') \<and>
    get_gcm_data h' (nodes h' r) = Ok (Some g) \<and> gd_key g = key \<and> gd_mac g = mac \<and>
    node_decrypt C (gd_key g) (gd_mac g) (nodes h' r) = Ok (nodes h' r) \<and>
    fn_plaintext (nodes h' r) = fn_plaintext (nodes h r) \<and>
    (\<forall>t j. (t, j) \<noteq> (fn_node_type (nodes h r), i) \<longrightarrow>
       node_get_gcm_data (fn_plaintext (nodes h' p)) t j = node_get_gcm_data (fn_plaintext (nodes h p)) t j)"
proof -
  let ?t = "fn_node_type (nodes h r)"
  obtain ct mac where e0: "node_encrypt C key r h = (Ok mac,
       upd_node p (\<lambda>m. m\<lparr>fn_plaintext := node_set_gcm_data ?t i \<lparr>gd_key = key, gd_mac = mac\<rparr> (fn_plaintext m)\<rparr>)
         (upd_node r (\<lambda>n. n\<lparr>fn_node_data := ct\<rparr>) h))"
    and s: "sealed C key mac (fn_plaintext (nodes h r)) ct" "length ct = NODE_SIZE"
    by (rule node_encrypt_child [OF C n(1,2,4,6)])
  obtain h' where e: "node_encrypt C key r h = (Ok mac, h')"
    and r': "nodes h' r = (nodes h r)\<lparr>fn_node_data := ct\<rparr>"
    and p': "fn_plaintext (nodes h' p) = node_set_gcm_data ?t i \<lparr>gd_key = key, gd_mac = mac\<rparr> (fn_plaintext (nodes h p))"
    using e0 n(3) by simp
  have wf: "fn_wf (nodes h' r)" unfolding r' using n(4) s(2) by simp
  have "gcm_index (nodes h' r) = Ok (Some i)" unfolding r' using n(1,5,6) by (simp add: gcm_index_def)
  then have g: "get_gcm_data h' (nodes h' r) = Ok (Some \<lparr>gd_key = key, gd_mac = mac\<rparr>)"
    using n(2) p' node_get_set_gcm [OF m child_index_bound [OF n(6)]]
    by (simp add: get_gcm_data_def r')
  have d: "node_decrypt C key mac (nodes h' r) = Ok (nodes h' r)"
    using node_decrypt_sealed [OF C wf, of "fn_plaintext (nodes h r)" key mac] n(4) s(1)
    by (simp add: r')
  have "node_get_gcm_data (fn_plaintext (nodes h' p)) t j = node_get_gcm_data (fn_plaintext (nodes h p)) t j"
    if "(t, j) \<noteq> (?t, i)" for t j
    using that p' node_get_set_gcm [OF m child_index_bound [OF n(6)]] node_get_set_gcm_other
    by (cases "t = ?t") auto
  then show ?thesis using e g d by (intro exI [of _ mac] exI [of _ h'] exI [of _ "\<lparr>gd_key = key, gd_mac = mac\<rparr>"]) (simp add: r')
qed


theorem node_encrypt_links_parent_witness:
  "\<exists>mac h' g. node_encrypt plain_openssl (zeros 16) 1
      \<lparr>nodes = (\<lambda>r. if r = 0 then file_node_new_root EF_UserKey
                     else (file_node_new NtData 0 2 EF_UserKey)\<lparr>fn_parent := Some 0\<rparr>), next_ref = 2\<rparr> = (Ok mac, h') \<and>
    get_gcm_data h' (nodes h' 1) = Ok (Some g) \<and> gd_mac g = mac"
  using node_encrypt_links_parent [OF plain_openssl_correct(1),
      of "\<lparr>nodes = (\<lambda>r. if r = 0 then file_node_new_root EF_UserKey
            else (file_node_new NtData 0 2 EF_UserKey)\<lparr>fn_parent := Some 0\<rparr>), next_ref = 2\<rparr>" 1 0 0 "zeros 16"]
  by (auto simp: is_root_mht_def child_index_def file_node_new_root_def)

end
