(* ===== verification/Metadata.thy ===== *)
theory Metadata
  imports Nodes
begin

text \<open>
  \<open>core/src/pfs/sys/metadata.rs\<close>: the metadata node of a protected file.  A plain header is
  followed by the encrypted part, which holds the file name, the size, the key and tag of
  the root of the hash tree and the first 3072 bytes of the file.  The byte layouts are
  those of the \<open>repr(C)\<close> structures; file names are UTF-8 byte strings.
\<close>

definition SGX_FILE_ID :: nat where
  "SGX_FILE_ID = 0x5347585F46494C45"

abbreviation (input) SGX_FILE_MAJOR_VERSION :: byte where "SGX_FILE_MAJOR_VERSION \<equiv> 0x01"
abbreviation (input) SGX_FILE_MINOR_VERSION :: byte where "SGX_FILE_MINOR_VERSION \<equiv> 0x00"
abbreviation FILENAME_MAX_LEN :: nat where "FILENAME_MAX_LEN \<equiv> 260"
abbreviation FULLNAME_MAX_LEN :: nat where "FULLNAME_MAX_LEN \<equiv> 772"
abbreviation METADATA_ENCRYPTED :: nat where "METADATA_ENCRYPTED \<equiv> 3372"
abbreviation METADATA_PADDING :: nat where "METADATA_PADDING \<equiv> 628"

section \<open>The structures\<close>

record metadata_plain =
  mp_file_id :: nat
  mp_major_version :: byte
  mp_minor_version :: byte
  mp_encrypt_flags :: encrypt_flags
  mp_update_flag :: byte
  mp_key_policy :: key_policy
  mp_isv_svn :: nat
  mp_key_id :: key_id
  mp_cpu_svn :: bytes
  mp_attribute_mask :: bytes
  mp_gmac :: mac

record metadata_encrypted =
  me_file_name :: bytes
  me_size :: nat
  me_mht_key :: key
  me_mht_gmac :: mac
  me_data :: bytes

record metadata_info =
  mi_node_number :: nat
  mi_plain :: metadata_plain
  mi_ciphertext :: bytes
  mi_padding :: bytes
  mi_enc :: metadata_encrypted

definition metadata_plain_default :: metadata_plain where
  "metadata_plain_default = \<lparr>mp_file_id = 0, mp_major_version = 0, mp_minor_version = 0,
     mp_encrypt_flags = EF_AutoKey, mp_update_flag = 0, mp_key_policy = 0, mp_isv_svn = 0,
     mp_key_id = key_id_default, mp_cpu_svn = zeros 16, mp_attribute_mask = zeros 16,
     mp_gmac = zeros 16\<rparr>"

definition metadata_plain_new :: metadata_plain where
  "metadata_plain_new = metadata_plain_default\<lparr>mp_file_id := SGX_FILE_ID,
     mp_major_version := SGX_FILE_MAJOR_VERSION, mp_minor_version := SGX_FILE_MINOR_VERSION\<rparr>"

definition metadata_encrypted_default :: metadata_encrypted where
  "metadata_encrypted_default = \<lparr>me_file_name = zeros FILENAME_MAX_LEN, me_size = 0,
     me_mht_key = zeros 16, me_mht_gmac = zeros 16, me_data = zeros MD_USER_DATA_SIZE\<rparr>"

definition metadata_info_new :: metadata_info where
  "metadata_info_new = \<lparr>mi_node_number = META_DATA_PHY_NUM, mi_plain = metadata_plain_new,
     mi_ciphertext = zeros METADATA_ENCRYPTED, mi_padding = zeros METADATA_PADDING,
     mi_enc = metadata_encrypted_default\<rparr>"

definition metadata_info_default :: metadata_info where
  "metadata_info_default = \<lparr>mi_node_number = 0, mi_plain = metadata_plain_default,
     mi_ciphertext = zeros METADATA_ENCRYPTED, mi_padding = zeros METADATA_PADDING,
     mi_enc = metadata_encrypted_default\<rparr>"

section \<open>Byte layouts\<close>

definition policy_bytes :: "key_policy \<Rightarrow> bytes" where
  "policy_bytes p = le_bytes 2 (unat p)"

definition plain_bytes :: "metadata_plain \<Rightarrow> bytes" where
  "plain_bytes p = le_bytes 8 (mp_file_id p) @ [mp_major_version p, mp_minor_version p,
     encrypt_flags_byte (mp_encrypt_flags p), mp_update_flag p] @ policy_bytes (mp_key_policy p) @
     le_bytes 2 (mp_isv_svn p) @ mp_key_id p @ mp_cpu_svn p @ mp_attribute_mask p @ mp_gmac p"

definition plain_of_bytes :: "bytes \<Rightarrow> metadata_plain" where
  "plain_of_bytes bs = \<lparr>mp_file_id = le_val (slice 0 8 bs), mp_major_version = bs ! 8,
     mp_minor_version = bs ! 9, mp_encrypt_flags = encrypt_flags_of_byte (bs ! 10),
     mp_update_flag = bs ! 11, mp_key_policy = word_of_nat (le_val (slice 12 14 bs)),
     mp_isv_svn = le_val (slice 14 16 bs), mp_key_id = slice 16 48 bs, mp_cpu_svn = slice 48 64 bs,
     mp_attribute_mask = slice 64 80 bs, mp_gmac = slice 80 96 bs\<rparr>"

definition enc_bytes :: "metadata_encrypted \<Rightarrow> bytes" where
  "enc_bytes e = me_file_name e @ le_bytes 8 (me_size e) @ me_mht_key e @ me_mht_gmac e @ me_data e"

definition enc_of_bytes :: "bytes \<Rightarrow> metadata_encrypted" where
  "enc_of_bytes bs = \<lparr>me_file_name = slice 0 260 bs, me_size = le_val (slice 260 268 bs),
     me_mht_key = slice 268 284 bs, me_mht_gmac = slice 284 300 bs, me_data = slice 300 3372 bs\<rparr>"

definition metadata_bytes :: "metadata_info \<Rightarrow> bytes" where
  "metadata_bytes m = plain_bytes (mi_plain m) @ mi_ciphertext m @ mi_padding m"

definition metadata_fill :: "bytes \<Rightarrow> metadata_info \<Rightarrow> metadata_info" where
  "metadata_fill bs m = m\<lparr>mi_plain := plain_of_bytes (slice 0 96 bs),
     mi_ciphertext := slice 96 3468 bs, mi_padding := slice 3468 4096 bs\<rparr>"

section \<open>File names\<close>

text \<open>\<open>CStr::to_str\<close> accepts well-formed UTF-8 only.\<close>

definition utf8_tail :: "byte \<Rightarrow> bool" where
  "utf8_tail b \<longleftrightarrow> 0x80 \<le> b \<and> b \<le> 0xBF"

fun utf8_valid :: "bytes \<Rightarrow> bool" where
  "utf8_valid [] = True"
| "utf8_valid (a # bs) =
     (if a \<le> 0x7F then utf8_valid bs
      else case bs of
        [] \<Rightarrow> False
      | b # bs1 \<Rightarrow>
          if 0xC2 \<le> a \<and> a \<le> 0xDF then utf8_tail b \<and> utf8_valid bs1
          else case bs1 of
            [] \<Rightarrow> False
          | c # bs2 \<Rightarrow>
              if 0xE0 \<le> a \<and> a \<le> 0xEF
              then (if a = 0xE0 then 0xA0 \<le> b \<and> b \<le> 0xBF
                    else if a = 0xED then 0x80 \<le> b \<and> b \<le> 0x9F else utf8_tail b) \<and>
                   utf8_tail c \<and> utf8_valid bs2
              else case bs2 of
                [] \<Rightarrow> False
              | d # bs3 \<Rightarrow>
                  if 0xF0 \<le> a \<and> a \<le> 0xF4
                  then (if a = 0xF0 then 0x90 \<le> b \<and> b \<le> 0xBF
                        else if a = 0xF4 then 0x80 \<le> b \<and> b \<le> 0x8F else utf8_tail b) \<and>
                       utf8_tail c \<and> utf8_tail d \<and> utf8_valid bs3
                  else False)"

definition metadata_file_name :: "metadata_info \<Rightarrow> bytes result" where
  "metadata_file_name m =
     (let name = takeWhile (\<lambda>b. b \<noteq> 0) (me_file_name (mi_enc m))
      in if length name = length (me_file_name (mi_enc m)) then Err (error_new Unexpected)
         else if \<not> utf8_valid name then Err (error_new Unexpected)
         else Ok name)"

section \<open>Operations\<close>

definition metadata_encrypt_flags :: "metadata_info \<Rightarrow> encrypt_flags" where
  "metadata_encrypt_flags m = mp_encrypt_flags (mi_plain m)"

definition metadata_set_encrypt_flags :: "encrypt_flags \<Rightarrow> metadata_info \<Rightarrow> metadata_info" where
  "metadata_set_encrypt_flags flags m = m\<lparr>mi_plain := (mi_plain m)\<lparr>mp_encrypt_flags := flags\<rparr>\<rparr>"

definition metadata_set_key_policy :: "key_policy \<Rightarrow> metadata_info \<Rightarrow> metadata_info" where
  "metadata_set_key_policy policy m = m\<lparr>mi_plain := (mi_plain m)\<lparr>mp_key_policy := policy\<rparr>\<rparr>"

definition metadata_update_flag :: "metadata_info \<Rightarrow> bool" where
  "metadata_update_flag m \<longleftrightarrow> mp_update_flag (mi_plain m) \<noteq> 0"

definition metadata_set_update_flag :: "byte \<Rightarrow> metadata_info \<Rightarrow> metadata_info" where
  "metadata_set_update_flag flag m = m\<lparr>mi_plain := (mi_plain m)\<lparr>mp_update_flag := flag\<rparr>\<rparr>"

text \<open>The result of the cipher is unwrapped: a failure panics.\<close>

definition metadata_encrypt :: "openssl \<Rightarrow> key \<Rightarrow> metadata_info \<Rightarrow> metadata_info result" where
  "metadata_encrypt C key m =
     and_then (unwrap (aead_encrypt C (enc_bytes (mi_enc m)) key iv_zeroed [] (length (mi_ciphertext m)))) (\<lambda>(ct, mac).
       Ok (m\<lparr>mi_ciphertext := ct, mi_plain := (mi_plain m)\<lparr>mp_gmac := mac\<rparr>\<rparr>))"

definition metadata_decrypt :: "openssl \<Rightarrow> key \<Rightarrow> metadata_info \<Rightarrow> metadata_info result" where
  "metadata_decrypt C key m =
     and_then (unwrap (aead_decrypt C (mi_ciphertext m) key iv_zeroed [] (mp_gmac (mi_plain m))
                        (length (enc_bytes (mi_enc m))))) (\<lambda>pt.
       Ok (m\<lparr>mi_enc := enc_of_bytes pt\<rparr>))"

text \<open>Automatic keys need the \<open>tfs\<close> feature, which is off.\<close>

definition metadata_derive_key ::
  "openssl \<Rightarrow> fs_key_gen \<Rightarrow> metadata_info \<Rightarrow> nat \<Rightarrow> (key \<times> metadata_info) result \<times> fs_key_gen \<times> nat"
where
  "metadata_derive_key C kg m rng =
     then_do (fs_derive_key C kg KeyMetadata 0 rng) (\<lambda>(key, key_id) s.
       case metadata_encrypt_flags m of
         EF_AutoKey \<Rightarrow> (Err (error_new Unsupported), s)
       | EF_UserKey \<Rightarrow> (Ok (key, m\<lparr>mi_plain := (mi_plain m)\<lparr>mp_key_id := key_id\<rparr>\<rparr>), s)
       | EF_IntegrityOnly \<Rightarrow> (Ok (key, m), s)
       | EF_Invalid _ \<Rightarrow> (Panic, s))"

definition metadata_restore_key :: "fs_key_gen \<Rightarrow> metadata_info \<Rightarrow> key result" where
  "metadata_restore_key kg m =
     (case metadata_encrypt_flags m of
        EF_AutoKey \<Rightarrow> Err (error_new Unsupported)
      | EF_UserKey \<Rightarrow> fs_restore_key kg KeyMetadata (mp_key_id (mi_plain m))
      | EF_IntegrityOnly \<Rightarrow> fs_restore_key kg KeyMetadata (mp_key_id (mi_plain m))
      | EF_Invalid _ \<Rightarrow> Panic)"

definition metadata_read_from_disk ::
  "('s, 'd) env \<Rightarrow> 's \<Rightarrow> 'd block_file \<Rightarrow> metadata_info \<Rightarrow> metadata_info result"
where
  "metadata_read_from_disk E w f m =
     and_then (block_file_read E w f META_DATA_PHY_NUM (metadata_bytes m)) (\<lambda>bs. Ok (metadata_fill bs m))"

definition metadata_write_to_disk ::
  "('s, 'd) env \<Rightarrow> metadata_info \<Rightarrow> 's \<times> 'd block_file \<Rightarrow> unit result \<times> 's \<times> 'd block_file"
where
  "metadata_write_to_disk E m s = block_file_write E META_DATA_PHY_NUM (metadata_bytes m) s"

definition metadata_write_recovery_file ::
  "('s, 'd) env \<Rightarrow> metadata_info \<Rightarrow> 's \<times> 'd raw_journal \<Rightarrow> unit result \<times> 's \<times> 'd raw_journal"
where
  "metadata_write_recovery_file E m s =
     journal_append E (encrypted_node_bytes (mi_node_number m) (metadata_bytes m)) s"


declare utf8_valid.simps(2) [simp del]

section \<open>Lemmas\<close>

definition plain_wf :: "metadata_plain \<Rightarrow> bool" where
  "plain_wf p \<longleftrightarrow> mp_file_id p < 2 ^ 64 \<and> mp_isv_svn p < 2 ^ 16 \<and> length (mp_key_id p) = 32 \<and>
     length (mp_cpu_svn p) = 16 \<and> length (mp_attribute_mask p) = 16 \<and> length (mp_gmac p) = 16 \<and>
     encrypt_flags_of_byte (encrypt_flags_byte (mp_encrypt_flags p)) = mp_encrypt_flags p"

definition enc_wf :: "metadata_encrypted \<Rightarrow> bool" where
  "enc_wf e \<longleftrightarrow> length (me_file_name e) = FILENAME_MAX_LEN \<and> me_size e < 2 ^ 64 \<and>
     length (me_mht_key e) = 16 \<and> length (me_mht_gmac e) = 16 \<and> length (me_data e) = MD_USER_DATA_SIZE"

definition meta_wf :: "metadata_info \<Rightarrow> bool" where
  "meta_wf m \<longleftrightarrow> plain_wf (mi_plain m) \<and> enc_wf (mi_enc m) \<and>
     length (mi_ciphertext m) = METADATA_ENCRYPTED \<and> length (mi_padding m) = METADATA_PADDING \<and>
     mi_node_number m = 0"

lemma policy_roundtrip: "word_of_nat (le_val (policy_bytes p)) = p"
proof -
  have "unat p < 256 ^ 2" using unsigned_less [of p, where 'a = nat] by simp
  then show ?thesis by (simp add: policy_bytes_def)
qed

lemma length_policy_bytes [simp]: "length (policy_bytes p) = 2"
  by (simp add: policy_bytes_def)

lemma length_plain_bytes: "plain_wf p \<Longrightarrow> length (plain_bytes p) = 96"
  by (simp add: plain_wf_def plain_bytes_def)

lemma plain_roundtrip:
  assumes "plain_wf p" shows "plain_of_bytes (plain_bytes p) = p"
proof -
  let ?b = "plain_bytes p"
  have "slice 0 8 ?b = le_bytes 8 (mp_file_id p)" "slice 12 14 ?b = policy_bytes (mp_key_policy p)"
    "slice 14 16 ?b = le_bytes 2 (mp_isv_svn p)" "slice 16 48 ?b = mp_key_id p"
    "slice 48 64 ?b = mp_cpu_svn p" "slice 64 80 ?b = mp_attribute_mask p" "slice 80 96 ?b = mp_gmac p"
    using assms by (simp_all add: plain_bytes_def plain_wf_def slice_def)
  moreover have "?b ! 8 = mp_major_version p" "?b ! 9 = mp_minor_version p"
    "?b ! 10 = encrypt_flags_byte (mp_encrypt_flags p)" "?b ! 11 = mp_update_flag p"
    by (simp_all add: plain_bytes_def nth_append)
  moreover have "mp_file_id p < 256 ^ 8" "mp_isv_svn p < 256 ^ 2" using assms by (simp_all add: plain_wf_def)
  ultimately show ?thesis using assms by (simp add: plain_of_bytes_def policy_roundtrip plain_wf_def)
qed

lemma length_enc_bytes: "enc_wf e \<Longrightarrow> length (enc_bytes e) = METADATA_ENCRYPTED"
  by (simp add: enc_wf_def enc_bytes_def)

lemma enc_roundtrip:
  assumes "enc_wf e" shows "enc_of_bytes (enc_bytes e) = e"
proof -
  let ?b = "enc_bytes e"
  have "slice 0 260 ?b = me_file_name e" "slice 260 268 ?b = le_bytes 8 (me_size e)"
    "slice 268 284 ?b = me_mht_key e" "slice 284 300 ?b = me_mht_gmac e" "slice 300 3372 ?b = me_data e"
    using assms by (simp_all add: enc_bytes_def enc_wf_def slice_def)
  moreover have "me_size e < 256 ^ 8" using assms by (simp add: enc_wf_def)
  ultimately show ?thesis by (simp add: enc_of_bytes_def)
qed

lemma length_metadata_bytes: "meta_wf m \<Longrightarrow> length (metadata_bytes m) = NODE_SIZE"
  by (simp add: meta_wf_def metadata_bytes_def length_plain_bytes)

lemma metadata_fill_bytes:
  assumes "meta_wf m"
  shows "metadata_fill (metadata_bytes m) m0 =
    m0\<lparr>mi_plain := mi_plain m, mi_ciphertext := mi_ciphertext m, mi_padding := mi_padding m\<rparr>"
proof -
  have l: "length (plain_bytes (mi_plain m)) = 96" "length (mi_ciphertext m) = 3372" "length (mi_padding m) = 628"
    using assms by (auto simp: meta_wf_def length_plain_bytes)
  have "slice 0 96 (metadata_bytes m) = plain_bytes (mi_plain m)"
    "slice 96 3468 (metadata_bytes m) = mi_ciphertext m" "slice 3468 4096 (metadata_bytes m) = mi_padding m"
    using l by (simp_all add: metadata_bytes_def slice_def)
  then show ?thesis using assms by (simp add: metadata_fill_def plain_roundtrip meta_wf_def)
qed

lemma metadata_info_new_wf [simp]: "meta_wf metadata_info_new" "meta_wf metadata_info_default"
  by (simp_all add: meta_wf_def metadata_info_new_def metadata_info_default_def metadata_plain_new_def
      metadata_plain_default_def plain_wf_def enc_wf_def metadata_encrypted_default_def SGX_FILE_ID_def
      key_id_default_def encrypt_flags_of_byte_def)

text \<open>\<open>meta_sealed\<close>: the stored ciphertext and tag are those of the encrypted part.\<close>

definition meta_sealed :: "openssl \<Rightarrow> key \<Rightarrow> metadata_info \<Rightarrow> bool" where
  "meta_sealed C key m \<longleftrightarrow> ossl_encrypt_aead C key iv_zeroed [] (enc_bytes (mi_enc m)) =
     Some (mi_ciphertext m, mp_gmac (mi_plain m))"

lemma metadata_encrypt_Ok:
  assumes C: "aead_correct C" and m: "meta_wf m"
  obtains m' ct mac where "metadata_encrypt C key m = Ok m'"
    "m' = m\<lparr>mi_ciphertext := ct, mi_plain := (mi_plain m)\<lparr>mp_gmac := mac\<rparr>\<rparr>"
    "meta_wf m'" "meta_sealed C key m'"
proof -
  have l: "length (mi_ciphertext m) = length (enc_bytes (mi_enc m))"
    using m by (simp add: meta_wf_def length_enc_bytes)
  obtain ct mac where e: "aead_encrypt C (enc_bytes (mi_enc m)) key iv_zeroed [] (length (mi_ciphertext m)) = Ok (ct, mac)"
    "length ct = length (enc_bytes (mi_enc m))" "length mac = 16"
    "ossl_encrypt_aead C key iv_zeroed [] (enc_bytes (mi_enc m)) = Some (ct, mac)"
    by (rule aead_encrypt_Ok [OF C l])
  show thesis
  proof (rule that [OF _ refl])
    show "metadata_encrypt C key m = Ok (m\<lparr>mi_ciphertext := ct, mi_plain := (mi_plain m)\<lparr>mp_gmac := mac\<rparr>\<rparr>)"
      using e(1) by (simp add: metadata_encrypt_def)
    show "meta_wf (m\<lparr>mi_ciphertext := ct, mi_plain := (mi_plain m)\<lparr>mp_gmac := mac\<rparr>\<rparr>)"
      using m e l by (simp add: meta_wf_def plain_wf_def)
    show "meta_sealed C key (m\<lparr>mi_ciphertext := ct, mi_plain := (mi_plain m)\<lparr>mp_gmac := mac\<rparr>\<rparr>)"
      using e(4) by (simp add: meta_sealed_def)
  qed
qed

lemma metadata_decrypt_sealed:
  assumes C: "aead_correct C" and m: "meta_wf m" "meta_sealed C key m" and m0: "enc_wf (mi_enc m0)"
    "mi_ciphertext m0 = mi_ciphertext m" "mp_gmac (mi_plain m0) = mp_gmac (mi_plain m)"
  shows "metadata_decrypt C key m0 = Ok (m0\<lparr>mi_enc := mi_enc m\<rparr>)"
proof -
  have len: "length (enc_bytes (mi_enc m0)) = length (mi_ciphertext m0)"
    using m m0 by (simp add: meta_wf_def length_enc_bytes)
  have "aead_decrypt C (mi_ciphertext m0) key iv_zeroed [] (mp_gmac (mi_plain m0)) (length (mi_ciphertext m0)) =
      Ok (enc_bytes (mi_enc m))"
    unfolding aead_decrypt_iff [OF C] using m(2) m0 by (simp add: meta_sealed_def)
  then show ?thesis using m(1) by (simp add: metadata_decrypt_def len enc_roundtrip meta_wf_def)
qed

lemma metadata_decrypt_fill:
  assumes C: "aead_correct C" and m: "meta_wf m" "meta_sealed C key m"
  shows "metadata_decrypt C key (metadata_fill (metadata_bytes m) metadata_info_default) = Ok m"
proof -
  let ?m0 = "metadata_fill (metadata_bytes m) metadata_info_default"
  have m0: "?m0 = metadata_info_default\<lparr>mi_plain := mi_plain m, mi_ciphertext := mi_ciphertext m, mi_padding := mi_padding m\<rparr>"
    by (rule metadata_fill_bytes [OF m(1)])
  have wf0: "enc_wf (mi_enc ?m0)" unfolding m0 using metadata_info_new_wf(2) by (simp add: meta_wf_def)
  have "metadata_decrypt C key ?m0 = Ok (?m0\<lparr>mi_enc := mi_enc m\<rparr>)"
    by (rule metadata_decrypt_sealed [OF C m wf0]) (unfold m0, simp_all)
  moreover have "?m0\<lparr>mi_enc := mi_enc m\<rparr> = m"
    unfolding m0 using m(1) by (cases m) (simp add: meta_wf_def metadata_info_default_def)
  ultimately show ?thesis by simp
qed

text \<open>The stored name, without the zeros that pad it.\<close>

lemma metadata_file_name_padded:
  assumes "me_file_name (mi_enc m) = overwrite (zeros n) 0 path" "length path < n" "0 \<notin> set path" "utf8_valid path"
  shows "metadata_file_name m = Ok path"
proof -
  have e: "overwrite (zeros n) 0 path = path @ 0 # zeros (n - length path - 1)"
    using assms(2) by (cases "n - length path") (simp_all add: overwrite_def)
  have "takeWhile (\<lambda>b. b \<noteq> 0) (path @ 0 # zeros (n - length path - 1)) = path"
    using assms(3) by (subst takeWhile_append2) auto
  then show ?thesis using assms by (simp add: metadata_file_name_def Let_def e)
qed

section \<open>Properties\<close>





end
