(* ===== verification/Recovery.thy ===== *)
theory Recovery
  imports Metadata
begin

text \<open>
  \<open>RecoveryHandler\<close> (\<open>core/src/pfs/sys/host/mod.rs\<close>) and the function \<open>recovery\<close>
  (\<open>core/src/pfs/sys/host/journal.rs\<close>): when a file is opened, the journal is replayed into the
  data region, and the data nodes recorded behind the last commit mark are decrypted and
  handed back for rollback.  The map of rollback nodes is an association list.  The loops take
  fuel, one unit per iteration; every iteration consumes at least one byte of the log, so
  \<open>Suc log_size\<close> is enough.
\<close>

section \<open>RecoveryHandler\<close>

record recovery_handler =
  rh_raw_mhts :: "nat \<Rightarrow> bytes option"
  rh_mhts :: "nat \<Rightarrow> node_ref option"

definition recovery_handler_new :: "(nat \<Rightarrow> bytes option) \<Rightarrow> recovery_handler" where
  "recovery_handler_new raw_mhts = \<lparr>rh_raw_mhts = raw_mhts, rh_mhts = (\<lambda>_. None)\<rparr>"

definition push_raw_mht :: "nat \<Rightarrow> bytes \<Rightarrow> recovery_handler \<Rightarrow> recovery_handler" where
  "push_raw_mht physical_number mht_data rh =
     rh\<lparr>rh_raw_mhts := (rh_raw_mhts rh)(physical_number \<mapsto> mht_data)\<rparr>"

definition rh_insert_mht :: "nat \<Rightarrow> file_node \<Rightarrow> recovery_handler \<times> node_heap \<Rightarrow>
    node_ref result \<times> recovery_handler \<times> node_heap" where
  "rh_insert_mht physical_number n = (\<lambda>(rh, h). case build_ref n h of (r, h') \<Rightarrow>
     (Ok r, rh\<lparr>rh_mhts := (rh_mhts rh)(physical_number \<mapsto> r)\<rparr>, h'))"

definition rh_root_mht :: "openssl \<Rightarrow> encrypt_flags \<Rightarrow> recovery_handler \<Rightarrow> file_node result" where
  "rh_root_mht C flags rh =
     (case rh_raw_mhts rh 1 of None \<Rightarrow> Panic | Some root_data \<Rightarrow>
      case rh_raw_mhts rh 0 of None \<Rightarrow> Panic | Some meta_data \<Rightarrow>
      and_then (unwrap (metadata_decrypt C key_default (metadata_fill meta_data metadata_info_default))) (\<lambda>meta.
      unwrap (node_decrypt C (me_mht_key (mi_enc meta)) (me_mht_gmac (mi_enc meta))
        ((file_node_new NtMht 0 1 flags)\<lparr>fn_node_data := root_data\<rparr>))))"

definition rh_child_mht ::
  "openssl \<Rightarrow> node_heap \<Rightarrow> recovery_handler \<Rightarrow> file_node \<Rightarrow> file_node result"
where
  "rh_child_mht C h rh n =
     (case rh_raw_mhts rh (fn_physical_number n) of None \<Rightarrow> Panic | Some data \<Rightarrow>
      let n = n\<lparr>fn_node_data := data\<rparr> in
      and_then (get_gcm_data h n) (\<lambda>g. case g of None \<Rightarrow> Panic | Some gcm_data \<Rightarrow>
      unwrap (node_decrypt C (gd_key gcm_data) (gd_mac gcm_data) n)))"

function (sequential) rh_get_mht_node ::
  "openssl \<Rightarrow> encrypt_flags \<Rightarrow> nat \<Rightarrow> recovery_handler \<times> node_heap \<Rightarrow>
   node_ref result \<times> recovery_handler \<times> node_heap"
where
  "rh_get_mht_node C flags logical_number (rh, h) =
     (if logical_number = 0 then
        case rh_mhts rh 1 of
          Some r \<Rightarrow> (Ok r, rh, h)
        | None \<Rightarrow> then_do (rh_root_mht C flags rh, rh, h) (\<lambda>n s. rh_insert_mht 1 n s)
      else
        let physical_number = mht_physical_number logical_number in
        case rh_mhts rh physical_number of
          Some r \<Rightarrow> (Ok r, rh, h)
        | None \<Rightarrow>
            then_do (rh_get_mht_node C flags ((logical_number - 1) div CHILD_MHT_NODES_COUNT) (rh, h))
              (\<lambda>parent_mht_node (rh, h).
               let n = (file_node_new NtMht logical_number physical_number flags)\<lparr>fn_parent := Some parent_mht_node\<rparr>
               in then_do (rh_child_mht C h rh n, rh, h) (\<lambda>n s. rh_insert_mht physical_number n s)))"
  by pat_completeness auto
termination by (relation "measure (\<lambda>(C, f, m, s). m)") auto

declare rh_get_mht_node.simps [simp del]

definition rh_decrypt_node ::
  "openssl \<Rightarrow> nat \<Rightarrow> bytes \<Rightarrow> recovery_handler \<times> node_heap \<Rightarrow> node_ref result \<times> recovery_handler \<times> node_heap"
where
  "rh_decrypt_node C physical_number node s =
     (case (calculate_mht_logical_number physical_number, calculate_data_logical_number physical_number) of
        (Ok mht_logical_number, Ok data_logical_number) \<Rightarrow>
          then_do (rh_get_mht_node C EF_UserKey mht_logical_number s) (\<lambda>mht_node (rh, h).
            let n = (file_node_new NtData data_logical_number physical_number EF_UserKey)
                      \<lparr>fn_parent := Some mht_node, fn_node_data := node\<rparr>
            in then_do (and_then (get_gcm_data h n) (\<lambda>g. case g of None \<Rightarrow> Panic | Some gcm_data \<Rightarrow>
                          unwrap (node_decrypt C (gd_key gcm_data) (gd_mac gcm_data) n)), rh, h) (\<lambda>n (rh, h).
               case build_ref n h of (r, h') \<Rightarrow> (Ok r, rh, h')))
      | _ \<Rightarrow> (Panic, s))"

section \<open>The function recovery\<close>

text \<open>The first pass finds the offset behind the last commit mark.\<close>

primrec recovery_scan ::
  "('s, 'd) env \<Rightarrow> 's \<Rightarrow> 'd raw_journal \<Rightarrow> nat \<Rightarrow> nat \<Rightarrow> nat \<Rightarrow> nat \<Rightarrow> nat result"
where
  "recovery_scan E w j log_size 0 offset last_commit = Hang"
| "recovery_scan E w j log_size (Suc fuel) offset last_commit =
     (if offset < log_size then
        and_then (raw_read E w j offset 1) (\<lambda>flag_buf.
        and_then (journal_flag_from (flag_buf ! 0)) (\<lambda>flag.
        let offset = offset + 1 in
        case flag of
          FlagNode \<Rightarrow> recovery_scan E w j log_size fuel (offset + RECOVERY_NODE_SIZE) last_commit
        | FlagCommit \<Rightarrow> recovery_scan E w j log_size fuel offset offset))
      else Ok last_commit)"

record ('s, 'd) recovery_state =
  rs_world :: 's
  rs_source :: "'d block_file"
  rs_handler :: recovery_handler
  rs_heap :: node_heap
  rs_rollback :: "(nat \<times> node_ref) list"

definition recovery_note_data ::
  "('s, 'd) env \<Rightarrow> nat \<Rightarrow> nat \<Rightarrow> nat \<Rightarrow> bytes \<Rightarrow> ('s, 'd) recovery_state \<Rightarrow> unit result \<times> ('s, 'd) recovery_state"
where
  "recovery_note_data E last_commit offset number data s =
     (if offset \<ge> last_commit \<and> number \<notin> fst ` set (rs_rollback s) \<and> \<not> is_mht_node number then
        case rh_decrypt_node (env_ossl E) number data (rs_handler s, rs_heap s) of (r, rh, h) \<Rightarrow>
          then_do (r, s\<lparr>rs_handler := rh, rs_heap := h\<rparr>) (\<lambda>node s.
            (Ok (), s\<lparr>rs_rollback := rs_rollback s @ [(number, node)]\<rparr>))
      else (Ok (), s))"

definition recovery_write ::
  "('s, 'd) env \<Rightarrow> nat \<Rightarrow> bytes \<Rightarrow> ('s, 'd) recovery_state \<Rightarrow> unit result \<times> ('s, 'd) recovery_state"
where
  "recovery_write E number data s =
     (case block_file_write E number data (rs_world s, rs_source s) of (r, w, f) \<Rightarrow>
        (r, s\<lparr>rs_world := w, rs_source := f\<rparr>))"

text \<open>The second pass replays the records.\<close>

primrec recovery_apply ::
  "('s, 'd) env \<Rightarrow> 'd raw_journal \<Rightarrow> nat \<Rightarrow> nat \<Rightarrow> nat \<Rightarrow> nat \<Rightarrow> ('s, 'd) recovery_state \<Rightarrow>
   unit result \<times> ('s, 'd) recovery_state"
where
  "recovery_apply E j log_size last_commit 0 offset s = (Hang, s)"
| "recovery_apply E j log_size last_commit (Suc fuel) offset s =
     (if offset < log_size then
        let left_size = log_size - offset in
        then_do (raw_read E (rs_world s) j offset 1, s) (\<lambda>flag_buf s.
        then_do (journal_flag_from (flag_buf ! 0), s) (\<lambda>flag s.
        let offset = offset + 1; left_size = left_size - 1 in
        case flag of
          FlagNode \<Rightarrow>
            if left_size < RECOVERY_NODE_SIZE then (Ok (), s)
            else then_do (raw_read E (rs_world s) j offset RECOVERY_NODE_SIZE, s) (\<lambda>data_buf s.
                 let number = le_val (slice 0 8 data_buf);
                     data = drop 8 data_buf;
                     s = (if is_mht_node number
                          then s\<lparr>rs_handler := push_raw_mht number data (rs_handler s)\<rparr> else s);
                     offset = offset + RECOVERY_NODE_SIZE
                 in then_do (recovery_note_data E last_commit offset number data s) (\<lambda>_ s.
                    then_do (recovery_write E number data s) (\<lambda>_ s.
                    recovery_apply E j log_size last_commit fuel offset s)))
        | FlagCommit \<Rightarrow> recovery_apply E j log_size last_commit fuel offset s))
      else (Ok (), s))"

definition recovery ::
  "('s, 'd) env \<Rightarrow> 'd raw_journal \<Rightarrow> 's \<times> 'd block_file \<times> node_heap \<Rightarrow>
   (nat \<times> node_ref) list result \<times> 's \<times> 'd block_file \<times> node_heap"
where
  "recovery E j = (\<lambda>(w, source, h).
     then_do (raw_size E w j, w, source, h) (\<lambda>log_size (w, source, h).
     then_do (recovery_scan E w j log_size (Suc log_size) 0 0, w, source, h) (\<lambda>last_commit (w, source, h).
     case recovery_apply E j log_size last_commit (Suc log_size) 0
            \<lparr>rs_world = w, rs_source = source, rs_handler = recovery_handler_new (\<lambda>_. None),
             rs_heap = h, rs_rollback = []\<rparr> of (r, s) \<Rightarrow>
       then_do (r, rs_world s, rs_source s, rs_heap s) (\<lambda>_ (w, source, h).
       then_do (case block_file_flush E (w, source) of (r, w, source) \<Rightarrow> (r, w, source, h)) (\<lambda>_ st.
       (Ok (rs_rollback s), st))))))"


section \<open>Lemmas\<close>

definition rec_number :: "bytes \<Rightarrow> nat" where
  "rec_number d = le_val (slice 0 8 d)"

text \<open>The blocks of the data region after the records were replayed in order.\<close>

definition replay :: "bytes list \<Rightarrow> (nat \<Rightarrow> bytes) \<Rightarrow> nat \<Rightarrow> bytes" where
  "replay ds blocks = fold (\<lambda>d b. b(rec_number d := drop 8 d)) ds blocks"

lemma replay_simps [simp]:
  "replay [] b = b" "replay (d # ds) b = replay ds (b(rec_number d := drop 8 d))"
  by (simp_all add: replay_def)

lemma then_do_Panic: "fst m = Panic \<Longrightarrow> fst (then_do m f) = Panic"
  by (cases m) simp

lemma replay_cong: "b i = b' i \<Longrightarrow> replay ds b i = replay ds b' i"
proof (induction ds arbitrary: b b')
  case (Cons d ds)
  show ?case unfolding replay_simps by (rule Cons.IH) (use Cons.prems in simp)
qed simp

lemma record_bytes_simps [simp]:
  "record_bytes [] = []" "record_bytes (d # ds) = 0 # d @ record_bytes ds"
  by (simp_all add: record_bytes_def)

lemma length_record_bytes:
  "\<forall>d\<in>set ds. length d = RECOVERY_NODE_SIZE \<Longrightarrow> length (record_bytes ds) = length ds * 4105"
  by (induction ds) auto

lemma slice_at: "slice (length pre) (length pre + length x) (pre @ x @ post) = x"
  by (simp add: slice_def)

lemma recovery_scan_ge:
  "log_size \<le> offset \<Longrightarrow> recovery_scan E w j log_size (Suc fuel) offset lc = Ok lc"
  by simp

text \<open>While the root of the tree has not been read from the journal, no MHT node can be built.\<close>

lemma rh_get_mht_node_panics:
  assumes "rh_mhts rh = (\<lambda>_. None)" "rh_raw_mhts rh 1 = None"
  shows "rh_get_mht_node C flags m (rh, h) = (Panic, rh, h)"
  using assms
proof (induction m rule: less_induct)
  case (less m)
  show ?case
  proof (cases "m = 0")
    case True
    then show ?thesis using less.prems by (subst rh_get_mht_node.simps) (simp add: rh_root_mht_def)
  next
    case False
    then have "rh_get_mht_node C flags ((m - 1) div CHILD_MHT_NODES_COUNT) (rh, h) = (Panic, rh, h)"
      using less.prems by (intro less.IH) auto
    then show ?thesis using False less.prems by (subst rh_get_mht_node.simps) simp
  qed
qed

lemma rh_decrypt_node_panics:
  assumes "rh_mhts rh = (\<lambda>_. None)" "rh_raw_mhts rh 1 = None" "is_data_node p"
  shows "rh_decrypt_node C p node (rh, h) = (Panic, rh, h)"
proof -
  have "0 < p" using assms(3) by (cases p) (simp_all add: is_data_node_def)
  then obtain l where "p = data_phys l" using assms(3) by (cases rule: phys_cases) auto
  then show ?thesis
    using rh_get_mht_node_panics [OF assms(1,2)] by (simp add: rh_decrypt_node_def)
qed

context block_set
begin

lemma journal_read_flag:
  assumes "env_bs E = B" "journal_inv w j (pre @ b # post)" "rj_buf j = []"
  shows "raw_read E w j (length pre) 1 = Ok [b]"
  using raw_read_Ok [OF assms, of "length pre" 1] slice_at [of pre "[b]" post] by simp

lemma journal_read_record:
  assumes "env_bs E = B" "journal_inv w j (pre @ b # d @ post)" "rj_buf j = []" "length d = RECOVERY_NODE_SIZE"
  shows "raw_read E w j (length pre + 1) RECOVERY_NODE_SIZE = Ok d"
  using raw_read_Ok [OF assms(1-3), of "length pre + 1" RECOVERY_NODE_SIZE] slice_at [of "pre @ [b]" d post] assms(4)
  by simp

lemma recovery_scan_batch:
  assumes E: "env_bs E = B" and j: "journal_inv w j log" "rj_buf j = []"
    and len: "\<forall>d\<in>set ds. length d = RECOVERY_NODE_SIZE"
    and log: "log = pre @ record_bytes ds @ [1]" and fuel: "length ds + 2 \<le> fuel"
  shows "recovery_scan E w j (length log) fuel (length pre) lc = Ok (length log)"
  using len log fuel
proof (induction ds arbitrary: pre fuel)
  case Nil
  then obtain f where f: "fuel = Suc (Suc f)" by (metis add_2_eq_Suc' add_leD2 le_Suc_ex add_Suc)
  have "raw_read E w j (length pre) 1 = Ok [1]" using journal_read_flag [OF E, of w j pre 1 "[]"] j Nil by simp
  then show ?case using Nil f by (simp add: journal_flag_from_def)
next
  case (Cons d ds)
  then obtain f where f: "fuel = Suc f" "length ds + 2 \<le> f" by (metis Suc_le_D add_Suc length_Cons Suc_le_mono)
  have "raw_read E w j (length pre) 1 = Ok [0]"
    using journal_read_flag [OF E, of w j pre 0 "d @ record_bytes ds @ [1]"] j Cons.prems by simp
  moreover have "recovery_scan E w j (length log) f (length (pre @ 0 # d)) lc = Ok (length log)"
    using Cons.prems f by (intro Cons.IH) auto
  ultimately show ?case using Cons.prems f by (simp add: journal_flag_from_def ac_simps)
qed

lemma recovery_apply_batch:
  assumes E: "env_bs E = B" and j: "rj_buf j = []" and sp: "sep (bf_disk f0) (rj_disk j)"
    and sz: "bs_nblocks B (bf_disk f0) * BLOCK_SIZE < 2 ^ 64"
    and len: "\<forall>d\<in>set ds. length d = RECOVERY_NODE_SIZE \<and> rec_number d < bs_nblocks B (bf_disk f0)"
    and log: "log = pre @ record_bytes ds @ [1]" and fuel: "length ds + 2 \<le> fuel"
    and st: "journal_inv (rs_world s) j log" "valid (rs_world s) (bf_disk f0)" "bf_disk (rs_source s) = bf_disk f0"
  shows "\<exists>s'. recovery_apply E j (length log) (length log) fuel (length pre) s = (Ok (), s') \<and>
    bf_disk (rs_source s') = bf_disk f0 \<and> valid (rs_world s') (bf_disk f0) \<and>
    rs_rollback s' = rs_rollback s \<and> rs_heap s' = rs_heap s \<and> only (rs_world s) (rs_world s') (bf_disk f0) \<and>
    (\<forall>i < bs_nblocks B (bf_disk f0). blk (rs_world s') (bf_disk f0) i = replay ds (blk (rs_world s) (bf_disk f0)) i)"
  using len log fuel st
proof (induction ds arbitrary: pre fuel s)
  case Nil
  then obtain f where f: "fuel = Suc (Suc f)" by (metis add_2_eq_Suc' add_leD2 le_Suc_ex add_Suc)
  have "raw_read E (rs_world s) j (length pre) 1 = Ok [1]"
    using journal_read_flag [OF E, of "rs_world s" j pre 1 "[]"] j Nil by simp
  then show ?case using Nil f by (simp add: journal_flag_from_def)
next
  case (Cons d ds)
  then obtain f where f: "fuel = Suc f" "length ds + 2 \<le> f" by (metis Suc_le_D add_Suc length_Cons Suc_le_mono)
  let ?n = "rec_number d"
  have ld: "length d = RECOVERY_NODE_SIZE" "?n < bs_nblocks B (bf_disk f0)" using Cons.prems by auto
  have r1: "raw_read E (rs_world s) j (length pre) 1 = Ok [0]"
    using journal_read_flag [OF E, of "rs_world s" j pre 0 "d @ record_bytes ds @ [1]"] j Cons.prems by simp
  have r2: "raw_read E (rs_world s) j (Suc (length pre)) RECOVERY_NODE_SIZE = Ok d"
    using journal_read_record [OF E, of "rs_world s" j pre 0 d "record_bytes ds @ [1]"] j Cons.prems ld by simp
  define s1 where "s1 = (if is_mht_node ?n then s\<lparr>rs_handler := push_raw_mht ?n (drop 8 d) (rs_handler s)\<rparr> else s)"
  have s1: "rs_world s1 = rs_world s" "rs_source s1 = rs_source s" "rs_rollback s1 = rs_rollback s" "rs_heap s1 = rs_heap s"
    by (simp_all add: s1_def)
  have nt: "recovery_note_data E (length log) (Suc (length pre) + RECOVERY_NODE_SIZE) ?n (drop 8 d) s1 = (Ok (), s1)"
    using Cons.prems(2) ld by (simp add: recovery_note_data_def)
  obtain w' f' where w': "block_file_write E ?n (drop 8 d) (rs_world s, rs_source s) = (Ok (), w', f')"
    "bf_disk f' = bf_disk f0" "only (rs_world s) w' (bf_disk f0)"
    "\<forall>i < bs_nblocks B (bf_disk f0). blk w' (bf_disk f0) i = (if i = ?n then drop 8 d else blk (rs_world s) (bf_disk f0) i)"
    using block_file_write_Ok [OF E, of "rs_world s" "rs_source s" ?n "drop 8 d"] Cons.prems ld sz by auto
  define s2 where "s2 = s1\<lparr>rs_world := w', rs_source := f'\<rparr>"
  have wr: "recovery_write E ?n (drop 8 d) s1 = (Ok (), s2)"
    using w'(1) s1 by (simp add: recovery_write_def s2_def)
  have "content w' (rj_disk j) = content (rs_world s) (rj_disk j)"
    using only_content [OF w'(3) sp] Cons.prems(4) by (simp add: journal_inv_def)
  then have j2: "journal_inv (rs_world s2) j log"
    using Cons.prems(4) only_valid [OF w'(3)] by (simp add: s2_def journal_inv_def)
  have "\<exists>s'. recovery_apply E j (length log) (length log) f (length (pre @ 0 # d)) s2 = (Ok (), s') \<and>
    bf_disk (rs_source s') = bf_disk f0 \<and> valid (rs_world s') (bf_disk f0) \<and>
    rs_rollback s' = rs_rollback s2 \<and> rs_heap s' = rs_heap s2 \<and> only (rs_world s2) (rs_world s') (bf_disk f0) \<and>
    (\<forall>i < bs_nblocks B (bf_disk f0). blk (rs_world s') (bf_disk f0) i = replay ds (blk (rs_world s2) (bf_disk f0)) i)"
    by (rule Cons.IH) (use Cons.prems f j2 w' only_valid [OF w'(3)] in \<open>auto simp: s2_def\<close>)
  then obtain s' where s': "recovery_apply E j (length log) (length log) f (length (pre @ 0 # d)) s2 = (Ok (), s')"
    "bf_disk (rs_source s') = bf_disk f0" "valid (rs_world s') (bf_disk f0)"
    "rs_rollback s' = rs_rollback s2" "rs_heap s' = rs_heap s2" "only w' (rs_world s') (bf_disk f0)"
    "\<forall>i < bs_nblocks B (bf_disk f0). blk (rs_world s') (bf_disk f0) i = replay ds (blk w' (bf_disk f0)) i"
    by (auto simp: s2_def)
  have "recovery_apply E j (length log) (length log) fuel (length pre) s = (Ok (), s')"
    using Cons.prems(2) f(1) r1 r2 nt wr s'(1) ld
    by (simp add: journal_flag_from_def Let_def ac_simps flip: rec_number_def s1_def)
  then show ?case
    using s' w'(4) only_trans [OF w'(3) s'(6)] s1 by (auto simp: s2_def intro!: replay_cong)
qed

lemma recovery_committed:
  assumes E: "env_bs E = B" and j: "journal_inv w j log" "rj_buf j = []" "journal_header w j log"
    and room: "INNER_OFFSET + length log \<le> bs_nblocks B (rj_disk j) * BLOCK_SIZE"
    and sp: "sep (bf_disk f) (rj_disk j)" and v: "valid w (bf_disk f)"
    and sz: "bs_nblocks B (bf_disk f) * BLOCK_SIZE < 2 ^ 64"
    and ds: "\<forall>d\<in>set ds. length d = RECOVERY_NODE_SIZE \<and> rec_number d < bs_nblocks B (bf_disk f)"
    and log: "log = record_bytes ds @ [1]"
  shows "\<exists>w' f'. recovery E j (w, f, h) = (Ok [], w', f', h) \<and> only w w' (bf_disk f) \<and> bf_disk f' = bf_disk f \<and>
    (\<forall>i < bs_nblocks B (bf_disk f). blk w' (bf_disk f) i = replay ds (blk w (bf_disk f)) i)"
proof -
  let ?s = "\<lparr>rs_world = w, rs_source = f, rs_handler = recovery_handler_new (\<lambda>_. None), rs_heap = h, rs_rollback = []\<rparr>"
  have ds': "\<forall>d\<in>set ds. length d = RECOVERY_NODE_SIZE" using ds by blast
  have "length ds \<le> length (record_bytes ds)" using length_record_bytes [OF ds'] by simp
  then have fuel: "length ds + 2 \<le> Suc (length log)" using log by simp
  have size: "raw_size E w j = Ok (length log)" by (rule raw_size_Ok [OF E j(1,3) room])
  have scan: "recovery_scan E w j (length log) (Suc (length log)) 0 0 = Ok (length log)"
    using recovery_scan_batch [OF E j(1,2) ds', of "[]" "Suc (length log)" 0] log fuel
    by (simp del: recovery_scan.simps)
  obtain s' where s': "recovery_apply E j (length log) (length log) (Suc (length log)) 0 ?s = (Ok (), s')"
    "bf_disk (rs_source s') = bf_disk f" "valid (rs_world s') (bf_disk f)" "rs_rollback s' = []" "rs_heap s' = h"
    "only w (rs_world s') (bf_disk f)"
    "\<forall>i < bs_nblocks B (bf_disk f). blk (rs_world s') (bf_disk f) i = replay ds (blk w (bf_disk f)) i"
    using recovery_apply_batch [OF E j(2) sp sz ds, of log "[]" "Suc (length log)" ?s] log fuel j(1) v
    by (auto simp del: recovery_apply.simps)
  obtain w' where w': "block_file_flush E (rs_world s', rs_source s') = (Ok (), w', rs_source s')"
    "only (rs_world s') w' (bf_disk f)" "\<forall>d'. valid (rs_world s') d' \<longrightarrow> content w' d' = content (rs_world s') d'"
    using block_file_flush_Ok [OF E, of "rs_world s'" "rs_source s'"] s' by auto
  have o: "only w w' (bf_disk f)" by (rule only_trans [OF s'(6) w'(2)])
  have "blk w' (bf_disk f) i = blk (rs_world s') (bf_disk f) i" if "i < bs_nblocks B (bf_disk f)" for i
    using w'(3) s'(3) blk_content [OF s'(3) that] blk_content [OF only_valid [OF w'(2) s'(3)] that] by simp
  then show ?thesis
    using size scan s' w' o by (auto simp: recovery_def simp del: recovery_apply.simps recovery_scan.simps)
qed

lemma recovery_empty:
  assumes E: "env_bs E = B" and j: "journal_inv w j []" "rj_buf j = []" "journal_header w j []"
    and v: "valid w (bf_disk f)"
  shows "\<exists>w'. recovery E j (w, f, h) = (Ok [], w', f, h) \<and> only w w' (bf_disk f) \<and>
    (\<forall>d'. valid w d' \<longrightarrow> content w' d' = content w d')"
proof -
  have "1 * BLOCK_SIZE \<le> bs_nblocks B (rj_disk j) * BLOCK_SIZE"
    using j(1) unfolding journal_inv_def by (intro mult_le_mono1) simp
  then have "raw_size E w j = Ok (length ([] :: bytes))"
    using raw_size_Ok [OF E j(1,3)] by simp
  moreover obtain w' where "block_file_flush E (w, f) = (Ok (), w', f)" "only w w' (bf_disk f)"
    "\<forall>d'. valid w d' \<longrightarrow> content w' d' = content w d'"
    using block_file_flush_Ok [OF E v] by blast
  ultimately show ?thesis by (auto simp: recovery_def)
qed

lemma recovery_scan_uncommitted:
  assumes E: "env_bs E = B" and j: "journal_inv w j log" "rj_buf j = []"
    and len: "\<forall>d\<in>set ds. length d = RECOVERY_NODE_SIZE"
    and log: "log = pre @ record_bytes ds" and fuel: "length ds < fuel"
  shows "recovery_scan E w j (length log) fuel (length pre) lc = Ok lc"
  using len log fuel
proof (induction ds arbitrary: pre fuel)
  case Nil
  then show ?case by (cases fuel) simp_all
next
  case (Cons d ds)
  then obtain f where f: "fuel = Suc f" "length ds < f" by (cases fuel) auto
  have "raw_read E w j (length pre) 1 = Ok [0]"
    using journal_read_flag [OF E, of w j pre 0 "d @ record_bytes ds"] j Cons.prems by simp
  moreover have "recovery_scan E w j (length log) f (length (pre @ 0 # d)) lc = Ok lc"
    using Cons.prems f by (intro Cons.IH) auto
  ultimately show ?case using Cons.prems f by (simp add: journal_flag_from_def ac_simps)
qed

lemma recovery_apply_uncommitted:
  assumes E: "env_bs E = B" and j: "rj_buf j = []" and sp: "sep (bf_disk f0) (rj_disk j)"
    and sz: "bs_nblocks B (bf_disk f0) * BLOCK_SIZE < 2 ^ 64"
    and ms: "\<forall>d\<in>set ms. length d = RECOVERY_NODE_SIZE \<and> rec_number d < bs_nblocks B (bf_disk f0) \<and>
        is_mht_node (rec_number d) \<and> rec_number d \<noteq> 1"
    and d: "length d = RECOVERY_NODE_SIZE" "is_data_node (rec_number d)"
    and log: "log = pre @ record_bytes (ms @ d # ds)" and fuel: "length ms < fuel"
    and st: "journal_inv (rs_world s) j log" "valid (rs_world s) (bf_disk f0)" "bf_disk (rs_source s) = bf_disk f0"
    and rh: "rh_mhts (rs_handler s) = (\<lambda>_. None)" "rh_raw_mhts (rs_handler s) 1 = None" "rs_rollback s = []"
  shows "fst (recovery_apply E j (length log) 0 fuel (length pre) s) = Panic"
  using ms log fuel st rh
proof (induction ms arbitrary: pre fuel s)
  case Nil
  then obtain f where f: "fuel = Suc f" by (cases fuel) auto
  have r1: "raw_read E (rs_world s) j (length pre) 1 = Ok [0]"
    using journal_read_flag [OF E, of "rs_world s" j pre 0 "d @ record_bytes ds"] j Nil by simp
  have r2: "raw_read E (rs_world s) j (Suc (length pre)) RECOVERY_NODE_SIZE = Ok d"
    using journal_read_record [OF E, of "rs_world s" j pre 0 d "record_bytes ds"] j Nil d by simp
  have "\<not> is_mht_node (rec_number d)" using d(2) by (simp add: is_mht_node_iff)
  then have "fst (recovery_note_data E 0 off (rec_number d) (drop 8 d) s) = Panic" for off
    using rh_decrypt_node_panics [OF Nil.prems(7,8) d(2)] Nil.prems(9) by (simp add: recovery_note_data_def)
  then show ?case
    using Nil.prems(2) f r1 r2 d \<open>\<not> is_mht_node (rec_number d)\<close>
    by (auto simp: journal_flag_from_def Let_def then_do_Panic simp flip: rec_number_def)
next
  case (Cons m ms)
  then obtain f where f: "fuel = Suc f" "length ms < f" by (cases fuel) auto
  let ?n = "rec_number m"
  have lm: "length m = RECOVERY_NODE_SIZE" "?n < bs_nblocks B (bf_disk f0)" "is_mht_node ?n" "?n \<noteq> 1"
    using Cons.prems by auto
  have r1: "raw_read E (rs_world s) j (length pre) 1 = Ok [0]"
    using journal_read_flag [OF E, of "rs_world s" j pre 0 "m @ record_bytes (ms @ d # ds)"] j Cons.prems by simp
  have r2: "raw_read E (rs_world s) j (Suc (length pre)) RECOVERY_NODE_SIZE = Ok m"
    using journal_read_record [OF E, of "rs_world s" j pre 0 m "record_bytes (ms @ d # ds)"] j Cons.prems lm by simp
  define s1 where "s1 = s\<lparr>rs_handler := push_raw_mht ?n (drop 8 m) (rs_handler s)\<rparr>"
  have nt: "recovery_note_data E 0 off ?n (drop 8 m) s1 = (Ok (), s1)" for off
    using lm by (simp add: recovery_note_data_def)
  obtain w' f' where w': "block_file_write E ?n (drop 8 m) (rs_world s, rs_source s) = (Ok (), w', f')"
    "bf_disk f' = bf_disk f0" "only (rs_world s) w' (bf_disk f0)"
    using block_file_write_Ok [OF E, of "rs_world s" "rs_source s" ?n "drop 8 m"] Cons.prems lm sz by auto
  define s2 where "s2 = s1\<lparr>rs_world := w', rs_source := f'\<rparr>"
  have wr: "recovery_write E ?n (drop 8 m) s1 = (Ok (), s2)"
    using w'(1) by (simp add: recovery_write_def s2_def s1_def)
  have "content w' (rj_disk j) = content (rs_world s) (rj_disk j)"
    using only_content [OF w'(3) sp] Cons.prems(4) by (simp add: journal_inv_def)
  then have j2: "journal_inv (rs_world s2) j log"
    using Cons.prems(4) only_valid [OF w'(3)] by (simp add: s2_def journal_inv_def)
  have "fst (recovery_apply E j (length log) 0 f (length (pre @ 0 # m)) s2) = Panic"
    by (rule Cons.IH)
      (use Cons.prems f j2 w' only_valid [OF w'(3)] lm in \<open>auto simp: s2_def s1_def push_raw_mht_def\<close>)
  then show ?case
    using Cons.prems(2) f r1 r2 nt wr lm
    by (simp add: journal_flag_from_def Let_def ac_simps flip: rec_number_def s1_def)
qed

end

text \<open>Recovery reads the journal from its disk only, never from its buffer.\<close>

lemma recovery_same_disk:
  assumes "rj_disk j = rj_disk j'" shows "recovery E j = recovery E j'"
proof -
  have rd: "raw_size E w j = raw_size E w j'" "raw_read E w j = raw_read E w j'" for w
    using assms by (auto simp: raw_size_def raw_read_def fun_eq_iff)
  have "recovery_scan E w j n k = recovery_scan E w j' n k" for w n k
    by (induction k) (intro ext, simp add: rd Let_def cong: journal_flag.case_cong if_cong)+
  moreover have "recovery_apply E j n lc k = recovery_apply E j' n lc k" for n lc k
    by (induction k) (intro ext, simp add: rd Let_def cong: journal_flag.case_cong if_cong)+
  ultimately show ?thesis
    by (simp add: recovery_def rd del: recovery_apply.simps recovery_scan.simps)
qed

section \<open>Properties on MemDisk\<close>

text \<open>C5: Replaying a committed journal: records appended to the journal region, committed and flushed,
  are written by \<open>recovery\<close> to the blocks they name in the data region, later records winning
  over earlier ones, all other blocks of the data region keep their content, and no node is
  handed back for rollback.\<close>

theorem recovery_replays_committed_batch:
  assumes E: "env_bs E = mem_disk_ops" and v: "mem_disk_valid w d" "2 \<le> mem_disk_nblocks d"
      "mem_disk_nblocks d * BLOCK_SIZE < 2 ^ 64"
    and f: "mem_disk_valid w (bf_disk f)" "mem_disk_sep d (bf_disk f)" "mem_disk_nblocks (bf_disk f) * BLOCK_SIZE < 2 ^ 64"
    and ds: "\<forall>r\<in>set ds. length r = RECOVERY_NODE_SIZE \<and> rec_number r < mem_disk_nblocks (bf_disk f)"
    and room: "INNER_OFFSET + length ds * (RECOVERY_NODE_SIZE + 1) + 1 \<le> (mem_disk_nblocks d - 1) * BLOCK_SIZE"
  shows "\<exists>w1 j1 w2 f2. journal_batch E ds (w, raw_create d) = (Ok (), w1, j1) \<and>
    recovery E (raw_create d) (w1, f, h) = (Ok [], w2, f2, h) \<and>
    (\<forall>i < mem_disk_nblocks (bf_disk f). mem_disk_blk w2 (bf_disk f) i = replay ds (mem_disk_blk w (bf_disk f)) i)"
proof -
  let ?log = "record_bytes ds @ [1]"
  have ds': "\<forall>r\<in>set ds. length r = RECOVERY_NODE_SIZE" using ds by blast
  have r: "md.journal_room (raw_create d) ([] @ record_bytes ds @ [journal_flag_byte FlagCommit])"
    using room length_record_bytes [OF ds'] by (simp add: md.journal_room_def raw_create_def)
  obtain w1 j1 where j: "journal_batch E ds (w, raw_create d) = (Ok (), w1, j1)" "rj_buf j1 = []"
    "md.journal_inv w1 j1 ?log" "md.journal_header w1 j1 ?log" "rj_disk j1 = d" "md.only w w1 d"
    using md.journal_batch_Ok [OF E md_journal_fresh [OF v] ds' r] by (auto simp: raw_create_def)
  have len: "INNER_OFFSET + length ?log \<le> mem_disk_nblocks d * BLOCK_SIZE"
    using room length_record_bytes [OF ds'] by (simp add: diff_mult_distrib)
  have sp: "mem_disk_sep (bf_disk f) d" using f(2) by (auto simp: mem_disk_sep_def)
  have same: "recovery E (raw_create d) = recovery E j1"
    by (rule recovery_same_disk) (simp add: raw_create_def j(5))
  obtain w2 f2 where r2: "recovery E j1 (w1, f, h) = (Ok [], w2, f2, h)"
    "\<forall>i < mem_disk_nblocks (bf_disk f). mem_disk_blk w2 (bf_disk f) i = replay ds (mem_disk_blk w1 (bf_disk f)) i"
    using md.recovery_committed [OF E j(3,2,4), of f ds h] len j(5) sp md.only_valid [OF j(6) f(1)] f(3) ds by auto
  have "mem_disk_blk w1 (bf_disk f) i = mem_disk_blk w (bf_disk f) i" if "i < mem_disk_nblocks (bf_disk f)" for i
    using md.blk_content [OF f(1), of i] md.blk_content [OF md.only_valid [OF j(6) f(1)], of i] that
      md.only_content [OF j(6) f(2,1)] by simp
  then show ?thesis using j(1) r2 same by (auto intro: replay_cong)
qed


theorem recovery_replays_committed_batch_witness:
  "\<exists>w1 j1 w2 f2. journal_batch \<lparr>env_bs = mem_disk_ops, env_mem = \<lambda>_. 0, env_ossl = plain_openssl, env_order = \<lambda>xs. xs\<rparr>
      [le_bytes 8 2 @ replicate 4096 9] (zeros 32768, raw_create \<lparr>region_start = 3, region_end = 8\<rparr>) = (Ok (), w1, j1) \<and>
    recovery \<lparr>env_bs = mem_disk_ops, env_mem = \<lambda>_. 0, env_ossl = plain_openssl, env_order = \<lambda>xs. xs\<rparr>
      (raw_create \<lparr>region_start = 3, region_end = 8\<rparr>)
      (w1, \<lparr>bf_disk = \<lparr>region_start = 0, region_end = 3\<rparr>, bf_size = 12288\<rparr>, \<lparr>nodes = undefined, next_ref = 0\<rparr>) =
      (Ok [], w2, f2, \<lparr>nodes = undefined, next_ref = 0\<rparr>) \<and>
    mem_disk_blk w2 \<lparr>region_start = 0, region_end = 3\<rparr> 2 = replicate 4096 9"
proof -
  let ?E = "\<lparr>env_bs = mem_disk_ops, env_mem = \<lambda>_. 0, env_ossl = plain_openssl, env_order = \<lambda>xs. xs\<rparr>"
  have n: "rec_number (le_bytes 8 2 @ replicate 4096 9) = 2" by (simp add: rec_number_def slice_def)
  show ?thesis
    using recovery_replays_committed_batch [of ?E "zeros 32768" "\<lparr>region_start = 3, region_end = 8\<rparr>"
        "\<lparr>bf_disk = \<lparr>region_start = 0, region_end = 3\<rparr>, bf_size = 12288\<rparr>" "[le_bytes 8 2 @ replicate 4096 9]"
        "\<lparr>nodes = undefined, next_ref = 0\<rparr>"]
    by (auto simp: mem_disk_valid_def mem_disk_nblocks_def mem_disk_sep_def n)
qed

text \<open>C21: Recovery of uncommitted records panics when a data node precedes the record of the root of the hash
  tree, the order in which a flush writes them: with a journal of records that holds no commit
  mark, where the first data record follows only records of MHT nodes other than the root,
  \<open>recovery\<close> panics.\<close>

theorem recovery_panics_on_uncommitted_data:
  assumes E: "env_bs E = mem_disk_ops" and v: "mem_disk_valid w jd" "2 \<le> mem_disk_nblocks jd"
      "mem_disk_nblocks jd * BLOCK_SIZE < 2 ^ 64"
    and f: "mem_disk_valid w (bf_disk f)" "mem_disk_sep jd (bf_disk f)" "mem_disk_nblocks (bf_disk f) * BLOCK_SIZE < 2 ^ 64"
    and ms: "\<forall>m\<in>set ms. length m = RECOVERY_NODE_SIZE \<and> rec_number m < mem_disk_nblocks (bf_disk f) \<and>
        is_mht_node (rec_number m) \<and> rec_number m \<noteq> ROOT_MHT_PHY_NUM"
    and d: "is_data_node (rec_number d)" and ds: "\<forall>r\<in>set (d # ds). length r = RECOVERY_NODE_SIZE"
    and room: "INNER_OFFSET + length (ms @ d # ds) * (RECOVERY_NODE_SIZE + 1) \<le> (mem_disk_nblocks jd - 1) * BLOCK_SIZE"
  shows "\<exists>w1 j1 w2 j2. journal_append_all E (ms @ d # ds) (w, raw_create jd) = (Ok (), w1, j1) \<and>
    raw_flush E (w1, j1) = (Ok (), w2, j2) \<and> fst (recovery E (raw_create jd) (w2, f, h)) = Panic"
proof -
  let ?ds = "ms @ d # ds" and ?log = "record_bytes (ms @ d # ds)"
  have len: "\<forall>r\<in>set ?ds. length r = RECOVERY_NODE_SIZE" using ms ds by auto
  note ll = length_record_bytes [OF len]
  have "md.journal_room (raw_create jd) ([] @ ?log)"
    using room ll by (simp add: md.journal_room_def raw_create_def)
  then obtain w1 j1 where j1: "journal_append_all E ?ds (w, raw_create jd) = (Ok (), w1, j1)"
    "md.journal_inv w1 j1 ?log" "rj_disk j1 = jd" "md.only w w1 jd"
    using md.journal_append_all_Ok [OF E md_journal_fresh [OF v] len] by (auto simp: raw_create_def)
  have "md.journal_room j1 ?log" using room ll j1(3) by (simp add: md.journal_room_def)
  then obtain w2 j2 where j2: "raw_flush E (w1, j1) = (Ok (), w2, j2)" "md.journal_inv w2 j2 ?log" "rj_buf j2 = []"
    "rj_disk j2 = jd" "md.only w1 w2 jd" "md.journal_header w2 j2 ?log"
    using md.raw_flush_Ok [OF E j1(2)] j1(3) by auto
  have le: "INNER_OFFSET + length ?log \<le> mem_disk_nblocks jd * BLOCK_SIZE"
    using room ll by (simp add: diff_mult_distrib)
  have size: "raw_size E w2 j2 = Ok (length ?log)" using md.raw_size_Ok [OF E j2(2,6)] le j2(4) by simp
  have fuel: "length ?ds < Suc (length ?log)" using ll by simp
  have scan: "recovery_scan E w2 j2 (length ?log) (Suc (length ?log)) 0 0 = Ok 0"
    using md.recovery_scan_uncommitted [OF E j2(2,3) len, of "[]" "Suc (length ?log)" 0] fuel
    by (simp del: recovery_scan.simps record_bytes_simps)
  have sp: "mem_disk_sep (bf_disk f) jd" using f(2) by (auto simp: mem_disk_sep_def)
  have vf: "mem_disk_valid w2 (bf_disk f)"
    using md.only_valid [OF j2(5) md.only_valid [OF j1(4) f(1)]] .
  have "fst (recovery_apply E j2 (length ?log) 0 (Suc (length ?log)) (length ([] :: bytes))
      \<lparr>rs_world = w2, rs_source = f, rs_handler = recovery_handler_new (\<lambda>_. None), rs_heap = h, rs_rollback = []\<rparr>) = Panic"
    by (rule md.recovery_apply_uncommitted [OF E j2(3), of f ms d ?log "[]" ds])
      (use sp j2 vf f ms d ds fuel in \<open>auto simp: recovery_handler_new_def simp del: record_bytes_simps\<close>)
  then have "fst (recovery E j2 (w2, f, h)) = Panic"
    using size scan
    by (auto simp: recovery_def simp del: recovery_apply.simps recovery_scan.simps record_bytes_simps
        split: prod.splits intro!: then_do_Panic)
  moreover have "recovery E (raw_create jd) = recovery E j2"
    by (rule recovery_same_disk) (simp add: raw_create_def j2(4))
  ultimately show ?thesis using j1(1) j2(1) by auto
qed


theorem recovery_panics_on_uncommitted_data_witness:
  "\<exists>w1 j1 w2 j2. journal_append_all \<lparr>env_bs = mem_disk_ops, env_mem = \<lambda>_. 0, env_ossl = plain_openssl, env_order = \<lambda>xs. xs\<rparr>
      [le_bytes 8 2 @ zeros 4096, le_bytes 8 1 @ zeros 4096]
      (zeros 32768, raw_create \<lparr>region_start = 3, region_end = 8\<rparr>) = (Ok (), w1, j1) \<and>
    raw_flush \<lparr>env_bs = mem_disk_ops, env_mem = \<lambda>_. 0, env_ossl = plain_openssl, env_order = \<lambda>xs. xs\<rparr> (w1, j1) = (Ok (), w2, j2) \<and>
    fst (recovery \<lparr>env_bs = mem_disk_ops, env_mem = \<lambda>_. 0, env_ossl = plain_openssl, env_order = \<lambda>xs. xs\<rparr>
      (raw_create \<lparr>region_start = 3, region_end = 8\<rparr>)
      (w2, \<lparr>bf_disk = \<lparr>region_start = 0, region_end = 3\<rparr>, bf_size = 12288\<rparr>, \<lparr>nodes = undefined, next_ref = 0\<rparr>)) = Panic"
proof -
  let ?E = "\<lparr>env_bs = mem_disk_ops, env_mem = \<lambda>_. 0, env_ossl = plain_openssl, env_order = \<lambda>xs. xs\<rparr>"
  have n: "rec_number (le_bytes 8 2 @ zeros 4096) = 2" by (simp add: rec_number_def slice_def)
  have d: "is_data_node (rec_number (le_bytes 8 2 @ zeros 4096))" unfolding n by (simp add: is_data_node_def)
  show ?thesis
    using recovery_panics_on_uncommitted_data [of ?E "zeros 32768" "\<lparr>region_start = 3, region_end = 8\<rparr>"
        "\<lparr>bf_disk = \<lparr>region_start = 0, region_end = 3\<rparr>, bf_size = 12288\<rparr>" "[]" "le_bytes 8 2 @ zeros 4096"
        "[le_bytes 8 1 @ zeros 4096]" "\<lparr>nodes = undefined, next_ref = 0\<rparr>"] d
    by (simp add: mem_disk_valid_def mem_disk_nblocks_def mem_disk_sep_def)
qed

end
