(* ===== verification/Linked_List.thy ===== *)
theory Linked_List
  imports Errors
begin

text \<open>
  The intrusive doubly-linked list of the node cache (\<^verbatim>\<open>core/src/pfs/sys/cache/list.rs\<close>).

  The source keeps raw \<open>NonNull<Node>\<close> pointers and writes through them, so the model keeps an
  explicit heap of cells (\<open>ll_heap\<close>, with an allocation counter for \<open>Box::new\<close>) and a list
  header (\<open>linked_list\<close>: \<open>head\<close>, \<open>tail\<close>, \<open>len\<close>). Every method is the sequence of pointer
  writes of the source. \<open>ll_inv h l as\<close> says that the header \<open>l\<close> represents the cells \<open>as\<close>
  from head to tail; each method is shown to implement the corresponding list operation under
  it, with the one exception \<open>move_to_tail\<close>, whose behaviour on the tail cell is a theorem.
\<close>

section \<open>Cells, heap and header\<close>

type_synonym addr = nat

record ll_node =
  nd_next :: "addr option"
  nd_prev :: "addr option"
  nd_element :: nat

record ll_heap =
  cells :: "addr \<Rightarrow> ll_node"
  fresh :: addr

record linked_list =
  ll_head :: "addr option"
  ll_tail :: "addr option"
  ll_len :: nat

definition ll_node_new :: "nat \<Rightarrow> ll_node" where
  "ll_node_new e = \<lparr>nd_next = None, nd_prev = None, nd_element = e\<rparr>"

definition heap_empty :: ll_heap where
  "heap_empty = \<lparr>cells = (\<lambda>_. ll_node_new 0), fresh = 0\<rparr>"

definition box_new :: "ll_heap \<Rightarrow> ll_node \<Rightarrow> addr \<times> ll_heap" where
  "box_new h n = (fresh h, h\<lparr>cells := (cells h)(fresh h := n), fresh := Suc (fresh h)\<rparr>)"

definition set_next :: "addr \<Rightarrow> addr option \<Rightarrow> ll_heap \<Rightarrow> ll_heap" where
  "set_next a v h = h\<lparr>cells := (cells h)(a := (cells h a)\<lparr>nd_next := v\<rparr>)\<rparr>"

definition set_prev :: "addr \<Rightarrow> addr option \<Rightarrow> ll_heap \<Rightarrow> ll_heap" where
  "set_prev a v h = h\<lparr>cells := (cells h)(a := (cells h a)\<lparr>nd_prev := v\<rparr>)\<rparr>"

definition node_next :: "ll_heap \<Rightarrow> addr \<Rightarrow> addr option" where
  "node_next h a = nd_next (cells h a)"

definition node_prev :: "ll_heap \<Rightarrow> addr \<Rightarrow> addr option" where
  "node_prev h a = nd_prev (cells h a)"

definition node_elem :: "ll_heap \<Rightarrow> addr \<Rightarrow> nat" where
  "node_elem h a = nd_element (cells h a)"

section \<open>The methods of the list\<close>

definition ll_new :: linked_list where
  "ll_new = \<lparr>ll_head = None, ll_tail = None, ll_len = 0\<rparr>"

definition ll_is_empty :: "linked_list \<Rightarrow> bool" where
  "ll_is_empty l \<longleftrightarrow> ll_head l = None"

definition push_front_node :: "addr \<Rightarrow> ll_heap \<times> linked_list \<Rightarrow> ll_heap \<times> linked_list" where
  "push_front_node a = (\<lambda>(h, l).
     let h1 = set_prev a None (set_next a (ll_head l) h)
     in case ll_head l of
          None \<Rightarrow> (h1, l\<lparr>ll_tail := Some a, ll_head := Some a, ll_len := ll_len l + 1\<rparr>)
        | Some hn \<Rightarrow> (set_prev hn (Some a) h1, l\<lparr>ll_head := Some a, ll_len := ll_len l + 1\<rparr>))"

definition pop_front_node ::
  "ll_heap \<times> linked_list \<Rightarrow> addr option \<times> ll_heap \<times> linked_list"
where
  "pop_front_node = (\<lambda>(h, l).
     case ll_head l of
       None \<Rightarrow> (None, h, l)
     | Some a \<Rightarrow>
         (case node_next h a of
            None \<Rightarrow> (Some a, h, l\<lparr>ll_head := None, ll_tail := None, ll_len := ll_len l - 1\<rparr>)
          | Some hn \<Rightarrow>
              (Some a, set_prev hn None h, l\<lparr>ll_head := Some hn, ll_len := ll_len l - 1\<rparr>)))"

definition push_back_node :: "addr \<Rightarrow> ll_heap \<times> linked_list \<Rightarrow> ll_heap \<times> linked_list" where
  "push_back_node a = (\<lambda>(h, l).
     let h1 = set_prev a (ll_tail l) (set_next a None h)
     in case ll_tail l of
          None \<Rightarrow> (h1, l\<lparr>ll_head := Some a, ll_tail := Some a, ll_len := ll_len l + 1\<rparr>)
        | Some tn \<Rightarrow> (set_next tn (Some a) h1, l\<lparr>ll_tail := Some a, ll_len := ll_len l + 1\<rparr>))"

definition pop_back_node ::
  "ll_heap \<times> linked_list \<Rightarrow> addr option \<times> ll_heap \<times> linked_list"
where
  "pop_back_node = (\<lambda>(h, l).
     case ll_tail l of
       None \<Rightarrow> (None, h, l)
     | Some a \<Rightarrow>
         (case node_prev h a of
            None \<Rightarrow> (Some a, h, l\<lparr>ll_tail := None, ll_head := None, ll_len := ll_len l - 1\<rparr>)
          | Some tn \<Rightarrow>
              (Some a, set_next tn None h, l\<lparr>ll_tail := Some tn, ll_len := ll_len l - 1\<rparr>)))"

definition unlink_node :: "addr \<Rightarrow> ll_heap \<times> linked_list \<Rightarrow> ll_heap \<times> linked_list" where
  "unlink_node a = (\<lambda>(h, l).
     let (h1, l1) = (case node_prev h a of
                       Some p \<Rightarrow> (set_next p (node_next h a) h, l)
                     | None \<Rightarrow> (h, l\<lparr>ll_head := node_next h a\<rparr>));
         (h2, l2) = (case node_next h1 a of
                       Some n \<Rightarrow> (set_prev n (node_prev h1 a) h1, l1)
                     | None \<Rightarrow> (h1, l1\<lparr>ll_tail := node_prev h1 a\<rparr>))
     in (h2, l2\<lparr>ll_len := ll_len l2 - 1\<rparr>))"

definition ll_move_to_head :: "addr \<Rightarrow> ll_heap \<times> linked_list \<Rightarrow> ll_heap \<times> linked_list" where
  "ll_move_to_head a = (\<lambda>(h, l).
     if ll_is_empty l then (h, l)
     else case node_prev h a of
            None \<Rightarrow> (h, l)
          | Some p \<Rightarrow>
              (let h1 = set_next p (node_next h a) h;
                   (h2, l2) = (case node_next h1 a of
                                 Some n \<Rightarrow> (set_prev n (node_prev h1 a) h1, l)
                               | None \<Rightarrow> (h1, l\<lparr>ll_tail := node_prev h1 a\<rparr>));
                   h3 = set_prev a None (set_next a (ll_head l2) h2)
               in case ll_head l2 of
                    None \<Rightarrow> (h3, l2\<lparr>ll_tail := Some a, ll_head := Some a\<rparr>)
                  | Some hn \<Rightarrow> (set_prev hn (Some a) h3, l2\<lparr>ll_head := Some a\<rparr>)))"

definition ll_move_to_tail :: "addr \<Rightarrow> ll_heap \<times> linked_list \<Rightarrow> ll_heap \<times> linked_list" where
  "ll_move_to_tail a = (\<lambda>(h, l).
     if ll_is_empty l then (h, l)
     else let (h1, l1) = (case node_prev h a of
                            Some p \<Rightarrow> (set_next p (node_next h a) h, l)
                          | None \<Rightarrow> (h, l\<lparr>ll_head := node_next h a\<rparr>))
          in case node_next h1 a of
               None \<Rightarrow> (h1, l1)
             | Some n \<Rightarrow>
                 (let h2 = set_prev n (node_prev h1 a) h1;
                      h3 = set_prev a (ll_tail l1) (set_next a None h2)
                  in case ll_tail l1 of
                       None \<Rightarrow> (h3, l1\<lparr>ll_head := Some a, ll_tail := Some a\<rparr>)
                     | Some tn \<Rightarrow> (set_next tn (Some a) h3, l1\<lparr>ll_tail := Some a\<rparr>)))"

definition ll_push_front :: "nat \<Rightarrow> ll_heap \<times> linked_list \<Rightarrow> ll_heap \<times> linked_list" where
  "ll_push_front e = (\<lambda>(h, l). let (a, h1) = box_new h (ll_node_new e) in push_front_node a (h1, l))"

definition ll_push_back :: "nat \<Rightarrow> ll_heap \<times> linked_list \<Rightarrow> ll_heap \<times> linked_list" where
  "ll_push_back e = (\<lambda>(h, l). let (a, h1) = box_new h (ll_node_new e) in push_back_node a (h1, l))"

definition ll_pop_front ::
  "ll_heap \<times> linked_list \<Rightarrow> nat option \<times> ll_heap \<times> linked_list"
where
  "ll_pop_front s = (case pop_front_node s of (r, h, l) \<Rightarrow> (map_option (node_elem h) r, h, l))"

definition ll_pop_back ::
  "ll_heap \<times> linked_list \<Rightarrow> nat option \<times> ll_heap \<times> linked_list"
where
  "ll_pop_back s = (case pop_back_node s of (r, h, l) \<Rightarrow> (map_option (node_elem h) r, h, l))"

definition ll_front :: "ll_heap \<times> linked_list \<Rightarrow> nat option" where
  "ll_front = (\<lambda>(h, l). map_option (node_elem h) (ll_head l))"

definition ll_back :: "ll_heap \<times> linked_list \<Rightarrow> nat option" where
  "ll_back = (\<lambda>(h, l). map_option (node_elem h) (ll_tail l))"

text \<open>\<open>append\<close> moves the cells of \<open>other\<close> behind those of \<open>self\<close>; both live in one heap.\<close>

definition ll_append ::
  "ll_heap \<Rightarrow> linked_list \<Rightarrow> linked_list \<Rightarrow> ll_heap \<times> linked_list \<times> linked_list"
where
  "ll_append h l other =
     (case ll_tail l of
        None \<Rightarrow> (h, other, l)
      | Some tn \<Rightarrow>
          (case ll_head other of
             None \<Rightarrow> (h, l, other)
           | Some oh \<Rightarrow>
               (set_prev oh (Some tn) (set_next tn (Some oh) h),
                l\<lparr>ll_tail := ll_tail other, ll_len := ll_len l + ll_len other\<rparr>,
                other\<lparr>ll_head := None, ll_tail := None, ll_len := 0\<rparr>)))"

section \<open>Iterators\<close>

record iter_state =
  it_head :: "addr option"
  it_tail :: "addr option"
  it_len :: nat

definition ll_iter :: "linked_list \<Rightarrow> iter_state" where
  "ll_iter l = \<lparr>it_head = ll_head l, it_tail = ll_tail l, it_len = ll_len l\<rparr>"

definition iter_next :: "ll_heap \<Rightarrow> iter_state \<Rightarrow> nat option \<times> iter_state" where
  "iter_next h it =
     (if it_len it = 0 then (None, it)
      else case it_head it of
             None \<Rightarrow> (None, it)
           | Some a \<Rightarrow> (Some (node_elem h a),
                        it\<lparr>it_len := it_len it - 1, it_head := node_next h a\<rparr>))"

definition iter_next_back :: "ll_heap \<Rightarrow> iter_state \<Rightarrow> nat option \<times> iter_state" where
  "iter_next_back h it =
     (if it_len it = 0 then (None, it)
      else case it_tail it of
             None \<Rightarrow> (None, it)
           | Some a \<Rightarrow> (Some (node_elem h a),
                        it\<lparr>it_len := it_len it - 1, it_tail := node_prev h a\<rparr>))"

text \<open>Draining an iterator from the front or from the back.\<close>

function iter_collect :: "ll_heap \<Rightarrow> iter_state \<Rightarrow> nat list" where
  "iter_collect h it =
     (case iter_next h it of (None, _) \<Rightarrow> [] | (Some e, it') \<Rightarrow> e # iter_collect h it')"
  by pat_completeness auto
termination
  by (relation "measure (\<lambda>(h, it). it_len it)")
    (auto simp: iter_next_def split: if_splits option.splits)

function iter_collect_rev :: "ll_heap \<Rightarrow> iter_state \<Rightarrow> nat list" where
  "iter_collect_rev h it =
     (case iter_next_back h it of (None, _) \<Rightarrow> [] | (Some e, it') \<Rightarrow> e # iter_collect_rev h it')"
  by pat_completeness auto
termination
  by (relation "measure (\<lambda>(h, it). it_len it)")
    (auto simp: iter_next_back_def split: if_splits option.splits)

declare iter_collect.simps [simp del] iter_collect_rev.simps [simp del]

definition ll_contains :: "ll_heap \<Rightarrow> linked_list \<Rightarrow> nat \<Rightarrow> bool" where
  "ll_contains h l x \<longleftrightarrow> x \<in> set (iter_collect h (ll_iter l))"

definition ll_eq :: "ll_heap \<Rightarrow> linked_list \<Rightarrow> linked_list \<Rightarrow> bool" where
  "ll_eq h l l' \<longleftrightarrow> ll_len l = ll_len l' \<and>
     iter_collect h (ll_iter l) = iter_collect h (ll_iter l')"

text \<open>
  \<open>drain_filter\<close>: the iterator walks the cells from \<open>it\<close>, unlinks the ones the predicate selects
  and yields their elements. Draining it to the end is \<open>drain_filter\<close> below; \<open>old_len\<close> bounds the
  number of cells it visits.
\<close>

fun drain_filter ::
  "(nat \<Rightarrow> bool) \<Rightarrow> nat \<Rightarrow> addr option \<Rightarrow> ll_heap \<times> linked_list \<Rightarrow> nat list \<times> ll_heap \<times> linked_list"
where
  "drain_filter pred n None s = ([], s)"
| "drain_filter pred 0 (Some a) s = ([], s)"
| "drain_filter pred (Suc n) (Some a) s =
     (let it = node_next (fst s) a
      in if pred (node_elem (fst s) a)
         then (case drain_filter pred n it (unlink_node a s) of
                 (es, s') \<Rightarrow> (node_elem (fst s) a # es, s'))
         else drain_filter pred n it s)"


section \<open>Segments of linked cells\<close>

definition hd_or :: "addr list \<Rightarrow> addr option \<Rightarrow> addr option" where
  "hd_or as q = (case as of [] \<Rightarrow> q | a # _ \<Rightarrow> Some a)"

definition last_or :: "addr option \<Rightarrow> addr list \<Rightarrow> addr option" where
  "last_or p as = (if as = [] then p else Some (last as))"

primrec seg :: "(addr \<Rightarrow> ll_node) \<Rightarrow> addr option \<Rightarrow> addr list \<Rightarrow> addr option \<Rightarrow> bool" where
  "seg m p [] q = True"
| "seg m p (a # as) q =
     (nd_prev (m a) = p \<and> nd_next (m a) = hd_or as q \<and> seg m (Some a) as q)"

definition ll_inv :: "ll_heap \<Rightarrow> linked_list \<Rightarrow> addr list \<Rightarrow> bool" where
  "ll_inv h l as \<longleftrightarrow> seg (cells h) None as None \<and> ll_head l = hd_or as None \<and>
     ll_tail l = last_or None as \<and> ll_len l = length as \<and> distinct as \<and>
     (\<forall>a\<in>set as. a < fresh h)"

definition ll_elems :: "ll_heap \<Rightarrow> addr list \<Rightarrow> nat list" where
  "ll_elems h as = map (node_elem h) as"

named_theorems ll_simps \<open>unfolding the pointer writes\<close>

lemma hd_or_simps [simp]:
  "hd_or [] q = q" "hd_or (a # as) q = Some a"
  "hd_or (xs @ ys) q = hd_or xs (hd_or ys q)"
  by (simp_all add: hd_or_def split: list.splits)

lemma last_or_simps [simp]:
  "last_or p [] = p" "last_or p (as @ [a]) = Some a"
  "last_or p (a # as) = last_or (Some a) as"
  "last_or p (xs @ ys) = last_or (last_or p xs) ys"
  by (simp_all add: last_or_def)

lemma hd_or_None_iff [simp]: "hd_or as None = None \<longleftrightarrow> as = []"
  by (cases as) simp_all

lemma last_or_None_iff [simp]: "last_or None as = None \<longleftrightarrow> as = []"
  by (simp add: last_or_def)

lemma hd_or_Some_not_None [simp]: "hd_or as (Some a) \<noteq> None" "last_or (Some a) as \<noteq> None"
  by (simp_all add: hd_or_def last_or_def split: list.splits)

lemma last_or_Some_iff: "last_or None as = Some a \<longleftrightarrow> (\<exists>bs. as = bs @ [a])"
  by (cases as rule: rev_cases) (auto simp: last_or_def)

lemma hd_or_Some_iff: "hd_or as None = Some a \<longleftrightarrow> (\<exists>bs. as = a # bs)"
  by (cases as) auto

lemma seg_append [simp]:
  "seg m p (xs @ ys) q \<longleftrightarrow> seg m p xs (hd_or ys q) \<and> seg m (last_or p xs) ys q"
  by (induction xs arbitrary: p) auto

lemma seg_upd [simp]: "a \<notin> set as \<Longrightarrow> seg (m(a := n)) p as q = seg m p as q"
  by (induction as arbitrary: p) auto

lemmas ll_cells [ll_simps] =
  set_next_def set_prev_def node_next_def node_prev_def node_elem_def

lemma node_elem_writes [simp]:
  "node_elem (set_next a v h) = node_elem h" "node_elem (set_prev a v h) = node_elem h"
  by (auto simp: ll_simps)

lemma fresh_writes [simp]:
  "fresh (set_next a v h) = fresh h" "fresh (set_prev a v h) = fresh h"
  by (simp_all add: ll_simps)

lemma ll_elems_writes [simp]:
  "ll_elems (set_next a v h) as = ll_elems h as" "ll_elems (set_prev a v h) as = ll_elems h as"
  by (simp_all add: ll_elems_def)

lemma ll_elems_append [simp]:
  "ll_elems h [] = []" "ll_elems h (a # as) = node_elem h a # ll_elems h as"
  "ll_elems h (as @ bs) = ll_elems h as @ ll_elems h bs"
  by (simp_all add: ll_elems_def)

lemma length_ll_elems [simp]: "length (ll_elems h as) = length as"
  by (simp add: ll_elems_def)

lemma ll_inv_new: "ll_inv h ll_new []"
  by (simp add: ll_inv_def ll_new_def)

lemma ll_is_empty_iff: "ll_inv h l as \<Longrightarrow> ll_is_empty l \<longleftrightarrow> as = []"
  by (simp add: ll_inv_def ll_is_empty_def)

lemma ll_len_eq: "ll_inv h l as \<Longrightarrow> ll_len l = length as"
  by (simp add: ll_inv_def)

section \<open>The methods implement the list operations\<close>

lemma push_front_node_frame:
  assumes "push_front_node a (h, l) = (h', l')"
  shows "node_elem h' = node_elem h \<and> fresh h' = fresh h"
  using assms by (auto simp: push_front_node_def Let_def split: option.splits)

lemma push_front_node_correct:
  assumes "ll_inv h l as" "a \<notin> set as" "a < fresh h"
    and "push_front_node a (h, l) = (h', l')"
  shows "ll_inv h' l' (a # as)"
  using assms by (cases as) (auto simp: push_front_node_def ll_inv_def ll_simps)

lemma ll_push_front_correct:
  assumes inv: "ll_inv h l as" and run: "ll_push_front e (h, l) = (h', l')"
  shows "ll_inv h' l' (fresh h # as) \<and> node_elem h' = (node_elem h)(fresh h := e)"
proof -
  let ?h = "h\<lparr>cells := (cells h)(fresh h := ll_node_new e), fresh := Suc (fresh h)\<rparr>"
  have notin: "fresh h \<notin> set as" using inv by (auto simp: ll_inv_def)
  have "ll_inv ?h l as" using inv notin by (auto simp: ll_inv_def)
  moreover have "push_front_node (fresh h) (?h, l) = (h', l')"
    using run by (simp add: ll_push_front_def box_new_def)
  ultimately have "ll_inv h' l' (fresh h # as) \<and> node_elem h' = node_elem ?h"
    using push_front_node_correct [of ?h l as "fresh h"] push_front_node_frame notin by simp
  then show ?thesis by (auto simp: node_elem_def ll_node_new_def fun_eq_iff)
qed

lemma pop_front_node_frame:
  assumes "pop_front_node (h, l) = (r, h', l')"
  shows "node_elem h' = node_elem h \<and> fresh h' = fresh h"
  using assms by (auto simp: pop_front_node_def split: option.splits)

lemma pop_front_node_correct:
  assumes "ll_inv h l (a # as)" and "pop_front_node (h, l) = (r, h', l')"
  shows "r = Some a \<and> ll_inv h' l' as"
  using assms by (cases as) (auto simp: pop_front_node_def ll_inv_def ll_simps)

lemma push_back_node_frame:
  assumes "push_back_node a (h, l) = (h', l')"
  shows "node_elem h' = node_elem h \<and> fresh h' = fresh h"
  using assms by (auto simp: push_back_node_def Let_def split: option.splits)

lemma push_back_node_correct:
  assumes "ll_inv h l as" "a \<notin> set as" "a < fresh h"
    and "push_back_node a (h, l) = (h', l')"
  shows "ll_inv h' l' (as @ [a])"
  using assms
  by (cases as rule: rev_cases) (auto simp: push_back_node_def ll_inv_def ll_simps)

lemma pop_back_node_frame:
  assumes "pop_back_node (h, l) = (r, h', l')"
  shows "node_elem h' = node_elem h \<and> fresh h' = fresh h"
  using assms by (auto simp: pop_back_node_def split: option.splits)

lemma pop_back_node_correct:
  assumes "ll_inv h l (as @ [a])" and "pop_back_node (h, l) = (r, h', l')"
  shows "r = Some a \<and> ll_inv h' l' as"
  using assms
  by (cases as rule: rev_cases) (auto simp: pop_back_node_def ll_inv_def ll_simps)


lemma unlink_node_frame:
  assumes "unlink_node a (h, l) = (h', l')"
  shows "node_elem h' = node_elem h \<and> fresh h' = fresh h"
  using assms by (auto simp: unlink_node_def split: option.splits)

lemma unlink_node_correct:
  assumes "ll_inv h l (xs @ a # ys)" and "unlink_node a (h, l) = (h', l')"
  shows "ll_inv h' l' (xs @ ys)"
  using assms
  by (cases xs rule: rev_cases; cases ys) (auto simp: unlink_node_def ll_inv_def ll_simps)

lemma ll_move_to_head_frame:
  assumes "ll_move_to_head a (h, l) = (h', l')"
  shows "node_elem h' = node_elem h \<and> fresh h' = fresh h"
  using assms
  by (auto simp: ll_move_to_head_def Let_def split: option.splits if_splits)

lemma ll_move_to_head_first:
  assumes "ll_inv h l (a # ys)"
  shows "ll_move_to_head a (h, l) = (h, l)"
  using assms by (auto simp: ll_move_to_head_def ll_inv_def ll_simps)

lemma ll_move_to_head_inner:
  assumes "ll_inv h l ((b # xs) @ a # ys)" and "ll_move_to_head a (h, l) = (h', l')"
  shows "ll_inv h' l' (a # (b # xs) @ ys)"
  using assms
  by (cases xs rule: rev_cases; cases ys)
    (auto simp: ll_move_to_head_def ll_is_empty_def ll_inv_def ll_simps)

lemma ll_move_to_head_correct:
  assumes inv: "ll_inv h l (xs @ a # ys)" and run: "ll_move_to_head a (h, l) = (h', l')"
  shows "ll_inv h' l' (a # xs @ ys)"
proof (cases xs)
  case Nil
  with inv run show ?thesis using ll_move_to_head_first [of h l a ys] by simp
next
  case (Cons b bs)
  with inv run show ?thesis using ll_move_to_head_inner [of h l b bs a ys] by simp
qed


lemma ll_move_to_tail_correct:
  assumes "ll_inv h l (xs @ a # ys)" "ys \<noteq> []" and "ll_move_to_tail a (h, l) = (h', l')"
  shows "ll_inv h' l' (xs @ ys @ [a])"
  using assms
  by (cases xs rule: rev_cases; cases ys rule: rev_cases; cases "butlast ys")
    (auto simp: ll_move_to_tail_def ll_is_empty_def ll_inv_def ll_simps)

lemma ll_append_correct:
  assumes "ll_inv h l as" "ll_inv h other bs" "set as \<inter> set bs = {}"
    and "ll_append h l other = (h', l', other')"
  shows "ll_inv h' l' (as @ bs) \<and> ll_inv h' other' [] \<and> node_elem h' = node_elem h"
  using assms
  by (cases as rule: rev_cases; cases bs)
    (auto simp: ll_append_def ll_inv_def ll_simps)

section \<open>Iterators enumerate the cells\<close>

lemma iter_collect_seg:
  assumes "seg (cells h) p as q" "it_head it = hd_or as q" "it_len it = length as"
  shows "iter_collect h it = ll_elems h as"
  using assms
proof (induction as arbitrary: p it)
  case Nil
  then show ?case by (subst iter_collect.simps) (simp add: iter_next_def)
next
  case (Cons a as)
  let ?it = "it\<lparr>it_len := length as, it_head := node_next h a\<rparr>"
  have "iter_collect h ?it = ll_elems h as"
    using Cons.prems by (intro Cons.IH [of "Some a"]) (simp_all add: node_next_def)
  moreover have "iter_next h it = (Some (node_elem h a), ?it)"
    using Cons.prems by (simp add: iter_next_def)
  ultimately show ?case by (subst iter_collect.simps) simp
qed

lemma iter_collect_rev_seg:
  assumes "seg (cells h) p as q" "it_tail it = last_or p as" "it_len it = length as"
  shows "iter_collect_rev h it = rev (ll_elems h as)"
  using assms
proof (induction as arbitrary: q it rule: rev_induct)
  case Nil
  then show ?case by (subst iter_collect_rev.simps) (simp add: iter_next_back_def)
next
  case (snoc a as)
  let ?it = "it\<lparr>it_len := length as, it_tail := node_prev h a\<rparr>"
  have "iter_collect_rev h ?it = rev (ll_elems h as)"
    using snoc.prems by (intro snoc.IH [of "Some a"]) (simp_all add: node_prev_def)
  moreover have "iter_next_back h it = (Some (node_elem h a), ?it)"
    using snoc.prems by (simp add: iter_next_back_def)
  ultimately show ?case by (subst iter_collect_rev.simps) simp
qed

lemma iter_collect_correct: "ll_inv h l as \<Longrightarrow> iter_collect h (ll_iter l) = ll_elems h as"
  by (rule iter_collect_seg [of h None as None]) (simp_all add: ll_inv_def ll_iter_def)

lemma iter_collect_rev_correct:
  "ll_inv h l as \<Longrightarrow> iter_collect_rev h (ll_iter l) = rev (ll_elems h as)"
  by (rule iter_collect_rev_seg [of h None as None]) (simp_all add: ll_inv_def ll_iter_def)

lemma ll_contains_correct: "ll_inv h l as \<Longrightarrow> ll_contains h l x \<longleftrightarrow> x \<in> set (ll_elems h as)"
  by (simp add: ll_contains_def iter_collect_correct)

lemma drain_filter_frame:
  "drain_filter pred n it s = (es, s') \<Longrightarrow>
     node_elem (fst s') = node_elem (fst s) \<and> fresh (fst s') = fresh (fst s)"
proof (induction pred n it s arbitrary: es s' rule: drain_filter.induct)
  case (3 pred n a s)
  obtain h l where s: "s = (h, l)" by (cases s)
  obtain h1 l1 where u: "unlink_node a (h, l) = (h1, l1)" by (cases "unlink_node a (h, l)")
  from unlink_node_frame [OF u] "3" s u show ?case
    by (auto simp: Let_def split: if_splits prod.splits)
qed auto

lemma drain_filter_correct:
  assumes "ll_inv h l (xs @ ys)" "it = hd_or ys None" "n = length ys"
    and "drain_filter pred n it (h, l) = (es, h', l')"
  shows "es = filter pred (ll_elems h ys) \<and>
    ll_inv h' l' (xs @ filter (\<lambda>a. \<not> pred (node_elem h a)) ys)"
  using assms
proof (induction ys arbitrary: xs h l it n es h' l')
  case Nil
  then show ?case by simp
next
  case (Cons a ys)
  have it: "it = Some a" and n: "n = Suc (length ys)" using Cons.prems by simp_all
  have nxt: "node_next h a = hd_or ys None"
    using Cons.prems(1) by (auto simp: ll_inv_def node_next_def)
  show ?case
  proof (cases "pred (node_elem h a)")
    case True
    obtain h1 l1 where u: "unlink_node a (h, l) = (h1, l1)" by (cases "unlink_node a (h, l)")
    have inv1: "ll_inv h1 l1 (xs @ ys)"
      using unlink_node_correct [OF Cons.prems(1) u] .
    have el: "node_elem h1 = node_elem h" using unlink_node_frame [OF u] by simp
    obtain es1 where es: "es = node_elem h a # es1"
      and rec: "drain_filter pred (length ys) (hd_or ys None) (h1, l1) = (es1, h', l')"
      using Cons.prems(4) True u nxt it n by (auto simp: Let_def split: prod.splits)
    from Cons.IH [OF inv1 refl refl rec] True es el show ?thesis
      by (simp add: ll_elems_def)
  next
    case False
    have rec: "drain_filter pred (length ys) (hd_or ys None) (h, l) = (es, h', l')"
      using Cons.prems(4) False nxt it n by (simp add: Let_def)
    have "ll_inv h l ((xs @ [a]) @ ys)" using Cons.prems(1) by simp
    from Cons.IH [OF this refl refl rec] False show ?thesis by simp
  qed
qed

section \<open>\<open>move_to_tail\<close> on the tail cell\<close>

text \<open>
  \<open>move_to_tail\<close> redirects the predecessor's \<open>next\<close> pointer (or the list head) before it tests
  whether the cell is already last, and returns without restoring it. The forward list is cut.
\<close>

lemma ll_move_to_tail_last:
  assumes inv: "ll_inv h l (as @ [a])" and run: "ll_move_to_tail a (h, l) = (h', l')"
  shows "iter_collect h' (ll_iter l') = ll_elems h as \<and> ll_len l' = Suc (length as)"
proof (cases as rule: rev_cases)
  case Nil
  with assms have "ll_head l' = None \<and> ll_len l' = 1"
    by (auto simp: ll_move_to_tail_def ll_is_empty_def ll_inv_def ll_simps)
  then show ?thesis using Nil
    by (subst iter_collect.simps) (simp add: iter_next_def ll_iter_def)
next
  case (snoc bs b)
  let ?m = "cells h'"
  have l': "l' = l" and h': "h' = set_next b None h"
    using assms snoc by (auto simp: ll_move_to_tail_def ll_is_empty_def ll_inv_def ll_simps)
  have seg: "seg ?m None as None" "hd_or as None = ll_head l"
    using inv snoc h' by (auto simp: ll_inv_def ll_simps)
  have len: "ll_len l = Suc (length as)" using inv by (simp add: ll_inv_def)
  have gen: "iter_collect h' it = ll_elems h' as"
    if "seg ?m p as None" "it_head it = hd_or as None" "it_len it \<ge> length as" for p it
    using that
  proof (induction as arbitrary: p it)
    case Nil
    then show ?case by (subst iter_collect.simps) (simp add: iter_next_def)
  next
    case (Cons c cs)
    let ?it = "it\<lparr>it_len := it_len it - 1, it_head := node_next h' c\<rparr>"
    have "iter_collect h' ?it = ll_elems h' cs"
      using Cons.prems by (intro Cons.IH [of "Some c"]) (auto simp: node_next_def)
    moreover have "iter_next h' it = (Some (node_elem h' c), ?it)"
      using Cons.prems by (auto simp: iter_next_def)
    ultimately show ?case by (subst iter_collect.simps) simp
  qed
  have "iter_collect h' (ll_iter l) = ll_elems h' as"
    using gen [OF seg(1)] seg(2) len by (simp add: ll_iter_def)
  then show ?thesis using h' l' len by simp
qed


section \<open>The interface the cache relies on\<close>

text \<open>
  \<open>recency_list\<close> is the contract between \<open>LinkedList\<close> and \<open>LruCache\<close>: the cells in order,
  their elements, and what each operation does to them.
\<close>

locale recency_list =
  fixes cells_of :: "'q \<Rightarrow> 'r list \<Rightarrow> bool"
    and elem_of :: "'q \<Rightarrow> 'r \<Rightarrow> nat"
    and head_ref :: "'q \<Rightarrow> 'r option"
    and size_of :: "'q \<Rightarrow> nat"
    and push_front :: "nat \<Rightarrow> 'q \<Rightarrow> 'q"
    and pop_front :: "'q \<Rightarrow> nat option \<times> 'q"
    and pop_back :: "'q \<Rightarrow> nat option \<times> 'q"
    and move_to_head :: "'r \<Rightarrow> 'q \<Rightarrow> 'q"
    and collect :: "'q \<Rightarrow> nat list"
    and collect_rev :: "'q \<Rightarrow> nat list"
  assumes cells_distinct: "cells_of q as \<Longrightarrow> distinct as"
    and size_cells: "cells_of q as \<Longrightarrow> size_of q = length as"
    and push_front_cells: "cells_of q as \<Longrightarrow>
      \<exists>a. a \<notin> set as \<and> cells_of (push_front e q) (a # as) \<and> head_ref (push_front e q) = Some a \<and>
        elem_of (push_front e q) a = e \<and> (\<forall>b. b \<noteq> a \<longrightarrow> elem_of (push_front e q) b = elem_of q b)"
    and pop_front_cells: "cells_of q (a # as) \<Longrightarrow>
      \<exists>q'. pop_front q = (Some (elem_of q a), q') \<and> cells_of q' as \<and> elem_of q' = elem_of q"
    and pop_back_cells: "cells_of q (as @ [a]) \<Longrightarrow>
      \<exists>q'. pop_back q = (Some (elem_of q a), q') \<and> cells_of q' as \<and> elem_of q' = elem_of q"
    and pop_empty: "cells_of q [] \<Longrightarrow> pop_front q = (None, q) \<and> pop_back q = (None, q)"
    and move_to_head_cells: "cells_of q (xs @ a # ys) \<Longrightarrow>
      cells_of (move_to_head a q) (a # xs @ ys) \<and> elem_of (move_to_head a q) = elem_of q"
    and collect_cells: "cells_of q as \<Longrightarrow> collect q = map (elem_of q) as"
    and collect_rev_cells: "cells_of q as \<Longrightarrow> collect_rev q = rev (map (elem_of q) as)"
begin

lemma pop_back_cases:
  assumes "cells_of q as"
  shows "(as = [] \<and> pop_back q = (None, q)) \<or>
    (\<exists>bs b q'. as = bs @ [b] \<and> pop_back q = (Some (elem_of q b), q') \<and> cells_of q' bs)"
proof (cases as rule: rev_cases)
  case Nil
  with assms pop_empty show ?thesis by blast
next
  case (snoc bs b)
  with assms pop_back_cells [of q bs b] show ?thesis by blast
qed

lemma push_then_pop_front:
  assumes "cells_of q as"
  shows "fst (pop_front (push_front e q)) = Some e"
proof -
  obtain a where "cells_of (push_front e q) (a # as)" "elem_of (push_front e q) a = e"
    using push_front_cells [OF assms] by blast
  then show ?thesis using pop_front_cells [of "push_front e q" a as] by auto
qed

end

definition dll_repr :: "ll_heap \<times> linked_list \<Rightarrow> addr list \<Rightarrow> bool" where
  "dll_repr q as = ll_inv (fst q) (snd q) as"

interpretation dll: recency_list dll_repr "\<lambda>q. node_elem (fst q)" "\<lambda>q. ll_head (snd q)"
  "\<lambda>q. ll_len (snd q)" ll_push_front ll_pop_front ll_pop_back ll_move_to_head
  "\<lambda>q. iter_collect (fst q) (ll_iter (snd q))" "\<lambda>q. iter_collect_rev (fst q) (ll_iter (snd q))"
proof (unfold_locales, goal_cases)
  case (1 q as)
  then show ?case by (simp add: dll_repr_def ll_inv_def)
next
  case (2 q as)
  then show ?case by (simp add: dll_repr_def ll_inv_def)
next
  case (3 q as e)
  obtain h l where q: "q = (h, l)" by (cases q)
  obtain h' l' where r: "ll_push_front e (h, l) = (h', l')" by (cases "ll_push_front e (h, l)")
  have inv: "ll_inv h l as" using 3 q by (simp add: dll_repr_def)
  from ll_push_front_correct [OF inv r]
  have "ll_inv h' l' (fresh h # as)" "node_elem h' = (node_elem h)(fresh h := e)" by auto
  moreover have "fresh h \<notin> set as" using inv by (auto simp: ll_inv_def)
  ultimately show ?case using q r by (intro exI [of _ "fresh h"]) (auto simp: dll_repr_def ll_inv_def)
next
  case (4 q a as)
  obtain r h' l' where r: "pop_front_node q = (r, h', l')" by (cases "pop_front_node q")
  with pop_front_node_correct [of "fst q" "snd q" a as] pop_front_node_frame [of "fst q" "snd q"] 4
  show ?case by (auto simp: dll_repr_def ll_pop_front_def)
next
  case (5 q as a)
  obtain r h' l' where r: "pop_back_node q = (r, h', l')" by (cases "pop_back_node q")
  with pop_back_node_correct [of "fst q" "snd q" as a] pop_back_node_frame [of "fst q" "snd q"] 5
  show ?case by (auto simp: dll_repr_def ll_pop_back_def)
next
  case (6 q)
  then show ?case
    by (cases q) (simp add: dll_repr_def ll_inv_def ll_pop_front_def ll_pop_back_def
        pop_front_node_def pop_back_node_def)
next
  case (7 q xs a ys)
  obtain h' l' where r: "ll_move_to_head a q = (h', l')" by (cases "ll_move_to_head a q")
  with ll_move_to_head_correct [of "fst q" "snd q" xs a ys]
    ll_move_to_head_frame [of a "fst q" "snd q"] 7
  show ?case by (auto simp: dll_repr_def)
next
  case (8 q as)
  then show ?case by (simp add: dll_repr_def iter_collect_correct ll_elems_def)
next
  case (9 q as)
  then show ?case by (simp add: dll_repr_def iter_collect_rev_correct ll_elems_def)
qed

end
