(* ===== verification/Lru_Cache.thy ===== *)
theory Lru_Cache
  imports Linked_List
begin

text \<open>
  \<open>core/src/pfs/sys/cache/mod.rs\<close>: the recency cache of file nodes, a doubly linked list of
  keys beside a hash map from keys to entries, each entry holding the cell of its key and the
  cached value.  The abstraction of a cache is the association list of its entries, most
  recently used first; \<open>node_cache\<close> is the interface the file layer relies on.
\<close>

section \<open>The cache\<close>

record 'v lru_entry =
  ent_ref :: addr
  ent_value :: 'v

record 'v lru_cache =
  lru_list :: "ll_heap \<times> linked_list"
  lru_map :: "nat \<Rightarrow> 'v lru_entry option"
  lru_max :: nat

definition lru_new :: "nat \<Rightarrow> 'v lru_cache" where
  "lru_new capacity = \<lparr>lru_list = (heap_empty, ll_new), lru_map = (\<lambda>_. None), lru_max = capacity\<rparr>"

definition lru_capacity :: "'v lru_cache \<Rightarrow> nat" where
  "lru_capacity c = lru_max c"

definition lru_is_empty :: "'v lru_cache \<Rightarrow> bool" where
  "lru_is_empty c = ll_is_empty (snd (lru_list c))"

definition lru_len :: "'v lru_cache \<Rightarrow> nat" where
  "lru_len c = ll_len (snd (lru_list c))"

text \<open>\<open>push_front\<close> always sets the head, so the \<open>unwrap\<close> of \<open>head_node_ref\<close> is \<^term>\<open>the\<close>.\<close>

definition lru_push :: "nat \<Rightarrow> 'v \<Rightarrow> 'v lru_cache \<Rightarrow> bool \<times> 'v lru_cache" where
  "lru_push key value c =
     (if lru_map c key = None then
        let q = ll_push_front key (lru_list c);
            node_ref = the (ll_head (snd q))
        in (True, c\<lparr>lru_list := q,
                    lru_map := (lru_map c)(key \<mapsto> \<lparr>ent_ref = node_ref, ent_value = value\<rparr>)\<rparr>)
      else (False, c))"

definition lru_find :: "'v lru_cache \<Rightarrow> nat \<Rightarrow> 'v option" where
  "lru_find c key = map_option ent_value (lru_map c key)"

definition lru_pop_front :: "'v lru_cache \<Rightarrow> 'v option \<times> 'v lru_cache" where
  "lru_pop_front c = (case ll_pop_front (lru_list c) of
     (None, q) \<Rightarrow> (None, c\<lparr>lru_list := q\<rparr>)
   | (Some key, q) \<Rightarrow> (lru_find c key, c\<lparr>lru_list := q, lru_map := (lru_map c)(key := None)\<rparr>))"

definition lru_pop_back :: "'v lru_cache \<Rightarrow> 'v option \<times> 'v lru_cache" where
  "lru_pop_back c = (case ll_pop_back (lru_list c) of
     (None, q) \<Rightarrow> (None, c\<lparr>lru_list := q\<rparr>)
   | (Some key, q) \<Rightarrow> (lru_find c key, c\<lparr>lru_list := q, lru_map := (lru_map c)(key := None)\<rparr>))"

definition lru_front :: "'v lru_cache \<Rightarrow> 'v option" where
  "lru_front c = Option.bind (ll_front (lru_list c)) (lru_find c)"

definition lru_back :: "'v lru_cache \<Rightarrow> 'v option" where
  "lru_back c = Option.bind (ll_back (lru_list c)) (lru_find c)"

definition lru_move_to_head :: "nat \<Rightarrow> 'v lru_cache \<Rightarrow> 'v lru_cache" where
  "lru_move_to_head key c = (case lru_map c key of
     None \<Rightarrow> c
   | Some entry \<Rightarrow> c\<lparr>lru_list := ll_move_to_head (ent_ref entry) (lru_list c)\<rparr>)"

definition lru_move_to_tail :: "nat \<Rightarrow> 'v lru_cache \<Rightarrow> 'v lru_cache" where
  "lru_move_to_tail key c = (case lru_map c key of
     None \<Rightarrow> c
   | Some entry \<Rightarrow> c\<lparr>lru_list := ll_move_to_tail (ent_ref entry) (lru_list c)\<rparr>)"

text \<open>The bounds of \<open>capacity..self.len()\<close> are evaluated once, before the loop.\<close>

primrec lru_pop_back_n :: "nat \<Rightarrow> 'v lru_cache \<Rightarrow> 'v lru_cache" where
  "lru_pop_back_n 0 c = c"
| "lru_pop_back_n (Suc n) c = lru_pop_back_n n (snd (lru_pop_back c))"

definition lru_change_capacity :: "nat \<Rightarrow> 'v lru_cache \<Rightarrow> 'v lru_cache" where
  "lru_change_capacity capacity c =
     (let c' = (if capacity < lru_len c then lru_pop_back_n (lru_len c - capacity) c else c)
      in c'\<lparr>lru_max := capacity\<rparr>)"

definition lru_clear :: "'v lru_cache \<Rightarrow> 'v lru_cache" where
  "lru_clear c = c\<lparr>lru_list := (fst (lru_list c), ll_new), lru_map := (\<lambda>_. None)\<rparr>"

section \<open>Iterators\<close>

definition lru_iter_next :: "'v lru_cache \<Rightarrow> iter_state \<Rightarrow> 'v option \<times> iter_state" where
  "lru_iter_next c it = (case iter_next (fst (lru_list c)) it of
     (None, it') \<Rightarrow> (None, it')
   | (Some key, it') \<Rightarrow> (lru_find c key, it'))"

definition lru_iter_next_back :: "'v lru_cache \<Rightarrow> iter_state \<Rightarrow> 'v option \<times> iter_state" where
  "lru_iter_next_back c it =
     (if it_len it = 0 then (None, it)
      else case iter_next_back (fst (lru_list c)) it of
        (None, it') \<Rightarrow> (None, it')
      | (Some key, it') \<Rightarrow> (lru_find c key, it'))"

text \<open>A \<open>for\<close> loop over the iterator: \<open>n\<close> bounds the calls of \<open>next\<close> (\<open>size_hint\<close>).\<close>

primrec lru_iter_collect :: "nat \<Rightarrow> 'v lru_cache \<Rightarrow> iter_state \<Rightarrow> 'v list" where
  "lru_iter_collect 0 c it = []"
| "lru_iter_collect (Suc n) c it = (case lru_iter_next c it of
     (None, _) \<Rightarrow> []
   | (Some v, it') \<Rightarrow> v # lru_iter_collect n c it')"

definition lru_iter :: "'v lru_cache \<Rightarrow> 'v list" where
  "lru_iter c = lru_iter_collect (Suc (lru_len c)) c (ll_iter (snd (lru_list c)))"

primrec lru_into_iter_collect :: "nat \<Rightarrow> 'v lru_cache \<Rightarrow> 'v list" where
  "lru_into_iter_collect 0 c = []"
| "lru_into_iter_collect (Suc n) c = (case lru_pop_front c of
     (None, _) \<Rightarrow> []
   | (Some v, c') \<Rightarrow> v # lru_into_iter_collect n c')"

definition lru_into_iter :: "'v lru_cache \<Rightarrow> 'v list" where
  "lru_into_iter c = lru_into_iter_collect (Suc (lru_len c)) c"

section \<open>Abstraction\<close>

text \<open>
  \<open>lru_repr c kvs\<close>: the list holds the keys of \<open>kvs\<close> in order, and the map sends each key to
  its own cell and value and nothing else.
\<close>

definition lru_entries :: "(nat \<times> 'v) list \<Rightarrow> addr list \<Rightarrow> (nat \<times> 'v lru_entry) list" where
  "lru_entries kvs as = map2 (\<lambda>kv a. (fst kv, \<lparr>ent_ref = a, ent_value = snd kv\<rparr>)) kvs as"

definition lru_cells :: "'v lru_cache \<Rightarrow> (nat \<times> 'v) list \<Rightarrow> addr list \<Rightarrow> bool" where
  "lru_cells c kvs as \<longleftrightarrow> dll_repr (lru_list c) as \<and> distinct (map fst kvs) \<and>
     map (node_elem (fst (lru_list c))) as = map fst kvs \<and>
     lru_map c = map_of (lru_entries kvs as)"

definition lru_repr :: "'v lru_cache \<Rightarrow> (nat \<times> 'v) list \<Rightarrow> bool" where
  "lru_repr c kvs \<longleftrightarrow> (\<exists>as. lru_cells c kvs as)"

lemma lru_entries_simps [simp]:
  "lru_entries [] as = []"
  "lru_entries (kv # kvs) (a # as) =
     (fst kv, \<lparr>ent_ref = a, ent_value = snd kv\<rparr>) # lru_entries kvs as"
  by (simp_all add: lru_entries_def)

lemma lru_entries_append:
  "length kvs = length as \<Longrightarrow> lru_entries (kvs @ kvs') (as @ as') = lru_entries kvs as @ lru_entries kvs' as'"
  by (simp add: lru_entries_def)

lemma lru_entries_keys: "length kvs = length as \<Longrightarrow> map fst (lru_entries kvs as) = map fst kvs"
  by (induction kvs as rule: list_induct2) auto

lemma lru_entries_find:
  "length kvs = length as \<Longrightarrow> map_option ent_value (map_of (lru_entries kvs as) k) = map_of kvs k"
  by (induction kvs as rule: list_induct2) auto

lemma lru_entries_None:
  "length kvs = length as \<Longrightarrow> map_of (lru_entries kvs as) k = None \<longleftrightarrow> k \<notin> fst ` set kvs"
  using lru_entries_find [of kvs as k] by (metis map_of_eq_None_iff option.map_disc_iff)


lemma lru_cells_length: "lru_cells c kvs as \<Longrightarrow> length kvs = length as"
  unfolding lru_cells_def by (metis length_map)

lemma map_of_remove_middle:
  assumes "distinct (map fst (xs @ (k, v) # ys))"
  shows "(map_of (xs @ (k, v) # ys))(k := None) = map_of (xs @ ys)"
proof -
  have "map_of xs k = None" "map_of ys k = None" using assms by (simp_all add: map_of_eq_None_iff)
  then show ?thesis by (simp add: fun_eq_iff map_add_def split: option.split)
qed

lemma map_of_move_front:
  assumes "distinct (map fst (xs @ (k, v) # ys))"
  shows "map_of ((k, v) # xs @ ys) = map_of (xs @ (k, v) # ys)"
proof -
  have "map_of xs k = None" using assms by (simp add: map_of_eq_None_iff)
  then show ?thesis by (simp add: fun_eq_iff map_add_def split: option.split)
qed

lemma lru_repr_distinct: "lru_repr c kvs \<Longrightarrow> distinct (map fst kvs)"
  by (auto simp: lru_repr_def lru_cells_def)

lemma lru_repr_len: "lru_repr c kvs \<Longrightarrow> lru_len c = length kvs"
  using lru_cells_length dll.size_cells by (fastforce simp: lru_repr_def lru_cells_def lru_len_def)

lemma lru_repr_find: "lru_repr c kvs \<Longrightarrow> lru_find c k = map_of kvs k"
  using lru_cells_length lru_entries_find
  by (fastforce simp: lru_repr_def lru_cells_def lru_find_def)

lemma lru_repr_new: "lru_repr (lru_new n) []"
  by (auto simp: lru_repr_def lru_cells_def lru_new_def dll_repr_def ll_inv_new intro: exI [of _ "[]"])

lemma lru_repr_clear: "lru_repr (lru_clear c) []"
  by (auto simp: lru_repr_def lru_cells_def lru_clear_def dll_repr_def ll_inv_def ll_new_def
      hd_or_def last_or_def intro: exI [of _ "[]"])

lemma lru_push_new:
  assumes "lru_repr c kvs" "k \<notin> fst ` set kvs"
  shows "\<exists>c'. lru_push k v c = (True, c') \<and> lru_repr c' ((k, v) # kvs) \<and> lru_max c' = lru_max c"
proof -
  obtain as where c: "lru_cells c kvs as" using assms by (auto simp: lru_repr_def)
  note len = lru_cells_length [OF c]
  have none: "lru_map c k = None"
    using c lru_entries_None [OF len] assms(2) by (simp add: lru_cells_def)
  let ?q = "ll_push_front k (lru_list c)"
  obtain a where a: "a \<notin> set as" "dll_repr ?q (a # as)" "ll_head (snd ?q) = Some a"
    "node_elem (fst ?q) a = k" "\<forall>b. b \<noteq> a \<longrightarrow> node_elem (fst ?q) b = node_elem (fst (lru_list c)) b"
    using dll.push_front_cells [of "lru_list c" as k] c by (auto simp: lru_cells_def)
  have "map (node_elem (fst ?q)) as = map (node_elem (fst (lru_list c))) as"
    using a by (intro map_cong) auto
  then have "map (node_elem (fst ?q)) as = map fst kvs" using c by (simp add: lru_cells_def del: map_eq_conv)
  then have "lru_cells (snd (lru_push k v c)) ((k, v) # kvs) (a # as)"
    using a c none assms(2) by (simp add: lru_cells_def lru_push_def Let_def del: map_eq_conv)
  then show ?thesis using none by (auto simp: lru_repr_def lru_push_def Let_def)
qed

lemma lru_push_dup:
  assumes "lru_repr c kvs" "k \<in> fst ` set kvs"
  shows "lru_push k v c = (False, c)"
proof -
  have "map_of kvs k \<noteq> None" using assms(2) by (simp add: map_of_eq_None_iff)
  then have "lru_map c k \<noteq> None" using lru_repr_find [OF assms(1), of k] by (auto simp: lru_find_def)
  then show ?thesis by (auto simp add: lru_push_def)
qed

lemma lru_cells_remove:
  assumes c: "lru_cells c (xs @ (k, v) # ys) (as @ a # bs)" and len: "length xs = length as"
    and q: "dll_repr q (as @ bs)" "node_elem (fst q) = node_elem (fst (lru_list c))"
  shows "lru_cells (c\<lparr>lru_list := q, lru_map := (lru_map c)(k := None)\<rparr>) (xs @ ys) (as @ bs)"
proof -
  have len': "length ys = length bs" using lru_cells_length [OF c] len by simp
  have dist: "distinct (map fst (lru_entries xs as @ (k, \<lparr>ent_ref = a, ent_value = v\<rparr>) # lru_entries ys bs))"
    using c len len' by (auto simp: lru_cells_def lru_entries_keys simp flip: set_map)
  have keys: "map (node_elem (fst (lru_list c))) as = map fst xs \<and>
      map (node_elem (fst (lru_list c))) bs = map fst ys"
    using c len by (simp add: lru_cells_def)
  show ?thesis using c q len keys map_of_remove_middle [OF dist]
    by (simp add: lru_cells_def lru_entries_append)
qed

lemma lru_cells_unsnoc:
  assumes "lru_cells c (xs @ (k, v) # ys) as"
  obtains as1 a as2 where "as = as1 @ a # as2" "length xs = length as1"
    "node_elem (fst (lru_list c)) a = k" "lru_map c k = Some \<lparr>ent_ref = a, ent_value = v\<rparr>"
proof -
  have len: "length as = length xs + Suc (length ys)" using lru_cells_length [OF assms] by simp
  define i where "i = length xs"
  have split: "as = take i as @ as ! i # drop (Suc i) as"
    using len by (intro id_take_nth_drop) (simp add: i_def)
  have l1: "length xs = length (take i as)" using len by (simp add: i_def)
  have "map (node_elem (fst (lru_list c))) as ! i = map fst (xs @ (k, v) # ys) ! i"
    using assms by (simp add: lru_cells_def)
  then have "node_elem (fst (lru_list c)) (as ! i) = k" using len by (simp add: i_def nth_append)
  moreover have "lru_map c k = Some \<lparr>ent_ref = as ! i, ent_value = v\<rparr>"
  proof -
    have "lru_map c = map_of (lru_entries xs (take i as) @
        (k, \<lparr>ent_ref = as ! i, ent_value = v\<rparr>) # lru_entries ys (drop (Suc i) as))"
      using assms split lru_entries_append [OF l1, of "(k, v) # ys" "as ! i # drop (Suc i) as"]
      by (simp add: lru_cells_def)
    moreover have "map_of (lru_entries xs (take i as)) k = None"
      using assms l1 by (auto simp: lru_entries_None lru_cells_def)
    ultimately show ?thesis by (simp add: map_add_def)
  qed
  ultimately show thesis using that split l1 by blast
qed


lemma lru_repr_pop_back:
  assumes "lru_repr c (kvs @ [(k, v)])"
  shows "\<exists>c'. lru_pop_back c = (Some v, c') \<and> lru_repr c' kvs \<and> lru_max c' = lru_max c"
proof -
  obtain as where c: "lru_cells c (kvs @ [(k, v)]) as" using assms by (auto simp: lru_repr_def)
  obtain as1 a as2 where a: "as = as1 @ a # as2" "length kvs = length as1"
    "node_elem (fst (lru_list c)) a = k" "lru_map c k = Some \<lparr>ent_ref = a, ent_value = v\<rparr>"
    using lru_cells_unsnoc [of c kvs k v "[]" as] c by auto
  have as: "as = as1 @ [a]" using a lru_cells_length [OF c] by simp
  obtain q where q: "ll_pop_back (lru_list c) = (Some k, q)" "dll_repr q as1"
    "node_elem (fst q) = node_elem (fst (lru_list c))"
    using dll.pop_back_cells [of "lru_list c" as1 a] c as a(3) by (auto simp: lru_cells_def)
  have "lru_cells (c\<lparr>lru_list := q, lru_map := (lru_map c)(k := None)\<rparr>) (kvs @ []) (as1 @ [])"
    using lru_cells_remove [of c kvs k v "[]" as1 a "[]" q] c as a(2) q by simp
  then show ?thesis using q(1) a(4) by (auto simp: lru_pop_back_def lru_find_def lru_repr_def)
qed

lemma lru_repr_pop_front:
  assumes "lru_repr c ((k, v) # kvs)"
  shows "\<exists>c'. lru_pop_front c = (Some v, c') \<and> lru_repr c' kvs \<and> lru_max c' = lru_max c"
proof -
  obtain as where c: "lru_cells c ((k, v) # kvs) as" using assms by (auto simp: lru_repr_def)
  from c have "lru_cells c ([] @ (k, v) # kvs) as" by simp
  then obtain a as2 where a: "as = a # as2" "node_elem (fst (lru_list c)) a = k"
    "lru_map c k = Some \<lparr>ent_ref = a, ent_value = v\<rparr>"
    by (rule lru_cells_unsnoc) simp
  obtain q where q: "ll_pop_front (lru_list c) = (Some k, q)" "dll_repr q as2"
    "node_elem (fst q) = node_elem (fst (lru_list c))"
    using dll.pop_front_cells [of "lru_list c" a as2] c a by (auto simp: lru_cells_def)
  have "lru_cells (c\<lparr>lru_list := q, lru_map := (lru_map c)(k := None)\<rparr>) ([] @ kvs) ([] @ as2)"
    using lru_cells_remove [of c "[]" k v kvs "[]" a as2 q] c a q by simp
  then show ?thesis using q(1) a(3) by (auto simp: lru_pop_front_def lru_find_def lru_repr_def)
qed

lemma lru_repr_pop_empty:
  assumes "lru_repr c []"
  shows "lru_pop_back c = (None, c) \<and> lru_pop_front c = (None, c)"
proof -
  have "dll_repr (lru_list c) []" using assms by (auto simp: lru_repr_def lru_cells_def)
  from dll.pop_empty [OF this] show ?thesis by (simp add: lru_pop_back_def lru_pop_front_def)
qed

lemma dll_ends:
  assumes "dll_repr q as"
  shows "ll_front q = (if as = [] then None else Some (node_elem (fst q) (hd as)))"
    "ll_back q = (if as = [] then None else Some (node_elem (fst q) (last as)))"
  using assms
  by (cases q; cases as; auto simp: dll_repr_def ll_inv_def ll_front_def ll_back_def hd_or_def last_or_def)+

lemma lru_repr_back:
  assumes "lru_repr c kvs"
  shows "lru_back c = (if kvs = [] then None else Some (snd (last kvs)))"
proof -
  obtain as where c: "lru_cells c kvs as" using assms by (auto simp: lru_repr_def)
  note len = lru_cells_length [OF c]
  have f: "lru_find c (fst (last kvs)) = Some (snd (last kvs))" if "kvs \<noteq> []"
    using that lru_repr_find [OF assms] lru_repr_distinct [OF assms] by simp
  have "node_elem (fst (lru_list c)) (last as) = fst (last kvs)" if "kvs \<noteq> []"
    using c that len last_map [of as "node_elem (fst (lru_list c))"] last_map [of kvs fst]
    by (cases as) (auto simp: lru_cells_def)
  with c f len dll_ends(2) [of "lru_list c" as] show ?thesis
    by (auto simp: lru_back_def lru_cells_def)
qed

lemma lru_repr_front:
  assumes "lru_repr c kvs"
  shows "lru_front c = (if kvs = [] then None else Some (snd (hd kvs)))"
proof -
  obtain as where c: "lru_cells c kvs as" using assms by (auto simp: lru_repr_def)
  note len = lru_cells_length [OF c]
  have f: "lru_find c (fst (hd kvs)) = Some (snd (hd kvs))" if "kvs \<noteq> []"
    using that lru_repr_find [OF assms] lru_repr_distinct [OF assms] by simp
  have "node_elem (fst (lru_list c)) (hd as) = fst (hd kvs)" if "kvs \<noteq> []"
    using c that len hd_map [of as "node_elem (fst (lru_list c))"] hd_map [of kvs fst]
    by (cases as) (auto simp: lru_cells_def)
  with c f len dll_ends(1) [of "lru_list c" as] show ?thesis
    by (auto simp: lru_front_def lru_cells_def)
qed

lemma lru_repr_move_to_head:
  assumes "lru_repr c (xs @ (k, v) # ys)"
  shows "lru_repr (lru_move_to_head k c) ((k, v) # xs @ ys)"
proof -
  obtain as where c: "lru_cells c (xs @ (k, v) # ys) as" using assms by (auto simp: lru_repr_def)
  obtain as1 a as2 where a: "as = as1 @ a # as2" "length xs = length as1"
    "node_elem (fst (lru_list c)) a = k" "lru_map c k = Some \<lparr>ent_ref = a, ent_value = v\<rparr>"
    using lru_cells_unsnoc [OF c] by blast
  have len: "length ys = length as2" using lru_cells_length [OF c] a by simp
  let ?q = "ll_move_to_head a (lru_list c)"
  have q: "dll_repr ?q (a # as1 @ as2)" "node_elem (fst ?q) = node_elem (fst (lru_list c))"
    using dll.move_to_head_cells [of "lru_list c" as1 a as2] c a by (auto simp: lru_cells_def)
  have dist: "distinct (map fst (lru_entries xs as1 @ (k, \<lparr>ent_ref = a, ent_value = v\<rparr>) # lru_entries ys as2))"
    using c a(2) len by (auto simp: lru_cells_def lru_entries_keys simp flip: set_map)
  have "lru_cells (lru_move_to_head k c) ((k, v) # xs @ ys) (a # as1 @ as2)"
    using c q a len map_of_move_front [OF dist]
    by (auto simp: lru_cells_def lru_move_to_head_def lru_entries_append)
  then show ?thesis by (auto simp: lru_repr_def)
qed

lemma lru_move_to_head_absent:
  assumes "lru_repr c kvs" "k \<notin> fst ` set kvs"
  shows "lru_move_to_head k c = c"
proof -
  have "map_of kvs k = None" using assms(2) by (simp add: map_of_eq_None_iff)
  then have "lru_map c k = None" using lru_repr_find [OF assms(1), of k] by (simp add: lru_find_def)
  then show ?thesis by (simp add: lru_move_to_head_def)
qed


lemma lru_repr_pop_back_n:
  assumes "lru_repr c kvs"
  shows "lru_repr (lru_pop_back_n n c) (take (length kvs - n) kvs)"
  using assms
proof (induction n arbitrary: c kvs)
  case (Suc n)
  show ?case
  proof (cases kvs rule: rev_cases)
    case Nil
    then show ?thesis using Suc.IH [of c "[]"] Suc.prems lru_repr_pop_empty [of c] by simp
  next
    case (snoc ys y)
    obtain c' v where "lru_pop_back c = (v, c')" "lru_repr c' ys"
      using lru_repr_pop_back [of c ys "fst y" "snd y"] Suc.prems snoc by auto
    then show ?thesis using Suc.IH [of c' ys] snoc by simp
  qed
qed simp

lemma lru_repr_change_capacity:
  assumes "lru_repr c kvs"
  shows "lru_repr (lru_change_capacity n c) (take n kvs) \<and> lru_capacity (lru_change_capacity n c) = n"
proof -
  have max: "lru_repr (d\<lparr>lru_max := n\<rparr>) es = lru_repr d es" for d :: "'a lru_cache" and es
    by (simp add: lru_repr_def lru_cells_def)
  show ?thesis using lru_repr_pop_back_n [OF assms, of "length kvs - n"] assms lru_repr_len [OF assms]
    by (auto simp: lru_change_capacity_def Let_def max lru_capacity_def min_def)
qed

lemma lru_into_iter_correct: "lru_repr c kvs \<Longrightarrow> lru_into_iter c = map snd kvs"
proof -
  have "lru_repr c kvs \<Longrightarrow> lru_into_iter_collect (Suc (length kvs)) c = map snd kvs" for c kvs
  proof (induction kvs arbitrary: c)
    case Nil
    then show ?case using lru_repr_pop_empty [of c] by simp
  next
    case (Cons kv kvs)
    obtain c' where "lru_pop_front c = (Some (snd kv), c')" "lru_repr c' kvs"
      using lru_repr_pop_front [of c "fst kv" "snd kv" kvs] Cons.prems by auto
    then show ?case using Cons.IH [of c'] by simp
  qed
  then show "lru_repr c kvs \<Longrightarrow> lru_into_iter c = map snd kvs"
    by (simp add: lru_into_iter_def lru_repr_len del: lru_into_iter_collect.simps)
qed

lemma lru_iter_collect_correct:
  assumes "\<And>k v. (k, v) \<in> set kvs \<Longrightarrow> lru_find c k = Some v"
    and "iter_collect (fst (lru_list c)) it = map fst kvs"
  shows "lru_iter_collect (Suc (length kvs)) c it = map snd kvs"
  using assms
proof (induction kvs arbitrary: it)
  case Nil
  then show ?case
    by (subst (asm) iter_collect.simps)
      (auto simp: lru_iter_next_def simp del: iter_collect.simps split: prod.splits option.splits)
next
  case (Cons kv kvs)
  have it: "iter_collect (fst (lru_list c)) it = fst kv # map fst kvs" using Cons.prems(2) by simp
  obtain it' where n: "iter_next (fst (lru_list c)) it = (Some (fst kv), it')"
    "iter_collect (fst (lru_list c)) it' = map fst kvs"
    using it by (subst (asm) iter_collect.simps)
      (auto simp del: iter_collect.simps split: prod.splits option.splits)
  have f: "lru_find c (fst kv) = Some (snd kv)" using Cons.prems(1) [of "fst kv" "snd kv"] by simp
  have "lru_iter_collect (Suc (length kvs)) c it' = map snd kvs"
    using Cons.IH [OF _ n(2)] Cons.prems(1) by auto
  then show ?case using n(1) f
    by (simp add: lru_iter_next_def lru_iter_collect.simps(2) [of "Suc (length kvs)"]
        del: lru_iter_collect.simps)
qed

lemma lru_iter_correct:
  assumes "lru_repr c kvs" shows "lru_iter c = map snd kvs"
proof -
  have "iter_collect (fst (lru_list c)) (ll_iter (snd (lru_list c))) = map fst kvs"
    using assms by (auto simp: lru_repr_def lru_cells_def dest: dll.collect_cells)
  moreover have "\<And>k v. (k, v) \<in> set kvs \<Longrightarrow> lru_find c k = Some v"
    using lru_repr_find [OF assms] lru_repr_distinct [OF assms] by simp
  ultimately show ?thesis
    using lru_iter_collect_correct [of kvs c] lru_repr_len [OF assms]
    by (simp add: lru_iter_def del: lru_iter_collect.simps)
qed

section \<open>The interface of the cache\<close>

text \<open>What \<open>ProtectedFile\<close> relies on, over the association list of the entries.\<close>

locale node_cache =
  fixes repr :: "'c \<Rightarrow> (nat \<times> 'v) list \<Rightarrow> bool"
    and len :: "'c \<Rightarrow> nat"
    and find :: "'c \<Rightarrow> nat \<Rightarrow> 'v option"
    and push :: "nat \<Rightarrow> 'v \<Rightarrow> 'c \<Rightarrow> bool \<times> 'c"
    and pop_back :: "'c \<Rightarrow> 'v option \<times> 'c"
    and back_val :: "'c \<Rightarrow> 'v option"
    and move_to_head :: "nat \<Rightarrow> 'c \<Rightarrow> 'c"
    and iter :: "'c \<Rightarrow> 'v list"
  assumes repr_distinct: "repr c kvs \<Longrightarrow> distinct (map fst kvs)"
    and repr_len: "repr c kvs \<Longrightarrow> len c = length kvs"
    and repr_find: "repr c kvs \<Longrightarrow> find c k = map_of kvs k"
    and repr_push_new: "repr c kvs \<Longrightarrow> k \<notin> fst ` set kvs \<Longrightarrow>
      \<exists>c'. push k v c = (True, c') \<and> repr c' ((k, v) # kvs)"
    and repr_push_dup: "repr c kvs \<Longrightarrow> k \<in> fst ` set kvs \<Longrightarrow> push k v c = (False, c)"
    and repr_pop_back: "repr c (kvs @ [(k, v)]) \<Longrightarrow> \<exists>c'. pop_back c = (Some v, c') \<and> repr c' kvs"
    and repr_pop_empty: "repr c [] \<Longrightarrow> pop_back c = (None, c)"
    and repr_back: "repr c kvs \<Longrightarrow> back_val c = (if kvs = [] then None else Some (snd (last kvs)))"
    and repr_move: "repr c (xs @ (k, v) # ys) \<Longrightarrow> repr (move_to_head k c) ((k, v) # xs @ ys)"
    and repr_move_absent: "repr c kvs \<Longrightarrow> k \<notin> fst ` set kvs \<Longrightarrow> move_to_head k c = c"
    and repr_iter: "repr c kvs \<Longrightarrow> iter c = map snd kvs"
begin

lemma find_after_push:
  assumes "repr c kvs" "find c k = None"
  shows "\<exists>c'. push k v c = (True, c') \<and> find c' k = Some v \<and> (\<forall>j. j \<noteq> k \<longrightarrow> find c' j = find c j)"
proof -
  have "k \<notin> fst ` set kvs" using assms repr_find by (simp add: map_of_eq_None_iff)
  then obtain c' where "push k v c = (True, c')" "repr c' ((k, v) # kvs)"
    using repr_push_new assms(1) by blast
  then show ?thesis using repr_find [of c'] repr_find [OF assms(1)] by simp
qed

text \<open>Touching an entry changes the order of eviction and nothing else.\<close>

lemma find_after_move:
  assumes "repr c kvs" shows "find (move_to_head k c) j = find c j"
proof (cases "k \<in> fst ` set kvs")
  case True
  then obtain v xs ys where kvs: "kvs = xs @ (k, v) # ys" by (force dest: split_list)
  then have "distinct (map fst (xs @ (k, v) # ys))" using repr_distinct assms by blast
  from map_of_move_front [OF this] have "map_of ((k, v) # xs @ ys) j = map_of kvs j"
    by (simp add: kvs)
  moreover have "repr (move_to_head k c) ((k, v) # xs @ ys)" using assms kvs repr_move by simp
  ultimately show ?thesis using repr_find assms by simp
qed (use repr_move_absent assms in simp)

end

interpretation lru: node_cache lru_repr lru_len lru_find lru_push lru_pop_back lru_back
  lru_move_to_head lru_iter
proof (unfold_locales, goal_cases)
  case (4 c kvs k v)
  then show ?case using lru_push_new [of c kvs k v] by auto
next
  case (6 c kvs k v)
  then show ?case using lru_repr_pop_back [of c kvs k v] by auto
next
  case (7 c)
  then show ?case using lru_repr_pop_empty [of c] by simp
qed (erule lru_repr_distinct lru_repr_len lru_repr_find lru_repr_back lru_repr_move_to_head
    lru_iter_correct | erule (1) lru_push_dup lru_move_to_head_absent)+

section \<open>The cache as a list in order of recency\<close>

datatype 'v lru_cmd = PushNew nat 'v | Touch nat | PopBack | PopFront | ChangeCapacity nat | ClearAll

datatype 'v lru_reply = Pushed bool | PopReply "'v option" | Silent

primrec lru_exec :: "'v lru_cmd \<Rightarrow> 'v lru_cache \<Rightarrow> 'v lru_reply \<times> 'v lru_cache" where
  "lru_exec (PushNew k v) c = map_prod Pushed id (lru_push k v c)"
| "lru_exec (Touch k) c = (Silent, lru_move_to_head k c)"
| "lru_exec PopBack c = map_prod PopReply id (lru_pop_back c)"
| "lru_exec PopFront c = map_prod PopReply id (lru_pop_front c)"
| "lru_exec (ChangeCapacity n) c = (Silent, lru_change_capacity n c)"
| "lru_exec ClearAll c = (Silent, lru_clear c)"

text \<open>The same on a list of entries, most recently used first.\<close>

primrec recency_exec :: "'v lru_cmd \<Rightarrow> (nat \<times> 'v) list \<Rightarrow> 'v lru_reply \<times> (nat \<times> 'v) list" where
  "recency_exec (PushNew k v) kvs = (if k \<in> fst ` set kvs then (Pushed False, kvs) else (Pushed True, (k, v) # kvs))"
| "recency_exec (Touch k) kvs = (Silent, filter (\<lambda>kv. fst kv = k) kvs @ filter (\<lambda>kv. fst kv \<noteq> k) kvs)"
| "recency_exec PopBack kvs = (PopReply (if kvs = [] then None else Some (snd (last kvs))), butlast kvs)"
| "recency_exec PopFront kvs = (PopReply (if kvs = [] then None else Some (snd (hd kvs))), tl kvs)"
| "recency_exec (ChangeCapacity n) kvs = (Silent, take n kvs)"
| "recency_exec ClearAll kvs = (Silent, [])"

primrec lru_steps :: "('c \<Rightarrow> 's \<Rightarrow> 'r \<times> 's) \<Rightarrow> 'c list \<Rightarrow> 's \<Rightarrow> 'r list \<times> 's" where
  "lru_steps f [] s = ([], s)"
| "lru_steps f (c # cs) s = (let (r, s) = f c s; (rs, s) = lru_steps f cs s in (r # rs, s))"

lemma touch_split:
  assumes "distinct (map fst (xs @ (k, v) # ys))"
  shows "filter (\<lambda>kv. fst kv = k) (xs @ (k, v) # ys) @ filter (\<lambda>kv. fst kv \<noteq> k) (xs @ (k, v) # ys) = (k, v) # xs @ ys"
proof -
  have "\<forall>kv\<in>set xs \<union> set ys. fst kv \<noteq> k" using assms by force
  then show ?thesis by (simp add: filter_empty_conv filter_id_conv)
qed

lemma recency_touch:
  assumes "lru_repr c kvs"
  shows "lru_repr (lru_move_to_head k c) (filter (\<lambda>kv. fst kv = k) kvs @ filter (\<lambda>kv. fst kv \<noteq> k) kvs)"
proof (cases "k \<in> fst ` set kvs")
  case True
  then obtain xs v ys where kvs: "kvs = xs @ (k, v) # ys" by (force dest: split_list)
  have "distinct (map fst (xs @ (k, v) # ys))" using lru.repr_distinct [OF assms] unfolding kvs .
  from touch_split [OF this] show ?thesis using lru.repr_move [of c xs k v ys] assms unfolding kvs by simp
next
  case False
  then have "filter (\<lambda>kv. fst kv = k) kvs = []" "filter (\<lambda>kv. fst kv \<noteq> k) kvs = kvs"
    by (force simp: filter_empty_conv filter_id_conv)+
  then show ?thesis using lru.repr_move_absent [OF assms False] assms by simp
qed

lemma recency_push:
  assumes "lru_repr c kvs"
  shows "\<exists>c'. lru_exec (PushNew k v) c = (fst (recency_exec (PushNew k v) kvs), c') \<and> lru_repr c' (snd (recency_exec (PushNew k v) kvs))"
proof (cases "k \<in> fst ` set kvs")
  case True
  then show ?thesis using lru.repr_push_dup [OF assms True, of v] assms by simp
next
  case False
  then show ?thesis using lru.repr_push_new [OF assms False, of v] by auto
qed

lemma recency_pop_back:
  assumes "lru_repr c kvs"
  shows "\<exists>c'. lru_exec PopBack c = (fst (recency_exec PopBack kvs), c') \<and> lru_repr c' (snd (recency_exec PopBack kvs))"
proof (cases kvs rule: rev_cases)
  case Nil
  then show ?thesis using lru.repr_pop_empty [of c] assms by simp
next
  case (snoc ys y)
  then show ?thesis using lru.repr_pop_back [of c ys "fst y" "snd y"] assms by auto
qed

lemma recency_pop_front:
  assumes "lru_repr c kvs"
  shows "\<exists>c'. lru_exec PopFront c = (fst (recency_exec PopFront kvs), c') \<and> lru_repr c' (snd (recency_exec PopFront kvs))"
proof (cases kvs)
  case Nil
  then show ?thesis using lru_repr_pop_empty [of c] assms by simp
next
  case (Cons y ys)
  then show ?thesis using lru_repr_pop_front [of c "fst y" "snd y" ys] assms by auto
qed

lemma recency_step:
  assumes "lru_repr c kvs"
  shows "\<exists>c'. lru_exec cmd c = (fst (recency_exec cmd kvs), c') \<and> lru_repr c' (snd (recency_exec cmd kvs))"
proof (cases cmd)
  case (PushNew k v)
  show ?thesis unfolding PushNew by (rule recency_push [OF assms])
next
  case (Touch k)
  show ?thesis using recency_touch [OF assms, of k] unfolding Touch by simp
next
  case PopBack
  show ?thesis unfolding PopBack by (rule recency_pop_back [OF assms])
next
  case PopFront
  show ?thesis unfolding PopFront by (rule recency_pop_front [OF assms])
next
  case (ChangeCapacity n)
  show ?thesis using lru_repr_change_capacity [OF assms, of n] unfolding ChangeCapacity by simp
next
  case ClearAll
  show ?thesis using lru_repr_clear [of c] unfolding ClearAll by simp
qed

lemma recency_run:
  assumes "lru_repr c kvs"
  shows "\<exists>c'. lru_steps lru_exec cmds c = (fst (lru_steps recency_exec cmds kvs), c') \<and> lru_repr c' (snd (lru_steps recency_exec cmds kvs))"
  using assms
proof (induction cmds arbitrary: c kvs)
  case (Cons cmd cmds)
  obtain c1 where c1: "lru_exec cmd c = (fst (recency_exec cmd kvs), c1)" "lru_repr c1 (snd (recency_exec cmd kvs))"
    using recency_step [OF Cons.prems] by blast
  then show ?case using Cons.IH [OF c1(2)] by (auto simp: case_prod_beta Let_def)
qed simp


end
