(* ===== verification/File_State.thy ===== *)
theory File_State
  imports Recovery Lru_Cache
begin

text \<open>
  \<open>FileInner\<close> (\<open>core/src/pfs/sys/file/mod.rs\<close>) and the node access of
  \<open>core/src/pfs/sys/file/node.rs\<close> up to the eviction of cached nodes.  The record adds to the
  fields of the struct what the code reaches through shared references: the storage of the
  block set, the heap of the nodes, and the state of the random number generator.

  The loops over the chain of parents take fuel.  The logic numbers along the chain decrease
  strictly, so the logic number of the first node plus two is enough.
\<close>

section \<open>The state\<close>

record ('s, 'd) file_inner =
  fi_world :: 's
  fi_heap :: node_heap
  fi_rng :: nat
  fi_host_file :: "'d block_file"
  fi_metadata :: metadata_info
  fi_root_mht :: node_ref
  fi_key_gen :: fs_key_gen
  fi_opts :: open_options
  fi_need_writing :: bool
  fi_end_of_file :: bool
  fi_max_cache_page :: nat
  fi_offset :: nat
  fi_last_error :: "error option"
  fi_status :: file_status
  fi_journal :: "'d raw_journal"
  fi_cache :: "node_ref lru_cache"

text \<open>Running an operation on a part of the state.\<close>

definition with_host ::
  "('s \<times> 'd block_file \<Rightarrow> 'a result \<times> 's \<times> 'd block_file) \<Rightarrow> ('s, 'd) file_inner \<Rightarrow> 'a result \<times> ('s, 'd) file_inner"
where
  "with_host f s = (case f (fi_world s, fi_host_file s) of (r, w, hf) \<Rightarrow>
     (r, s\<lparr>fi_world := w, fi_host_file := hf\<rparr>))"

definition with_journal ::
  "('s \<times> 'd raw_journal \<Rightarrow> 'a result \<times> 's \<times> 'd raw_journal) \<Rightarrow> ('s, 'd) file_inner \<Rightarrow> 'a result \<times> ('s, 'd) file_inner"
where
  "with_journal f s = (case f (fi_world s, fi_journal s) of (r, w, j) \<Rightarrow>
     (r, s\<lparr>fi_world := w, fi_journal := j\<rparr>))"

definition with_heap ::
  "(node_heap \<Rightarrow> 'a result \<times> node_heap) \<Rightarrow> ('s, 'd) file_inner \<Rightarrow> 'a result \<times> ('s, 'd) file_inner"
where
  "with_heap f s = (case f (fi_heap s) of (r, h) \<Rightarrow> (r, s\<lparr>fi_heap := h\<rparr>))"

definition with_keys ::
  "(fs_key_gen \<Rightarrow> nat \<Rightarrow> 'a result \<times> fs_key_gen \<times> nat) \<Rightarrow> ('s, 'd) file_inner \<Rightarrow> 'a result \<times> ('s, 'd) file_inner"
where
  "with_keys f s = (case f (fi_key_gen s) (fi_rng s) of (r, kg, rng) \<Rightarrow>
     (r, s\<lparr>fi_key_gen := kg, fi_rng := rng\<rparr>))"

definition node_of :: "('s, 'd) file_inner \<Rightarrow> node_ref \<Rightarrow> file_node" where
  "node_of s r = nodes (fi_heap s) r"

definition set_node :: "node_ref \<Rightarrow> (file_node \<Rightarrow> file_node) \<Rightarrow> ('s, 'd) file_inner \<Rightarrow> ('s, 'd) file_inner" where
  "set_node r f s = s\<lparr>fi_heap := upd_node r f (fi_heap s)\<rparr>"

definition file_size_of :: "('s, 'd) file_inner \<Rightarrow> nat" where
  "file_size_of s = me_size (mi_enc (fi_metadata s))"

definition set_file_status :: "file_status \<Rightarrow> ('s, 'd) file_inner \<Rightarrow> ('s, 'd) file_inner" where
  "set_file_status st s = s\<lparr>fi_status := st\<rparr>"

definition set_last_error :: "error \<Rightarrow> ('s, 'd) file_inner \<Rightarrow> ('s, 'd) file_inner" where
  "set_last_error e s = s\<lparr>fi_last_error := Some e\<rparr>"

section \<open>Reading and appending nodes\<close>

text \<open>Sharing a node and entering it into the cache.\<close>

definition cache_node :: "nat \<Rightarrow> file_node \<Rightarrow> ('s, 'd) file_inner \<Rightarrow> node_ref result \<times> ('s, 'd) file_inner" where
  "cache_node physical_number n s =
     (case build_ref n (fi_heap s) of (r, h) \<Rightarrow>
      case lru_push physical_number r (fi_cache s) of (pushed, c) \<Rightarrow>
      let s = s\<lparr>fi_heap := h, fi_cache := c\<rparr>
      in if pushed then (Ok r, s) else (Err (error_new Unexpected), s))"

text \<open>Reading a node whose parent is set: read, look up key and tag, decrypt, cache.\<close>

definition fetch_node ::
  "('s, 'd) env \<Rightarrow> file_node \<Rightarrow> ('s, 'd) file_inner \<Rightarrow> node_ref result \<times> ('s, 'd) file_inner"
where
  "fetch_node E n s =
     then_do (node_read_from_disk E (fi_world s) (fi_host_file s) n, s) (\<lambda>n s.
     then_do (and_then (get_gcm_data (fi_heap s) n) (\<lambda>g. ok_or g (error_new Unexpected)), s) (\<lambda>gcm_data s.
     then_do (node_decrypt (env_ossl E) (gd_key gcm_data) (gd_mac gcm_data) n, s) (\<lambda>n s.
     cache_node (fn_physical_number n) n s)))"

function (sequential) read_mht_node ::
  "('s, 'd) env \<Rightarrow> nat \<Rightarrow> ('s, 'd) file_inner \<Rightarrow> node_ref result \<times> ('s, 'd) file_inner"
where
  "read_mht_node E logic_number s =
     (if logic_number = 0 then (Ok (fi_root_mht s), s)
      else
        let physical_number = mht_physical_number logic_number in
        case lru_find (fi_cache s) physical_number of
          Some r \<Rightarrow> (Ok r, s)
        | None \<Rightarrow>
            then_do (read_mht_node E ((logic_number - 1) div CHILD_MHT_NODES_COUNT) s) (\<lambda>parent_mht_node s.
            fetch_node E ((file_node_new NtMht logic_number physical_number (metadata_encrypt_flags (fi_metadata s)))
              \<lparr>fn_parent := Some parent_mht_node\<rparr>) s))"
  by pat_completeness auto
termination by (relation "measure (\<lambda>(E, m, s). m)") auto

declare read_mht_node.simps [simp del]

definition append_mht_node ::
  "('s, 'd) env \<Rightarrow> nat \<Rightarrow> ('s, 'd) file_inner \<Rightarrow> node_ref result \<times> ('s, 'd) file_inner"
where
  "append_mht_node E logic_number s =
     then_do (read_mht_node E ((logic_number - 1) div CHILD_MHT_NODES_COUNT) s) (\<lambda>parent_mht_node s.
     let physical_number = mht_physical_number logic_number
     in cache_node physical_number
          ((file_node_new NtMht logic_number physical_number (metadata_encrypt_flags (fi_metadata s)))
            \<lparr>fn_parent := Some parent_mht_node\<rparr>) s)"

definition get_mht_node ::
  "('s, 'd) env \<Rightarrow> ('s, 'd) file_inner \<Rightarrow> node_ref result \<times> ('s, 'd) file_inner"
where
  "get_mht_node E s =
     (if \<not> fi_offset s \<ge> MD_USER_DATA_SIZE then (Err (error_new Unexpected), s)
      else case get_mht_node_numbers (fi_offset s) of (logic_number, _) \<Rightarrow>
        if logic_number = 0 then (Ok (fi_root_mht s), s)
        else if (fi_offset s - MD_USER_DATA_SIZE) mod (ATTACHED_DATA_NODES_COUNT * NODE_SIZE) = 0 \<and>
                fi_offset s = file_size_of s
        then append_mht_node E logic_number s
        else read_mht_node E logic_number s)"

definition get_mht_node_by_logic_number ::
  "('s, 'd) env \<Rightarrow> nat \<Rightarrow> ('s, 'd) file_inner \<Rightarrow> node_ref result \<times> ('s, 'd) file_inner"
where
  "get_mht_node_by_logic_number E logic_number s =
     (if logic_number = 0 then (Ok (fi_root_mht s), s) else read_mht_node E logic_number s)"

definition append_data_node ::
  "('s, 'd) env \<Rightarrow> ('s, 'd) file_inner \<Rightarrow> node_ref result \<times> ('s, 'd) file_inner"
where
  "append_data_node E s =
     then_do (get_mht_node E s) (\<lambda>mht_node s.
     case get_data_node_numbers (fi_offset s) of (logic_number, physical_number) \<Rightarrow>
       cache_node physical_number
         ((file_node_new NtData logic_number physical_number (metadata_encrypt_flags (fi_metadata s)))
           \<lparr>fn_parent := Some mht_node\<rparr>) s)"

definition read_data_node ::
  "('s, 'd) env \<Rightarrow> ('s, 'd) file_inner \<Rightarrow> node_ref result \<times> ('s, 'd) file_inner"
where
  "read_data_node E s =
     (case get_data_node_numbers (fi_offset s) of (logic_number, physical_number) \<Rightarrow>
      case lru_find (fi_cache s) physical_number of
        Some r \<Rightarrow> (Ok r, s)
      | None \<Rightarrow>
          then_do (get_mht_node E s) (\<lambda>mht_node s.
          fetch_node E ((file_node_new NtData logic_number physical_number (metadata_encrypt_flags (fi_metadata s)))
            \<lparr>fn_parent := Some mht_node\<rparr>) s))"

section \<open>The chain of parents\<close>

text \<open>\<open>while let Some(mht) = parent\<close>, moving each non-root parent to the head of the cache.\<close>

primrec bump_parents :: "nat \<Rightarrow> node_ref option \<Rightarrow> ('s, 'd) file_inner \<Rightarrow> unit result \<times> ('s, 'd) file_inner" where
  "bump_parents 0 parent s = (Hang, s)"
| "bump_parents (Suc fuel) parent s =
     (case parent of
        None \<Rightarrow> (Ok (), s)
      | Some r \<Rightarrow>
          (let mht = node_of s r in
           if \<not> is_root_mht mht
           then bump_parents fuel (fn_parent mht)
                  (s\<lparr>fi_cache := lru_move_to_head (fn_physical_number mht) (fi_cache s)\<rparr>)
           else (Ok (), s)))"

definition bump_mht_node :: "node_ref \<Rightarrow> ('s, 'd) file_inner \<Rightarrow> unit result \<times> ('s, 'd) file_inner" where
  "bump_mht_node r s =
     bump_parents (fn_logic_number (node_of s r) + 2) (fn_parent (node_of s r)) s"

text \<open>The same walk, setting \<open>need_writing\<close>; it occurs in \<open>write\<close>, \<open>rollback_data_node\<close> and
  \<open>update_nodes\<close>.\<close>

primrec mark_parents :: "nat \<Rightarrow> node_ref option \<Rightarrow> node_heap \<Rightarrow> unit result \<times> node_heap" where
  "mark_parents 0 parent h = (Hang, h)"
| "mark_parents (Suc fuel) parent h =
     (case parent of
        None \<Rightarrow> (Ok (), h)
      | Some r \<Rightarrow>
          (if \<not> is_root_mht (nodes h r)
           then mark_parents fuel (fn_parent (nodes h r)) (upd_node r (\<lambda>n. n\<lparr>fn_need_writing := True\<rparr>) h)
           else (Ok (), h)))"

definition mark_ancestors :: "node_ref \<Rightarrow> ('s, 'd) file_inner \<Rightarrow> unit result \<times> ('s, 'd) file_inner" where
  "mark_ancestors r s =
     with_heap (mark_parents (fn_logic_number (node_of s r) + 2) (fn_parent (node_of s r))) s"

text \<open>\<open>need_writing\<close> of a node that was clean, its ancestors, the root and the file.\<close>

definition mark_dirty :: "node_ref \<Rightarrow> ('s, 'd) file_inner \<Rightarrow> unit result \<times> ('s, 'd) file_inner" where
  "mark_dirty r s =
     (if \<not> fn_need_writing (node_of s r)
      then then_do (mark_ancestors r (set_node r (\<lambda>n. n\<lparr>fn_need_writing := True\<rparr>) s)) (\<lambda>_ s.
           (Ok (), (set_node (fi_root_mht s) (\<lambda>n. n\<lparr>fn_need_writing := True\<rparr>) s)\<lparr>fi_need_writing := True\<rparr>))
      else (Ok (), s))"

end
