(* ===== verification/File_Flush.thy ===== *)
theory File_Flush
  imports File_State
begin

text \<open>
  \<open>core/src/pfs/sys/file/flush.rs\<close>: writing the changed nodes back, and \<open>shrink_cache\<close> and
  \<open>get_data_node\<close> of \<open>file/node.rs\<close>, which flush when the cache is full of changed nodes.

  \<open>shrink_cache\<close> loops until the cache is small enough.  An iteration drops a node, or flushes
  and clears \<open>need_writing\<close>; a second flush without a change in between does nothing.  So the
  loop either ends within one iteration per cached node and two more, or never; the theory
  \<^verbatim>\<open>Shrink\<close> shows that the fuel loses no run that ends.
\<close>

section \<open>Collecting nodes\<close>

definition is_need_write_node :: "('s, 'd) file_inner \<Rightarrow> bool" where
  "is_need_write_node s \<longleftrightarrow>
     file_size_of s > MD_USER_DATA_SIZE \<and> fn_need_writing (node_of s (fi_root_mht s))"

definition cached_refs :: "(file_node \<Rightarrow> bool) \<Rightarrow> ('s, 'd) file_inner \<Rightarrow> node_ref list" where
  "cached_refs P s = filter (\<lambda>r. P (node_of s r)) (lru_iter (fi_cache s))"

section \<open>The recovery journal\<close>

primrec write_recovery_nodes ::
  "('s, 'd) env \<Rightarrow> file_node list \<Rightarrow> 's \<times> 'd raw_journal \<Rightarrow> unit result \<times> 's \<times> 'd raw_journal"
where
  "write_recovery_nodes E [] s = (Ok (), s)"
| "write_recovery_nodes E (n # ns) s =
     then_do (node_write_recovery_file E n s) (\<lambda>_ s. write_recovery_nodes E ns s)"

definition write_recovery_file_node ::
  "('s, 'd) env \<Rightarrow> ('s, 'd) file_inner \<Rightarrow> unit result \<times> ('s, 'd) file_inner"
where
  "write_recovery_file_node E s =
     (let changed = map (node_of s) (cached_refs (\<lambda>n. fn_need_writing n \<and> \<not> fn_new_node n) s);
          mht_nodes = filter is_mht changed;
          data_nodes = filter (\<lambda>n. \<not> is_mht n) changed;
          root_mht = node_of s (fi_root_mht s)
      in then_do (with_journal (write_recovery_nodes E mht_nodes) s) (\<lambda>_ s.
         then_do (with_journal (write_recovery_nodes E data_nodes) s) (\<lambda>_ s.
         then_do (if fn_need_writing root_mht \<and> \<not> fn_new_node root_mht
                  then with_journal (node_write_recovery_file E root_mht) s else (Ok (), s)) (\<lambda>_ s.
         with_journal (metadata_write_recovery_file E (fi_metadata s)) s))))"

definition write_recovery_file ::
  "('s, 'd) env \<Rightarrow> ('s, 'd) file_inner \<Rightarrow> unit result \<times> ('s, 'd) file_inner"
where
  "write_recovery_file E s =
     on_err_do (write_recovery_file_node E s) (\<lambda>_ s. ignore_err (with_journal (raw_reset E) s))"

section \<open>The update flag\<close>

definition write_metadata ::
  "('s, 'd) env \<Rightarrow> ('s, 'd) file_inner \<Rightarrow> unit result \<times> ('s, 'd) file_inner"
where
  "write_metadata E s = with_host (metadata_write_to_disk E (fi_metadata s)) s"

definition set_update_flag ::
  "('s, 'd) env \<Rightarrow> bool \<Rightarrow> ('s, 'd) file_inner \<Rightarrow> unit result \<times> ('s, 'd) file_inner"
where
  "set_update_flag E flush s =
     (case write_metadata E (s\<lparr>fi_metadata := metadata_set_update_flag 1 (fi_metadata s)\<rparr>) of (result, s) \<Rightarrow>
      then_do (result, s\<lparr>fi_metadata := metadata_set_update_flag 0 (fi_metadata s)\<rparr>) (\<lambda>_ s.
      if flush
      then on_err_do (with_host (block_file_flush E) s) (\<lambda>_ s. ignore_err (write_metadata E s))
      else (Ok (), s)))"

definition clear_update_flag ::
  "('s, 'd) env \<Rightarrow> ('s, 'd) file_inner \<Rightarrow> unit result \<times> ('s, 'd) file_inner"
where
  "clear_update_flag E s =
     (if metadata_update_flag (fi_metadata s) then (Panic, s)
      else then_do (ignore_err (write_metadata E s)) (\<lambda>_ s.
           ignore_err (with_host (block_file_flush E) s)))"

section \<open>Encrypting the changed nodes\<close>

definition seal_node ::
  "('s, 'd) env \<Rightarrow> node_ref \<Rightarrow> ('s, 'd) file_inner \<Rightarrow> (key \<times> mac) result \<times> ('s, 'd) file_inner"
where
  "seal_node E r s =
     then_do (with_keys (node_derive_key (env_ossl E) (node_of s r)) s) (\<lambda>key s.
     then_do (with_heap (node_encrypt (env_ossl E) key r) s) (\<lambda>mac s.
     (Ok (key, mac), s)))"

primrec update_data_nodes ::
  "('s, 'd) env \<Rightarrow> node_ref list \<Rightarrow> ('s, 'd) file_inner \<Rightarrow> unit result \<times> ('s, 'd) file_inner"
where
  "update_data_nodes E [] s = (Ok (), s)"
| "update_data_nodes E (r # rs) s =
     then_do (seal_node E r s) (\<lambda>_ s.
     then_do (mark_ancestors r s) (\<lambda>_ s.
     update_data_nodes E rs s))"

primrec update_mht_nodes ::
  "('s, 'd) env \<Rightarrow> node_ref list \<Rightarrow> ('s, 'd) file_inner \<Rightarrow> unit result \<times> ('s, 'd) file_inner"
where
  "update_mht_nodes E [] s = (Ok (), s)"
| "update_mht_nodes E (r # rs) s = then_do (seal_node E r s) (\<lambda>_ s. update_mht_nodes E rs s)"

definition bottom_up :: "('s, 'd) file_inner \<Rightarrow> node_ref list \<Rightarrow> node_ref list" where
  "bottom_up s rs = sort_key (\<lambda>r. - int (fn_physical_number (node_of s r))) rs"

definition update_nodes ::
  "('s, 'd) env \<Rightarrow> ('s, 'd) file_inner \<Rightarrow> unit result \<times> ('s, 'd) file_inner"
where
  "update_nodes E s =
     then_do (update_data_nodes E (cached_refs (\<lambda>n. is_data n \<and> fn_need_writing n) s) s) (\<lambda>_ s.
     then_do (update_mht_nodes E (bottom_up s (cached_refs (\<lambda>n. is_mht n \<and> fn_need_writing n) s)) s) (\<lambda>_ s.
     then_do (seal_node E (fi_root_mht s) s) (\<lambda>(key, mac) s.
     (Ok (), s\<lparr>fi_metadata := (fi_metadata s)\<lparr>mi_enc :=
        (mi_enc (fi_metadata s))\<lparr>me_mht_key := key, me_mht_gmac := mac\<rparr>\<rparr>\<rparr>))))"

definition update_metadata ::
  "('s, 'd) env \<Rightarrow> ('s, 'd) file_inner \<Rightarrow> unit result \<times> ('s, 'd) file_inner"
where
  "update_metadata E s =
     then_do (with_keys (\<lambda>kg. metadata_derive_key (env_ossl E) kg (fi_metadata s)) s) (\<lambda>(key, m) s.
     let s = s\<lparr>fi_metadata := m\<rparr>
     in then_do (metadata_encrypt (env_ossl E) key m, s) (\<lambda>m s. (Ok (), s\<lparr>fi_metadata := m\<rparr>)))"

section \<open>Writing back\<close>

definition write_node ::
  "('s, 'd) env \<Rightarrow> node_ref \<Rightarrow> ('s, 'd) file_inner \<Rightarrow> unit result \<times> ('s, 'd) file_inner"
where
  "write_node E r s =
     then_do (with_host (node_write_to_disk E (node_of s r)) s) (\<lambda>n s. (Ok (), set_node r (\<lambda>_. n) s))"

primrec write_nodes ::
  "('s, 'd) env \<Rightarrow> node_ref list \<Rightarrow> ('s, 'd) file_inner \<Rightarrow> unit result \<times> ('s, 'd) file_inner"
where
  "write_nodes E [] s = (Ok (), s)"
| "write_nodes E (r # rs) s = then_do (write_node E r s) (\<lambda>_ s. write_nodes E rs s)"

definition write_to_disk ::
  "('s, 'd) env \<Rightarrow> bool \<Rightarrow> ('s, 'd) file_inner \<Rightarrow> unit result \<times> ('s, 'd) file_inner"
where
  "write_to_disk E flush s =
     then_do (if is_need_write_node s
              then then_do (write_nodes E (rev (cached_refs fn_need_writing s)) s) (\<lambda>_ s.
                   write_node E (fi_root_mht s) s)
              else (Ok (), s)) (\<lambda>_ s.
     then_do (write_metadata E s) (\<lambda>_ s.
     if flush
     then then_do (with_host (block_file_flush E) s) (\<lambda>_ s.
          then_do (with_journal (journal_commit E) s) (\<lambda>_ s.
          then_do (with_journal (raw_flush E) s) (\<lambda>_ s.
          with_journal (raw_reset E) s)))
     else (Ok (), s)))"

definition internal_flush ::
  "('s, 'd) env \<Rightarrow> bool \<Rightarrow> ('s, 'd) file_inner \<Rightarrow> unit result \<times> ('s, 'd) file_inner"
where
  "internal_flush E flush s =
     (if \<not> fi_need_writing s then (Ok (), s)
      else then_do (if is_need_write_node s
             then then_do (on_err (write_recovery_file E s) (\<lambda>_. set_file_status FlushError)) (\<lambda>_ s.
                  then_do (on_err (set_update_flag E flush s) (\<lambda>_. set_file_status FlushError)) (\<lambda>_ s.
                  on_err_do (update_nodes E s) (\<lambda>_ s.
                    then_do (clear_update_flag E s) (\<lambda>_ s. (Ok (), set_file_status FlushError s)))))
             else (Ok (), s)) (\<lambda>_ s.
           then_do (on_err_do (update_metadata E s) (\<lambda>_ s.
             then_do (clear_update_flag E s) (\<lambda>_ s. (Ok (), set_file_status CryptoError s)))) (\<lambda>_ s.
           then_do (on_err (write_to_disk E flush s) (\<lambda>_. set_file_status WriteToDiskFailed)) (\<lambda>_ s.
           (Ok (), s\<lparr>fi_need_writing := False\<rparr>)))))"

definition mark_flush_error :: "('s, 'd) file_inner \<Rightarrow> ('s, 'd) file_inner" where
  "mark_flush_error s = (if status_is_ok (fi_status s) then set_file_status FlushError s else s)"

definition file_flush ::
  "('s, 'd) env \<Rightarrow> ('s, 'd) file_inner \<Rightarrow> unit result \<times> ('s, 'd) file_inner"
where
  "file_flush E s =
     (if \<not> status_is_ok (fi_status s) then (Err (error_new BadStatus), s)
      else on_err (internal_flush E True s) (\<lambda>_. mark_flush_error))"

section \<open>Shrinking the cache\<close>

primrec shrink_cache_loop ::
  "nat \<Rightarrow> ('s, 'd) env \<Rightarrow> ('s, 'd) file_inner \<Rightarrow> unit result \<times> ('s, 'd) file_inner"
where
  "shrink_cache_loop 0 E s = (Hang, s)"
| "shrink_cache_loop (Suc fuel) E s =
     (if lru_len (fi_cache s) > fi_max_cache_page s
      then case lru_back (fi_cache s) of
             None \<Rightarrow> (Err (error_new Unexpected), s)
           | Some r \<Rightarrow>
               if \<not> fn_need_writing (node_of s r)
               then shrink_cache_loop fuel E (s\<lparr>fi_cache := snd (lru_pop_back (fi_cache s))\<rparr>)
               else then_do (on_err (internal_flush E False s) (\<lambda>_. mark_flush_error)) (\<lambda>_ s.
                    shrink_cache_loop fuel E s)
      else (Ok (), s))"

definition shrink_cache ::
  "('s, 'd) env \<Rightarrow> ('s, 'd) file_inner \<Rightarrow> unit result \<times> ('s, 'd) file_inner"
where
  "shrink_cache E s = shrink_cache_loop (lru_len (fi_cache s) + 2) E s"

definition get_data_node ::
  "('s, 'd) env \<Rightarrow> ('s, 'd) file_inner \<Rightarrow> node_ref result \<times> ('s, 'd) file_inner"
where
  "get_data_node E s =
     (if \<not> fi_offset s \<ge> MD_USER_DATA_SIZE then (Err (error_new Unexpected), s)
      else case (if (fi_offset s - MD_USER_DATA_SIZE) mod NODE_SIZE = 0 \<and> fi_offset s = file_size_of s
                 then append_data_node E s else read_data_node E s) of
        (Ok data_node, s) \<Rightarrow>
          then_do (bump_mht_node data_node s) (\<lambda>_ s.
          then_do (shrink_cache E s) (\<lambda>_ s. (Ok data_node, s)))
      | (Err e, s) \<Rightarrow> then_do (shrink_cache E s) (\<lambda>_ s. (Err e, s))
      | (Panic, s) \<Rightarrow> (Panic, s)
      | (Hang, s) \<Rightarrow> (Hang, s))"

end
