(* ===== verification/File_IO.thy ===== *)
theory File_IO
  imports File_Flush
begin

text \<open>
  The operations of an open protected file: \<open>file/read.rs\<close>, \<open>file/write.rs\<close>, \<open>file/other.rs\<close>
  and \<open>file/close.rs\<close>.

  \<open>read\<close> returns the bytes it puts at the front of the buffer; their number is the count the
  code returns.  The loops of \<open>read\<close> and \<open>write\<close> end because every iteration transfers at least
  one byte; the loops that write zeros end because \<open>write\<close> returns the length of its buffer.
\<close>

section \<open>Position\<close>

datatype seek_from = SeekStart nat | SeekEnd int | SeekCurrent int

definition checked_sub :: "nat \<Rightarrow> nat \<Rightarrow> nat option" where
  "checked_sub a b = (if b \<le> a then Some (a - b) else None)"

definition checked_add :: "nat \<Rightarrow> nat \<Rightarrow> nat option" where
  "checked_add a b = (if a + b < 2 ^ 64 then Some (a + b) else None)"

text \<open>\<open>0 - off\<close> on \<open>i64\<close>, for a negative or zero offset.\<close>

definition neg_i64 :: "int \<Rightarrow> nat result" where
  "neg_i64 off = (if off = - (2 ^ 63) then Panic else Ok (nat (- off)))"

definition seek_target :: "nat \<Rightarrow> nat \<Rightarrow> seek_from \<Rightarrow> nat option result" where
  "seek_target file_size cur_offset pos = (case pos of
     SeekStart off \<Rightarrow> Ok (if off \<le> file_size then Some off else None)
   | SeekEnd off \<Rightarrow>
       (if off \<le> 0 then and_then (neg_i64 off) (\<lambda>d. Ok (checked_sub file_size d)) else Ok None)
   | SeekCurrent off \<Rightarrow>
       (if off \<ge> 0
        then Ok (case checked_add cur_offset (nat off) of
                   Some new_offset \<Rightarrow> (if new_offset \<le> file_size then Some new_offset else None)
                 | None \<Rightarrow> None)
        else and_then (neg_i64 off) (\<lambda>d. Ok (checked_sub cur_offset d))))"

definition file_tell :: "('s, 'd) file_inner \<Rightarrow> nat result" where
  "file_tell s = (if \<not> status_is_ok (fi_status s) then Err (error_new BadStatus) else Ok (fi_offset s))"

definition file_get_eof :: "('s, 'd) file_inner \<Rightarrow> bool" where
  "file_get_eof s = fi_end_of_file s"

definition file_file_size :: "('s, 'd) file_inner \<Rightarrow> nat result" where
  "file_file_size s = (if \<not> status_is_ok (fi_status s) then Err (error_new BadStatus) else Ok (file_size_of s))"

definition file_seek :: "seek_from \<Rightarrow> ('s, 'd) file_inner \<Rightarrow> nat result \<times> ('s, 'd) file_inner" where
  "file_seek pos s =
     (if \<not> status_is_ok (fi_status s) then (Err (error_new BadStatus), s)
      else then_do (and_then (seek_target (file_size_of s) (fi_offset s) pos)
                      (\<lambda>new_offset. unwrap (ok_or new_offset (error_new InvalidArgs))), s) (\<lambda>new_offset s.
           (Ok new_offset, s\<lparr>fi_offset := new_offset, fi_end_of_file := False\<rparr>)))"

section \<open>Reading\<close>

definition node_room :: "('s, 'd) file_inner \<Rightarrow> nat" where
  "node_room s = NODE_SIZE - (fi_offset s - MD_USER_DATA_SIZE) mod NODE_SIZE"

lemma node_room_pos [simp]: "0 < node_room s"
  by (simp add: node_room_def)

function (sequential) read_loop ::
  "('s, 'd) env \<Rightarrow> nat \<Rightarrow> bytes \<Rightarrow> ('s, 'd) file_inner \<Rightarrow> (bytes \<times> nat) result \<times> ('s, 'd) file_inner"
where
  "read_loop E left_to_read buf s =
     (if left_to_read = 0 then (Ok (buf, 0), s)
      else case get_data_node E s of
        (Ok file_node, s) \<Rightarrow>
          (let offset_in_node = (fi_offset s - MD_USER_DATA_SIZE) mod NODE_SIZE;
               len = min left_to_read (node_room s)
           in then_do (get_slice offset_in_node (offset_in_node + len)
                        (node_as_ref (fn_plaintext (node_of s file_node))), s) (\<lambda>bs s.
              read_loop E (left_to_read - len) (buf @ bs) (s\<lparr>fi_offset := fi_offset s + len\<rparr>)))
      | (Err error, s) \<Rightarrow> (Ok (buf, left_to_read), set_last_error error s)
      | (Panic, s) \<Rightarrow> (Panic, s)
      | (Hang, s) \<Rightarrow> (Hang, s))"
  by pat_completeness auto
termination
  by (relation "measure (\<lambda>(E, left, buf, s). left)") (auto simp: min_def)

declare read_loop.simps [simp del]

definition file_read ::
  "('s, 'd) env \<Rightarrow> nat \<Rightarrow> ('s, 'd) file_inner \<Rightarrow> bytes result \<times> ('s, 'd) file_inner"
where
  "file_read E buf_len s =
     (if buf_len = 0 then (Ok [], s)
      else if fi_end_of_file s then (Ok [], s)
      else let file_size = file_size_of s in
      if fi_offset s = file_size then (Ok [], s\<lparr>fi_end_of_file := True\<rparr>)
      else if fi_offset s > file_size then (Panic, s)
      else let attempted_to_read = min buf_len (file_size - fi_offset s);
               len = min attempted_to_read (MD_USER_DATA_SIZE - fi_offset s)
      in then_do (if fi_offset s < MD_USER_DATA_SIZE
                  then (get_slice (fi_offset s) (fi_offset s + len) (me_data (mi_enc (fi_metadata s))), s)
                  else (Ok [], s)) (\<lambda>buf s.
         then_do (read_loop E (attempted_to_read - len) buf (s\<lparr>fi_offset := fi_offset s + len\<rparr>)) (\<lambda>(buf, left_to_read) s.
         if left_to_read = 0 \<and> attempted_to_read \<noteq> buf_len
         then if fi_offset s = file_size then (Ok buf, s\<lparr>fi_end_of_file := True\<rparr>) else (Panic, s)
         else (Ok buf, s))))"

definition file_read_at ::
  "('s, 'd) env \<Rightarrow> nat \<Rightarrow> nat \<Rightarrow> ('s, 'd) file_inner \<Rightarrow> bytes result \<times> ('s, 'd) file_inner"
where
  "file_read_at E buf_len offset s =
     (let cur_offset = fi_offset s in
      if offset > file_size_of s then (Ok [], s)
      else then_do (file_seek (SeekStart offset) s) (\<lambda>_ s.
           case file_read E buf_len s of (result, s) \<Rightarrow> (result, s\<lparr>fi_offset := cur_offset\<rparr>)))"

section \<open>Writing\<close>

definition advance :: "nat \<Rightarrow> ('s, 'd) file_inner \<Rightarrow> ('s, 'd) file_inner" where
  "advance len s =
     (let offset = fi_offset s + len
      in s\<lparr>fi_offset := offset,
           fi_metadata := (fi_metadata s)\<lparr>mi_enc := (mi_enc (fi_metadata s))
             \<lparr>me_size := max offset (file_size_of s)\<rparr>\<rparr>\<rparr>)"

definition write_metadata_area :: "bytes \<Rightarrow> ('s, 'd) file_inner \<Rightarrow> unit result \<times> ('s, 'd) file_inner" where
  "write_metadata_area bs s =
     then_do (put_slice (me_data (mi_enc (fi_metadata s))) (fi_offset s) bs, s) (\<lambda>data s.
     (Ok (), (advance (length bs) (s\<lparr>fi_metadata := (fi_metadata s)\<lparr>mi_enc :=
        (mi_enc (fi_metadata s))\<lparr>me_data := data\<rparr>\<rparr>\<rparr>))\<lparr>fi_need_writing := True\<rparr>))"

definition write_chunk ::
  "node_ref \<Rightarrow> bytes \<Rightarrow> ('s, 'd) file_inner \<Rightarrow> unit result \<times> ('s, 'd) file_inner"
where
  "write_chunk file_node bs s =
     (let offset_in_node = (fi_offset s - MD_USER_DATA_SIZE) mod NODE_SIZE in
      then_do (put_slice (node_as_ref (fn_plaintext (node_of s file_node))) offset_in_node bs, s) (\<lambda>pt s.
      mark_dirty file_node (advance (length bs)
        (set_node file_node (\<lambda>n. n\<lparr>fn_plaintext := node_fill (fn_plaintext n) pt\<rparr>) s))))"

function (sequential) write_loop ::
  "('s, 'd) env \<Rightarrow> bytes \<Rightarrow> ('s, 'd) file_inner \<Rightarrow> unit result \<times> ('s, 'd) file_inner"
where
  "write_loop E buf s =
     (if buf = [] then (Ok (), s)
      else case get_data_node E s of
        (Ok file_node, s) \<Rightarrow>
          (let len = min (length buf) (node_room s)
           in then_do (write_chunk file_node (take len buf) s) (\<lambda>_ s. write_loop E (drop len buf) s))
      | (Err error, s) \<Rightarrow> (Err error, set_last_error error s)
      | (Panic, s) \<Rightarrow> (Panic, s)
      | (Hang, s) \<Rightarrow> (Hang, s))"
  by pat_completeness auto
termination
  by (relation "measure (\<lambda>(E, buf, s). length buf)") (auto simp: min_def)

declare write_loop.simps [simp del]

definition file_write ::
  "('s, 'd) env \<Rightarrow> bytes \<Rightarrow> ('s, 'd) file_inner \<Rightarrow> nat result \<times> ('s, 'd) file_inner"
where
  "file_write E buf s =
     (if buf = [] then (Ok 0, s)
      else if \<not> (oo_write (fi_opts s) \<or> oo_append (fi_opts s) \<or> oo_update (fi_opts s))
      then (Err (error_with_msg PermissionDenied ''permission denied''), s)
      else let s = (if oo_append (fi_opts s) then s\<lparr>fi_offset := file_size_of s\<rparr> else s);
               len = min (length buf) (MD_USER_DATA_SIZE - fi_offset s)
      in then_do (if fi_offset s < MD_USER_DATA_SIZE then write_metadata_area (take len buf) s else (Ok (), s)) (\<lambda>_ s.
         then_do (write_loop E (drop len buf) s) (\<lambda>_ s.
         (Ok (length buf), s))))"

section \<open>Positioned writes and the length of the file\<close>

lemma then_do_cong [fundef_cong]:
  "m = m' \<Longrightarrow> (\<And>x s. m' = (Ok x, s) \<Longrightarrow> f x s = g x s) \<Longrightarrow> then_do m f = then_do m' g"
  by (cases m; cases "fst m") auto

lemma file_write_count: "file_write E buf s = (Ok n, s') \<Longrightarrow> n = length buf"
  by (auto simp: file_write_def Let_def outcome_simps split: if_splits)

function (sequential) write_zeros ::
  "('s, 'd) env \<Rightarrow> nat \<Rightarrow> ('s, 'd) file_inner \<Rightarrow> unit result \<times> ('s, 'd) file_inner"
where
  "write_zeros E left_to_write s =
     (if left_to_write = 0 then (Ok (), s)
      else then_do (file_write E (zeros (min left_to_write 0x1000)) s) (\<lambda>written_len s.
           write_zeros E (left_to_write - written_len) s))"
  by pat_completeness auto
termination
  by (relation "measure (\<lambda>(E, left, s). left)") (auto dest: file_write_count)

declare write_zeros.simps [simp del]

definition restore_offset :: "nat \<Rightarrow> ('s, 'd) file_inner \<Rightarrow> ('s, 'd) file_inner" where
  "restore_offset cur_offset s = s\<lparr>fi_offset := cur_offset\<rparr>"

definition file_write_at ::
  "('s, 'd) env \<Rightarrow> bytes \<Rightarrow> nat \<Rightarrow> ('s, 'd) file_inner \<Rightarrow> nat result \<times> ('s, 'd) file_inner"
where
  "file_write_at E buf offset s =
     (let cur_offset = fi_offset s; file_size = file_size_of s in
      then_do (if offset > file_size
               then then_do (file_seek (SeekEnd 0) s) (\<lambda>_ s.
                    on_err (write_zeros E (offset - file_size) s) (\<lambda>_. restore_offset cur_offset))
               else (Ok (), s)) (\<lambda>_ s.
      then_do (on_err (file_seek (SeekStart offset) s) (\<lambda>_. restore_offset cur_offset)) (\<lambda>_ s.
      case file_write E buf s of (result, s) \<Rightarrow> (result, restore_offset cur_offset s))))"

definition file_set_len ::
  "('s, 'd) env \<Rightarrow> nat \<Rightarrow> ('s, 'd) file_inner \<Rightarrow> unit result \<times> ('s, 'd) file_inner"
where
  "file_set_len E new_size s =
     (let cur_offset = fi_offset s; file_size = file_size_of s in
      then_do (if new_size > file_size then file_seek (SeekEnd 0) s else file_seek (SeekStart new_size) s) (\<lambda>_ s.
      then_do (if new_size > file_size
               then on_err (write_zeros E (new_size - file_size) s) (\<lambda>_. restore_offset cur_offset)
               else ignore_err (write_zeros E (file_size - new_size) s)) (\<lambda>_ s.
      (Ok (), s\<lparr>fi_offset := min cur_offset new_size, fi_end_of_file := False,
         fi_metadata := (fi_metadata s)\<lparr>mi_enc := (mi_enc (fi_metadata s))\<lparr>me_size := new_size\<rparr>\<rparr>\<rparr>))))"

definition rollback_data_node ::
  "nat \<Rightarrow> node_ref \<Rightarrow> ('s, 'd) file_inner \<Rightarrow> unit result \<times> ('s, 'd) file_inner"
where
  "rollback_data_node physical_number data_node s =
     then_do (mark_dirty data_node s) (\<lambda>_ s.
     (Ok (), s\<lparr>fi_cache := snd (lru_push physical_number data_node (fi_cache s))\<rparr>))"

section \<open>Errors, cache, name\<close>

definition file_clear_error ::
  "('s, 'd) env \<Rightarrow> ('s, 'd) file_inner \<Rightarrow> unit result \<times> ('s, 'd) file_inner"
where
  "file_clear_error E s = (case fi_status s of
     StatusOk \<Rightarrow> (Ok (), s\<lparr>fi_last_error := None, fi_end_of_file := False\<rparr>)
   | WriteToDiskFailed \<Rightarrow>
       then_do (write_to_disk E True s) (\<lambda>_ s.
       (Ok (), set_file_status StatusOk (s\<lparr>fi_need_writing := False\<rparr>)))
   | _ \<Rightarrow> then_do (internal_flush E True s) (\<lambda>_ s. (Ok (), set_file_status StatusOk s)))"

text \<open>\<open>while let Some(node) = self.cache.pop_back()\<close>; the cache shrinks in every iteration.\<close>

primrec drain_cache :: "nat \<Rightarrow> ('s, 'd) file_inner \<Rightarrow> unit result \<times> ('s, 'd) file_inner" where
  "drain_cache 0 s = (Hang, s)"
| "drain_cache (Suc fuel) s = (case lru_pop_back (fi_cache s) of
     (None, c) \<Rightarrow> (Ok (), s\<lparr>fi_cache := c\<rparr>)
   | (Some r, c) \<Rightarrow>
       let s = s\<lparr>fi_cache := c\<rparr>
       in if fn_need_writing (node_of s r) then (Err (error_new BadStatus), s) else drain_cache fuel s)"

definition file_clear_cache ::
  "('s, 'd) env \<Rightarrow> ('s, 'd) file_inner \<Rightarrow> unit result \<times> ('s, 'd) file_inner"
where
  "file_clear_cache E s =
     then_do (if status_is_ok (fi_status s) then internal_flush E True s else file_clear_error E s) (\<lambda>_ s.
     if \<not> status_is_ok (fi_status s) then (Err (error_new BadStatus), s)
     else drain_cache (Suc (lru_len (fi_cache s))) s)"

definition file_get_metadata_mac ::
  "('s, 'd) env \<Rightarrow> ('s, 'd) file_inner \<Rightarrow> mac result \<times> ('s, 'd) file_inner"
where
  "file_get_metadata_mac E s =
     then_do (file_flush E s) (\<lambda>_ s. (Ok (mp_gmac (mi_plain (fi_metadata s))), s))"

definition file_rename :: "bytes \<Rightarrow> bytes \<Rightarrow> ('s, 'd) file_inner \<Rightarrow> unit result \<times> ('s, 'd) file_inner" where
  "file_rename old_name new_name s =
     (if \<not> length old_name > 0 then (Err (error_new InvalidArgs), s)
      else if \<not> length old_name < FILENAME_MAX_LEN - 1
      then (Err (error_with_msg InvalidArgs ''file name too long''), s)
      else if \<not> length new_name > 0 then (Err (error_new InvalidArgs), s)
      else if \<not> length new_name < FILENAME_MAX_LEN - 1
      then (Err (error_with_msg InvalidArgs ''file name too long''), s)
      else then_do (metadata_file_name (fi_metadata s), s) (\<lambda>meta_file_name s.
           if meta_file_name \<noteq> old_name
           then (Err (error_with_msg InvalidArgs ''file name mismatch''), s)
           else (Ok (), s\<lparr>fi_need_writing := True, fi_metadata := (fi_metadata s)\<lparr>mi_enc :=
             (mi_enc (fi_metadata s))\<lparr>me_file_name := overwrite (zeros FILENAME_MAX_LEN) 0 new_name\<rparr>\<rparr>\<rparr>)))"

definition file_get_last_error :: "('s, 'd) file_inner \<Rightarrow> error option" where
  "file_get_last_error s =
     (if fi_last_error s \<noteq> None \<and> \<not> status_is_ok (fi_status s)
      then Some (error_new BadStatus) else fi_last_error s)"

definition file_remove :: "bytes \<Rightarrow> unit result" where
  "file_remove path = Panic"

section \<open>Closing\<close>

definition remove_recovery_file ::
  "('s, 'd) env \<Rightarrow> ('s, 'd) file_inner \<Rightarrow> unit result \<times> ('s, 'd) file_inner"
where
  "remove_recovery_file E s = (case with_journal (raw_reset E) s of (r, s) \<Rightarrow> (unwrap r, s))"

definition file_close ::
  "('s, 'd) env \<Rightarrow> close_mode \<Rightarrow> ('s, 'd) file_inner \<Rightarrow> key option result \<times> ('s, 'd) file_inner"
where
  "file_close E mode s =
     (if mode \<noteq> CloseNormal \<and> metadata_encrypt_flags (fi_metadata s) \<noteq> EF_AutoKey
      then (Err (error_new Unexpected), s)
      else let s = (if mode = CloseImport then s\<lparr>fi_need_writing := True\<rparr> else s) in
      then_do (if \<not> status_is_ok (fi_status s) then file_clear_error E s else internal_flush E True s) (\<lambda>_ s.
      then_do (if status_is_ok (fi_status s) \<and> fi_last_error s = None
               then remove_recovery_file E s else (Ok (), s)) (\<lambda>_ s.
      let s = set_file_status Closed s in
      if mode = CloseExport
      then (and_then (metadata_restore_key (fi_key_gen s) (fi_metadata s)) (\<lambda>key. Ok (Some key)), s)
      else (Ok None, s))))"

end
