(* ===== verification/File_Open.thy ===== *)
theory File_Open
  imports File_IO
begin

text \<open>
  \<open>core/src/pfs/sys/file/open.rs\<close>: creating a file on a disk, and opening one with recovery and
  rollback.
\<close>

section \<open>Parameters\<close>

abbreviation SE_PAGE_SIZE :: nat where "SE_PAGE_SIZE \<equiv> 0x1000"

definition DEFAULT_CACHE_SIZE :: nat where
  "DEFAULT_CACHE_SIZE = 2400 * SE_PAGE_SIZE"

definition check_open_param :: "bytes \<Rightarrow> bytes \<Rightarrow> open_options \<Rightarrow> open_mode \<Rightarrow> unit result" where
  "check_open_param path name opts mode =
     (if \<not> (length path > 0 \<and> length path < FULLNAME_MAX_LEN - 1)
      then Err (error_with_msg InvalidArgs ''path length invalid'')
      else if \<not> length name > 0 then Err (error_with_msg InvalidArgs ''name length invalid'')
      else if \<not> length name < FILENAME_MAX_LEN - 1 then Err (error_with_msg InvalidArgs ''name length invalid'')
      else and_then (open_options_check opts) (\<lambda>_. open_mode_check mode))"

definition check_cache_size :: "nat option \<Rightarrow> nat result" where
  "check_cache_size cache_size =
     (let size = (case cache_size of None \<Rightarrow> DEFAULT_CACHE_SIZE | Some n \<Rightarrow> n)
      in if size mod SE_PAGE_SIZE = 0 then Ok (size div SE_PAGE_SIZE)
         else Err (error_with_msg InvalidArgs ''cache size invalid''))"

definition subdisk_for_data :: "('s, 'd) env \<Rightarrow> 'd \<Rightarrow> 'd result" where
  "subdisk_for_data E disk = bs_subset (env_bs E) disk 0 (bs_nblocks (env_bs E) disk * 7 div 8)"

definition subdisk_for_journal :: "('s, 'd) env \<Rightarrow> 'd \<Rightarrow> 'd result" where
  "subdisk_for_journal E disk =
     bs_subset (env_bs E) disk (bs_nblocks (env_bs E) disk * 7 div 8) (bs_nblocks (env_bs E) disk)"

section \<open>Creating a file\<close>

definition new_file :: "bytes \<Rightarrow> open_mode \<Rightarrow> metadata_info result" where
  "new_file file_name mode =
     (let m = metadata_set_encrypt_flags (encrypt_flags_from mode) metadata_info_new;
          m = (case mode_key_policy mode of Some key_policy \<Rightarrow> metadata_set_key_policy key_policy m | None \<Rightarrow> m)
      in and_then (put_slice (me_file_name (mi_enc m)) 0 file_name) (\<lambda>name.
         Ok (m\<lparr>mi_enc := (mi_enc m)\<lparr>me_file_name := name\<rparr>\<rparr>)))"

definition empty_heap :: node_heap where
  "empty_heap = \<lparr>nodes = (\<lambda>_. file_node_new NtData 0 0 EF_AutoKey), next_ref = 0\<rparr>"

definition file_inner_init ::
  "'s \<Rightarrow> node_heap \<Rightarrow> nat \<Rightarrow> 'd block_file \<Rightarrow> 'd raw_journal \<Rightarrow> metadata_info \<Rightarrow> node_ref \<Rightarrow>
   fs_key_gen \<Rightarrow> open_options \<Rightarrow> bool \<Rightarrow> nat \<Rightarrow> nat \<Rightarrow> ('s, 'd) file_inner"
where
  "file_inner_init w h rng host_file journal metadata root_mht key_gen opts need_writing cache_size offset =
     \<lparr>fi_world = w, fi_heap = h, fi_rng = rng, fi_host_file = host_file, fi_metadata = metadata,
      fi_root_mht = root_mht, fi_key_gen = key_gen, fi_opts = opts, fi_need_writing = need_writing,
      fi_end_of_file = False, fi_max_cache_page = cache_size, fi_offset = offset,
      fi_last_error = None, fi_status = NotInitialized, fi_journal = journal,
      fi_cache = lru_new cache_size\<rparr>"

definition file_create ::
  "('s, 'd) env \<Rightarrow> bytes \<Rightarrow> 'd \<Rightarrow> open_options \<Rightarrow> open_mode \<Rightarrow> nat option \<Rightarrow> 's \<times> nat \<Rightarrow>
   ('s, 'd) file_inner result \<times> 's \<times> nat"
where
  "file_create E path disk opts mode cache_size = (\<lambda>(w, rng).
     then_do (check_cache_size cache_size, w, rng) (\<lambda>cache_size (w, rng).
     then_do (case fs_key_gen_new (env_ossl E) mode rng of (r, rng) \<Rightarrow> (r, w, rng)) (\<lambda>key_gen (w, rng).
     then_do (subdisk_for_data E disk, w, rng) (\<lambda>data_disk (w, rng).
     then_do (subdisk_for_journal E disk, w, rng) (\<lambda>journal_disk (w, rng).
     then_do (new_file path mode, w, rng) (\<lambda>metadata (w, rng).
     case build_ref (file_node_new_root (encrypt_flags_from mode)) empty_heap of (root_mht, h) \<Rightarrow>
       (Ok (set_file_status StatusOk (file_inner_init w h rng (block_file_create E data_disk)
              (raw_create journal_disk) metadata root_mht key_gen opts True cache_size 0)), w, rng)))))))"

section \<open>Opening a file\<close>

definition open_key ::
  "fs_key_gen \<Rightarrow> open_mode \<Rightarrow> metadata_info \<Rightarrow> (key \<times> metadata_info) result"
where
  "open_key key_gen mode m = (case mode_import_key mode of
     Some key \<Rightarrow> (case mode_key_policy mode of
        Some key_policy \<Rightarrow> Ok (key, metadata_set_key_policy key_policy m) | None \<Rightarrow> Panic)
   | None \<Rightarrow> and_then (metadata_restore_key key_gen m) (\<lambda>key. Ok (key, m)))"

definition check_header :: "open_mode \<Rightarrow> metadata_info \<Rightarrow> unit result" where
  "check_header mode m =
     (if mp_file_id (mi_plain m) \<noteq> SGX_FILE_ID
      then Err (error_with_msg SgxError ''SGX_FILE_ID mismatch'')
      else if mp_major_version (mi_plain m) \<noteq> SGX_FILE_MAJOR_VERSION
      then Err (error_with_msg SgxError ''SGX_FILE_MAJOR_VERSION mismatch'')
      else if metadata_update_flag m then Err (error_with_msg SgxError ''Recovery needed'')
      else if encrypt_flags_from mode \<noteq> metadata_encrypt_flags m
      then Err (error_with_msg InvalidArgs ''encrypt_flags mismatch'')
      else if is_auto_key mode \<and> mode_key_policy mode \<noteq> Some (mp_key_policy (mi_plain m))
      then Err (error_with_msg InvalidArgs ''key_policy mismatch'')
      else Ok ())"

definition read_root ::
  "('s, 'd) env \<Rightarrow> 's \<Rightarrow> 'd block_file \<Rightarrow> encrypt_flags \<Rightarrow> metadata_info \<Rightarrow> file_node result"
where
  "read_root E w host_file flags m =
     (if me_size (mi_enc m) > MD_USER_DATA_SIZE
      then and_then (node_read_from_disk E w host_file (file_node_new_root flags)) (\<lambda>n.
           and_then (node_decrypt (env_ossl E) (me_mht_key (mi_enc m)) (me_mht_gmac (mi_enc m)) n) (\<lambda>n.
           Ok (n\<lparr>fn_new_node := False\<rparr>)))
      else Ok (file_node_new_root flags))"

definition open_file ::
  "('s, 'd) env \<Rightarrow> 's \<Rightarrow> 'd block_file \<Rightarrow> bytes \<Rightarrow> fs_key_gen \<Rightarrow> open_mode \<Rightarrow> node_heap \<Rightarrow>
   (metadata_info \<times> node_ref) result \<times> node_heap"
where
  "open_file E w host_file file_name key_gen mode h =
     then_do (and_then (metadata_read_from_disk E w host_file metadata_info_default) (\<lambda>m.
       and_then (check_header mode m) (\<lambda>_.
       and_then (open_key key_gen mode m) (\<lambda>(key, m).
       and_then (metadata_decrypt (env_ossl E) key m) (\<lambda>m.
       and_then (metadata_file_name m) (\<lambda>meta_file_name.
       if meta_file_name \<noteq> file_name then Err (error_with_msg SgxError ''Name mismatch'')
       else and_then (read_root E w host_file (encrypt_flags_from mode) m) (\<lambda>root_mht.
            Ok (m, root_mht))))))), h) (\<lambda>(m, root_mht) h.
     case build_ref root_mht h of (r, h) \<Rightarrow> (Ok (m, r), h))"

primrec rollback_loop ::
  "('s, 'd) env \<Rightarrow> (nat \<times> node_ref) list \<Rightarrow> ('s, 'd) file_inner \<Rightarrow> unit result \<times> ('s, 'd) file_inner"
where
  "rollback_loop E [] s = (Ok (), s)"
| "rollback_loop E (entry # entries) s = (case entry of (physical_number, data_node) \<Rightarrow>
     if \<not> is_data_node physical_number then (Panic, s)
     else let s = set_node data_node (\<lambda>n. n\<lparr>fn_encrypt_flags := metadata_encrypt_flags (fi_metadata s)\<rparr>) s in
     then_do (calculate_mht_logical_number physical_number, s) (\<lambda>mht_logical_number s.
     then_do (get_mht_node_by_logic_number E mht_logical_number s) (\<lambda>parent_mht s.
     then_do (rollback_data_node physical_number data_node
                (set_node data_node (\<lambda>n. n\<lparr>fn_parent := Some parent_mht\<rparr>) s)) (\<lambda>_ s.
     rollback_loop E entries s))))"

definition rollback_nodes ::
  "('s, 'd) env \<Rightarrow> (nat \<times> node_ref) list \<Rightarrow> ('s, 'd) file_inner \<Rightarrow> unit result \<times> ('s, 'd) file_inner"
where
  "rollback_nodes E entries s = rollback_loop E (env_order E entries) s"

text \<open>
  Opening, recovering and opening again.  Recovery is tried after an error too, if the error is
  \<open>RecoveryNeeded\<close>.
\<close>

type_synonym ('s, 'd) open_state = "'s \<times> 'd block_file \<times> node_heap"

definition recover_and_reopen ::
  "('s, 'd) env \<Rightarrow> 'd raw_journal \<Rightarrow> bytes \<Rightarrow> fs_key_gen \<Rightarrow> open_mode \<Rightarrow> ('s, 'd) open_state \<Rightarrow>
   (metadata_info \<times> node_ref \<times> (nat \<times> node_ref) list) result \<times> ('s, 'd) open_state"
where
  "recover_and_reopen E journal file_name key_gen mode st =
     then_do (recovery E journal st) (\<lambda>rollback_nodes (w, host_file, h).
     case open_file E w host_file file_name key_gen mode h of (r, h) \<Rightarrow>
       then_do (r, w, host_file, h) (\<lambda>(metadata, root_mht) st. (Ok (metadata, root_mht, rollback_nodes), st)))"

definition open_or_recover ::
  "('s, 'd) env \<Rightarrow> 'd raw_journal \<Rightarrow> bytes \<Rightarrow> fs_key_gen \<Rightarrow> open_mode \<Rightarrow> ('s, 'd) open_state \<Rightarrow>
   (metadata_info \<times> node_ref \<times> (nat \<times> node_ref) list) result \<times> ('s, 'd) open_state"
where
  "open_or_recover E journal file_name key_gen mode = (\<lambda>(w, host_file, h).
     case open_file E w host_file file_name key_gen mode h of
       (Ok _, h) \<Rightarrow> recover_and_reopen E journal file_name key_gen mode (w, host_file, h)
     | (Err e, h) \<Rightarrow>
         if err_errno e = RecoveryNeeded
         then recover_and_reopen E journal file_name key_gen mode (w, host_file, h)
         else (Err e, w, host_file, h)
     | (Panic, h) \<Rightarrow> (Panic, w, host_file, h)
     | (Hang, h) \<Rightarrow> (Hang, w, host_file, h))"

definition file_open ::
  "('s, 'd) env \<Rightarrow> bytes \<Rightarrow> 'd \<Rightarrow> open_options \<Rightarrow> open_mode \<Rightarrow> nat option \<Rightarrow> 's \<times> nat \<Rightarrow>
   ('s, 'd) file_inner result \<times> 's \<times> nat"
where
  "file_open E path disk opts mode cache_size = (\<lambda>(w, rng).
     then_do (check_cache_size cache_size, w, rng) (\<lambda>cache_size (w, rng).
     then_do (case fs_key_gen_new (env_ossl E) mode rng of (r, rng) \<Rightarrow> (r, w, rng)) (\<lambda>key_gen (w, rng).
     then_do (subdisk_for_data E disk, w, rng) (\<lambda>data_disk (w, rng).
     then_do (subdisk_for_journal E disk, w, rng) (\<lambda>journal_disk (w, rng).
     let journal = raw_create journal_disk in
     case open_or_recover E journal path key_gen mode (w, block_file_create E data_disk, empty_heap) of
       (r, w, host_file, h) \<Rightarrow>
         then_do (r, w, rng) (\<lambda>(metadata, root_mht, rollback) (w, rng).
         let offset = (if oo_append opts \<and> \<not> oo_update opts then me_size (mi_enc metadata) else 0);
             s = file_inner_init w h rng host_file journal metadata root_mht key_gen opts False cache_size offset
         in case (if rollback = [] then (Ok (), s) else rollback_nodes E rollback s) of (r, s) \<Rightarrow>
            then_do (r, fi_world s, fi_rng s) (\<lambda>_ st. (Ok (set_file_status StatusOk s), st))))))))"

end
