(* ===== verification/Protected_File.thy ===== *)
theory Protected_File
  imports File_Open
begin

text \<open>
  \<open>ProtectedFile\<close> (\<open>core/src/pfs/sys/file/mod.rs\<close>), which records the error of a failed
  operation.  The mutex around \<open>FileInner\<close> makes every operation one step.
\<close>

section \<open>ProtectedFile\<close>

definition recording :: "'a result \<times> ('s, 'd) file_inner \<Rightarrow> 'a result \<times> ('s, 'd) file_inner" where
  "recording m = on_err m set_last_error"

definition pf_open ::
  "('s, 'd) env \<Rightarrow> 'd \<Rightarrow> bytes \<Rightarrow> open_options \<Rightarrow> open_mode \<Rightarrow> nat option \<Rightarrow> 's \<times> nat \<Rightarrow>
   ('s, 'd) file_inner result \<times> 's \<times> nat"
where
  "pf_open E disk path opts mode cache_size st = file_open E path disk opts mode cache_size st"

definition pf_create ::
  "('s, 'd) env \<Rightarrow> 'd \<Rightarrow> bytes \<Rightarrow> open_options \<Rightarrow> open_mode \<Rightarrow> nat option \<Rightarrow> 's \<times> nat \<Rightarrow>
   ('s, 'd) file_inner result \<times> 's \<times> nat"
where
  "pf_create E disk path opts mode cache_size st = file_create E path disk opts mode cache_size st"

definition pf_write :: "('s, 'd) env \<Rightarrow> bytes \<Rightarrow> ('s, 'd) file_inner \<Rightarrow> nat result \<times> ('s, 'd) file_inner" where
  "pf_write E buf s = recording (file_write E buf s)"

definition pf_write_at ::
  "('s, 'd) env \<Rightarrow> bytes \<Rightarrow> nat \<Rightarrow> ('s, 'd) file_inner \<Rightarrow> nat result \<times> ('s, 'd) file_inner"
where
  "pf_write_at E buf offset s = recording (file_write_at E buf offset s)"

definition pf_read :: "('s, 'd) env \<Rightarrow> nat \<Rightarrow> ('s, 'd) file_inner \<Rightarrow> bytes result \<times> ('s, 'd) file_inner" where
  "pf_read E buf_len s = recording (file_read E buf_len s)"

definition pf_read_at ::
  "('s, 'd) env \<Rightarrow> nat \<Rightarrow> nat \<Rightarrow> ('s, 'd) file_inner \<Rightarrow> bytes result \<times> ('s, 'd) file_inner"
where
  "pf_read_at E buf_len offset s = recording (file_read_at E buf_len offset s)"

definition pf_tell :: "('s, 'd) file_inner \<Rightarrow> nat result \<times> ('s, 'd) file_inner" where
  "pf_tell s = recording (file_tell s, s)"

definition pf_seek :: "seek_from \<Rightarrow> ('s, 'd) file_inner \<Rightarrow> nat result \<times> ('s, 'd) file_inner" where
  "pf_seek pos s = recording (file_seek pos s)"

definition pf_set_len :: "('s, 'd) env \<Rightarrow> nat \<Rightarrow> ('s, 'd) file_inner \<Rightarrow> unit result \<times> ('s, 'd) file_inner" where
  "pf_set_len E new_size s = recording (file_set_len E new_size s)"

definition pf_flush :: "('s, 'd) env \<Rightarrow> ('s, 'd) file_inner \<Rightarrow> unit result \<times> ('s, 'd) file_inner" where
  "pf_flush E s = recording (file_flush E s)"

definition pf_file_size :: "('s, 'd) file_inner \<Rightarrow> nat result" where
  "pf_file_size s = file_file_size s"

definition pf_get_eof :: "('s, 'd) file_inner \<Rightarrow> bool" where
  "pf_get_eof s = file_get_eof s"

definition pf_get_error :: "('s, 'd) file_inner \<Rightarrow> error option" where
  "pf_get_error s = file_get_last_error s"

definition pf_clear_cache :: "('s, 'd) env \<Rightarrow> ('s, 'd) file_inner \<Rightarrow> unit result \<times> ('s, 'd) file_inner" where
  "pf_clear_cache E s = recording (file_clear_cache E s)"

definition pf_clear_error :: "('s, 'd) env \<Rightarrow> ('s, 'd) file_inner \<Rightarrow> unit result \<times> ('s, 'd) file_inner" where
  "pf_clear_error E s = recording (file_clear_error E s)"

definition pf_get_metadata_mac ::
  "('s, 'd) env \<Rightarrow> ('s, 'd) file_inner \<Rightarrow> mac result \<times> ('s, 'd) file_inner"
where
  "pf_get_metadata_mac E s = recording (file_get_metadata_mac E s)"

definition pf_rename :: "bytes \<Rightarrow> bytes \<Rightarrow> ('s, 'd) file_inner \<Rightarrow> unit result \<times> ('s, 'd) file_inner" where
  "pf_rename old_name new_name s = recording (file_rename old_name new_name s)"

definition pf_close :: "('s, 'd) env \<Rightarrow> ('s, 'd) file_inner \<Rightarrow> unit result \<times> ('s, 'd) file_inner" where
  "pf_close E s = then_do (file_close E CloseNormal s) (\<lambda>_ s. (Ok (), s))"

definition pf_remove :: "bytes \<Rightarrow> unit result" where
  "pf_remove path = file_remove path"

end
