(* ===== verification/Sgx_File.thy ===== *)
theory Sgx_File
  imports Protected_File
begin

text \<open>
  The two \<open>SgxFile\<close> types: \<open>core/src/pfs/sys/mod.rs\<close> boxes a \<open>ProtectedFile\<close> (\<open>sys_\<close>) and
  \<open>core/src/pfs/fs.rs\<close> is the interface of the file system (\<open>sgx_\<close>).  Their methods forward to
  \<open>ProtectedFile\<close>; the constructors set the options and the mode.
\<close>

section \<open>The boxed file\<close>

definition sys_open ::
  "('s, 'd) env \<Rightarrow> 'd \<Rightarrow> bytes \<Rightarrow> open_options \<Rightarrow> encrypt_mode \<Rightarrow> nat option \<Rightarrow> 's \<times> nat \<Rightarrow>
   ('s, 'd) file_inner result \<times> 's \<times> nat"
where
  "sys_open E disk path opts encrypt_mode cache_size st =
     pf_open E disk path opts (open_mode_from encrypt_mode) cache_size st"

definition sys_create ::
  "('s, 'd) env \<Rightarrow> 'd \<Rightarrow> bytes \<Rightarrow> open_options \<Rightarrow> encrypt_mode \<Rightarrow> nat option \<Rightarrow> 's \<times> nat \<Rightarrow>
   ('s, 'd) file_inner result \<times> 's \<times> nat"
where
  "sys_create E disk path opts encrypt_mode cache_size st =
     pf_create E disk path opts (open_mode_from encrypt_mode) cache_size st"

definition sys_read ::
  "('s, 'd) env \<Rightarrow> nat \<Rightarrow> ('s, 'd) file_inner \<Rightarrow> bytes result \<times> ('s, 'd) file_inner"
where
  "sys_read E buf_len s = pf_read E buf_len s"

definition sys_read_at ::
  "('s, 'd) env \<Rightarrow> nat \<Rightarrow> nat \<Rightarrow> ('s, 'd) file_inner \<Rightarrow> bytes result \<times> ('s, 'd) file_inner"
where
  "sys_read_at E buf_len offset s = pf_read_at E buf_len offset s"

definition sys_write ::
  "('s, 'd) env \<Rightarrow> bytes \<Rightarrow> ('s, 'd) file_inner \<Rightarrow> nat result \<times> ('s, 'd) file_inner"
where
  "sys_write E buf s = pf_write E buf s"

definition sys_write_at ::
  "('s, 'd) env \<Rightarrow> bytes \<Rightarrow> nat \<Rightarrow> ('s, 'd) file_inner \<Rightarrow> nat result \<times> ('s, 'd) file_inner"
where
  "sys_write_at E buf offset s = pf_write_at E buf offset s"

definition sys_tell :: "('s, 'd) file_inner \<Rightarrow> nat result \<times> ('s, 'd) file_inner" where
  "sys_tell s = pf_tell s"

definition sys_seek ::
  "seek_from \<Rightarrow> ('s, 'd) file_inner \<Rightarrow> nat result \<times> ('s, 'd) file_inner"
where
  "sys_seek pos s = pf_seek pos s"

definition sys_set_len ::
  "('s, 'd) env \<Rightarrow> nat \<Rightarrow> ('s, 'd) file_inner \<Rightarrow> unit result \<times> ('s, 'd) file_inner"
where
  "sys_set_len E len s = pf_set_len E len s"

definition sys_flush ::
  "('s, 'd) env \<Rightarrow> ('s, 'd) file_inner \<Rightarrow> unit result \<times> ('s, 'd) file_inner"
where
  "sys_flush E s = pf_flush E s"

definition sys_file_size :: "('s, 'd) file_inner \<Rightarrow> nat result" where
  "sys_file_size s = pf_file_size s"

definition sys_is_eof :: "('s, 'd) file_inner \<Rightarrow> bool" where
  "sys_is_eof s = pf_get_eof s"

definition sys_get_error :: "('s, 'd) file_inner \<Rightarrow> error option" where
  "sys_get_error s = pf_get_error s"

definition sys_clear_cache ::
  "('s, 'd) env \<Rightarrow> ('s, 'd) file_inner \<Rightarrow> unit result \<times> ('s, 'd) file_inner"
where
  "sys_clear_cache E s = pf_clear_cache E s"

definition sys_clear_error ::
  "('s, 'd) env \<Rightarrow> ('s, 'd) file_inner \<Rightarrow> unit result \<times> ('s, 'd) file_inner"
where
  "sys_clear_error E s = pf_clear_error E s"

definition sys_get_mac ::
  "('s, 'd) env \<Rightarrow> ('s, 'd) file_inner \<Rightarrow> mac result \<times> ('s, 'd) file_inner"
where
  "sys_get_mac E s = pf_get_metadata_mac E s"

definition sys_rename ::
  "bytes \<Rightarrow> bytes \<Rightarrow> ('s, 'd) file_inner \<Rightarrow> unit result \<times> ('s, 'd) file_inner"
where
  "sys_rename old_name new_name s = pf_rename old_name new_name s"

section \<open>Options and modes\<close>

definition encrypt_mode_auto_key :: "key_policy option \<Rightarrow> encrypt_mode" where
  "encrypt_mode_auto_key key_policy =
     EncryptAutoKey (case key_policy of Some p \<Rightarrow> p | None \<Rightarrow> MRSIGNER)"

definition encrypt_mode_user_key :: "key \<Rightarrow> encrypt_mode" where
  "encrypt_mode_user_key key = EncryptUserKey key"

definition encrypt_mode_integrity_only :: "encrypt_mode" where
  "encrypt_mode_integrity_only = EncryptIntegrityOnly"

definition options_read :: "bool \<Rightarrow> open_options \<Rightarrow> open_options" where
  "options_read b opts = opts\<lparr>oo_read := b\<rparr>"

definition options_write :: "bool \<Rightarrow> open_options \<Rightarrow> open_options" where
  "options_write b opts = opts\<lparr>oo_write := b\<rparr>"

definition options_append :: "bool \<Rightarrow> open_options \<Rightarrow> open_options" where
  "options_append b opts = opts\<lparr>oo_append := b\<rparr>"

definition options_update :: "bool \<Rightarrow> open_options \<Rightarrow> open_options" where
  "options_update b opts = opts\<lparr>oo_update := b\<rparr>"

definition options_binary :: "bool \<Rightarrow> open_options \<Rightarrow> open_options" where
  "options_binary b opts = opts\<lparr>oo_binary := b\<rparr>"

definition options_open_with ::
  "('s, 'd) env \<Rightarrow> open_options \<Rightarrow> 'd \<Rightarrow> bytes \<Rightarrow> encrypt_mode \<Rightarrow> nat option \<Rightarrow> 's \<times> nat \<Rightarrow>
   ('s, 'd) file_inner result \<times> 's \<times> nat"
where
  "options_open_with E opts disk path encrypt_mode cache_size st =
     sys_open E disk path opts encrypt_mode cache_size st"

definition options_create ::
  "('s, 'd) env \<Rightarrow> open_options \<Rightarrow> 'd \<Rightarrow> bytes \<Rightarrow> encrypt_mode \<Rightarrow> nat option \<Rightarrow> 's \<times> nat \<Rightarrow>
   ('s, 'd) file_inner result \<times> 's \<times> nat"
where
  "options_create E opts disk path encrypt_mode cache_size st =
     sys_create E disk path opts encrypt_mode cache_size st"

definition options_open ::
  "('s, 'd) env \<Rightarrow> open_options \<Rightarrow> 'd \<Rightarrow> bytes \<Rightarrow> 's \<times> nat \<Rightarrow>
   ('s, 'd) file_inner result \<times> 's \<times> nat"
where
  "options_open E opts disk path st = options_open_with E opts disk path (encrypt_mode_auto_key None) None st"

definition options_open_with_key ::
  "('s, 'd) env \<Rightarrow> open_options \<Rightarrow> 'd \<Rightarrow> bytes \<Rightarrow> key \<Rightarrow> 's \<times> nat \<Rightarrow>
   ('s, 'd) file_inner result \<times> 's \<times> nat"
where
  "options_open_with_key E opts disk path key st =
     options_open_with E opts disk path (encrypt_mode_user_key key) None st"

definition options_open_integrity_only ::
  "('s, 'd) env \<Rightarrow> open_options \<Rightarrow> 'd \<Rightarrow> bytes \<Rightarrow> 's \<times> nat \<Rightarrow>
   ('s, 'd) file_inner result \<times> 's \<times> nat"
where
  "options_open_integrity_only E opts disk path st =
     options_open_with E opts disk path encrypt_mode_integrity_only None st"

definition options_create_with_key ::
  "('s, 'd) env \<Rightarrow> open_options \<Rightarrow> 'd \<Rightarrow> bytes \<Rightarrow> key \<Rightarrow> nat option \<Rightarrow> 's \<times> nat \<Rightarrow>
   ('s, 'd) file_inner result \<times> 's \<times> nat"
where
  "options_create_with_key E opts disk path key cache_size st =
     options_create E opts disk path (encrypt_mode_user_key key) cache_size st"

definition options_create_integrity_only ::
  "('s, 'd) env \<Rightarrow> open_options \<Rightarrow> 'd \<Rightarrow> bytes \<Rightarrow> nat option \<Rightarrow> 's \<times> nat \<Rightarrow>
   ('s, 'd) file_inner result \<times> 's \<times> nat"
where
  "options_create_integrity_only E opts disk path cache_size st =
     options_create E opts disk path encrypt_mode_integrity_only cache_size st"

section \<open>Constructors\<close>

text \<open>
  The constructors named \<open>create\<close> and \<open>append\<close> open as well: none of them creates a file.
\<close>

definition sgx_open ::
  "('s, 'd) env \<Rightarrow> 'd \<Rightarrow> bytes \<Rightarrow> 's \<times> nat \<Rightarrow> ('s, 'd) file_inner result \<times> 's \<times> nat"
where
  "sgx_open E disk path st = options_open E (options_read True open_options_new) disk path st"

definition sgx_create ::
  "('s, 'd) env \<Rightarrow> 'd \<Rightarrow> bytes \<Rightarrow> 's \<times> nat \<Rightarrow> ('s, 'd) file_inner result \<times> 's \<times> nat"
where
  "sgx_create E disk path st = options_open E (options_write True open_options_new) disk path st"

definition sgx_append ::
  "('s, 'd) env \<Rightarrow> 'd \<Rightarrow> bytes \<Rightarrow> 's \<times> nat \<Rightarrow> ('s, 'd) file_inner result \<times> 's \<times> nat"
where
  "sgx_append E disk path st = options_open E (options_append True open_options_new) disk path st"

definition sgx_open_with_key ::
  "('s, 'd) env \<Rightarrow> 'd \<Rightarrow> bytes \<Rightarrow> key \<Rightarrow> 's \<times> nat \<Rightarrow> ('s, 'd) file_inner result \<times> 's \<times> nat"
where
  "sgx_open_with_key E disk path key st =
     options_open_with_key E (options_read True open_options_new) disk path key st"

definition sgx_open_integrity_only ::
  "('s, 'd) env \<Rightarrow> 'd \<Rightarrow> bytes \<Rightarrow> 's \<times> nat \<Rightarrow> ('s, 'd) file_inner result \<times> 's \<times> nat"
where
  "sgx_open_integrity_only E disk path st =
     options_open_integrity_only E (options_read True open_options_new) disk path st"

definition sgx_open_with ::
  "('s, 'd) env \<Rightarrow> 'd \<Rightarrow> bytes \<Rightarrow> encrypt_mode \<Rightarrow> nat option \<Rightarrow> 's \<times> nat \<Rightarrow> ('s, 'd) file_inner result \<times> 's \<times> nat"
where
  "sgx_open_with E disk path encrypt_mode cache_size st =
     options_open_with E (options_read True open_options_new) disk path encrypt_mode cache_size st"

definition sgx_create_with_key ::
  "('s, 'd) env \<Rightarrow> 'd \<Rightarrow> bytes \<Rightarrow> key \<Rightarrow> 's \<times> nat \<Rightarrow> ('s, 'd) file_inner result \<times> 's \<times> nat"
where
  "sgx_create_with_key E disk path key st =
     options_open_with_key E (options_write True open_options_new) disk path key st"

definition sgx_create_integrity_only ::
  "('s, 'd) env \<Rightarrow> 'd \<Rightarrow> bytes \<Rightarrow> 's \<times> nat \<Rightarrow> ('s, 'd) file_inner result \<times> 's \<times> nat"
where
  "sgx_create_integrity_only E disk path st =
     options_open_integrity_only E (options_write True open_options_new) disk path st"

definition sgx_create_with ::
  "('s, 'd) env \<Rightarrow> 'd \<Rightarrow> bytes \<Rightarrow> encrypt_mode \<Rightarrow> nat option \<Rightarrow> 's \<times> nat \<Rightarrow> ('s, 'd) file_inner result \<times> 's \<times> nat"
where
  "sgx_create_with E disk path encrypt_mode cache_size st =
     options_open_with E (options_write True open_options_new) disk path encrypt_mode cache_size st"

definition sgx_append_with_key ::
  "('s, 'd) env \<Rightarrow> 'd \<Rightarrow> bytes \<Rightarrow> key \<Rightarrow> 's \<times> nat \<Rightarrow> ('s, 'd) file_inner result \<times> 's \<times> nat"
where
  "sgx_append_with_key E disk path key st =
     options_open_with_key E (options_append True open_options_new) disk path key st"

definition sgx_append_integrity_only ::
  "('s, 'd) env \<Rightarrow> 'd \<Rightarrow> bytes \<Rightarrow> 's \<times> nat \<Rightarrow> ('s, 'd) file_inner result \<times> 's \<times> nat"
where
  "sgx_append_integrity_only E disk path st =
     options_open_integrity_only E (options_append True open_options_new) disk path st"

definition sgx_append_with ::
  "('s, 'd) env \<Rightarrow> 'd \<Rightarrow> bytes \<Rightarrow> encrypt_mode \<Rightarrow> nat option \<Rightarrow> 's \<times> nat \<Rightarrow> ('s, 'd) file_inner result \<times> 's \<times> nat"
where
  "sgx_append_with E disk path encrypt_mode cache_size st =
     options_open_with E (options_append True open_options_new) disk path encrypt_mode cache_size st"

section \<open>Methods\<close>

definition sgx_read ::
  "('s, 'd) env \<Rightarrow> nat \<Rightarrow> ('s, 'd) file_inner \<Rightarrow> bytes result \<times> ('s, 'd) file_inner"
where
  "sgx_read E buf_len s = sys_read E buf_len s"

definition sgx_read_at ::
  "('s, 'd) env \<Rightarrow> nat \<Rightarrow> nat \<Rightarrow> ('s, 'd) file_inner \<Rightarrow> bytes result \<times> ('s, 'd) file_inner"
where
  "sgx_read_at E buf_len offset s = sys_read_at E buf_len offset s"

definition sgx_write ::
  "('s, 'd) env \<Rightarrow> bytes \<Rightarrow> ('s, 'd) file_inner \<Rightarrow> nat result \<times> ('s, 'd) file_inner"
where
  "sgx_write E buf s = sys_write E buf s"

definition sgx_write_at ::
  "('s, 'd) env \<Rightarrow> bytes \<Rightarrow> nat \<Rightarrow> ('s, 'd) file_inner \<Rightarrow> nat result \<times> ('s, 'd) file_inner"
where
  "sgx_write_at E buf offset s = sys_write_at E buf offset s"

definition sgx_tell :: "('s, 'd) file_inner \<Rightarrow> nat result \<times> ('s, 'd) file_inner" where
  "sgx_tell s = sys_tell s"

definition sgx_seek ::
  "seek_from \<Rightarrow> ('s, 'd) file_inner \<Rightarrow> nat result \<times> ('s, 'd) file_inner"
where
  "sgx_seek pos s = sys_seek pos s"

definition sgx_set_len ::
  "('s, 'd) env \<Rightarrow> nat \<Rightarrow> ('s, 'd) file_inner \<Rightarrow> unit result \<times> ('s, 'd) file_inner"
where
  "sgx_set_len E len s = sys_set_len E len s"

definition sgx_flush ::
  "('s, 'd) env \<Rightarrow> ('s, 'd) file_inner \<Rightarrow> unit result \<times> ('s, 'd) file_inner"
where
  "sgx_flush E s = sys_flush E s"

definition sgx_file_size :: "('s, 'd) file_inner \<Rightarrow> nat result" where
  "sgx_file_size s = sys_file_size s"

definition sgx_is_eof :: "('s, 'd) file_inner \<Rightarrow> bool" where
  "sgx_is_eof s = sys_is_eof s"

definition sgx_clear_cache ::
  "('s, 'd) env \<Rightarrow> ('s, 'd) file_inner \<Rightarrow> unit result \<times> ('s, 'd) file_inner"
where
  "sgx_clear_cache E s = sys_clear_cache E s"

definition sgx_clear_error ::
  "('s, 'd) env \<Rightarrow> ('s, 'd) file_inner \<Rightarrow> unit result \<times> ('s, 'd) file_inner"
where
  "sgx_clear_error E s = sys_clear_error E s"

definition sgx_get_mac ::
  "('s, 'd) env \<Rightarrow> ('s, 'd) file_inner \<Rightarrow> mac result \<times> ('s, 'd) file_inner"
where
  "sgx_get_mac E s = sys_get_mac E s"

definition sgx_rename ::
  "bytes \<Rightarrow> bytes \<Rightarrow> ('s, 'd) file_inner \<Rightarrow> unit result \<times> ('s, 'd) file_inner"
where
  "sgx_rename old_name new_name s = sys_rename old_name new_name s"

definition buffer_capacity_required :: "('s, 'd) file_inner \<Rightarrow> nat \<times> ('s, 'd) file_inner" where
  "buffer_capacity_required s =
     (let size = (case sgx_file_size s of Ok n \<Rightarrow> n | _ \<Rightarrow> 0)
      in case sgx_tell s of (r, s) \<Rightarrow> (size - (case r of Ok n \<Rightarrow> n | _ \<Rightarrow> 0), s))"

end
