(* ===== verification/Bio_Req.thy ===== *)
theory Bio_Req
  imports Block_Buf
begin

text \<open>
  \<open>core/src/bio/bio_req.rs\<close>: block I/O requests, their builder and the queue of pending requests.

  A callback is a name \<open>'f\<close>; the argument \<open>cb\<close> of \<open>bio_complete\<close> says what calling it does to the
  rest of the system.  The extensions, an \<open>AnyMap\<close> with at most one object per type, are a map.

  The queue is shared between threads.  \<open>enqueue\<close> releases the lock of the list before it changes the
  counter; \<open>dequeue\<close> keeps it, because the guard lives to the end of the \<open>if let\<close> statement.
  \<open>queue_step\<close> has these steps one by one.
\<close>

section \<open>Block buffers\<close>

definition block_buf_from_raw_parts :: "bytes \<Rightarrow> (error, bytes) outcome" where
  "block_buf_from_raw_parts mem = (if length mem > 0 \<and> length mem mod BLOCK_SIZE = 0 then Ok mem else Panic)"

definition block_buf_len :: "bytes \<Rightarrow> nat" where
  "block_buf_len buf = length buf"

definition block_buf_nblocks :: "bytes \<Rightarrow> nat" where
  "block_buf_nblocks buf = block_buf_len buf mod BLOCK_SIZE"

section \<open>Requests\<close>

datatype bio_type = BioRead | BioWrite | BioSync

type_synonym bio_resp = "unit result"

datatype bio_status = BioInit | BioSubmitted | BioCompleted bio_resp

record ('f, 't, 'x) bio_req =
  br_type :: bio_type
  br_addr :: block_id
  br_nblocks :: "32 word"
  br_bufs :: "bytes list"
  br_status :: bio_status
  br_on_complete :: "'f option"
  br_ext :: "'t \<rightharpoonup> 'x"

definition bio_nblocks :: "('f, 't, 'x) bio_req \<Rightarrow> nat" where
  "bio_nblocks req = unat (br_nblocks req)"

definition bio_nbufs :: "('f, 't, 'x) bio_req \<Rightarrow> nat" where
  "bio_nbufs req = length (br_bufs req)"

definition bio_access_bufs_with :: "(bytes list \<Rightarrow> 'r) \<Rightarrow> ('f, 't, 'x) bio_req \<Rightarrow> 'r" where
  "bio_access_bufs_with f req = f (br_bufs req)"

definition bio_access_mut_bufs_with ::
  "(bytes list \<Rightarrow> 'r \<times> bytes list) \<Rightarrow> ('f, 't, 'x) bio_req \<Rightarrow> 'r \<times> ('f, 't, 'x) bio_req"
where
  "bio_access_mut_bufs_with f req = (case f (br_bufs req) of (r, bufs) \<Rightarrow> (r, req\<lparr>br_bufs := bufs\<rparr>))"

definition bio_take_bufs :: "('f, 't, 'x) bio_req \<Rightarrow> bytes list \<times> ('f, 't, 'x) bio_req" where
  "bio_take_bufs req = (br_bufs req, req\<lparr>br_bufs := []\<rparr>)"

definition bio_submit :: "('f, 't, 'x) bio_req \<Rightarrow> ('f, 't, 'x) bio_req result" where
  "bio_submit req = (case br_status req of BioInit \<Rightarrow> Ok (req\<lparr>br_status := BioSubmitted\<rparr>) | _ \<Rightarrow> Panic)"

definition bio_complete ::
  "('f \<Rightarrow> ('f, 't, 'x) bio_req \<Rightarrow> bio_resp \<Rightarrow> 's \<Rightarrow> 's) \<Rightarrow> bio_resp \<Rightarrow> ('f, 't, 'x) bio_req \<Rightarrow> 's \<Rightarrow>
   ('f, 't, 'x) bio_req result \<times> 's"
where
  "bio_complete cb resp req s = (case br_status req of
     BioSubmitted \<Rightarrow>
       (let s = (case br_on_complete req of Some on_complete \<Rightarrow> cb on_complete req resp s | None \<Rightarrow> s)
        in (Ok (req\<lparr>br_status := BioCompleted resp\<rparr>), s))
   | _ \<Rightarrow> (Panic, s))"

section \<open>The builder\<close>

record ('f, 't, 'x) bio_req_builder =
  bb_type :: bio_type
  bb_addr :: "block_id option"
  bb_bufs :: "bytes list option"
  bb_on_complete :: "'f option"
  bb_ext :: "('t \<rightharpoonup> 'x) option"

definition builder_new :: "bio_type \<Rightarrow> ('f, 't, 'x) bio_req_builder" where
  "builder_new type = \<lparr>bb_type = type, bb_addr = None, bb_bufs = None, bb_on_complete = None, bb_ext = None\<rparr>"

definition builder_addr :: "block_id \<Rightarrow> ('f, 't, 'x) bio_req_builder \<Rightarrow> ('f, 't, 'x) bio_req_builder" where
  "builder_addr addr b = b\<lparr>bb_addr := Some addr\<rparr>"

definition builder_bufs :: "bytes list \<Rightarrow> ('f, 't, 'x) bio_req_builder \<Rightarrow> ('f, 't, 'x) bio_req_builder" where
  "builder_bufs bufs b = b\<lparr>bb_bufs := Some bufs\<rparr>"

definition builder_on_complete :: "'f \<Rightarrow> ('f, 't, 'x) bio_req_builder \<Rightarrow> ('f, 't, 'x) bio_req_builder" where
  "builder_on_complete on_complete b = b\<lparr>bb_on_complete := Some on_complete\<rparr>"

definition builder_ext :: "'t \<Rightarrow> 'x \<Rightarrow> ('f, 't, 'x) bio_req_builder \<Rightarrow> ('f, 't, 'x) bio_req_builder" where
  "builder_ext t obj b =
     (let ext = (case bb_ext b of None \<Rightarrow> Map.empty | Some ext \<Rightarrow> ext) in b\<lparr>bb_ext := Some (ext(t \<mapsto> obj))\<rparr>)"

definition saturating_add :: "nat \<Rightarrow> nat \<Rightarrow> nat" where
  "saturating_add a b = min (a + b) (2 ^ 64 - 1)"

definition builder_build :: "('f, 't, 'x) bio_req_builder \<Rightarrow> ('f, 't, 'x) bio_req result" where
  "builder_build b =
     (if bb_type b = BioSync \<and> (bb_addr b \<noteq> None \<or> bb_bufs b \<noteq> None) then Panic
      else let addr = (case bb_addr b of Some addr \<Rightarrow> addr | None \<Rightarrow> 0);
               bufs = (case bb_bufs b of Some bufs \<Rightarrow> bufs | None \<Rightarrow> []);
               nbytes = foldl saturating_add 0 (map block_buf_len bufs);
               nblocks = (of_nat (nbytes div BLOCK_SIZE) :: 32 word);
               ext = (case bb_ext b of Some ext \<Rightarrow> ext | None \<Rightarrow> Map.empty)
           in Ok \<lparr>br_type = bb_type b, br_addr = addr, br_nblocks = nblocks, br_bufs = bufs,
                  br_status = BioInit, br_on_complete = bb_on_complete b, br_ext = ext\<rparr>)"

section \<open>The queue\<close>

record ('f, 't, 'x) bio_req_queue =
  bq_queue :: "('f, 't, 'x) bio_req list"
  bq_num_reqs :: "64 word"

definition queue_new :: "('f, 't, 'x) bio_req_queue" where
  "queue_new = \<lparr>bq_queue = [], bq_num_reqs = 0\<rparr>"

definition queue_enqueue ::
  "('f, 't, 'x) bio_req \<Rightarrow> ('f, 't, 'x) bio_req_queue \<Rightarrow> unit result \<times> ('f, 't, 'x) bio_req_queue"
where
  "queue_enqueue req q = then_do (bio_submit req, q) (\<lambda>req q.
     (Ok (), q\<lparr>bq_queue := bq_queue q @ [req], bq_num_reqs := bq_num_reqs q + 1\<rparr>))"

definition queue_dequeue ::
  "('f, 't, 'x) bio_req_queue \<Rightarrow> ('f, 't, 'x) bio_req option result \<times> ('f, 't, 'x) bio_req_queue"
where
  "queue_dequeue q = (case bq_queue q of
     req # reqs \<Rightarrow> (Ok (Some req), q\<lparr>bq_queue := reqs, bq_num_reqs := bq_num_reqs q - 1\<rparr>)
   | [] \<Rightarrow> if bq_num_reqs q = 0 then (Ok None, q) else (Panic, q))"

definition queue_num_reqs :: "('f, 't, 'x) bio_req_queue \<Rightarrow> nat" where
  "queue_num_reqs q = unat (bq_num_reqs q)"

definition queue_is_empty :: "('f, 't, 'x) bio_req_queue \<Rightarrow> bool" where
  "queue_is_empty q \<longleftrightarrow> queue_num_reqs q = 0"

section \<open>The queue with several threads\<close>

text \<open>
  The lock of the list is free, or held by a \<open>dequeue\<close> that has popped a request or found no
  request.  \<open>qs_adding\<close> counts the threads between the push and the \<open>fetch_add\<close> of \<open>enqueue\<close>.
  \<open>qs_panicked\<close> records that the assertion of \<open>dequeue\<close> failed.
\<close>

datatype queue_lock = Unlocked | Popped | FoundEmpty

record ('f, 't, 'x) queue_state =
  qs_q :: "('f, 't, 'x) bio_req_queue"
  qs_lock :: queue_lock
  qs_adding :: nat
  qs_panicked :: bool

definition queue_init :: "('f, 't, 'x) queue_state" where
  "queue_init = \<lparr>qs_q = queue_new, qs_lock = Unlocked, qs_adding = 0, qs_panicked = False\<rparr>"

inductive queue_step :: "('f, 't, 'x) queue_state \<Rightarrow> ('f, 't, 'x) queue_state \<Rightarrow> bool" where
  enqueue_push: "qs_lock st = Unlocked \<Longrightarrow> bio_submit req = Ok req' \<Longrightarrow>
    queue_step st (st\<lparr>qs_q := (qs_q st)\<lparr>bq_queue := bq_queue (qs_q st) @ [req']\<rparr>, qs_adding := Suc (qs_adding st)\<rparr>)"
| enqueue_add: "qs_adding st = Suc n \<Longrightarrow>
    queue_step st (st\<lparr>qs_q := (qs_q st)\<lparr>bq_num_reqs := bq_num_reqs (qs_q st) + 1\<rparr>, qs_adding := n\<rparr>)"
| dequeue_pop: "qs_lock st = Unlocked \<Longrightarrow> bq_queue (qs_q st) = req # reqs \<Longrightarrow>
    queue_step st (st\<lparr>qs_q := (qs_q st)\<lparr>bq_queue := reqs\<rparr>, qs_lock := Popped\<rparr>)"
| dequeue_sub: "qs_lock st = Popped \<Longrightarrow>
    queue_step st (st\<lparr>qs_q := (qs_q st)\<lparr>bq_num_reqs := bq_num_reqs (qs_q st) - 1\<rparr>, qs_lock := Unlocked\<rparr>)"
| dequeue_none: "qs_lock st = Unlocked \<Longrightarrow> bq_queue (qs_q st) = [] \<Longrightarrow> queue_step st (st\<lparr>qs_lock := FoundEmpty\<rparr>)"
| dequeue_assert: "qs_lock st = FoundEmpty \<Longrightarrow>
    queue_step st (st\<lparr>qs_lock := Unlocked, qs_panicked := (qs_panicked st \<or> bq_num_reqs (qs_q st) \<noteq> 0)\<rparr>)"

abbreviation queue_reachable :: "('f, 't, 'x) queue_state \<Rightarrow> bool" where
  "queue_reachable st \<equiv> queue_step\<^sup>*\<^sup>* queue_init st"

section \<open>Lemmas\<close>

text \<open>The counter differs from the list by the operations that are between their two steps.\<close>

definition queue_balance :: "('f, 't, 'x) queue_state \<Rightarrow> bool" where
  "queue_balance st \<longleftrightarrow> bq_num_reqs (qs_q st) + of_nat (qs_adding st) =
     of_nat (length (bq_queue (qs_q st))) + (if qs_lock st = Popped then 1 else 0)"

lemma queue_balance_step: "queue_step st st' \<Longrightarrow> queue_balance st \<Longrightarrow> queue_balance st'"
  by (induction rule: queue_step.induct) (simp_all add: queue_balance_def algebra_simps)

lemma queue_balance_reachable: "queue_reachable st \<Longrightarrow> queue_balance st"
proof (induction rule: rtranclp_induct)
  case base
  then show ?case by (simp add: queue_balance_def queue_init_def queue_new_def)
qed (rule queue_balance_step)

lemma bio_submit_Ok: "bio_submit req = Ok req' \<longleftrightarrow> br_status req = BioInit \<and> req' = req\<lparr>br_status := BioSubmitted\<rparr>"
  by (auto simp: bio_submit_def split: bio_status.splits)

lemma queue_submitted_reachable: "queue_reachable st \<Longrightarrow> \<forall>req\<in>set (bq_queue (qs_q st)). br_status req = BioSubmitted"
proof (induction rule: rtranclp_induct)
  case base
  then show ?case by (simp add: queue_init_def queue_new_def)
next
  case (step st st')
  from step.hyps(2) step.IH show ?case by (induction rule: queue_step.induct) (auto simp: bio_submit_Ok)
qed

text \<open>The pieces that a block buffer is made of.\<close>

lemma foldl_saturating: "a + sum_list ns < 2 ^ 64 \<Longrightarrow> foldl saturating_add a ns = a + sum_list ns"
proof (induction ns arbitrary: a)
  case (Cons n ns)
  then show ?case by (simp add: saturating_add_def)
qed simp

section \<open>Properties\<close>

text \<open>C28: With any number of threads that enqueue and dequeue, in every reachable state the counter of the
  queue and the length of its list differ by the operations that are half done: the counter plus the
  pending additions equals the length plus the pending subtraction, modulo the width of the
  counter.  When no operation is half done the counter is the number of requests, and every request
  in the list is submitted and not completed.\<close>

theorem queue_counter_invariant:
  assumes "queue_reachable st"
  shows "bq_num_reqs (qs_q st) + of_nat (qs_adding st) =
      of_nat (length (bq_queue (qs_q st))) + (if qs_lock st = Popped then 1 else 0) \<and>
    (\<forall>req\<in>set (bq_queue (qs_q st)). br_status req = BioSubmitted) \<and>
    (qs_adding st = 0 \<and> qs_lock st \<noteq> Popped \<and> length (bq_queue (qs_q st)) < 2 ^ 64 \<longrightarrow>
       queue_num_reqs (qs_q st) = length (bq_queue (qs_q st)))"
  using queue_balance_reachable [OF assms] queue_submitted_reachable [OF assms]
  by (auto simp: queue_balance_def queue_num_reqs_def unat_of_nat take_bit_nat_eq_self_iff)

definition sample_req :: "(unit, unit, unit) bio_req" where
  "sample_req = \<lparr>br_type = BioRead, br_addr = 0, br_nblocks = 1, br_bufs = [zeros BLOCK_SIZE], br_status = BioInit,
     br_on_complete = None, br_ext = Map.empty\<rparr>"

text \<open>The state after a request was pushed, popped and uncounted before it was counted.\<close>

definition uncounted_state :: "(unit, unit, unit) queue_state" where
  "uncounted_state = \<lparr>qs_q = \<lparr>bq_queue = [], bq_num_reqs = - 1\<rparr>, qs_lock = Unlocked, qs_adding = 1, qs_panicked = False\<rparr>"

lemma uncounted_reachable: "queue_reachable uncounted_state"
proof -
  let ?r = "sample_req\<lparr>br_status := BioSubmitted\<rparr>"
  let ?s1 = "queue_init\<lparr>qs_q := \<lparr>bq_queue = [?r], bq_num_reqs = 0\<rparr>, qs_adding := 1\<rparr>"
  let ?s2 = "queue_init\<lparr>qs_adding := 1, qs_lock := Popped\<rparr>"
  have "bio_submit sample_req = Ok ?r" by (simp add: bio_submit_Ok sample_req_def)
  from enqueue_push [OF _ this, of queue_init] have "queue_step queue_init ?s1" by (simp add: queue_init_def queue_new_def)
  moreover have "queue_step ?s1 ?s2" using dequeue_pop [of ?s1 ?r "[]"] by (simp add: queue_init_def queue_new_def)
  moreover have "queue_step ?s2 uncounted_state" using dequeue_sub [of ?s2] by (simp add: uncounted_state_def queue_init_def queue_new_def)
  ultimately show ?thesis by (meson rtranclp.rtrancl_into_rtrancl rtranclp.rtrancl_refl)
qed

theorem queue_counter_invariant_witness:
  "queue_reachable uncounted_state \<and>
   bq_num_reqs (qs_q uncounted_state) + of_nat (qs_adding uncounted_state) =
      of_nat (length (bq_queue (qs_q uncounted_state))) + (if qs_lock uncounted_state = Popped then 1 else 0)"
  using queue_counter_invariant [OF uncounted_reachable] uncounted_reachable by simp

text \<open>C29: The assertion of \<open>dequeue\<close> that the counter of an empty queue is zero can fail: when one thread has
  pushed a request and not counted it yet, a second thread pops it and decrements the counter below
  zero, and the next \<open>dequeue\<close> finds the list empty, reads the wrapped counter and panics.\<close>

theorem dequeue_assertion_can_fail:
  "\<exists>st :: (unit, unit, unit) queue_state. queue_reachable st \<and> qs_panicked st"
proof -
  let ?s = "uncounted_state\<lparr>qs_lock := FoundEmpty\<rparr>"
  have "queue_step uncounted_state ?s" using dequeue_none [of uncounted_state] by (simp add: uncounted_state_def)
  moreover have "queue_step ?s (?s\<lparr>qs_lock := Unlocked, qs_panicked := True\<rparr>)"
    using dequeue_assert [of ?s] by (simp add: uncounted_state_def)
  ultimately have "queue_reachable (?s\<lparr>qs_lock := Unlocked, qs_panicked := True\<rparr>)"
    using uncounted_reachable by (meson rtranclp.rtrancl_into_rtrancl)
  then show ?thesis by fastforce
qed

text \<open>The number of blocks of a request is the number of whole blocks in its buffers, reduced to 32 bits;
  a request of \<open>2 ^ 32\<close> blocks says that it has none.  The method \<open>nblocks\<close> of a block buffer takes the
  remainder instead of the quotient and is zero for every buffer that can be created.\<close>

theorem request_nblocks:
  assumes "sum_list (map length bufs) < 2 ^ 64" "type \<noteq> BioSync"
  shows "(\<exists>req. builder_build (builder_bufs bufs (builder_addr addr (builder_new type))) = Ok req \<and>
      br_bufs req = bufs \<and> br_addr req = addr \<and> br_status req = BioInit \<and>
      bio_nblocks req = sum_list (map length bufs) div BLOCK_SIZE mod 2 ^ 32) \<and>
    (block_buf_from_raw_parts mem = Ok buf \<longrightarrow> block_buf_nblocks buf = 0)"
proof -
  have "foldl saturating_add 0 (map block_buf_len bufs) = sum_list (map length bufs)"
    using foldl_saturating [of 0 "map length bufs"] assms(1) by (simp add: block_buf_len_def [abs_def])
  then show ?thesis using assms(2)
    by (auto simp: builder_build_def builder_bufs_def builder_addr_def builder_new_def Let_def bio_nblocks_def
        unat_of_nat take_bit_nat_def block_buf_from_raw_parts_def block_buf_nblocks_def block_buf_len_def split: if_splits)
qed

theorem request_nblocks_witness:
  "(\<exists>req :: (unit, unit, unit) bio_req. builder_build (builder_bufs [zeros (2 ^ 44)] (builder_addr 5 (builder_new BioWrite))) = Ok req \<and>
      bio_nblocks req = 0) \<and>
   (\<exists>buf. block_buf_from_raw_parts (zeros 8192) = Ok buf \<and> block_buf_nblocks buf = 0)"
  using request_nblocks [of "[zeros (2 ^ 44)]" BioWrite 5 "zeros 8192" "zeros 8192"]
  by (auto simp: block_buf_from_raw_parts_def)

end
