(* ===== verification/Pfs_Disk.thy ===== *)
theory Pfs_Disk
  imports Sgx_File Bio_Req
begin

text \<open>
  \<open>core/src/pfs_disk/mod.rs\<close> and \<open>core/src/pfs_disk/open_options.rs\<close>: a block device on a protected file.

  The mutex around the file makes every method one step on the state of the disk.  A method that fills a
  buffer of the caller takes its bytes and returns them changed.  Sums and products of
  \<open>usize\<close> that no earlier check bounds panic when they overflow.
\<close>

section \<open>State\<close>

record ('s, 'd) pfs_disk =
  pd_file :: "('s, 'd) file_inner"
  pd_path :: bytes
  pd_total_blocks :: nat
  pd_can_read :: bool
  pd_can_write :: bool

definition PFS_INNER_OFFSET :: nat where
  "PFS_INNER_OFFSET = 3 * 1024"

text \<open>\<open>self.file.lock()\<close> around a call, and \<open>unwrap\<close> on the result of a call.\<close>

definition with_file ::
  "(('s, 'd) file_inner \<Rightarrow> 'a result \<times> ('s, 'd) file_inner) \<Rightarrow> ('s, 'd) pfs_disk \<Rightarrow> 'a result \<times> ('s, 'd) pfs_disk"
where
  "with_file f d = (case f (pd_file d) of (r, s) \<Rightarrow> (r, d\<lparr>pd_file := s\<rparr>))"

definition unwrapped :: "'a result \<times> 's \<Rightarrow> 'a result \<times> 's" where
  "unwrapped m = (unwrap (fst m), snd m)"

section \<open>Vectors of buffers\<close>

record buf_mut_vec =
  bv_bufs :: "bytes list"
  bv_nblocks :: nat

definition buf_vec_from_bufs :: "bytes list \<Rightarrow> buf_mut_vec result" where
  "buf_vec_from_bufs bufs =
     (if bufs = [] then Panic
      else Ok \<lparr>bv_bufs = bufs, bv_nblocks = foldl saturating_add 0 (map buf_mut_nblocks bufs)\<rparr>)"

text \<open>
  \<open>nth_buf_mut_slice\<close> gives the caller a mutable block; here it takes the block that \<open>copy_from_slice\<close> writes
  there.  Without such a block it gives an empty slice, on which \<open>copy_from_slice\<close> panics.
\<close>

primrec nth_buf_mut_slice :: "bytes list \<Rightarrow> nat \<Rightarrow> bytes \<Rightarrow> bytes list result" where
  "nth_buf_mut_slice [] n block = (if block = [] then Ok [] else Panic)"
| "nth_buf_mut_slice (buf # bufs) n block =
     (if n \<ge> buf_mut_nblocks buf
      then and_then (nth_buf_mut_slice bufs (n - buf_mut_nblocks buf) block) (\<lambda>bufs. Ok (buf # bufs))
      else if length block \<noteq> BLOCK_SIZE then Panic
      else and_then (put_slice buf (n * BLOCK_SIZE) block) (\<lambda>buf. Ok (buf # bufs)))"

definition buf_vec_set_nth :: "nat \<Rightarrow> bytes \<Rightarrow> buf_mut_vec \<Rightarrow> buf_mut_vec result" where
  "buf_vec_set_nth n block v =
     (if \<not> n < bv_nblocks v then Panic
      else and_then (nth_buf_mut_slice (bv_bufs v) n block) (\<lambda>bufs. Ok (v\<lparr>bv_bufs := bufs\<rparr>)))"

section \<open>Blocks\<close>

definition validate_range :: "nat \<Rightarrow> ('s, 'd) pfs_disk \<Rightarrow> unit result" where
  "validate_range addr d =
     (if addr \<ge> pd_total_blocks d then Err (error_with_msg IoFailed ''invalid block range'') else Ok ())"

definition total_data_blocks :: "nat \<Rightarrow> nat" where
  "total_data_blocks total_blocks = total_blocks * 13 div 16"

text \<open>A read puts the bytes at the front of the buffer and keeps the rest.\<close>

definition pd_read ::
  "('s, 'd) env \<Rightarrow> nat \<Rightarrow> bytes \<Rightarrow> ('s, 'd) pfs_disk \<Rightarrow> bytes result \<times> ('s, 'd) pfs_disk"
where
  "pd_read E addr buf d =
     (if \<not> pd_can_read d then (Err (error_with_msg IoFailed ''read is not allowed''), d)
      else then_do (validate_range addr d, d) (\<lambda>_ d.
      let offset = addr * BLOCK_SIZE + PFS_INNER_OFFSET in
      then_do (unwrapped (with_file (sgx_seek (SeekStart offset)) d)) (\<lambda>_ d.
      then_do (unwrapped (with_file (sgx_read E (length buf)) d)) (\<lambda>bs d. (Ok (overwrite buf 0 bs), d)))))"

primrec copy_blocks :: "nat list \<Rightarrow> bytes \<Rightarrow> buf_mut_vec \<Rightarrow> buf_mut_vec result" where
  "copy_blocks [] buf v = Ok v"
| "copy_blocks (i # is) buf v =
     and_then (get_slice (i * BLOCK_SIZE) ((i + 1) * BLOCK_SIZE) buf) (\<lambda>block.
     and_then (buf_vec_set_nth i block v) (copy_blocks is buf))"

definition pd_readv ::
  "('s, 'd) env \<Rightarrow> nat \<Rightarrow> bytes list \<Rightarrow> ('s, 'd) pfs_disk \<Rightarrow> bytes list result \<times> ('s, 'd) pfs_disk"
where
  "pd_readv E addr bufs d =
     then_do (buf_vec_from_bufs bufs, d) (\<lambda>v d.
     then_do (buf_alloc (env_mem E) (bv_nblocks v), d) (\<lambda>buf d.
     let offset = addr * BLOCK_SIZE + PFS_INNER_OFFSET in
     if \<not> offset < 2 ^ 64 then (Panic, d)
     else then_do (unwrapped (with_file (sgx_seek (SeekStart offset)) d)) (\<lambda>_ d.
     then_do (unwrapped (with_file (sgx_read E (length buf)) d)) (\<lambda>bs d.
     (and_then (copy_blocks [0..<bv_nblocks v] (overwrite buf 0 bs) v) (\<lambda>v. Ok (bv_bufs v)), d)))))"

definition pd_write ::
  "('s, 'd) env \<Rightarrow> nat \<Rightarrow> bytes \<Rightarrow> ('s, 'd) pfs_disk \<Rightarrow> unit result \<times> ('s, 'd) pfs_disk"
where
  "pd_write E addr buf d =
     (if \<not> pd_can_write d then (Err (error_with_msg IoFailed ''write is not allowed''), d)
      else then_do (validate_range addr d, d) (\<lambda>_ d.
      let offset = addr * BLOCK_SIZE + PFS_INNER_OFFSET in
      then_do (unwrapped (with_file (sgx_seek (SeekStart offset)) d)) (\<lambda>_ d.
      then_do (unwrapped (with_file (sgx_write E buf) d)) (\<lambda>_ d. (Ok (), d)))))"

fun gather_blocks :: "nat \<Rightarrow> bytes list \<Rightarrow> bytes \<Rightarrow> bytes result" where
  "gather_blocks i [] buf = Ok buf"
| "gather_blocks i (block # blocks) buf =
     (if length block \<noteq> BLOCK_SIZE then Panic
      else and_then (put_slice buf (i * BLOCK_SIZE) block) (gather_blocks (i + 1) blocks))"

definition pd_writev ::
  "('s, 'd) env \<Rightarrow> nat \<Rightarrow> bytes list \<Rightarrow> ('s, 'd) pfs_disk \<Rightarrow> unit result \<times> ('s, 'd) pfs_disk"
where
  "pd_writev E addr bufs d =
     then_do (buf_alloc (env_mem E) (length bufs), d) (\<lambda>buf d.
     then_do (gather_blocks 0 bufs buf, d) (\<lambda>buf d. pd_write E addr buf d))"

definition pd_sync :: "('s, 'd) env \<Rightarrow> ('s, 'd) pfs_disk \<Rightarrow> unit result \<times> ('s, 'd) pfs_disk" where
  "pd_sync E d = with_file (sgx_flush E) d"

text \<open>\<open>drop\<close> flushes and unwraps.\<close>

definition pd_drop :: "('s, 'd) env \<Rightarrow> ('s, 'd) pfs_disk \<Rightarrow> unit result \<times> ('s, 'd) pfs_disk" where
  "pd_drop E d = unwrapped (with_file (sgx_flush E) d)"

section \<open>Requests\<close>

definition get_range_in_bytes :: "('f, 't, 'x) bio_req \<Rightarrow> ('s, 'd) pfs_disk \<Rightarrow> (nat \<times> nat) result" where
  "get_range_in_bytes req d =
     (let begin_block = br_addr req; end_block = begin_block + bio_nblocks req in
      if \<not> end_block < 2 ^ 64 then Panic
      else if end_block > pd_total_blocks d then Err (error_with_msg IoFailed ''invalid block range'')
      else Ok (begin_block * BLOCK_SIZE, end_block * BLOCK_SIZE))"

primrec read_bufs ::
  "('s, 'd) env \<Rightarrow> bytes list \<Rightarrow> ('s, 'd) pfs_disk \<Rightarrow> bytes list result \<times> ('s, 'd) pfs_disk"
where
  "read_bufs E [] d = (Ok [], d)"
| "read_bufs E (buf # bufs) d =
     then_do (unwrapped (with_file (sgx_read E (length buf)) d)) (\<lambda>bs d.
     if length bs \<noteq> length buf then (Panic, d)
     else then_do (read_bufs E bufs d) (\<lambda>bufs d. (Ok (overwrite buf 0 bs # bufs), d)))"

definition do_read ::
  "('s, 'd) env \<Rightarrow> ('f, 't, 'x) bio_req \<Rightarrow> ('s, 'd) pfs_disk \<Rightarrow> ('f, 't, 'x) bio_req result \<times> ('s, 'd) pfs_disk"
where
  "do_read E req d =
     (if \<not> pd_can_read d then (Err (error_with_msg IoFailed ''read is not allowed''), d)
      else then_do (get_range_in_bytes req d, d) (\<lambda>(offset, _) d.
      then_do (unwrapped (with_file (sgx_seek (SeekStart (offset + PFS_INNER_OFFSET))) d)) (\<lambda>_ d.
      then_do (read_bufs E (br_bufs req) d) (\<lambda>bufs d. (Ok (req\<lparr>br_bufs := bufs\<rparr>), d)))))"

primrec write_bufs :: "('s, 'd) env \<Rightarrow> bytes list \<Rightarrow> ('s, 'd) pfs_disk \<Rightarrow> unit result \<times> ('s, 'd) pfs_disk" where
  "write_bufs E [] d = (Ok (), d)"
| "write_bufs E (buf # bufs) d =
     then_do (unwrapped (with_file (sgx_write E buf) d)) (\<lambda>write_len d.
     if write_len \<noteq> length buf then (Panic, d) else write_bufs E bufs d)"

definition do_write ::
  "('s, 'd) env \<Rightarrow> ('f, 't, 'x) bio_req \<Rightarrow> ('s, 'd) pfs_disk \<Rightarrow> unit result \<times> ('s, 'd) pfs_disk"
where
  "do_write E req d =
     (if \<not> pd_can_write d then (Err (error_with_msg IoFailed ''write is not allowed''), d)
      else then_do (get_range_in_bytes req d, d) (\<lambda>(offset, _) d.
      then_do (unwrapped (with_file (sgx_seek (SeekStart (offset + PFS_INNER_OFFSET))) d)) (\<lambda>_ d.
      write_bufs E (br_bufs req) d)))"

definition do_flush :: "('s, 'd) env \<Rightarrow> ('s, 'd) pfs_disk \<Rightarrow> unit result \<times> ('s, 'd) pfs_disk" where
  "do_flush E d =
     (if \<not> pd_can_write d then (Err (error_with_msg IoFailed ''flush is not allowed''), d)
      else with_file (sgx_flush E) d)"

section \<open>The block device of a file system\<close>

datatype ext2_error = EntryNotFound | InvalidParam | NoDeviceSpace | PermError | DeviceError int

definition ext2_error_from :: "error \<Rightarrow> ext2_error" where
  "ext2_error_from value = (case err_errno value of
     NotFound \<Rightarrow> EntryNotFound | InvalidArgs \<Rightarrow> InvalidParam | OutOfDisk \<Rightarrow> NoDeviceSpace
   | PermissionDenied \<Rightarrow> PermError | _ \<Rightarrow> DeviceError 0)"

definition ext2_result :: "'a result \<Rightarrow> (ext2_error, 'a) outcome" where
  "ext2_result r = (case r of Ok x \<Rightarrow> Ok x | Err e \<Rightarrow> Err (ext2_error_from e) | Panic \<Rightarrow> Panic | Hang \<Rightarrow> Hang)"

primrec unwrap_all :: "bytes result list \<Rightarrow> bytes list result" where
  "unwrap_all [] = Ok []"
| "unwrap_all (r # rs) = and_then (unwrap r) (\<lambda>x. and_then (unwrap_all rs) (\<lambda>xs. Ok (x # xs)))"

definition device_read_blocks ::
  "('s, 'd) env \<Rightarrow> nat \<Rightarrow> bytes list \<Rightarrow> ('s, 'd) pfs_disk \<Rightarrow> (ext2_error, bytes list) outcome \<times> ('s, 'd) pfs_disk"
where
  "device_read_blocks E bid blocks d =
     (case then_do (unwrap_all (map buf_mut_try_from blocks), d) (\<lambda>bufs d.
        if length blocks = 1 then then_do (pd_read E bid (hd bufs) d) (\<lambda>buf d. (Ok [buf], d))
        else pd_readv E bid bufs d) of (r, d) \<Rightarrow> (ext2_result r, d))"

definition device_write_blocks ::
  "('s, 'd) env \<Rightarrow> nat \<Rightarrow> bytes list \<Rightarrow> ('s, 'd) pfs_disk \<Rightarrow> (ext2_error, unit) outcome \<times> ('s, 'd) pfs_disk"
where
  "device_write_blocks E bid blocks d =
     (case then_do (unwrap_all (map buf_ref_try_from blocks), d) (\<lambda>bufs d.
        if length blocks = 1 then pd_write E bid (hd bufs) d else pd_writev E bid bufs d) of (r, d) \<Rightarrow> (ext2_result r, d))"

definition device_sync :: "('s, 'd) env \<Rightarrow> ('s, 'd) pfs_disk \<Rightarrow> (ext2_error, unit) outcome \<times> ('s, 'd) pfs_disk" where
  "device_sync E d = (case pd_sync E d of (r, d) \<Rightarrow> (ext2_result r, d))"

section \<open>Vectored transfers\<close>

lemma gather_blocks_Ok:
  assumes "\<forall>b\<in>set blocks. length b = BLOCK_SIZE" "(i + length blocks) * BLOCK_SIZE \<le> length buf"
  shows "gather_blocks i blocks buf = Ok (overwrite buf (i * BLOCK_SIZE) (concat blocks))"
  using assms
proof (induction blocks arbitrary: i buf)
  case (Cons b blocks)
  have l: "length b = BLOCK_SIZE" "i * BLOCK_SIZE + length b \<le> length buf" using Cons.prems by simp_all
  have "gather_blocks (i + 1) blocks (overwrite buf (i * BLOCK_SIZE) b) =
      Ok (overwrite (overwrite buf (i * BLOCK_SIZE) b) ((i + 1) * BLOCK_SIZE) (concat blocks))"
    using Cons.prems l by (intro Cons.IH) simp_all
  also have "\<dots> = Ok (overwrite buf (i * BLOCK_SIZE) (b @ concat blocks))"
    using overwrite_append [of "i * BLOCK_SIZE" buf b "concat blocks"] l by (simp add: add.commute)
  finally show ?case using l by simp
qed simp

lemma overwrite_in_suffix: "overwrite (xs @ ys) (length xs + k) zs = xs @ overwrite ys k zs"
  by (simp add: overwrite_def)

lemma overwrite_in_prefix: "k + length zs \<le> length xs \<Longrightarrow> overwrite (xs @ ys) k zs = overwrite xs k zs @ ys"
  by (simp add: overwrite_def)

lemma nth_buf_mut_slice_Ok:
  assumes "\<forall>b\<in>set bufs. BLOCK_SIZE dvd length b" "length block = BLOCK_SIZE" "Suc n * BLOCK_SIZE \<le> length (concat bufs)"
  shows "\<exists>bufs'. nth_buf_mut_slice bufs n block = Ok bufs' \<and> concat bufs' = overwrite (concat bufs) (n * BLOCK_SIZE) block \<and>
    map length bufs' = map length bufs"
  using assms(1,3)
proof (induction bufs arbitrary: n)
  case (Cons buf bufs)
  obtain k where k: "length buf = BLOCK_SIZE * k" using Cons.prems(1) by (auto elim: dvdE)
  then have nb: "buf_mut_nblocks buf = k" by (simp add: buf_mut_nblocks_def)
  show ?case
  proof (cases "k \<le> n")
    case True
    then obtain m where m: "n = k + m" using le_Suc_ex by blast
    obtain bufs' where b: "nth_buf_mut_slice bufs m block = Ok bufs'" "concat bufs' = overwrite (concat bufs) (m * BLOCK_SIZE) block"
      "map length bufs' = map length bufs"
      using Cons.IH [of m] Cons.prems k m by auto
    have "concat (buf # bufs') = overwrite (buf @ concat bufs) (n * BLOCK_SIZE) block"
      using b(2) overwrite_in_suffix [of buf "concat bufs" "m * BLOCK_SIZE" block] k m by (simp add: algebra_simps)
    then show ?thesis using b(1,3) nb m by simp
  next
    case False
    then have "Suc n * BLOCK_SIZE \<le> k * BLOCK_SIZE" by (intro mult_le_mono1) simp
    then have "n * BLOCK_SIZE + length block \<le> length buf" using assms(2) k by simp
    then show ?thesis using False nb assms(2) overwrite_in_prefix [of "n * BLOCK_SIZE" block buf "concat bufs"] by simp
  qed
qed simp

lemma copy_blocks_Ok:
  assumes "\<forall>b\<in>set (bv_bufs v). BLOCK_SIZE dvd length b" "i + k = bv_nblocks v" "length buf = bv_nblocks v * BLOCK_SIZE"
    "length (concat (bv_bufs v)) = bv_nblocks v * BLOCK_SIZE" "take (i * BLOCK_SIZE) (concat (bv_bufs v)) = take (i * BLOCK_SIZE) buf"
  shows "\<exists>v'. copy_blocks [i..<bv_nblocks v] buf v = Ok v' \<and> concat (bv_bufs v') = buf \<and> map length (bv_bufs v') = map length (bv_bufs v)"
  using assms
proof (induction k arbitrary: i v)
  case 0
  then show ?case by simp
next
  case (Suc k)
  have i: "i < bv_nblocks v" "Suc i * BLOCK_SIZE \<le> length buf" using Suc.prems(2,3) by simp_all
  let ?b = "slice (i * BLOCK_SIZE) (Suc i * BLOCK_SIZE) buf"
  have lb: "length ?b = BLOCK_SIZE" using i by simp
  obtain bufs' where b: "nth_buf_mut_slice (bv_bufs v) i ?b = Ok bufs'" "concat bufs' = overwrite (concat (bv_bufs v)) (i * BLOCK_SIZE) ?b"
    "map length bufs' = map length (bv_bufs v)"
    using nth_buf_mut_slice_Ok [OF Suc.prems(1) lb, of i] Suc.prems(3,4) i(2) by auto
  let ?v = "v\<lparr>bv_bufs := bufs'\<rparr>"
  have d: "\<forall>b\<in>set bufs'. BLOCK_SIZE dvd length b"
  proof
    fix x assume "x \<in> set bufs'"
    then have "length x \<in> set (map length (bv_bufs v))" unfolding b(3) [symmetric] by simp
    then show "BLOCK_SIZE dvd length x" using Suc.prems(1) by auto
  qed
  have t: "take (Suc i * BLOCK_SIZE) (concat bufs') = take (Suc i * BLOCK_SIZE) buf"
  proof -
    have "take (Suc i * BLOCK_SIZE) (concat bufs') = take (i * BLOCK_SIZE) (concat (bv_bufs v)) @ ?b"
      using b(2) lb i(2) Suc.prems(3,4) by (simp add: overwrite_def)
    also have "\<dots> = take (i * BLOCK_SIZE) buf @ ?b" using Suc.prems(5) by simp
    also have "\<dots> = take (Suc i * BLOCK_SIZE) buf" using take_add [of "i * BLOCK_SIZE" BLOCK_SIZE buf] by (simp add: slice_def add.commute)
    finally show ?thesis .
  qed
  have "length (concat bufs') = bv_nblocks v * BLOCK_SIZE" using b(2) lb i(2) Suc.prems(3,4) by simp
  from Suc.IH [of ?v "Suc i"] d t this Suc.prems(2,3)
  obtain v' where v': "copy_blocks [Suc i..<bv_nblocks v] buf ?v = Ok v'" "concat (bv_bufs v') = buf" "map length (bv_bufs v') = map length bufs'"
    by auto
  have "[i..<bv_nblocks v] = i # [Suc i..<bv_nblocks v]" using i(1) by (rule upt_conv_Cons)
  then show ?case using v' b(1,3) i by (simp add: buf_vec_set_nth_def)
qed

lemma sum_nblocks:
  assumes "\<forall>b\<in>set bufs. BLOCK_SIZE dvd length b"
  shows "sum_list (map buf_mut_nblocks bufs) * BLOCK_SIZE = length (concat bufs)"
  using assms by (induction bufs) (auto simp: buf_mut_nblocks_def distrib_right)

lemma buf_vec_Ok:
  assumes "bufs \<noteq> []" "\<forall>b\<in>set bufs. BLOCK_SIZE dvd length b" "length (concat bufs) < 2 ^ 64"
  shows "\<exists>n. buf_vec_from_bufs bufs = Ok \<lparr>bv_bufs = bufs, bv_nblocks = n\<rparr> \<and> n * BLOCK_SIZE = length (concat bufs)"
proof -
  let ?n = "sum_list (map buf_mut_nblocks bufs)"
  have n: "?n * BLOCK_SIZE = length (concat bufs)" by (rule sum_nblocks [OF assms(2)])
  then have "0 + ?n < 2 ^ 64" using assms(3) by linarith
  from foldl_saturating [OF this] show ?thesis using assms(1) n by (simp add: buf_vec_from_bufs_def)
qed

lemma pd_readv_Ok:
  assumes bufs: "bufs \<noteq> []" "\<forall>b\<in>set bufs. block_aligned b" "length (concat bufs) < 2 ^ 64"
    and d: "addr * BLOCK_SIZE + PFS_INNER_OFFSET < 2 ^ 64"
    and io: "with_file (sgx_seek (SeekStart (addr * BLOCK_SIZE + PFS_INNER_OFFSET))) d = (Ok p, d1)"
      "with_file (sgx_read E (length (concat bufs))) d1 = (Ok bs, d2)" "length bs = length (concat bufs)"
  shows "\<exists>bufs'. pd_readv E addr bufs d = (Ok bufs', d2) \<and> concat bufs' = bs \<and> map length bufs' = map length bufs"
proof -
  have dvd: "\<forall>b\<in>set bufs. BLOCK_SIZE dvd length b" using bufs(2) by (auto simp: block_aligned_def)
  obtain n where n: "buf_vec_from_bufs bufs = Ok \<lparr>bv_bufs = bufs, bv_nblocks = n\<rparr>" "n * BLOCK_SIZE = length (concat bufs)"
    using buf_vec_Ok [OF bufs(1) dvd bufs(3)] by blast
  have "concat bufs \<noteq> []" using bufs(1,2) by (cases bufs) (auto simp: block_aligned_def)
  then have "n \<noteq> 0" using n(2) by (intro notI) simp
  then obtain buf where buf: "buf_alloc (env_mem E) n = Ok buf" "length buf = n * BLOCK_SIZE" by simp
  have "\<exists>v'. copy_blocks [0..<n] bs \<lparr>bv_bufs = bufs, bv_nblocks = n\<rparr> = Ok v' \<and> concat (bv_bufs v') = bs \<and> map length (bv_bufs v') = map length bufs"
    using copy_blocks_Ok [of "\<lparr>bv_bufs = bufs, bv_nblocks = n\<rparr>" 0 n bs] dvd n(2) io(3) by simp
  then show ?thesis using n buf io d by (auto simp: pd_readv_def unwrapped_def overwrite_whole)
qed

end
