(* ===== verification/Pfs_Options.thy ===== *)
theory Pfs_Options
  imports Pfs_Disk
begin

text \<open>
  Opening and creating a \<open>PfsDisk\<close>: \<open>core/src/pfs_disk/open_options.rs\<close> and the constructors in
  \<open>core/src/pfs_disk/mod.rs\<close>.  They start from the content of the host disk and the state of the random
  number generator, and return them beside the result; a \<open>PfsDisk\<close> holds both in its file.
\<close>

section \<open>Options\<close>

record pfs_options =
  po_read :: bool
  po_write :: bool
  po_clear :: bool
  po_create :: bool
  po_create_new :: bool
  po_total_blocks :: "nat option"

definition pfs_options_new :: pfs_options where
  "pfs_options_new = \<lparr>po_read = False, po_write = False, po_clear = False, po_create = False,
     po_create_new = False, po_total_blocks = None\<rparr>"

definition pfs_options_read :: "bool \<Rightarrow> pfs_options \<Rightarrow> pfs_options" where
  "pfs_options_read read opts = opts\<lparr>po_read := read\<rparr>"

definition pfs_options_write :: "bool \<Rightarrow> pfs_options \<Rightarrow> pfs_options" where
  "pfs_options_write write opts = opts\<lparr>po_write := write\<rparr>"

definition pfs_options_create :: "bool \<Rightarrow> pfs_options \<Rightarrow> pfs_options" where
  "pfs_options_create create opts = opts\<lparr>po_create := create\<rparr>"

definition pfs_options_create_new :: "bool \<Rightarrow> pfs_options \<Rightarrow> pfs_options" where
  "pfs_options_create_new create_new opts = opts\<lparr>po_create_new := create_new\<rparr>"

definition pfs_options_clear :: "bool \<Rightarrow> pfs_options \<Rightarrow> pfs_options" where
  "pfs_options_clear clear opts = opts\<lparr>po_clear := clear\<rparr>"

definition pfs_options_total_blocks :: "nat \<Rightarrow> pfs_options \<Rightarrow> pfs_options" where
  "pfs_options_total_blocks total_blocks opts = opts\<lparr>po_total_blocks := Some total_blocks\<rparr>"

lemmas pfs_options_defs = pfs_options_new_def pfs_options_read_def pfs_options_write_def pfs_options_create_def
  pfs_options_create_new_def pfs_options_clear_def pfs_options_total_blocks_def

section \<open>Files\<close>

definition open_pfs_file ::
  "('s, 'd) env \<Rightarrow> bytes \<Rightarrow> 'd \<Rightarrow> 's \<times> nat \<Rightarrow> ('s, 'd) file_inner result \<times> 's \<times> nat"
where
  "open_pfs_file E path disk st =
     options_open_with_key E (options_update True (options_read True open_options_new)) disk path key_default st"

definition create_pfs_file ::
  "('s, 'd) env \<Rightarrow> bytes \<Rightarrow> 'd \<Rightarrow> key \<Rightarrow> 's \<times> nat \<Rightarrow> ('s, 'd) file_inner result \<times> 's \<times> nat"
where
  "create_pfs_file E path disk root_key st =
     options_create_with_key E (options_update True (options_write True open_options_new)) disk path root_key None st"

text \<open>The loop ends because every iteration writes at least one byte.\<close>

function write_zeros_loop :: "('s, 'd) env \<Rightarrow> nat \<Rightarrow> ('s, 'd) file_inner \<Rightarrow> unit result \<times> ('s, 'd) file_inner" where
  "write_zeros_loop E remain s =
     (if remain > 0
      then let buf_len = min remain BLOCK_SIZE in
           then_do (unwrapped (sgx_write E (zeros buf_len) s)) (\<lambda>_ s. write_zeros_loop E (remain - buf_len) s)
      else (Ok (), s))"
  by auto
termination by (relation "measure (\<lambda>(E, remain, s). remain)") auto

declare write_zeros_loop.simps [simp del]

definition pfs_write_zeros :: "('s, 'd) env \<Rightarrow> nat \<Rightarrow> nat \<Rightarrow> ('s, 'd) file_inner \<Rightarrow> unit result \<times> ('s, 'd) file_inner" where
  "pfs_write_zeros E beg fin s =
     (if \<not> beg \<le> fin then (Panic, s)
      else then_do (unwrapped (sgx_seek (SeekStart beg) s)) (\<lambda>_ s. write_zeros_loop E (fin - beg) s))"

section \<open>Disks\<close>

text \<open>The end of a constructor: the host disk and the generator are those of the file.\<close>

definition ending :: "'a result \<times> ('s, 'd) file_inner \<Rightarrow> 'a result \<times> 's \<times> nat" where
  "ending m = (fst m, fi_world (snd m), fi_rng (snd m))"

definition new_len :: "nat \<Rightarrow> nat result" where
  "new_len total_blocks =
     (let len = PFS_INNER_OFFSET + total_blocks * BLOCK_SIZE in if len < 2 ^ 64 then Ok len else Panic)"

definition create_pfs_disk ::
  "('s, 'd) env \<Rightarrow> pfs_options \<Rightarrow> bytes \<Rightarrow> 'd \<Rightarrow> key \<Rightarrow> 's \<times> nat \<Rightarrow> ('s, 'd) pfs_disk result \<times> 's \<times> nat"
where
  "create_pfs_disk E opts path disk root_key st =
     then_do (create_pfs_file E path disk root_key st) (\<lambda>file _. ending (
     then_do (and_then (unwrap (ok_or (po_total_blocks opts) (error_new Unexpected))) (\<lambda>total_blocks.
              and_then (new_len total_blocks) (\<lambda>len. Ok (total_blocks, len))), file) (\<lambda>(total_blocks, len) file.
     then_do (pfs_write_zeros E 0 len file) (\<lambda>_ file.
     (Ok \<lparr>pd_file = file, pd_path = path, pd_total_blocks = total_blocks, pd_can_read = po_read opts,
          pd_can_write = po_write opts\<rparr>, file)))))"

definition file_len_check :: "nat \<Rightarrow> unit result" where
  "file_len_check file_len =
     (if file_len < PFS_INNER_OFFSET + BLOCK_SIZE then Err (error_with_msg IoFailed ''file size is too small'')
      else if (file_len - PFS_INNER_OFFSET) mod BLOCK_SIZE \<noteq> 0 then Err (error_with_msg IoFailed ''file size is not aligned'')
      else Ok ())"

text \<open>\<open>resize\<close> determines the number of blocks.  The file exists here: without it \<open>open\<close> has returned.\<close>

definition resize :: "('s, 'd) env \<Rightarrow> pfs_options \<Rightarrow> nat \<Rightarrow> ('s, 'd) file_inner \<Rightarrow> nat result \<times> ('s, 'd) file_inner" where
  "resize E opts old_len file = (case po_total_blocks opts of
     Some total_blocks \<Rightarrow>
       then_do (new_len total_blocks, file) (\<lambda>len file.
       if old_len > len then (Err (error_with_msg IoFailed ''cannot shrink an existed disk''), file)
       else then_do (pfs_write_zeros E old_len len file) (\<lambda>_ file. (Ok total_blocks, file)))
   | None \<Rightarrow> (Ok ((old_len - PFS_INNER_OFFSET) div BLOCK_SIZE), file))"

definition open_pfs_disk ::
  "('s, 'd) env \<Rightarrow> pfs_options \<Rightarrow> bytes \<Rightarrow> 'd \<Rightarrow> key \<Rightarrow> 's \<times> nat \<Rightarrow> ('s, 'd) pfs_disk result \<times> 's \<times> nat"
where
  "open_pfs_disk E opts path disk root_key st =
     (if \<not> po_read opts \<and> \<not> po_write opts
      then (Err (error_with_msg IoFailed ''the disk must be readable or writable''), st)
      else if po_create opts \<or> po_create_new opts
      then (if po_total_blocks opts = None then (Err (error_with_msg IoFailed ''the disk size must be given''), st)
            else create_pfs_disk E opts path disk root_key st)
      else (case open_pfs_file E path disk st of
        (Ok file, _) \<Rightarrow> ending (
          then_do (unwrapped (sgx_seek (SeekEnd 0) file)) (\<lambda>old_len file.
          then_do (file_len_check old_len, file) (\<lambda>_ file.
          then_do (resize E opts old_len file) (\<lambda>total_blocks file.
          then_do (if po_clear opts then pfs_write_zeros E 0 old_len file else (Ok (), file)) (\<lambda>_ file.
          (Ok \<lparr>pd_file = file, pd_path = path, pd_total_blocks = total_blocks, pd_can_read = po_read opts,
               pd_can_write = po_write opts\<rparr>, file))))))
      | (Err e, st) \<Rightarrow> (Err (if err_errno e = NotFound then error_with_msg IoFailed ''file not found'' else e), st)
      | (Panic, st) \<Rightarrow> (Panic, st)
      | (Hang, st) \<Rightarrow> (Hang, st)))"

definition default_path :: "bytes option \<Rightarrow> bytes" where
  "default_path path = (case path of Some p \<Rightarrow> p | None \<Rightarrow> ascii ''pfsdisk'')"

definition pd_open ::
  "('s, 'd) env \<Rightarrow> 'd \<Rightarrow> key \<Rightarrow> bytes option \<Rightarrow> 's \<times> nat \<Rightarrow> ('s, 'd) pfs_disk result \<times> 's \<times> nat"
where
  "pd_open E disk root_key path st =
     open_pfs_disk E (pfs_options_write True (pfs_options_read True pfs_options_new)) (default_path path) disk root_key st"

definition pd_create ::
  "('s, 'd) env \<Rightarrow> 'd \<Rightarrow> key \<Rightarrow> bytes option \<Rightarrow> 's \<times> nat \<Rightarrow> ('s, 'd) pfs_disk result \<times> 's \<times> nat"
where
  "pd_create E disk root_key path st =
     open_pfs_disk E (pfs_options_total_blocks (total_data_blocks (bs_nblocks (env_bs E) disk))
       (pfs_options_create True (pfs_options_write True (pfs_options_read True pfs_options_new))))
       (default_path path) disk root_key st"

end
