(* ===== verification/Dm_Bio.thy ===== *)
theory Dm_Bio
  imports Block_Set "HOL-Library.Word"
begin

text \<open>
  The block layer of the device mapper target: \<open>linux/dm-sworndisk/src/bio.rs\<close>, \<open>block_device.rs\<close> and \<open>RawDisk\<close> of
  \<open>lib.rs\<close>.

  The kernel is a parameter: whether a \<open>bio\<close> can be allocated, what a synchronous read or write does, and the devices that
  exist.  A \<open>bio\<close> holds the memory its vectors describe.  A read of a \<open>RawDisk\<close> fills the buffer of the caller; the
  32-bit size of a \<open>bio\<close> is kept, so a transfer of 4 GiB or more is cut.
\<close>

abbreviation SECTOR_SIZE :: nat where "SECTOR_SIZE \<equiv> 512"

abbreviation BLOCK_SECTORS :: nat where "BLOCK_SECTORS \<equiv> 8"

section \<open>Requests of the kernel\<close>

datatype bio_op = OpRead | OpWrite | OpFlush | OpDiscard | OpUndefined

definition bio_op_from :: "8 word \<Rightarrow> bio_op" where
  "bio_op_from value =
     (if value = 0 then OpRead else if value = 1 then OpWrite else if value = 2 then OpFlush
      else if value = 3 then OpDiscard else OpUndefined)"

record kernel_bio =
  kb_opf :: "32 word"
  kb_sector :: nat
  kb_size :: nat
  kb_idx :: nat
  kb_vecs :: "bytes list"
  kb_ended :: bool

definition bio_get_op :: "kernel_bio \<Rightarrow> bio_op" where
  "bio_get_op bio = bio_op_from (ucast (kb_opf bio))"

definition bio_end :: "kernel_bio \<Rightarrow> kernel_bio" where
  "bio_end bio = bio\<lparr>kb_ended := True\<rparr>"

text \<open>
  The iterator over the vectors.  A \<open>BioVec\<close> is the first \<open>bv_len\<close> bytes of the memory of vector \<open>bv_idx\<close>.  Going
  behind the last vector leaves the array.
\<close>

record bio_vec =
  bv_idx :: nat
  bv_len :: nat

record bio_vec_iter =
  bvi_size :: nat
  bvi_idx :: nat
  bvi_vec :: "bytes list"

definition bio_iter :: "kernel_bio \<Rightarrow> bio_vec_iter" where
  "bio_iter bio = \<lparr>bvi_size = kb_size bio, bvi_idx = kb_idx bio, bvi_vec = kb_vecs bio\<rparr>"

definition has_next :: "bio_vec_iter \<Rightarrow> bool" where
  "has_next it \<longleftrightarrow> bvi_size it > 0"

definition current_bio_vec :: "bio_vec_iter \<Rightarrow> bio_vec result" where
  "current_bio_vec it =
     (if bvi_idx it < length (bvi_vec it)
      then Ok \<lparr>bv_idx = bvi_idx it, bv_len = min (bvi_size it) (length (bvi_vec it ! bvi_idx it))\<rparr>
      else Panic)"

definition advance_by :: "bio_vec \<Rightarrow> bio_vec_iter \<Rightarrow> bio_vec_iter" where
  "advance_by vec it = it\<lparr>bvi_size := bvi_size it - bv_len vec, bvi_idx := Suc (bvi_idx it)\<rparr>"

definition bio_vec_next :: "bio_vec_iter \<Rightarrow> bio_vec option result \<times> bio_vec_iter" where
  "bio_vec_next it =
     (if \<not> has_next it then (Ok None, it)
      else then_do (current_bio_vec it, it) (\<lambda>bio_vec it. (Ok (Some bio_vec), advance_by bio_vec it)))"

text \<open>A loop over the iterator; there are at most as many vectors as the array has.\<close>

primrec bio_vecs_loop :: "nat \<Rightarrow> bio_vec_iter \<Rightarrow> bio_vec list result" where
  "bio_vecs_loop 0 it = (if has_next it then Panic else Ok [])"
| "bio_vecs_loop (Suc n) it = (case bio_vec_next it of
     (Ok None, it) \<Rightarrow> Ok []
   | (Ok (Some v), it) \<Rightarrow> and_then (bio_vecs_loop n it) (\<lambda>vs. Ok (v # vs))
   | (Err e, it) \<Rightarrow> Err e | (Panic, it) \<Rightarrow> Panic | (Hang, it) \<Rightarrow> Hang)"

definition bio_vecs :: "kernel_bio \<Rightarrow> bio_vec list result" where
  "bio_vecs bio = bio_vecs_loop (length (kb_vecs bio) - kb_idx bio) (bio_iter bio)"

definition bio_vec_deref :: "kernel_bio \<Rightarrow> bio_vec \<Rightarrow> bytes" where
  "bio_vec_deref bio v = take (bv_len v) (kb_vecs bio ! bv_idx v)"

definition bio_vec_store :: "bio_vec \<Rightarrow> bytes \<Rightarrow> kernel_bio \<Rightarrow> kernel_bio" where
  "bio_vec_store v bs bio = bio\<lparr>kb_vecs := (kb_vecs bio)[bv_idx v := overwrite (kb_vecs bio ! bv_idx v) 0 bs]\<rparr>"

section \<open>The kernel and its devices\<close>

text \<open>
  \<open>kn_read w sector size\<close> and \<open>kn_write w sector bytes\<close> are \<open>submit_bio_wait\<close> for the two operations, \<open>kn_open\<close> looks a
  device up and gives its first sector and its number of sectors, \<open>kn_hex2bin\<close> is the conversion of the kernel library.
\<close>

record 's kernel =
  kn_bio_alloc :: "'s \<Rightarrow> bool"
  kn_read :: "'s \<Rightarrow> nat \<Rightarrow> nat \<Rightarrow> bytes option"
  kn_write :: "'s \<Rightarrow> nat \<Rightarrow> bytes \<Rightarrow> bool \<times> 's"
  kn_open :: "bytes \<Rightarrow> (nat \<times> nat) option"
  kn_hex2bin :: "bytes \<Rightarrow> nat \<Rightarrow> bytes option"

datatype kernel_error = EINVAL | ENOMEM | ENODEV

definition bio_alloc ::
  "'s kernel \<Rightarrow> 's \<Rightarrow> 32 word \<Rightarrow> nat \<Rightarrow> nat \<Rightarrow> bytes list \<Rightarrow> (kernel_error, kernel_bio) outcome"
where
  "bio_alloc K w op start end io_buffer =
     (if sum_list (map length io_buffer) \<noteq> (end - start) * BLOCK_SIZE then Err EINVAL
      else if \<not> kn_bio_alloc K w then Err ENOMEM
      else Ok \<lparr>kb_opf = op, kb_sector = start * BLOCK_SECTORS, kb_size = (end - start) * BLOCK_SIZE mod 2 ^ 32, kb_idx = 0,
        kb_vecs = io_buffer, kb_ended = False\<rparr>)"

record host_block_device =
  hd_start_sect :: nat
  hd_nr_sectors :: nat

definition host_open :: "'s kernel \<Rightarrow> bytes \<Rightarrow> (kernel_error, host_block_device) outcome" where
  "host_open K path = (case kn_open K path of
     None \<Rightarrow> Err ENODEV | Some (start, nr) \<Rightarrow> Ok \<lparr>hd_start_sect = start, hd_nr_sectors = nr\<rparr>)"

definition host_region :: "host_block_device \<Rightarrow> nat \<times> nat" where
  "host_region dev =
     ((hd_start_sect dev + BLOCK_SECTORS - 1) div BLOCK_SECTORS, (hd_start_sect dev + hd_nr_sectors dev) div BLOCK_SECTORS)"

section \<open>RawDisk\<close>

record raw_disk =
  rd_start :: block_id
  rd_end :: block_id

definition raw_disk_open :: "'s kernel \<Rightarrow> bytes \<Rightarrow> (kernel_error, raw_disk) outcome" where
  "raw_disk_open K path = and_then (host_open K path) (\<lambda>dev.
     case host_region dev of (start, end) \<Rightarrow> Ok \<lparr>rd_start = start, rd_end = end\<rparr>)"

definition raw_disk_read :: "'s kernel \<Rightarrow> 's \<Rightarrow> raw_disk \<Rightarrow> block_id \<Rightarrow> bytes \<Rightarrow> bytes result" where
  "raw_disk_read K w d pos buf =
     (if pos + buf_mut_nblocks buf > rd_end d then Err (error_with_msg InvalidArgs ''read position is out of range'')
      else case bio_alloc K w 0 (rd_start d + pos) (rd_start d + pos + buf_mut_nblocks buf) [buf] of
        Ok bio \<Rightarrow> (case kn_read K w (kb_sector bio) (kb_size bio) of
          Some bs \<Rightarrow> Ok (overwrite buf 0 bs) | None \<Rightarrow> Err (error_with_msg IoFailed ''read raw disk failed''))
      | Err _ \<Rightarrow> Err (error_with_msg OutOfMemory ''alloc read bio failed'')
      | Panic \<Rightarrow> Panic | Hang \<Rightarrow> Hang)"

definition raw_disk_write :: "'s kernel \<Rightarrow> 's \<Rightarrow> raw_disk \<Rightarrow> block_id \<Rightarrow> bytes \<Rightarrow> unit result \<times> 's" where
  "raw_disk_write K w d pos buf =
     (if pos + buf_ref_nblocks buf > rd_end d then (Err (error_with_msg InvalidArgs ''write position is out of range''), w)
      else case bio_alloc K w 1 (rd_start d + pos) (rd_start d + pos + buf_ref_nblocks buf) [buf] of
        Ok bio \<Rightarrow> (case kn_write K w (kb_sector bio) (take (kb_size bio) buf) of
          (True, w) \<Rightarrow> (Ok (), w) | (False, w) \<Rightarrow> (Err (error_with_msg IoFailed ''write raw disk failed''), w))
      | Err _ \<Rightarrow> (Err (error_with_msg OutOfMemory ''alloc write bio failed''), w)
      | Panic \<Rightarrow> (Panic, w) | Hang \<Rightarrow> (Hang, w))"

definition rawdisk_flush :: "'s \<Rightarrow> raw_disk \<Rightarrow> unit result \<times> 's" where
  "rawdisk_flush w d = (Ok (), w)"

definition raw_disk_subset :: "raw_disk \<Rightarrow> block_id \<Rightarrow> block_id \<Rightarrow> raw_disk result" where
  "raw_disk_subset d a b =
     (if rd_start d + b > rd_end d then Err (error_with_msg InvalidArgs ''subset is out of range'')
      else Ok \<lparr>rd_start = rd_start d + a, rd_end = rd_start d + b\<rparr>)"

definition raw_disk_nblocks :: "raw_disk \<Rightarrow> nat" where
  "raw_disk_nblocks d = rd_end d - rd_start d"

definition raw_disk_ops :: "'s kernel \<Rightarrow> ('s, raw_disk) bs_ops" where
  "raw_disk_ops K = \<lparr>bs_read = \<lambda>w d pos n. raw_disk_read K w d pos (zeros (n * BLOCK_SIZE)), bs_write = raw_disk_write K,
     bs_subset = raw_disk_subset, bs_flush = rawdisk_flush, bs_nblocks = raw_disk_nblocks\<rparr>"

lemma raw_disk_ops_simps [simp]:
  "bs_read (raw_disk_ops K) w d pos n = raw_disk_read K w d pos (zeros (n * BLOCK_SIZE))" "bs_write (raw_disk_ops K) = raw_disk_write K"
  "bs_subset (raw_disk_ops K) = raw_disk_subset" "bs_flush (raw_disk_ops K) = rawdisk_flush" "bs_nblocks (raw_disk_ops K) = raw_disk_nblocks"
  by (simp_all add: raw_disk_ops_def)

section \<open>A working device\<close>

text \<open>
  What the block layer promises: a \<open>bio\<close> allocated with direct reclaim is never refused, and a device whose content is
  \<open>dev w\<close> transfers the bytes of the sectors it has.
\<close>

definition device_works :: "'s kernel \<Rightarrow> ('s \<Rightarrow> bytes) \<Rightarrow> bool" where
  "device_works K dev \<longleftrightarrow> (\<forall>w. kn_bio_alloc K w) \<and>
     (\<forall>w s n. s * SECTOR_SIZE + n \<le> length (dev w) \<longrightarrow>
        kn_read K w s n = Some (slice (s * SECTOR_SIZE) (s * SECTOR_SIZE + n) (dev w))) \<and>
     (\<forall>w s bs. s * SECTOR_SIZE + length bs \<le> length (dev w) \<longrightarrow>
        (\<exists>w'. kn_write K w s bs = (True, w') \<and> dev w' = overwrite (dev w) (s * SECTOR_SIZE) bs))"

text \<open>A kernel with one device, kept in memory.\<close>

definition flat_kernel :: "nat \<Rightarrow> bytes kernel" where
  "flat_kernel nr_sectors = \<lparr>kn_bio_alloc = \<lambda>_. True,
     kn_read = \<lambda>w s n. Some (slice (s * SECTOR_SIZE) (s * SECTOR_SIZE + n) w),
     kn_write = \<lambda>w s bs. (True, overwrite w (s * SECTOR_SIZE) bs),
     kn_open = \<lambda>_. Some (0, nr_sectors), kn_hex2bin = \<lambda>_ n. Some (zeros n)\<rparr>"

lemma flat_kernel_works: "device_works (flat_kernel nr) (\<lambda>w. w)"
  by (simp add: device_works_def flat_kernel_def)

definition as_mem :: "raw_disk \<Rightarrow> mem_disk" where
  "as_mem d = \<lparr>region_start = rd_start d, region_end = rd_end d\<rparr>"

definition raw_valid :: "('s \<Rightarrow> bytes) \<Rightarrow> 's \<Rightarrow> raw_disk \<Rightarrow> bool" where
  "raw_valid dev w d \<longleftrightarrow> mem_disk_valid (dev w) (as_mem d) \<and> rd_end d * BLOCK_SIZE < 2 ^ 32"

definition raw_blk :: "('s \<Rightarrow> bytes) \<Rightarrow> 's \<Rightarrow> raw_disk \<Rightarrow> block_id \<Rightarrow> bytes" where
  "raw_blk dev w d = mem_disk_blk (dev w) (as_mem d)"

definition raw_sep :: "raw_disk \<Rightarrow> raw_disk \<Rightarrow> bool" where
  "raw_sep d d' \<longleftrightarrow> mem_disk_sep (as_mem d) (as_mem d')"

lemma raw_disk_io:
  assumes K: "device_works K dev" and v: "raw_valid dev w d" and n: "pos + n \<le> raw_disk_nblocks d"
  shows "raw_disk_read K w d pos (zeros (n * BLOCK_SIZE)) = mem_disk_read (dev w) (as_mem d) pos n"
    "length buf = n * BLOCK_SIZE \<Longrightarrow> \<exists>w'. raw_disk_write K w d pos buf = (Ok (), w') \<and>
       mem_disk_write (dev w) (as_mem d) pos buf = (Ok (), dev w')"
proof -
  have "n \<le> rd_end d" "rd_end d * BLOCK_SIZE < 2 ^ 32" using n v by (simp_all add: raw_disk_nblocks_def raw_valid_def)
  then have m: "n * BLOCK_SIZE mod 2 ^ 32 = n * BLOCK_SIZE"
    by (intro mod_less) (meson le_less_trans mult_le_mono1)
  have e: "pos + n \<le> rd_end d" "(rd_start d + pos + n) * BLOCK_SIZE \<le> rd_end d * BLOCK_SIZE" "rd_end d * BLOCK_SIZE \<le> length (dev w)"
    using n v by (auto simp: raw_disk_nblocks_def raw_valid_def mem_disk_valid_def as_mem_def intro: mult_le_mono1)
  have al: "bio_alloc K w op (rd_start d + pos) (rd_start d + pos + n) [b] =
      Ok \<lparr>kb_opf = op, kb_sector = (rd_start d + pos) * BLOCK_SECTORS, kb_size = n * BLOCK_SIZE, kb_idx = 0, kb_vecs = [b], kb_ended = False\<rparr>"
    if "length b = n * BLOCK_SIZE" for b op
    using that m K by (simp add: bio_alloc_def device_works_def)
  have s: "(rd_start d + pos) * BLOCK_SECTORS * SECTOR_SIZE = (rd_start d + pos) * BLOCK_SIZE" by simp
  have l: "(rd_start d + pos) * BLOCK_SECTORS * SECTOR_SIZE + n * BLOCK_SIZE \<le> length (dev w)" using e by (simp add: algebra_simps)
  have "kn_read K w ((rd_start d + pos) * BLOCK_SECTORS) (n * BLOCK_SIZE) =
      Some (slice ((rd_start d + pos) * BLOCK_SIZE) ((rd_start d + pos) * BLOCK_SIZE + n * BLOCK_SIZE) (dev w))"
    using K l s unfolding device_works_def by metis
  then show "raw_disk_read K w d pos (zeros (n * BLOCK_SIZE)) = mem_disk_read (dev w) (as_mem d) pos n"
    using al [of "zeros (n * BLOCK_SIZE)"] e l
    by (simp add: raw_disk_read_def mem_disk_read_def buf_mut_nblocks_def as_mem_def overwrite_def Let_def)
  assume b: "length buf = n * BLOCK_SIZE"
  then obtain w' where "kn_write K w ((rd_start d + pos) * BLOCK_SECTORS) buf = (True, w')" "dev w' = overwrite (dev w) ((rd_start d + pos) * BLOCK_SIZE) buf"
    using K l s unfolding device_works_def by metis
  then show "\<exists>w'. raw_disk_write K w d pos buf = (Ok (), w') \<and> mem_disk_write (dev w) (as_mem d) pos buf = (Ok (), dev w')"
    using al [OF b] e l b by (simp add: raw_disk_write_def mem_disk_write_def buf_ref_nblocks_def as_mem_def Let_def)
qed

text \<open>On a working device \<open>RawDisk\<close> keeps the contract of a block set.\<close>

lemma raw_disk_block_set:
  assumes K: "device_works K dev"
  shows "block_set (raw_disk_ops K) (raw_valid dev) (raw_blk dev) raw_sep"
proof (unfold_locales, goal_cases)
  case (1 w d i)
  then show ?case using md.blk_length [of "dev w" "as_mem d" i]
    by (simp add: raw_valid_def raw_blk_def as_mem_def raw_disk_nblocks_def mem_disk_nblocks_def)
next
  case (2 w d pos n)
  then show ?case using raw_disk_io(1) [OF K, of w d pos n] md.read_blocks [of "dev w" "as_mem d" pos n]
    by (simp add: raw_valid_def raw_blk_def as_mem_def raw_disk_nblocks_def mem_disk_nblocks_def)
next
  case (3 w d buf n pos)
  obtain w' where w': "raw_disk_write K w d pos buf = (Ok (), w')" "mem_disk_write (dev w) (as_mem d) pos buf = (Ok (), dev w')"
    using raw_disk_io(2) [OF K, of w d pos n buf] 3 by auto
  have "mem_disk_valid (dev w) (as_mem d)" "pos + n \<le> bs_nblocks mem_disk_ops (as_mem d)"
    using 3 by (simp_all add: raw_valid_def as_mem_def raw_disk_nblocks_def mem_disk_nblocks_def)
  note m = md.write_blocks [OF this(1) 3(2) this(2)]
  show ?case using m w' by (auto simp: raw_valid_def raw_blk_def raw_sep_def as_mem_def raw_disk_nblocks_def mem_disk_nblocks_def)
next
  case (4 w d)
  then show ?case by (auto simp: rawdisk_flush_def)
next
  case (5 w d a b)
  then show ?case using md.subset_blocks [of "dev w" "as_mem d" a b]
    by (auto simp: raw_disk_subset_def mem_disk_subset_def raw_valid_def raw_blk_def as_mem_def raw_disk_nblocks_def mem_disk_nblocks_def split: if_splits)
next
  case (6 w d a b d1 c d2)
  then show ?case by (auto simp: raw_disk_subset_def raw_sep_def as_mem_def mem_disk_sep_def split: if_splits)
qed

end
