(* ===== verification/Dm_Target.thy ===== *)
theory Dm_Target
  imports Pfs_Options Dm_Bio
begin

text \<open>
  The device mapper target: \<open>ReqQueue::process\<close> and its helpers, and the constructor and destructor of \<open>DmSwornDisk\<close> in
  \<open>linux/dm-sworndisk/src/lib.rs\<close>, with \<open>Target::set_region\<close> of \<open>device_mapper.rs\<close>.  The queue and its worker
  thread are in \<^verbatim>\<open>Dm_Queue\<close>.

  Requests that fail are logged and ended like those that succeed, so an error of the disk leaves no trace in the
  result of a request.
\<close>

section \<open>Requests\<close>

definition start_bytes :: "kernel_bio \<Rightarrow> nat" where
  "start_bytes bio = kb_sector bio * (BLOCK_SIZE div BLOCK_SECTORS)"

definition bio_start_block :: "kernel_bio \<Rightarrow> nat" where
  "bio_start_block bio = start_bytes bio div BLOCK_SIZE"

definition bio_cover :: "kernel_bio \<Rightarrow> nat" where
  "bio_cover bio = (start_bytes bio + kb_size bio + BLOCK_SIZE - 1) div BLOCK_SIZE - bio_start_block bio"

text \<open>\<open>Buf::alloc\<close> with \<open>expect\<close>, and a read into the buffer whose error is only logged.\<close>

definition read_cover :: "('s, 'd) env \<Rightarrow> kernel_bio \<Rightarrow> ('s, 'd) pfs_disk \<Rightarrow> bytes result \<times> ('s, 'd) pfs_disk" where
  "read_cover E bio d =
     then_do (unwrap (buf_alloc (env_mem E) (bio_cover bio)), d) (\<lambda>buf d.
     case pd_read E (bio_start_block bio) buf d of
       (Err e, d) \<Rightarrow> (Ok buf, d) | (r, d) \<Rightarrow> (r, d))"

primrec copy_to_vecs :: "bio_vec list \<Rightarrow> nat \<Rightarrow> bytes \<Rightarrow> kernel_bio \<Rightarrow> kernel_bio result" where
  "copy_to_vecs [] offset buf bio = Ok bio"
| "copy_to_vecs (v # vs) offset buf bio =
     and_then (get_slice offset (offset + bv_len v) buf) (\<lambda>bs.
     copy_to_vecs vs (offset + bv_len v) buf (bio_vec_store v bs bio))"

definition read_unaligned ::
  "('s, 'd) env \<Rightarrow> kernel_bio \<Rightarrow> ('s, 'd) pfs_disk \<Rightarrow> kernel_bio result \<times> ('s, 'd) pfs_disk"
where
  "read_unaligned E bio d =
     then_do (read_cover E bio d) (\<lambda>buf d.
     then_do (bio_vecs bio, d) (\<lambda>vs d. (copy_to_vecs vs (start_bytes bio mod BLOCK_SIZE) buf bio, d)))"

primrec copy_from_vecs :: "bio_vec list \<Rightarrow> nat \<Rightarrow> kernel_bio \<Rightarrow> bytes \<Rightarrow> bytes result" where
  "copy_from_vecs [] offset bio buf = Ok buf"
| "copy_from_vecs (v # vs) offset bio buf =
     and_then (put_slice buf offset (bio_vec_deref bio v)) (copy_from_vecs vs (offset + bv_len v) bio)"

definition logged :: "'a result \<times> 's \<Rightarrow> unit result \<times> 's" where
  "logged m = (case m of (Ok _, s) \<Rightarrow> (Ok (), s) | (Err _, s) \<Rightarrow> (Ok (), s) | (Panic, s) \<Rightarrow> (Panic, s) | (Hang, s) \<Rightarrow> (Hang, s))"

definition write_unaligned ::
  "('s, 'd) env \<Rightarrow> kernel_bio \<Rightarrow> ('s, 'd) pfs_disk \<Rightarrow> kernel_bio result \<times> ('s, 'd) pfs_disk"
where
  "write_unaligned E bio d =
     then_do (read_cover E bio d) (\<lambda>buf d.
     then_do (bio_vecs bio, d) (\<lambda>vs d.
     then_do (copy_from_vecs vs (start_bytes bio mod BLOCK_SIZE) bio buf, d) (\<lambda>buf d.
     then_do (logged (pd_write E (bio_start_block bio) buf d)) (\<lambda>_ d. (Ok bio, d)))))"

text \<open>Aligned requests: a vectored read, and a write per vector.\<close>

primrec store_vecs :: "bio_vec list \<Rightarrow> bytes list \<Rightarrow> kernel_bio \<Rightarrow> kernel_bio" where
  "store_vecs [] bufs bio = bio"
| "store_vecs (v # vs) bufs bio = store_vecs vs (tl bufs) (bio_vec_store v (hd bufs) bio)"

definition read_aligned ::
  "('s, 'd) env \<Rightarrow> kernel_bio \<Rightarrow> ('s, 'd) pfs_disk \<Rightarrow> kernel_bio result \<times> ('s, 'd) pfs_disk"
where
  "read_aligned E bio d =
     then_do (bio_vecs bio, d) (\<lambda>vs d.
     then_do (unwrap_all (map (\<lambda>v. buf_mut_try_from (bio_vec_deref bio v)) vs), d) (\<lambda>bufs d.
     case pd_readv E (kb_sector bio div BLOCK_SECTORS) bufs d of
       (Ok bufs, d) \<Rightarrow> (Ok (store_vecs vs bufs bio), d)
     | (Err e, d) \<Rightarrow> (Ok bio, d) | (Panic, d) \<Rightarrow> (Panic, d) | (Hang, d) \<Rightarrow> (Hang, d)))"

primrec write_vecs ::
  "('s, 'd) env \<Rightarrow> bio_vec list \<Rightarrow> nat \<Rightarrow> kernel_bio \<Rightarrow> ('s, 'd) pfs_disk \<Rightarrow> unit result \<times> ('s, 'd) pfs_disk"
where
  "write_vecs E [] pos bio d = (Ok (), d)"
| "write_vecs E (v # vs) pos bio d =
     then_do (unwrap (buf_ref_try_from (bio_vec_deref bio v)), d) (\<lambda>buf d.
     then_do (logged (pd_write E pos buf d)) (\<lambda>_ d. write_vecs E vs (pos + buf_ref_nblocks buf) bio d))"

definition write_aligned ::
  "('s, 'd) env \<Rightarrow> kernel_bio \<Rightarrow> ('s, 'd) pfs_disk \<Rightarrow> kernel_bio result \<times> ('s, 'd) pfs_disk"
where
  "write_aligned E bio d =
     then_do (bio_vecs bio, d) (\<lambda>vs d.
     then_do (write_vecs E vs (kb_sector bio div BLOCK_SECTORS) bio d) (\<lambda>_ d. (Ok bio, d)))"

definition bio_unaligned :: "kernel_bio \<Rightarrow> bool" where
  "bio_unaligned bio \<longleftrightarrow> kb_sector bio mod BLOCK_SECTORS \<noteq> 0 \<or> kb_size bio mod BLOCK_SIZE \<noteq> 0"

definition dm_process ::
  "('s, 'd) env \<Rightarrow> kernel_bio \<Rightarrow> ('s, 'd) pfs_disk \<Rightarrow> kernel_bio result \<times> ('s, 'd) pfs_disk"
where
  "dm_process E bio d =
     then_do
       (case bio_get_op bio of
          OpRead \<Rightarrow> if bio_unaligned bio then read_unaligned E bio d else read_aligned E bio d
        | OpWrite \<Rightarrow> if bio_unaligned bio then write_unaligned E bio d else write_aligned E bio d
        | _ \<Rightarrow> (Panic, d)) (\<lambda>bio d. (Ok (bio_end bio), d))"

text \<open>Requests in the order of the queue.\<close>

primrec dm_process_all ::
  "('s, 'd) env \<Rightarrow> kernel_bio list \<Rightarrow> ('s, 'd) pfs_disk \<Rightarrow> kernel_bio list result \<times> ('s, 'd) pfs_disk"
where
  "dm_process_all E [] d = (Ok [], d)"
| "dm_process_all E (bio # bios) d =
     then_do (dm_process E bio d) (\<lambda>bio d. then_do (dm_process_all E bios d) (\<lambda>bios d. (Ok (bio # bios), d)))"

section \<open>The target\<close>

record dm_target =
  dt_begin :: nat
  dt_len :: nat

definition target_set_region :: "nat \<Rightarrow> nat \<Rightarrow> dm_target" where
  "target_set_region start end = \<lparr>dt_begin = start * BLOCK_SECTORS, dt_len = (end - start) * BLOCK_SECTORS\<rparr>"

definition target_region :: "dm_target \<Rightarrow> nat \<times> nat" where
  "target_region t =
     ((dt_begin t + BLOCK_SECTORS - 1) div BLOCK_SECTORS, (dt_begin t + dt_len t) div BLOCK_SECTORS)"

text \<open>
  \<open>ctr\<close>, up to starting the worker, returns the disk of the queue and the region of the target.  The message that \<open>set_error\<close>
  leaves in the target is part of the error.
\<close>

definition dm_ctr ::
  "'s kernel \<Rightarrow> ('s, raw_disk) env \<Rightarrow> bytes list \<Rightarrow> 's \<times> nat \<Rightarrow>
   (string \<times> kernel_error, ('s, raw_disk) pfs_disk \<times> dm_target) outcome \<times> 's \<times> nat"
where
  "dm_ctr K E args st =
     (if length args \<noteq> 3 then (Err (''Invalid argument count'', EINVAL), st)
      else if args ! 0 \<noteq> ascii ''create'' \<and> args ! 0 \<noteq> ascii ''open'' then (Err (''Unsupported operation'', EINVAL), st)
      else case raw_disk_open K (args ! 1) of
        Ok disk \<Rightarrow>
          (case kn_hex2bin K (args ! 2) (length key_default) of
             None \<Rightarrow> (Err (''Invalid root key'', EINVAL), st)
           | Some root_key \<Rightarrow>
               (case (if args ! 0 = ascii ''create'' then pd_create E disk root_key None st else pd_open E disk root_key None st) of
                  (Ok d, st) \<Rightarrow> (Ok (d, target_set_region 0 (pd_total_blocks d)), st)
                | (Err e, st) \<Rightarrow>
                    (Err (if args ! 0 = ascii ''create'' then ''Create sworndisk failed'' else ''Open sworndisk failed'', ENODEV), st)
                | (Panic, st) \<Rightarrow> (Panic, st) | (Hang, st) \<Rightarrow> (Hang, st)))
      | Err e \<Rightarrow> (Err (''Device lookup failed'', ENODEV), st)
      | Panic \<Rightarrow> (Panic, st) | Hang \<Rightarrow> (Hang, st))"

text \<open>\<open>dtr\<close> behind the end of the worker: sync the disk, then drop the target and with it the disk.\<close>

definition dm_dtr :: "('s, 'd) env \<Rightarrow> ('s, 'd) pfs_disk \<Rightarrow> unit result \<times> ('s, 'd) pfs_disk" where
  "dm_dtr E d = then_do (unwrapped (pd_sync E d)) (\<lambda>_ d. pd_drop E d)"

section \<open>Vectors that split a block\<close>

lemma unwrap_all_panics: "r \<in> set rs \<Longrightarrow> r = Err e \<Longrightarrow> \<forall>r\<in>set rs. (\<exists>x. r = Ok x) \<or> (\<exists>e. r = Err e) \<Longrightarrow> unwrap_all rs = Panic"
  by (induction rs) (auto simp: outcome_simps)

lemma try_from_total: "(\<exists>x. buf_mut_try_from buf = Ok x) \<or> (\<exists>e. buf_mut_try_from buf = Err e)"
  by (simp add: buf_mut_try_from_def)

text \<open>C33: A read whose start and length are whole blocks, but one of whose vectors is not, kills the worker thread: the check
  for alignment looks only at the start and the length of the request, and the conversion of the vector is unwrapped.
  Nothing is read, and the request is never ended.
\<close>

theorem split_vector_panics:
  assumes "bio_get_op bio = OpRead" "\<not> bio_unaligned bio" "bio_vecs bio = Ok vs"
    and "v \<in> set vs" "length (bio_vec_deref bio v) mod BLOCK_SIZE \<noteq> 0"
  shows "dm_process E bio d = (Panic, d)"
proof -
  let ?f = "\<lambda>v. buf_mut_try_from (bio_vec_deref bio v)"
  have "\<exists>e. ?f v = Err e" using assms(5) by (simp add: buf_mut_try_from_def)
  then obtain e where e: "?f v = Err e" by blast
  have "unwrap_all (map ?f vs) = Panic"
    by (rule unwrap_all_panics [OF _ e]) (use assms(4) try_from_total in simp_all)
  then show ?thesis using assms(1-3) by (simp add: dm_process_def read_aligned_def outcome_simps)
qed

definition split_read :: kernel_bio where
  "split_read = \<lparr>kb_opf = 0, kb_sector = 8, kb_size = 4096, kb_idx = 0, kb_vecs = [zeros 512, zeros 3584], kb_ended = False\<rparr>"

theorem split_vector_panics_witness: "\<forall>E d. dm_process E split_read d = (Panic, d)"
proof (intro allI)
  fix E d
  have "bio_vecs split_read = Ok [\<lparr>bv_idx = 0, bv_len = 512\<rparr>, \<lparr>bv_idx = 1, bv_len = 3584\<rparr>]"
    by (simp add: bio_vecs_def bio_iter_def split_read_def bio_vec_next_def has_next_def current_bio_vec_def advance_by_def outcome_simps)
  moreover have "length (bio_vec_deref split_read \<lparr>bv_idx = 0, bv_len = 512\<rparr>) mod BLOCK_SIZE \<noteq> 0"
    by (simp add: bio_vec_deref_def split_read_def)
  ultimately show "dm_process E split_read d = (Panic, d)"
    using split_vector_panics [of split_read "[\<lparr>bv_idx = 0, bv_len = 512\<rparr>, \<lparr>bv_idx = 1, bv_len = 3584\<rparr>]" "\<lparr>bv_idx = 0, bv_len = 512\<rparr>"]
    by (simp add: bio_get_op_def bio_op_from_def bio_unaligned_def split_read_def)
qed

end
