(* ===== verification/File_Tree.thy ===== *)
theory File_Tree
  imports File_IO
begin

text \<open>
  The cached part of the tree of an open file.  A node is named by \<open>nid\<close>; the cache and the root
  are a list of names and references, and \<open>tree_heap\<close> says that the heap holds the contents of an
  abstract tree (\<open>tree\<close>: the content of every MHT and data node) at these references, each node
  pointing to its parent.  The lemmas describe how marking, moving to the head of the cache,
  caching and sealing act on heap, list and tree.
\<close>

section \<open>Names of nodes\<close>

datatype nid = MhtId nat | DataId nat

primrec phys :: "nid \<Rightarrow> nat" where
  "phys (MhtId m) = mht_physical_number m"
| "phys (DataId l) = data_phys l"

primrec nid_type :: "nid \<Rightarrow> node_type" where
  "nid_type (MhtId m) = NtMht"
| "nid_type (DataId l) = NtData"

primrec nid_logic :: "nid \<Rightarrow> nat" where
  "nid_logic (MhtId m) = m"
| "nid_logic (DataId l) = l"

text \<open>The logic number of the parent, and the index of the node in the parent.\<close>

primrec par :: "nid \<Rightarrow> nat" where
  "par (MhtId m) = (m - 1) div CHILD_MHT_NODES_COUNT"
| "par (DataId l) = l div ATTACHED_DATA_NODES_COUNT"

primrec cidx :: "nid \<Rightarrow> nat" where
  "cidx (MhtId m) = (m - 1) mod CHILD_MHT_NODES_COUNT"
| "cidx (DataId l) = l mod ATTACHED_DATA_NODES_COUNT"

abbreviation root_id :: nid where "root_id \<equiv> MhtId 0"

text \<open>The nodes of a file with \<open>n\<close> data nodes.\<close>

primrec in_file :: "nat \<Rightarrow> nid \<Rightarrow> bool" where
  "in_file n (MhtId m) \<longleftrightarrow> m = 0 \<or> m * ATTACHED_DATA_NODES_COUNT < n"
| "in_file n (DataId l) \<longleftrightarrow> l < n"

lemma phys_inj [simp]: "phys x = phys y \<longleftrightarrow> x = y"
  by (cases x; cases y) auto

lemma inj_phys: "inj phys"
  by (simp add: inj_def)

lemma phys_root [simp]: "phys x = 1 \<longleftrightarrow> x = root_id" "phys x = Suc 0 \<longleftrightarrow> x = root_id"
  using phys_inj [of x root_id] by (simp_all del: phys_inj)

lemma phys_gt_0 [simp]: "0 < phys x" "phys x \<noteq> 0"
  by (cases x; simp)+

lemma phys_gt_1: "x \<noteq> root_id \<Longrightarrow> 1 < phys x"
  using phys_gt_0(1) [of x] phys_root(1) [of x] by linarith

lemma phys_par_less: "x \<noteq> root_id \<Longrightarrow> mht_physical_number (par x) < phys x"
proof (cases x)
  case (MhtId m)
  moreover assume "x \<noteq> root_id"
  ultimately show ?thesis using mht_parent_less [of m] by (simp add: mht_parent_def mht_physical_number_def)
qed (simp add: mht_phys_before_data)

lemma par_neq [simp]: "x \<noteq> root_id \<Longrightarrow> MhtId (par x) \<noteq> x"
  using phys_par_less [of x] by (metis nat_neq_iff phys.simps(1))

lemma cidx_bound: "cidx x < (case nid_type x of NtMht \<Rightarrow> 32 | NtData \<Rightarrow> 96)"
  by (cases x) auto

lemma child_unique:
  assumes "par x = par y" "cidx x = cidx y" "nid_type x = nid_type y" "x \<noteq> root_id" "y \<noteq> root_id"
  shows "x = y"
proof (cases x)
  case (MhtId m)
  then obtain n where n: "y = MhtId n" using assms(3) by (cases y) auto
  have "m - 1 = n - 1" using assms(1,2) unfolding MhtId n
    by simp (metis div_mult_mod_eq)
  then show ?thesis using assms(4,5) MhtId n by simp
next
  case (DataId l)
  then obtain k where k: "y = DataId k" using assms(3) by (cases y) auto
  then show ?thesis using assms(1,2) DataId by simp (metis div_mult_mod_eq)
qed

lemma in_file_par:
  assumes "in_file n x" shows "in_file n (MhtId (par x))"
proof (cases x)
  case (MhtId m)
  have "(m - 1) div 32 * 96 \<le> m * 96" by simp
  then show ?thesis using assms MhtId by auto
next
  case (DataId l)
  have "l div 96 * 96 \<le> l" by simp
  then show ?thesis using assms DataId by (simp only: in_file.simps par.simps) linarith
qed

lemma in_file_mono: "in_file n x \<Longrightarrow> n \<le> n' \<Longrightarrow> in_file n' x"
  by (cases x) auto

lemma in_file_phys:
  assumes "in_file n x" "x \<noteq> root_id" shows "0 < n" "phys x \<le> data_phys (n - 1)"
proof -
  show n: "0 < n" using assms by (cases x) auto
  show "phys x \<le> data_phys (n - 1)"
  proof (cases x)
    case (MhtId m)
    then have "m * 96 \<le> n - 1" using assms by auto
    then have "data_phys (m * 96) \<le> data_phys (n - 1)" by (rule data_phys_mono)
    moreover have "mht_physical_number m \<le> data_phys (m * 96)"
      using mht_phys_before_data [of "m * 96"] by simp
    ultimately show ?thesis using MhtId by simp
  next
    case (DataId l)
    then show ?thesis using assms(1) by (auto intro: data_phys_mono)
  qed
qed

section \<open>Ancestors\<close>

text \<open>The ancestors of a node below the root, the parent first.\<close>

function ancs :: "nid \<Rightarrow> nid list" where
  "ancs x = (if x = root_id \<or> par x = 0 then [] else MhtId (par x) # ancs (MhtId (par x)))"
  by auto
termination
  by (relation "measure phys") (auto dest: phys_par_less)

declare ancs.simps [simp del]

lemma ancs_root [simp]: "ancs root_id = []"
  by (simp add: ancs.simps)

lemma ancs_phys: "y \<in> set (ancs x) \<Longrightarrow> phys y < phys x \<and> y \<noteq> root_id"
proof (induction x rule: ancs.induct)
  case (1 x)
  then have x: "x \<noteq> root_id" "par x \<noteq> 0" by (auto simp: ancs.simps [of x] split: if_splits)
  from 1(2) consider "y = MhtId (par x)" | "y \<in> set (ancs (MhtId (par x)))"
    using x by (auto simp: ancs.simps [of x])
  then show ?case
  proof cases
    case 1
    then show ?thesis using phys_par_less [OF x(1)] x(2) by simp
  next
    case 2
    then show ?thesis using "1.IH" x phys_par_less [OF x(1)] by fastforce
  qed
qed

lemma distinct_ancs: "distinct (ancs x)"
proof (induction x rule: ancs.induct)
  case (1 x)
  show ?case
    using 1 ancs_phys [of "MhtId (par x)" "MhtId (par x)"] by (subst ancs.simps) auto
qed

lemma ancs_not_self: "x \<notin> set (ancs x)"
  using ancs_phys [of x x] by auto

lemma ancs_par:
  assumes "y \<in> set (ancs x)" shows "par y = 0 \<or> MhtId (par y) \<in> set (ancs x)"
  using assms
proof (induction x rule: ancs.induct)
  case (1 x)
  then have x: "x \<noteq> root_id" "par x \<noteq> 0" by (auto simp: ancs.simps [of x] split: if_splits)
  have a: "ancs x = MhtId (par x) # ancs (MhtId (par x))" using x by (subst ancs.simps) simp
  have b: "ancs (MhtId (par x)) = (if par (MhtId (par x)) = 0 then [] else
      MhtId (par (MhtId (par x))) # ancs (MhtId (par (MhtId (par x)))))"
    using x by (subst ancs.simps) simp
  from 1(2) show ?case unfolding a using "1.IH" x b by (auto split: if_splits)
qed

lemma ancs_in_file: "in_file n x \<Longrightarrow> y \<in> set (ancs x) \<Longrightarrow> in_file n y"
proof (induction x rule: ancs.induct)
  case (1 x)
  have p: "in_file n (MhtId (par x))" by (rule in_file_par [OF 1(2)])
  show ?case using 1(1) [OF _ p] 1(3) p by (subst (asm) ancs.simps) (auto split: if_splits simp del: in_file.simps)
qed

lemma length_ancs_mht: "length (ancs (MhtId m)) \<le> m"
proof (induction m rule: less_induct)
  case (less m)
  show ?case
  proof (cases "m = 0 \<or> par (MhtId m) = 0")
    case True
    then show ?thesis by (subst ancs.simps) auto
  next
    case False
    then have "par (MhtId m) < m" using mht_parent_less [of m] by (simp add: mht_parent_def)
    then have "length (ancs (MhtId (par (MhtId m)))) < m" using less [of "par (MhtId m)"] by linarith
    then show ?thesis using False by (subst ancs.simps) simp
  qed
qed

lemma length_ancs: "length (ancs x) < nid_logic x + 2"
proof (cases x)
  case (MhtId m)
  then show ?thesis using length_ancs_mht [of m] by simp
next
  case (DataId l)
  have "length (ancs x) \<le> Suc (length (ancs (MhtId (par x))))" by (subst ancs.simps) auto
  also have "\<dots> \<le> Suc (par x)" using length_ancs_mht by simp
  finally show ?thesis using DataId div_le_dividend [of l 96] by simp
qed

text \<open>The tree is flat: twelve cache entries hold a data node with all its ancestors.\<close>

lemma length_ancs_log: "m < 32 ^ k \<Longrightarrow> length (ancs (MhtId m)) \<le> k"
proof (induction k arbitrary: m)
  case 0
  then show ?case by (simp add: ancs.simps)
next
  case (Suc k)
  have "(m - 1) div 32 < 32 ^ k" using Suc.prems by (intro less_mult_imp_div_less) simp
  from Suc.IH [OF this] show ?case by (subst ancs.simps) auto
qed

lemma length_ancs_data:
  assumes "data_phys l * NODE_SIZE < 2 ^ 64" shows "length (ancs (DataId l)) < 12"
proof -
  have "l \<le> data_phys l" by (simp add: data_phys_def)
  then have "l * NODE_SIZE \<le> data_phys l * NODE_SIZE" by (rule mult_le_mono1)
  then have "l < 2 ^ 52" using assms by simp
  then have "l div 96 < 32 ^ 10" by (simp add: less_mult_imp_div_less)
  from length_ancs_log [OF this] show ?thesis by (subst ancs.simps) auto
qed

section \<open>The abstract tree and the heap\<close>

record tree =
  t_mht :: "nat \<Rightarrow> mht_node"
  t_data :: "nat \<Rightarrow> bytes"

primrec plain :: "tree \<Rightarrow> nid \<Rightarrow> node" where
  "plain t (MhtId m) = Mht (t_mht t m)"
| "plain t (DataId l) = Data (t_data t l)"

text \<open>Key and tag of a node, as its parent holds them.\<close>

definition entry :: "tree \<Rightarrow> nid \<Rightarrow> gcm_data" where
  "entry t x = (case nid_type x of NtMht \<Rightarrow> mn_mht (t_mht t (par x)) | NtData \<Rightarrow> mn_data (t_mht t (par x))) ! cidx x"

definition set_entry :: "nid \<Rightarrow> gcm_data \<Rightarrow> tree \<Rightarrow> tree" where
  "set_entry x g t = t\<lparr>t_mht := (t_mht t)(par x := (case nid_type x of
     NtMht \<Rightarrow> (t_mht t (par x))\<lparr>mn_mht := (mn_mht (t_mht t (par x)))[cidx x := g]\<rparr>
   | NtData \<Rightarrow> (t_mht t (par x))\<lparr>mn_data := (mn_data (t_mht t (par x)))[cidx x := g]\<rparr>))\<rparr>"

definition tree_wf :: "tree \<Rightarrow> bool" where
  "tree_wf t \<longleftrightarrow> (\<forall>m. mht_wf (t_mht t m)) \<and> (\<forall>l. length (t_data t l) = NODE_SIZE)"

lemma plain_wf_node [simp]: "tree_wf t \<Longrightarrow> node_wf (nid_type x) (plain t x)"
  by (cases x) (auto simp: tree_wf_def)

lemma node_get_entry: "node_get_gcm_data (plain t (MhtId (par x))) (nid_type x) (cidx x) = Some (entry t x)"
  by (cases x) (auto simp: entry_def)

lemma node_set_entry:
  "node_set_gcm_data (nid_type x) (cidx x) g (plain t (MhtId (par x))) = plain (set_entry x g t) (MhtId (par x))"
  by (cases x) (auto simp: set_entry_def)

lemma plain_set_entry [simp]: "y \<noteq> MhtId (par x) \<Longrightarrow> plain (set_entry x g t) y = plain t y"
  by (cases y) (auto simp: set_entry_def)

lemma t_data_set_entry [simp]: "t_data (set_entry x g t) = t_data t"
  by (simp add: set_entry_def)

lemma entry_set_same [simp]: "tree_wf t \<Longrightarrow> entry (set_entry x g t) x = g"
  using cidx_bound [of x] by (cases x) (auto simp: entry_def set_entry_def tree_wf_def mht_wf_def)

lemma entry_set_other:
  assumes "y \<noteq> x" "x \<noteq> root_id" "y \<noteq> root_id" shows "entry (set_entry x g t) y = entry t y"
proof (cases "par x = par y \<and> nid_type x = nid_type y")
  case True
  then have "cidx x \<noteq> cidx y" using child_unique [of x y] assms by auto
  then show ?thesis using True by (cases "nid_type x") (auto simp: entry_def set_entry_def)
next
  case False
  then show ?thesis by (cases "nid_type x"; cases "nid_type y") (auto simp: entry_def set_entry_def)
qed

lemma tree_wf_set_entry: 
  assumes "tree_wf t" "gcm_wf g" shows "tree_wf (set_entry x g t)"
proof -
  have "mht_wf (t_mht (set_entry x g t) m)" for m
    using assms by (cases "nid_type x")
      (auto simp: set_entry_def tree_wf_def mht_wf_def dest: subsetD [OF set_update_subset_insert])
  then show ?thesis using assms by (simp add: tree_wf_def)
qed

lemma entry_wf: "tree_wf t \<Longrightarrow> gcm_wf (entry t x)"
  using cidx_bound [of x] unfolding entry_def tree_wf_def mht_wf_def
  by (cases "nid_type x") (simp_all, metis nth_mem, metis nth_mem)

type_synonym node_list = "(nid \<times> node_ref) list"

definition node_at :: "node_heap \<Rightarrow> node_list \<Rightarrow> tree \<Rightarrow> nid \<Rightarrow> node_ref \<Rightarrow> bool" where
  "node_at h xrs t x r \<longleftrightarrow> fn_node_type (nodes h r) = nid_type x \<and> fn_logic_number (nodes h r) = nid_logic x \<and>
     fn_physical_number (nodes h r) = phys x \<and> fn_plaintext (nodes h r) = plain t x \<and>
     length (fn_node_data (nodes h r)) = NODE_SIZE \<and>
     fn_parent (nodes h r) = (if x = root_id then None else map_of xrs (MhtId (par x))) \<and>
     (x \<noteq> root_id \<longrightarrow> MhtId (par x) \<in> fst ` set xrs)"

text \<open>The list starts with the root and continues with the cache.\<close>

definition tree_heap :: "node_heap \<Rightarrow> node_list \<Rightarrow> tree \<Rightarrow> bool" where
  "tree_heap h xrs t \<longleftrightarrow> tree_wf t \<and> distinct (map fst xrs) \<and> distinct (map snd xrs) \<and>
     (\<forall>r\<in>snd ` set xrs. r < next_ref h) \<and> (\<forall>(x, r)\<in>set xrs. node_at h xrs t x r)"

definition dirty :: "node_heap \<Rightarrow> node_ref \<Rightarrow> bool" where
  "dirty h r = fn_need_writing (nodes h r)"

text \<open>The nodes that were written to the disk since they were created or read; only these are journaled.\<close>

definition old_count :: "node_heap \<Rightarrow> nat" where
  "old_count h = length (filter (\<lambda>r. \<not> fn_new_node (nodes h r)) [0..<next_ref h])"

lemma old_count_upd:
  "(\<And>n. fn_new_node (f n) = fn_new_node n) \<Longrightarrow> old_count (upd_node r f h) = old_count h"
  unfolding old_count_def by (intro arg_cong [where f = length] filter_cong) simp_all

lemma old_count_build: "old_count (snd (build_ref n h)) = (if fn_new_node n then old_count h else Suc (old_count h))"
proof -
  have "filter (\<lambda>r. \<not> fn_new_node (((nodes h)(next_ref h := n)) r)) [0..<next_ref h] =
      filter (\<lambda>r. \<not> fn_new_node (nodes h r)) [0..<next_ref h]"
    by (rule filter_cong) auto
  then show ?thesis by (simp add: old_count_def build_ref_def)
qed

lemma tree_heapD:
  assumes "tree_heap h xrs t" "(x, r) \<in> set xrs"
  shows "node_at h xrs t x r" "r < next_ref h" "map_of xrs x = Some r" "fn_wf (nodes h r)"
proof -
  show n: "node_at h xrs t x r" "r < next_ref h" "map_of xrs x = Some r"
    using assms by (auto simp: tree_heap_def)
  have "tree_wf t" using assms(1) by (simp add: tree_heap_def)
  then show "fn_wf (nodes h r)" unfolding fn_wf_def using n(1) plain_wf_node [of t x] by (simp add: node_at_def)
qed

lemma tree_heap_wf [simp]: "tree_heap h xrs t \<Longrightarrow> tree_wf t"
  by (simp add: tree_heap_def)

lemma tree_heap_ref_inj: "tree_heap h xrs t \<Longrightarrow> (x, r) \<in> set xrs \<Longrightarrow> (y, r) \<in> set xrs \<Longrightarrow> x = y"
  unfolding tree_heap_def by (metis (no_types, lifting) distinct_map fst_conv inj_onD snd_conv)

lemma tree_heap_parent:
  assumes "tree_heap h xrs t" "(x, r) \<in> set xrs" "x \<noteq> root_id"
  obtains p where "fn_parent (nodes h r) = Some p" "(MhtId (par x), p) \<in> set xrs"
    "map_of xrs (MhtId (par x)) = Some p"
proof -
  have n: "node_at h xrs t x r" using tree_heapD [OF assms(1,2)] by simp
  then obtain p where p: "(MhtId (par x), p) \<in> set xrs" using assms(3) by (force simp: node_at_def)
  then have "map_of xrs (MhtId (par x)) = Some p" using assms(1) by (simp add: tree_heap_def)
  then show thesis using that [of p] n p assms(3) by (simp add: node_at_def)
qed

lemma tree_heap_root_iff:
  assumes "tree_heap h xrs t" "(x, r) \<in> set xrs" shows "is_root_mht (nodes h r) \<longleftrightarrow> x = root_id"
proof -
  have "node_at h xrs t x r" using tree_heapD [OF assms] by simp
  then show ?thesis by (cases x) (auto simp: node_at_def is_root_mht_def)
qed

lemma tree_heap_child_index:
  assumes "tree_heap h xrs t" "(x, r) \<in> set xrs" "x \<noteq> root_id"
  shows "child_index (nodes h r) = Ok (cidx x)"
proof -
  have "node_at h xrs t x r" using tree_heapD [OF assms(1,2)] by simp
  then show ?thesis using assms(3) by (cases x) (auto simp: node_at_def child_index_def)
qed

text \<open>Changing fields of nodes that the tree does not constrain.\<close>

lemma tree_heap_cong:
  assumes "tree_heap h xrs t" "next_ref h \<le> next_ref h'"
    "\<And>x r. (x, r) \<in> set xrs \<Longrightarrow> \<exists>a b c d. nodes h' r =
       (nodes h r)\<lparr>fn_need_writing := a, fn_new_node := b, fn_encrypt_flags := c, fn_node_data := d\<rparr> \<and>
       length d = NODE_SIZE"
  shows "tree_heap h' xrs t"
proof -
  have "node_at h' xrs t x r" if "(x, r) \<in> set xrs" for x r
    using tree_heapD(1) [OF assms(1) that] assms(3) [OF that] by (auto simp: node_at_def)
  then show ?thesis using assms(1,2) by (auto simp: tree_heap_def)
qed

section \<open>Marking ancestors\<close>

definition mark :: "node_ref set \<Rightarrow> node_heap \<Rightarrow> node_heap" where
  "mark R h = h\<lparr>nodes := (\<lambda>r. if r \<in> R then (nodes h r)\<lparr>fn_need_writing := True\<rparr> else nodes h r)\<rparr>"

lemma nodes_mark [simp]: "nodes (mark R h) r = (if r \<in> R then (nodes h r)\<lparr>fn_need_writing := True\<rparr> else nodes h r)"
  by (simp add: mark_def)

lemma next_ref_mark [simp]: "next_ref (mark R h) = next_ref h"
  by (simp add: mark_def)

lemma old_count_mark [simp]: "old_count (mark R h) = old_count h"
  unfolding old_count_def by (intro arg_cong [where f = length] filter_cong) simp_all

lemma dirty_mark [simp]: "dirty (mark R h) r \<longleftrightarrow> r \<in> R \<or> dirty h r"
  by (simp add: dirty_def)

lemma mark_empty [simp]: "mark {} h = h"
  by (simp add: mark_def)

lemma mark_mark: "mark R (mark R' h) = mark (R \<union> R') h"
  by (auto simp: mark_def fun_eq_iff)

lemma mark_dirty_id: "(\<And>r. r \<in> R \<Longrightarrow> dirty h r) \<Longrightarrow> mark R h = h"
  by (cases h) (auto simp: mark_def fun_eq_iff dirty_def)

lemma upd_need_writing: "upd_node r (\<lambda>n. n\<lparr>fn_need_writing := True\<rparr>) h = mark {r} h"
  by (auto simp: mark_def upd_node_def fun_eq_iff)

lemma tree_heap_mark:
  assumes "tree_heap h xrs t" shows "tree_heap (mark R h) xrs t"
proof (rule tree_heap_cong [OF assms])
  fix x r assume "(x, r) \<in> set xrs"
  then have "length (fn_node_data (nodes h r)) = NODE_SIZE" using tree_heapD(4) [OF assms] by simp
  then show "\<exists>a b c d. nodes (mark R h) r =
     (nodes h r)\<lparr>fn_need_writing := a, fn_new_node := b, fn_encrypt_flags := c, fn_node_data := d\<rparr> \<and>
     length d = NODE_SIZE"
    by (intro exI [of _ "r \<in> R \<or> dirty h r"] exI [of _ "fn_new_node (nodes h r)"]
        exI [of _ "fn_encrypt_flags (nodes h r)"] exI [of _ "fn_node_data (nodes h r)"])
      (simp add: dirty_def)
qed simp

definition refs_of :: "node_list \<Rightarrow> nid set \<Rightarrow> node_ref set" where
  "refs_of xrs X = {r. \<exists>x\<in>X. (x, r) \<in> set xrs}"

lemma mark_parents_Ok:
  assumes "tree_heap h xrs t" "(x, r) \<in> set xrs" "x \<noteq> root_id" "length (ancs x) < fuel"
  shows "mark_parents fuel (fn_parent (nodes h r)) h = (Ok (), mark (refs_of xrs (set (ancs x))) h)"
  using assms
proof (induction x arbitrary: r h fuel rule: ancs.induct)
  case (1 x)
  obtain p where p: "fn_parent (nodes h r) = Some p" "(MhtId (par x), p) \<in> set xrs"
    using tree_heap_parent [OF 1(2,3,4)] by blast
  obtain f where f: "fuel = Suc f" using 1(5) by (cases fuel) auto
  show ?case
  proof (cases "par x = 0")
    case True
    then have "ancs x = []" by (simp add: ancs.simps)
    then show ?thesis using True p f tree_heap_root_iff [OF 1(2) p(2)] by (simp add: refs_of_def)
  next
    case False
    let ?y = "MhtId (par x)" and ?h = "mark {p} h"
    have a: "ancs x = ?y # ancs ?y" using False 1(4) by (subst ancs.simps) simp
    have l: "length (ancs ?y) < f" using 1(5) unfolding a f by simp
    have "mark_parents f (fn_parent (nodes ?h p)) ?h = (Ok (), mark (refs_of xrs (set (ancs ?y))) ?h)"
      by (rule "1.IH" [OF _ tree_heap_mark [OF 1(2)] p(2) _ l]) (use 1(4) False in simp_all)
    moreover have "mark (refs_of xrs (set (ancs ?y))) ?h = mark (refs_of xrs (set (ancs x))) h"
    proof -
      have "(?y, q) \<in> set xrs \<longleftrightarrow> q = p" for q
        using tree_heapD(3) [OF 1(2), of ?y q] tree_heapD(3) [OF 1(2) p(2)] p(2) by auto
      then have "refs_of xrs (set (ancs ?y)) \<union> {p} = refs_of xrs (set (ancs x))"
        unfolding a refs_of_def by auto
      then show ?thesis by (simp add: mark_mark)
    qed
    ultimately show ?thesis
      using p f False tree_heap_root_iff [OF 1(2) p(2)] by (simp add: upd_need_writing)
  qed
qed

section \<open>The order of the cache\<close>

definition keyed :: "node_list \<Rightarrow> (nat \<times> node_ref) list" where
  "keyed xrs = map (\<lambda>(x, r). (phys x, r)) xrs"

lemma keyed_simps [simp]:
  "keyed [] = []" "keyed (xr # xrs) = (phys (fst xr), snd xr) # keyed xrs" "keyed (xs @ ys) = keyed xs @ keyed ys"
  "length (keyed xrs) = length xrs" "map snd (keyed xrs) = map snd xrs" "keyed xrs = [] \<longleftrightarrow> xrs = []"
  by (auto simp: keyed_def split: prod.splits)

lemma keyed_fst [simp]: "phys x \<in> fst ` set (keyed xrs) \<longleftrightarrow> x \<in> fst ` set xrs"
  by (force simp: keyed_def)

lemma map_of_keyed [simp]: "map_of (keyed xrs) (phys x) = map_of xrs x"
  by (induction xrs) (auto split: prod.splits)

lemma map_of_keyed_1: "root_id \<notin> fst ` set xrs \<Longrightarrow> map_of (keyed xrs) 1 = None"
  using map_of_keyed [of xrs root_id] by (simp add: map_of_eq_None_iff del: map_of_keyed)

definition to_front :: "nid \<Rightarrow> node_list \<Rightarrow> node_list" where
  "to_front y xrs = (y, the (map_of xrs y)) # filter (\<lambda>p. fst p \<noteq> y) xrs"

definition bump_list :: "nid \<Rightarrow> node_list \<Rightarrow> node_list" where
  "bump_list x xrs = fold to_front (ancs x) xrs"

lemma to_front_split:
  assumes "distinct (map fst xrs)" "(y, r) \<in> set xrs"
  obtains as bs where "xrs = as @ (y, r) # bs" "to_front y xrs = (y, r) # as @ bs"
proof -
  obtain as bs where x: "xrs = as @ (y, r) # bs" using assms(2) by (meson split_list)
  have n: "y \<notin> fst ` set as" "y \<notin> fst ` set bs" using assms(1) x by auto
  have f: "filter (\<lambda>p. fst p \<noteq> y) zs = zs" if "y \<notin> fst ` set zs" for zs :: node_list
    using that by (intro filter_True) auto
  have "map_of as y = None" using n(1) by (simp add: map_of_eq_None_iff)
  then have "to_front y xrs = (y, r) # as @ bs"
    using f [OF n(1)] f [OF n(2)] by (simp add: to_front_def x map_add_def)
  with x show thesis by (rule that)
qed

lemma to_front_set:
  assumes "distinct (map fst xrs)" "y \<in> fst ` set xrs"
  shows "set (to_front y xrs) = set xrs" "distinct (map fst (to_front y xrs))"
proof -
  obtain r where "(y, r) \<in> set xrs" using assms(2) by auto
  with assms(1) obtain as bs where "xrs = as @ (y, r) # bs" "to_front y xrs = (y, r) # as @ bs"
    by (rule to_front_split)
  then show "set (to_front y xrs) = set xrs" "distinct (map fst (to_front y xrs))" using assms(1) by auto
qed

lemma lru_to_front:
  assumes "lru_repr c (keyed xrs)" "distinct (map fst xrs)" "y \<in> fst ` set xrs"
  shows "lru_repr (lru_move_to_head (phys y) c) (keyed (to_front y xrs))"
proof -
  obtain r where "(y, r) \<in> set xrs" using assms(3) by auto
  with assms(2) obtain as bs where "xrs = as @ (y, r) # bs" "to_front y xrs = (y, r) # as @ bs"
    by (rule to_front_split)
  then show ?thesis using lru.repr_move [of c "keyed as" "phys y" r "keyed bs"] assms(1) by simp
qed

lemma fold_to_front:
  assumes "distinct (map fst xrs)" "distinct as" "set as \<subseteq> fst ` set xrs"
  shows "fold to_front as xrs = map (\<lambda>y. (y, the (map_of xrs y))) (rev as) @ filter (\<lambda>p. fst p \<notin> set as) xrs"
  using assms(2,3)
proof (induction as rule: rev_induct)
  case (snoc a as)
  let ?F = "map (\<lambda>y. (y, the (map_of xrs y))) (rev as) @ filter (\<lambda>p. fst p \<notin> set as) xrs"
  have F: "fold to_front as xrs = ?F" using snoc by simp
  have a: "a \<notin> set as" "a \<in> fst ` set xrs" using snoc.prems by auto
  have m: "map_of (map (\<lambda>y. (y, g y)) bs) a = None" if "a \<notin> set bs" for bs :: "nid list" and g :: "nid \<Rightarrow> node_ref"
    using that by (auto simp: map_of_eq_None_iff)
  have "map_of (filter (\<lambda>p. fst p \<notin> set as) zs) a = map_of zs a" for zs :: node_list
    using a(1) by (induction zs) auto
  then have "map_of ?F a = map_of xrs a" using a(1) m [of "rev as"] by (simp add: map_add_def)
  moreover have "filter (\<lambda>p. fst p \<noteq> a) ?F =
      map (\<lambda>y. (y, the (map_of xrs y))) (rev as) @ filter (\<lambda>p. fst p \<notin> insert a (set as)) xrs"
  proof -
    have "filter (\<lambda>p. fst p \<noteq> a) (map (\<lambda>y. (y, the (map_of xrs y))) (rev as)) = map (\<lambda>y. (y, the (map_of xrs y))) (rev as)"
      using a(1) by (intro filter_True) auto
    then show ?thesis by (auto simp: filter_filter intro!: filter_cong)
  qed
  ultimately have "to_front a ?F =
      (a, the (map_of xrs a)) # map (\<lambda>y. (y, the (map_of xrs y))) (rev as) @ filter (\<lambda>p. fst p \<notin> insert a (set as)) xrs"
    unfolding to_front_def by (simp only:)
  then show ?case by (simp add: F)
qed simp

text \<open>Every parent below the root comes before its children.\<close>

primrec parents_first :: "nid set \<Rightarrow> node_list \<Rightarrow> bool" where
  "parents_first S [] = True"
| "parents_first S (xr # xrs) \<longleftrightarrow>
     (par (fst xr) = 0 \<or> MhtId (par (fst xr)) \<in> S) \<and> parents_first (insert (fst xr) S) xrs"

lemma parents_first_append [simp]:
  "parents_first S (xs @ ys) \<longleftrightarrow> parents_first S xs \<and> parents_first (S \<union> fst ` set xs) ys"
  by (induction xs arbitrary: S) (auto simp: insert_commute)

lemma parents_first_mono: "parents_first S xs \<Longrightarrow> S \<subseteq> S' \<Longrightarrow> parents_first S' xs"
proof (induction xs arbitrary: S S')
  case (Cons x xs)
  have "parents_first (insert (fst x) S') xs" by (rule Cons.IH [of "insert (fst x) S"]) (use Cons.prems in auto)
  then show ?case using Cons.prems by auto
qed simp

lemma parents_first_filter:
  "parents_first S xs \<Longrightarrow> S - X \<subseteq> S' \<Longrightarrow> X \<subseteq> S' \<Longrightarrow> parents_first S' (filter (\<lambda>p. fst p \<notin> X) xs)"
proof (induction xs arbitrary: S S')
  case (Cons x xs)
  have "parents_first (if fst x \<in> X then S' else insert (fst x) S') (filter (\<lambda>p. fst p \<notin> X) xs)"
    by (rule Cons.IH [of "insert (fst x) S"]) (use Cons.prems in auto)
  then show ?case using Cons.prems by (auto split: if_splits)
qed simp

lemma parents_first_ancs: "parents_first {} (map (\<lambda>y. (y, g y)) (rev (ancs x)))"
proof (induction x rule: ancs.induct)
  case (1 x)
  show ?case
  proof (cases "x = root_id \<or> par x = 0")
    case True
    then show ?thesis by (subst ancs.simps) simp
  next
    case False
    let ?y = "MhtId (par x)"
    have a: "ancs x = ?y # ancs ?y" using False by (subst ancs.simps) simp
    have "par ?y = 0 \<or> MhtId (par ?y) \<in> set (ancs ?y)" using False by (subst ancs.simps) simp
    then show ?thesis using 1 False by (force simp: a simp del: par.simps)
  qed
qed

lemma parents_first_bump:
  assumes "distinct (map fst (new @ old))" "parents_first {} old" "fst ` set new \<subseteq> insert x (set (ancs x))"
    "set (ancs x) \<subseteq> fst ` set (new @ old)" "x \<noteq> root_id"
  shows "parents_first {} (bump_list x (new @ old))"
proof -
  let ?X = "set (ancs x)"
  have "parents_first ?X (filter (\<lambda>p. fst p \<notin> ?X) old)"
    by (rule parents_first_filter [OF assms(2)]) auto
  moreover have "parents_first ?X (filter (\<lambda>p. fst p \<notin> ?X) new)"
  proof -
    have px: "par x = 0 \<or> MhtId (par x) \<in> ?X" using assms(5) by (subst ancs.simps) auto
    have sx: "parents_first S xs" if "?X \<subseteq> S" "\<forall>p\<in>set xs. fst p = x" for S xs
      using that
    proof (induction xs arbitrary: S)
      case (Cons y ys)
      have "parents_first (insert (fst y) S) ys" by (rule Cons.IH) (use Cons.prems in auto)
      then show ?case using Cons.prems px by auto
    qed simp
    show ?thesis by (rule sx) (use assms(3) in auto)
  qed
  moreover have "fst ` set (map (\<lambda>y. (y, the (map_of (new @ old) y))) (rev (ancs x))) = ?X"
    by force
  ultimately show ?thesis
    using parents_first_ancs [of "\<lambda>y. the (map_of (new @ old) y)" x]
      fold_to_front [OF assms(1) distinct_ancs assms(4)] parents_first_mono
    by (auto simp: bump_list_def intro: parents_first_mono)
qed

lemma bump_list_set:
  assumes "distinct (map fst xrs)" "set (ancs x) \<subseteq> fst ` set xrs"
  shows "set (bump_list x xrs) = set xrs" "distinct (map fst (bump_list x xrs))"
    "length (bump_list x xrs) = length xrs"
proof -
  have "set (fold to_front as xrs) = set xrs \<and> distinct (map fst (fold to_front as xrs)) \<and>
      length (fold to_front as xrs) = length xrs" if "set as \<subseteq> fst ` set xrs" for as
    using that
  proof (induction as rule: rev_induct)
    case (snoc a as)
    let ?F = "fold to_front as xrs"
    have F: "set ?F = set xrs" "distinct (map fst ?F)" "length ?F = length xrs" using snoc by auto
    have a: "a \<in> fst ` set ?F" using snoc.prems F(1) by auto
    then obtain r where "(a, r) \<in> set ?F" by auto
    then obtain bs cs where "?F = bs @ (a, r) # cs" "to_front a ?F = (a, r) # bs @ cs"
      using to_front_split [OF F(2)] by metis
    then have "length (to_front a ?F) = length ?F" by simp
    then show ?case using to_front_set [OF F(2) a] F by simp
  qed (use assms(1) in simp)
  from this [OF assms(2)] show "set (bump_list x xrs) = set xrs" "distinct (map fst (bump_list x xrs))"
    "length (bump_list x xrs) = length xrs"
    by (simp_all add: bump_list_def)
qed

text \<open>A node that was just cached ends up right behind its ancestors.\<close>

lemma bump_list_front:
  assumes "distinct (map fst ((x, r) # new @ old))" "fst ` set new \<subseteq> set (ancs x)"
    "set (ancs x) \<subseteq> fst ` set (new @ old)"
  shows "\<exists>as bs. bump_list x ((x, r) # new @ old) = as @ (x, r) # bs \<and> fst ` set as = set (ancs x) \<and>
    length as = length (ancs x)"
proof -
  let ?xs = "(x, r) # new @ old"
  have "bump_list x ?xs = map (\<lambda>y. (y, the (map_of ?xs y))) (rev (ancs x)) @ filter (\<lambda>p. fst p \<notin> set (ancs x)) ?xs"
    unfolding bump_list_def by (rule fold_to_front [OF assms(1) distinct_ancs]) (use assms(3) in auto)
  then show ?thesis
    using ancs_not_self [of x]
    by (intro exI [of _ "map (\<lambda>y. (y, the (map_of ?xs y))) (rev (ancs x))"] exI
        [of _ "filter (\<lambda>p. fst p \<notin> set (ancs x)) (new @ old)"]) force
qed

lemma bump_parents_Ok:
  assumes "tree_heap (fi_heap s) xrs t" "(x, r) \<in> set xrs" "x \<noteq> root_id" "length (ancs x) < fuel"
    "lru_repr (fi_cache s) (keyed ys)" "distinct (map fst ys)" "set xrs = insert (root_id, root) (set ys)"
  shows "\<exists>c. bump_parents fuel (fn_parent (nodes (fi_heap s) r)) s = (Ok (), s\<lparr>fi_cache := c\<rparr>) \<and>
    lru_repr c (keyed (bump_list x ys))"
  using assms
proof (induction x arbitrary: r s ys fuel rule: ancs.induct)
  case (1 x)
  obtain p where p: "fn_parent (nodes (fi_heap s) r) = Some p" "(MhtId (par x), p) \<in> set xrs"
    using tree_heap_parent [OF 1(2,3,4)] by blast
  obtain f where f: "fuel = Suc f" using 1(5) by (cases fuel) auto
  show ?case
  proof (cases "par x = 0")
    case True
    then have "ancs x = []" by (simp add: ancs.simps)
    then show ?thesis using True p f tree_heap_root_iff [OF 1(2) p(2)] 1(6)
      by (auto simp: node_of_def bump_list_def intro!: exI [of _ "fi_cache s"])
  next
    case False
    let ?y = "MhtId (par x)"
    define s1 where "s1 = s\<lparr>fi_cache := lru_move_to_head (phys ?y) (fi_cache s)\<rparr>"
    have a: "ancs x = ?y # ancs ?y" using False 1(4) by (subst ancs.simps) simp
    have y: "?y \<in> fst ` set ys" using p(2) 1(8) False by force
    note fr = to_front_set [OF 1(7) y]
    have l: "length (ancs ?y) < f" using 1(5) unfolding a f by simp
    have r1: "lru_repr (fi_cache s1) (keyed (to_front ?y ys))"
      using lru_to_front [OF 1(6,7) y] by (simp add: s1_def)
    have "\<exists>c. bump_parents f (fn_parent (nodes (fi_heap s1) p)) s1 = (Ok (), s1\<lparr>fi_cache := c\<rparr>) \<and>
        lru_repr c (keyed (bump_list ?y (to_front ?y ys)))"
      by (rule "1.IH" [OF _ _ p(2) _ l r1 fr(2)]) (use 1 False fr in \<open>simp_all add: s1_def\<close>)
    moreover have "fn_physical_number (nodes (fi_heap s) p) = phys ?y"
      using tree_heapD(1) [OF 1(2) p(2)] by (simp add: node_at_def)
    moreover have "bump_list x ys = bump_list ?y (to_front ?y ys)" by (simp add: bump_list_def a)
    ultimately show ?thesis
      using p f False tree_heap_root_iff [OF 1(2) p(2)]
      by (auto simp: node_of_def s1_def simp del: phys.simps)
  qed
qed

section \<open>Caching a node\<close>

lemma tree_heap_insert:
  assumes "tree_heap h (ro # xrs) t" "x \<notin> fst ` set (ro # xrs)" "x \<noteq> root_id" "(MhtId (par x), p) \<in> set (ro # xrs)"
    "fn_node_type n = nid_type x" "fn_logic_number n = nid_logic x" "fn_physical_number n = phys x"
    "fn_plaintext n = plain t x" "length (fn_node_data n) = NODE_SIZE" "fn_parent n = Some p"
  shows "tree_heap (snd (build_ref n h)) (ro # (x, next_ref h) # xrs) t"
proof -
  let ?h = "snd (build_ref n h)" and ?xrs = "ro # (x, next_ref h) # xrs"
  have bound: "r < next_ref h" if "(y, r) \<in> set (ro # xrs)" for y r
    using tree_heapD(2) [OF assms(1) that] .
  have m: "map_of ?xrs y = map_of (ro # xrs) y" if "y \<noteq> x" for y
    using that by (cases ro) auto
  have old: "node_at ?h ?xrs t y r" if "(y, r) \<in> set (ro # xrs)" for y r
  proof -
    have n: "node_at h (ro # xrs) t y r" using tree_heapD(1) [OF assms(1) that] .
    then have "y \<noteq> root_id \<Longrightarrow> MhtId (par y) \<noteq> x" using assms(2) by (auto simp: node_at_def)
    then show ?thesis using n bound [OF that] m by (auto simp: node_at_def build_ref_def)
  qed
  have "MhtId (par x) \<noteq> x" using assms(3) by simp
  then have "map_of ?xrs (MhtId (par x)) = Some p" using m tree_heapD(3) [OF assms(1,4)] by simp
  then have new: "node_at ?h ?xrs t x (next_ref h)"
    using assms(3-10) by (force simp: node_at_def build_ref_def)
  have "next_ref h \<notin> snd ` set (ro # xrs)" using bound by fastforce
  then show ?thesis
    using assms(1,2) old new bound unfolding tree_heap_def
    by (auto simp: build_ref_def less_Suc_eq)
qed

lemma cache_node_Ok:
  assumes "tree_heap (fi_heap s) (ro # xrs) t" "x \<notin> fst ` set (ro # xrs)" "x \<noteq> root_id"
    "(MhtId (par x), p) \<in> set (ro # xrs)" "lru_repr (fi_cache s) (keyed xrs)"
    "fn_node_type n = nid_type x" "fn_logic_number n = nid_logic x" "fn_physical_number n = phys x"
    "fn_plaintext n = plain t x" "length (fn_node_data n) = NODE_SIZE" "fn_parent n = Some p"
  shows "\<exists>c. cache_node (phys x) n s =
      (Ok (next_ref (fi_heap s)), s\<lparr>fi_heap := snd (build_ref n (fi_heap s)), fi_cache := c\<rparr>) \<and>
    lru_repr c (keyed ((x, next_ref (fi_heap s)) # xrs)) \<and>
    tree_heap (snd (build_ref n (fi_heap s))) (ro # (x, next_ref (fi_heap s)) # xrs) t"
proof -
  have "phys x \<notin> fst ` set (keyed xrs)" using assms(2) by simp
  then obtain c where "lru_push (phys x) (next_ref (fi_heap s)) (fi_cache s) = (True, c)"
    "lru_repr c ((phys x, next_ref (fi_heap s)) # keyed xrs)"
    using lru.repr_push_new [OF assms(5)] by blast
  then show ?thesis
    using tree_heap_insert [OF assms(1-4,6-11)] by (auto simp: cache_node_def build_ref_def Let_def)
qed

lemma tree_heap_tree_cong:
  assumes "tree_heap h xrs t" "tree_wf t'" "\<And>x. x \<in> fst ` set xrs \<Longrightarrow> plain t' x = plain t x"
  shows "tree_heap h xrs t'"
proof -
  have "node_at h xrs t' x r" if "(x, r) \<in> set xrs" for x r
    using tree_heapD(1) [OF assms(1) that] assms(3) [of x] that by (force simp: node_at_def)
  then show ?thesis using assms(1,2) unfolding tree_heap_def by auto
qed

section \<open>Sealing a node\<close>

text \<open>Two heaps with the same flags.\<close>

definition same_flags :: "node_heap \<Rightarrow> node_heap \<Rightarrow> bool" where
  "same_flags h h' \<longleftrightarrow> next_ref h' = next_ref h \<and>
     (\<forall>r. fn_need_writing (nodes h' r) = fn_need_writing (nodes h r) \<and>
          fn_new_node (nodes h' r) = fn_new_node (nodes h r))"

lemma same_flags_refl [simp]: "same_flags h h"
  by (simp add: same_flags_def)

lemma same_flags_trans: "same_flags h h' \<Longrightarrow> same_flags h' h'' \<Longrightarrow> same_flags h h''"
  by (simp add: same_flags_def)

lemma same_flags_dirty: "same_flags h h' \<Longrightarrow> dirty h' r = dirty h r"
  by (simp add: same_flags_def dirty_def)

lemma node_encrypt_tree:
  assumes C: "aead_correct C" and h: "tree_heap h xrs t" "(x, r) \<in> set xrs" "x \<noteq> root_id" and k: "length key = 16"
  shows "\<exists>mac h'. node_encrypt C key r h = (Ok mac, h') \<and>
    tree_heap h' xrs (set_entry x \<lparr>gd_key = key, gd_mac = mac\<rparr> t) \<and>
    sealed C key mac (plain t x) (fn_node_data (nodes h' r)) \<and> same_flags h h' \<and>
    (\<forall>r'. r' \<noteq> r \<longrightarrow> fn_node_data (nodes h' r') = fn_node_data (nodes h r'))"
proof -
  obtain p where p: "fn_parent (nodes h r) = Some p" "(MhtId (par x), p) \<in> set xrs"
    using tree_heap_parent [OF h] by blast
  have n: "node_at h xrs t x r" "fn_wf (nodes h r)" using tree_heapD [OF h(1,2)] by auto
  obtain ct mac where e: "node_encrypt C key r h = (Ok mac,
       upd_node p (\<lambda>m. m\<lparr>fn_plaintext := node_set_gcm_data (fn_node_type (nodes h r)) (cidx x)
           \<lparr>gd_key = key, gd_mac = mac\<rparr> (fn_plaintext m)\<rparr>)
         (upd_node r (\<lambda>n. n\<lparr>fn_node_data := ct\<rparr>) h))"
    "sealed C key mac (fn_plaintext (nodes h r)) ct" "length ct = NODE_SIZE" "length mac = 16"
    by (rule node_encrypt_child [OF C _ p(1) n(2) tree_heap_child_index [OF h]])
      (use tree_heap_root_iff [OF h(1,2)] h(3) in auto)
  let ?g = "\<lparr>gd_key = key, gd_mac = mac\<rparr>"
  define h' where "h' = snd (node_encrypt C key r h)"
  have pr: "p \<noteq> r" using tree_heap_ref_inj [OF h(1) p(2), of x] h(2,3) by auto
  have np: "fn_plaintext (nodes h p) = plain t (MhtId (par x))" using tree_heapD(1) [OF h(1) p(2)] by (simp add: node_at_def)
  have at: "node_at h' xrs (set_entry x ?g t) y q" if yq: "(y, q) \<in> set xrs" for y q
  proof -
    have o: "node_at h xrs t y q" using tree_heapD(1) [OF h(1) yq] .
    consider "q = p" "y = MhtId (par x)" | "q \<noteq> p" "y \<noteq> MhtId (par x)"
      using tree_heap_ref_inj [OF h(1) yq] tree_heapD(3) [OF h(1) yq] tree_heapD(3) [OF h(1) p(2)] p(2) by fastforce
    then show ?thesis
    proof cases
      case 1
      then have "fn_plaintext (nodes h' q) = plain (set_entry x ?g t) y"
        using n(1) pr np node_set_entry [of x ?g t] by (simp add: h'_def e(1) node_at_def)
      then show ?thesis using 1 o pr unfolding node_at_def by (simp add: h'_def e(1))
    next
      case 2
      then show ?thesis using o e(3) unfolding node_at_def by (cases "q = r") (simp_all add: h'_def e(1))
    qed
  qed
  have "gcm_wf ?g" using k e(4) by (simp add: gcm_wf_def)
  then have "tree_wf (set_entry x ?g t)" using h(1) by (intro tree_wf_set_entry) auto
  then have "tree_heap h' xrs (set_entry x ?g t)"
    using h(1) at unfolding tree_heap_def by (auto simp: h'_def e(1))
  moreover have "sealed C key mac (plain t x) (fn_node_data (nodes h' r))"
    using e(2) n(1) pr by (simp add: h'_def e(1) node_at_def)
  ultimately show ?thesis
    using e(1) by (intro exI [of _ mac] exI [of _ h']) (auto simp: h'_def same_flags_def)
qed

lemma node_encrypt_tree_root:
  assumes C: "aead_correct C" and h: "tree_heap h xrs t" "(root_id, r) \<in> set xrs"
  shows "\<exists>mac h'. node_encrypt C key r h = (Ok mac, h') \<and> length mac = 16 \<and> tree_heap h' xrs t \<and>
    sealed C key mac (plain t root_id) (fn_node_data (nodes h' r)) \<and> same_flags h h' \<and>
    (\<forall>r'. r' \<noteq> r \<longrightarrow> fn_node_data (nodes h' r') = fn_node_data (nodes h r'))"
proof -
  have n: "node_at h xrs t root_id r" "fn_wf (nodes h r)" using tree_heapD [OF h] by auto
  obtain ct mac where e: "node_encrypt C key r h = (Ok mac, upd_node r (\<lambda>n. n\<lparr>fn_node_data := ct\<rparr>) h)"
    "sealed C key mac (fn_plaintext (nodes h r)) ct" "length ct = NODE_SIZE" "length mac = 16"
    by (rule node_encrypt_root [OF C _ n(2)]) (use tree_heap_root_iff [OF h] in auto)
  have "node_at (upd_node r (\<lambda>n. n\<lparr>fn_node_data := ct\<rparr>) h) xrs t y q" if "(y, q) \<in> set xrs" for y q
    using tree_heapD(1) [OF h(1) that] e(3) unfolding node_at_def by (cases "q = r") simp_all
  then have "tree_heap (upd_node r (\<lambda>n. n\<lparr>fn_node_data := ct\<rparr>) h) xrs t"
    using h(1) unfolding tree_heap_def by auto
  then show ?thesis using e n(1) by (auto simp: same_flags_def node_at_def)
qed

end
