(* ===== verification/File_Inv.thy ===== *)
theory File_Inv
  imports File_Tree
begin

text \<open>
  The invariant of an open file.  \<open>file_inv E s xrs t n n' k\<close> relates the state to the cached nodes
  \<open>xrs\<close>, the abstract tree \<open>t\<close>, the number \<open>n\<close> of data nodes of the file, the bound \<open>n'\<close> of the cached
  nodes (\<open>n\<close>, or \<open>n + 1\<close> while a node is being appended), and the length \<open>k\<close> of the journal.  It says
  that the cache holds the contents of the tree, that a changed node has changed ancestors, and
  that the blocks of all other nodes decrypt to their content with the key and tag of their parent.
\<close>

section \<open>Running operations on parts of the state\<close>

lemma with_host_simps:
  assumes "f (fi_world s, fi_host_file s) = (r, w, hf)"
  shows "with_host f s = (r, s\<lparr>fi_world := w, fi_host_file := hf\<rparr>)"
  using assms by (simp add: with_host_def)

lemma with_journal_simps:
  assumes "f (fi_world s, fi_journal s) = (r, w, j)"
  shows "with_journal f s = (r, s\<lparr>fi_world := w, fi_journal := j\<rparr>)"
  using assms by (simp add: with_journal_def)

lemma with_heap_simps:
  assumes "f (fi_heap s) = (r, h)" shows "with_heap f s = (r, s\<lparr>fi_heap := h\<rparr>)"
  using assms by (simp add: with_heap_def)

lemma with_keys_simps:
  assumes "f (fi_key_gen s) (fi_rng s) = (r, kg, rng)"
  shows "with_keys f s = (r, s\<lparr>fi_key_gen := kg, fi_rng := rng\<rparr>)"
  using assms by (simp add: with_keys_def)

lemma with_journal_then:
  assumes "\<And>s'. fi_metadata s' = fi_metadata s \<Longrightarrow> fi_heap s' = fi_heap s \<Longrightarrow> fi_root_mht s' = fi_root_mht s \<Longrightarrow> k s' = with_journal g s'"
  shows "then_do (with_journal f s) (\<lambda>_. k) = with_journal (\<lambda>x. then_do (f x) (\<lambda>_. g)) s"
proof -
  obtain r w j where f: "f (fi_world s, fi_journal s) = (r, w, j)" by (metis prod_cases3)
  then show ?thesis by (cases r) (simp_all add: with_journal_def assms)
qed

lemma set_update_flag_id: "mp_update_flag (mi_plain m) = 0 \<Longrightarrow> metadata_set_update_flag 0 (metadata_set_update_flag 1 m) = m"
  by (simp add: metadata_set_update_flag_def)

lemma meta_wf_update_flag: "meta_wf m \<Longrightarrow> meta_wf (metadata_set_update_flag b m)"
  by (simp add: metadata_set_update_flag_def meta_wf_def plain_wf_def)

section \<open>What is journaled\<close>

lemma journal_append_all_append:
  "journal_append_all E (xs @ ys) s = then_do (journal_append_all E xs s) (\<lambda>_. journal_append_all E ys)"
proof (induction xs arbitrary: s)
  case (Cons x xs)
  obtain r t where "journal_append E x s = (r, t)" by (cases "journal_append E x s")
  then show ?case by (cases r) (simp_all add: Cons.IH)
qed simp

definition node_record :: "file_node \<Rightarrow> bytes" where
  "node_record n = encrypted_node_bytes (fn_physical_number n) (fn_node_data n)"

lemma write_recovery_nodes_eq:
  "\<forall>n\<in>set ns. fn_physical_number n \<noteq> 0 \<Longrightarrow>
    write_recovery_nodes E ns s = journal_append_all E (map node_record ns) s"
  by (induction ns arbitrary: s)
    (auto simp: node_write_recovery_file_def node_record_def intro!: arg_cong [where f = "then_do _"] ext)

text \<open>The changed nodes that are not new, the MHT nodes first, then the root and the metadata.\<close>

definition recovery_records :: "('s, 'd) file_inner \<Rightarrow> bytes list" where
  "recovery_records s =
     (let changed = map (node_of s) (cached_refs (\<lambda>n. fn_need_writing n \<and> \<not> fn_new_node n) s);
          root = node_of s (fi_root_mht s)
      in map node_record (filter is_mht changed @ filter (\<lambda>n. \<not> is_mht n) changed @
           (if fn_need_writing root \<and> \<not> fn_new_node root then [root] else [])) @
         [encrypted_node_bytes (mi_node_number (fi_metadata s)) (metadata_bytes (fi_metadata s))])"

lemma write_recovery_file_node_eq:
  assumes "\<forall>r\<in>set (lru_iter (fi_cache s)). fn_physical_number (node_of s r) \<noteq> 0"
    "fn_physical_number (node_of s (fi_root_mht s)) \<noteq> 0"
  shows "write_recovery_file_node E s = with_journal (journal_append_all E (recovery_records s)) s"
proof -
  define changed where "changed = map (node_of s) (cached_refs (\<lambda>n. fn_need_writing n \<and> \<not> fn_new_node n) s)"
  define root where "root = node_of s (fi_root_mht s)"
  define m where "m = encrypted_node_bytes (mi_node_number (fi_metadata s)) (metadata_bytes (fi_metadata s))"
  have c: "\<forall>n\<in>set changed. fn_physical_number n \<noteq> 0" using assms(1) by (auto simp: changed_def cached_refs_def)
  have a: "write_recovery_nodes E (filter P changed) = journal_append_all E (map node_record (filter P changed))" for P
    using c by (intro ext write_recovery_nodes_eq) auto
  have "then_do (if fn_need_writing root \<and> \<not> fn_new_node root
         then with_journal (node_write_recovery_file E root) s' else (Ok (), s')) (\<lambda>_ s.
         with_journal (metadata_write_recovery_file E (fi_metadata s)) s) =
       with_journal (journal_append_all E (map node_record (if fn_need_writing root \<and> \<not> fn_new_node root then [root] else []) @ [m])) s'"
    if "fi_metadata s' = fi_metadata s" for s'
  proof -
    have m: "metadata_write_recovery_file E (fi_metadata s'') = journal_append_all E [m]"
      if "fi_metadata s'' = fi_metadata s" for s''
    proof
      fix x show "metadata_write_recovery_file E (fi_metadata s'') x = journal_append_all E [m] x"
        using that by (cases "journal_append E m x"; cases "fst (journal_append E m x)")
          (auto simp: metadata_write_recovery_file_def m_def)
    qed
    have r: "node_write_recovery_file E root = journal_append E (node_record root)"
      using assms(2) by (auto simp: node_write_recovery_file_def node_record_def root_def)
    have c: "journal_append_all E [a, m] = (\<lambda>x. then_do (journal_append E a x) (\<lambda>_. journal_append_all E [m]))" for a
      by (rule ext) (subst journal_append_all.simps(2), rule refl)
    show ?thesis
      using that m [of s'] by (auto simp: r m c with_journal_then [where g = "journal_append_all E [m]"])
  qed
  then show ?thesis
    unfolding write_recovery_file_node_def recovery_records_def Let_def changed_def [symmetric] root_def [symmetric]
      m_def [symmetric] a map_append append_assoc journal_append_all_append [of E "map node_record (filter is_mht changed)"]
      journal_append_all_append [of E "map node_record (filter (\<lambda>n. \<not> is_mht n) changed)"]
    by (subst with_journal_then [OF with_journal_then]) auto
qed

section \<open>The invariant\<close>

text \<open>The number of data nodes of a file of \<open>sz\<close> bytes.\<close>

definition data_nodes :: "nat \<Rightarrow> nat" where
  "data_nodes sz = (sz - MD_USER_DATA_SIZE + (NODE_SIZE - 1)) div NODE_SIZE"

definition on_disk :: "openssl \<Rightarrow> (nat \<Rightarrow> bytes) \<Rightarrow> tree \<Rightarrow> nid \<Rightarrow> bool" where
  "on_disk C f t x \<longleftrightarrow> sealed C (gd_key (entry t x)) (gd_mac (entry t x)) (plain t x) (f (phys x))"

definition full :: "('s, 'd) file_inner \<Rightarrow> node_list \<Rightarrow> node_list" where
  "full s xrs = (root_id, fi_root_mht s) # xrs"

definition cache_ok :: "('s, 'd) file_inner \<Rightarrow> node_list \<Rightarrow> tree \<Rightarrow> nat \<Rightarrow> bool" where
  "cache_ok s xrs t n' \<longleftrightarrow> lru_repr (fi_cache s) (keyed xrs) \<and> tree_heap (fi_heap s) (full s xrs) t \<and>
     (\<forall>x\<in>fst ` set xrs. in_file n' x)"

definition dirty_ok :: "('s, 'd) file_inner \<Rightarrow> node_list \<Rightarrow> nat \<Rightarrow> bool" where
  "dirty_ok s xrs n \<longleftrightarrow>
     (\<forall>x r. (x, r) \<in> set xrs \<longrightarrow> dirty (fi_heap s) r \<longrightarrow> in_file n x \<and>
        (\<forall>p. (MhtId (par x), p) \<in> set (full s xrs) \<longrightarrow> dirty (fi_heap s) p)) \<and>
     (dirty (fi_heap s) (fi_root_mht s) \<longrightarrow> fi_need_writing s \<and> 0 < n)"

definition unchanged :: "('s, 'd) file_inner \<Rightarrow> node_list \<Rightarrow> nid \<Rightarrow> bool" where
  "unchanged s xrs x \<longleftrightarrow> (\<forall>r. (x, r) \<in> set xrs \<longrightarrow> \<not> dirty (fi_heap s) r)"

definition keys_ok :: "('s, 'd) env \<Rightarrow> ('s, 'd) file_inner \<Rightarrow> bool" where
  "keys_ok E s \<longleftrightarrow> aead_correct (env_ossl E) \<and> rng_works (env_ossl E) \<and> kg_ok (fi_key_gen s) \<and>
     metadata_encrypt_flags (fi_metadata s) \<in> {EF_UserKey, EF_IntegrityOnly}"

definition meta_ok :: "metadata_info \<Rightarrow> bool" where
  "meta_ok m \<longleftrightarrow> meta_wf m \<and> mp_file_id (mi_plain m) = SGX_FILE_ID \<and>
     mp_major_version (mi_plain m) = SGX_FILE_MAJOR_VERSION \<and> mp_update_flag (mi_plain m) = 0"

lemma cache_okD:
  assumes "cache_ok s xrs t n'"
  shows "lru_iter (fi_cache s) = map snd xrs" "lru_len (fi_cache s) = length xrs"
    "distinct (map fst xrs)" "distinct (map snd xrs)" "fi_root_mht s \<notin> snd ` set xrs" "root_id \<notin> fst ` set xrs"
    "lru_find (fi_cache s) (phys x) = map_of xrs x"
    "(x, r) \<in> set (full s xrs) \<Longrightarrow> node_at (fi_heap s) (full s xrs) t x r"
    "(x, r) \<in> set (full s xrs) \<Longrightarrow> fn_wf (nodes (fi_heap s) r)" "tree_wf t"
proof -
  have a: "lru_repr (fi_cache s) (keyed xrs)" "tree_heap (fi_heap s) (full s xrs) t" using assms by (simp_all add: cache_ok_def)
  show "lru_iter (fi_cache s) = map snd xrs" "lru_len (fi_cache s) = length xrs"
    "lru_find (fi_cache s) (phys x) = map_of xrs x"
    using lru.repr_iter [OF a(1)] lru.repr_len [OF a(1)] lru.repr_find [OF a(1)] by simp_all
  show "distinct (map fst xrs)" "distinct (map snd xrs)" "fi_root_mht s \<notin> snd ` set xrs" "root_id \<notin> fst ` set xrs"
    "tree_wf t"
    using a(2) by (simp_all add: tree_heap_def full_def)
  show "node_at (fi_heap s) (full s xrs) t x r" "fn_wf (nodes (fi_heap s) r)" if "(x, r) \<in> set (full s xrs)"
    using tree_heapD [OF a(2) that] by simp_all
qed

lemma in_full [simp]: "(root_id, fi_root_mht s) \<in> set (full s xrs)" "xr \<in> set xrs \<Longrightarrow> xr \<in> set (full s xrs)"
  by (simp_all add: full_def)

lemma set_full: "set (full s xrs) = insert (root_id, fi_root_mht s) (set xrs)"
  by (simp add: full_def)

text \<open>A changed node implies a changed root.\<close>

lemma dirty_root:
  assumes "cache_ok s xrs t n'" "dirty_ok s xrs n" "(x, r) \<in> set (full s xrs)" "dirty (fi_heap s) r"
  shows "dirty (fi_heap s) (fi_root_mht s)"
  using assms(3,4)
proof (induction "phys x" arbitrary: x r rule: less_induct)
  case less
  have th: "tree_heap (fi_heap s) (full s xrs) t" using assms(1) by (simp add: cache_ok_def)
  show ?case
  proof (cases "x = root_id")
    case True
    then show ?thesis using less.prems cache_okD(6) [OF assms(1)] by (force simp: set_full)
  next
    case False
    obtain p where p: "(MhtId (par x), p) \<in> set (full s xrs)" using tree_heap_parent [OF th less.prems(1) False] by blast
    then have "dirty (fi_heap s) p" using assms(2) less.prems False by (auto simp: dirty_ok_def set_full)
    then show ?thesis using less.hyps [OF _ p] phys_par_less [OF False] by simp
  qed
qed

context block_set
begin

definition fblk :: "('s, 'd) file_inner \<Rightarrow> nat \<Rightarrow> bytes" where
  "fblk s p = blk (fi_world s) (bf_disk (fi_host_file s)) p"

definition nblk :: "('s, 'd) file_inner \<Rightarrow> nat" where
  "nblk s = bs_nblocks B (bf_disk (fi_host_file s))"

definition store_ok :: "('s, 'd) env \<Rightarrow> ('s, 'd) file_inner \<Rightarrow> nat \<Rightarrow> bool" where
  "store_ok E s k \<longleftrightarrow> env_bs E = B \<and> valid (fi_world s) (bf_disk (fi_host_file s)) \<and>
     sep (bf_disk (fi_host_file s)) (rj_disk (fi_journal s)) \<and>
     sep (rj_disk (fi_journal s)) (bf_disk (fi_host_file s)) \<and>
     nblk s * BLOCK_SIZE < 2 ^ 64 \<and> 2 \<le> nblk s \<and>
     (\<exists>log. journal_inv (fi_world s) (fi_journal s) log \<and> length log = k)"

definition jroom :: "('s, 'd) file_inner \<Rightarrow> nat \<Rightarrow> bool" where
  "jroom s k \<longleftrightarrow> INNER_OFFSET + k \<le> (bs_nblocks B (rj_disk (fi_journal s)) - 1) * BLOCK_SIZE"

definition disk_ok :: "openssl \<Rightarrow> ('s, 'd) file_inner \<Rightarrow> node_list \<Rightarrow> tree \<Rightarrow> nat \<Rightarrow> bool" where
  "disk_ok C s xrs t n \<longleftrightarrow>
     (\<forall>x. x \<noteq> root_id \<longrightarrow> in_file n x \<longrightarrow> unchanged s xrs x \<longrightarrow> on_disk C (fblk s) t x) \<and>
     (0 < n \<longrightarrow> \<not> dirty (fi_heap s) (fi_root_mht s) \<longrightarrow>
        sealed C (me_mht_key (mi_enc (fi_metadata s))) (me_mht_gmac (mi_enc (fi_metadata s)))
          (plain t root_id) (fblk s 1))"

definition saved_ok :: "openssl \<Rightarrow> ('s, 'd) file_inner \<Rightarrow> bool" where
  "saved_ok C s \<longleftrightarrow> (\<not> fi_need_writing s \<longrightarrow> fblk s 0 = metadata_bytes (fi_metadata s) \<and>
     meta_sealed C (kg_metadata_key (fi_key_gen s)) (fi_metadata s))"

definition file_inv ::
  "('s, 'd) env \<Rightarrow> ('s, 'd) file_inner \<Rightarrow> node_list \<Rightarrow> tree \<Rightarrow> nat \<Rightarrow> nat \<Rightarrow> nat \<Rightarrow> bool"
where
  "file_inv E s xrs t n n' k \<longleftrightarrow> store_ok E s k \<and> keys_ok E s \<and> meta_ok (fi_metadata s) \<and>
     cache_ok s xrs t n' \<and> dirty_ok s xrs n \<and> disk_ok (env_ossl E) s xrs t n \<and> saved_ok (env_ossl E) s \<and>
     n \<le> n' \<and> n = data_nodes (file_size_of s) \<and> (0 < n' \<longrightarrow> data_phys (n' - 1) < nblk s)"

section \<open>Steps on the storage\<close>

lemma only_blk: "only w w' d \<Longrightarrow> sep d d' \<Longrightarrow> valid w d' \<Longrightarrow> i < bs_nblocks B d' \<Longrightarrow> blk w' d' i = blk w d' i"
  using blk_content [of w d' i] blk_content [of w' d' i] only_content only_valid by metis

definition host_step :: "('s, 'd) file_inner \<Rightarrow> ('s, 'd) file_inner \<Rightarrow> bool" where
  "host_step s s' \<longleftrightarrow> (\<exists>w f. s' = s\<lparr>fi_world := w, fi_host_file := f\<rparr> \<and> bf_disk f = bf_disk (fi_host_file s) \<and>
     only (fi_world s) w (bf_disk (fi_host_file s)))"

definition journal_step :: "('s, 'd) file_inner \<Rightarrow> ('s, 'd) file_inner \<Rightarrow> bool" where
  "journal_step s s' \<longleftrightarrow> (\<exists>w j. s' = s\<lparr>fi_world := w, fi_journal := j\<rparr> \<and> rj_disk j = rj_disk (fi_journal s) \<and>
     only (fi_world s) w (rj_disk (fi_journal s)))"

lemma host_step_refl [simp]: "host_step s s"
  unfolding host_step_def by (rule exI [of _ "fi_world s"], rule exI [of _ "fi_host_file s"]) simp

lemma host_step_trans: "host_step s s' \<Longrightarrow> host_step s' s'' \<Longrightarrow> host_step s s''"
  unfolding host_step_def using only_trans by fastforce

lemma host_step_store:
  assumes "store_ok E s k" "host_step s s'" shows "store_ok E s' k" "nblk s' = nblk s"
proof -
  obtain w f where s': "s' = s\<lparr>fi_world := w, fi_host_file := f\<rparr>" "bf_disk f = bf_disk (fi_host_file s)"
    "only (fi_world s) w (bf_disk (fi_host_file s))"
    using assms(2) by (auto simp: host_step_def)
  obtain log where log: "journal_inv (fi_world s) (fi_journal s) log" "length log = k"
    using assms(1) by (auto simp: store_ok_def)
  have "content w (rj_disk (fi_journal s)) = content (fi_world s) (rj_disk (fi_journal s))"
    using only_content [OF s'(3)] assms(1) log(1) by (auto simp: store_ok_def journal_inv_def)
  then have "journal_inv w (fi_journal s) log"
    using log(1) only_valid [OF s'(3)] by (auto simp: journal_inv_def)
  then show "store_ok E s' k" "nblk s' = nblk s"
    using assms(1) s' log(2) only_valid [OF s'(3)] by (auto simp: store_ok_def nblk_def)
qed

lemma journal_step_store:
  assumes "store_ok E s k" "journal_step s s'" "journal_inv (fi_world s') (fi_journal s') log"
  shows "store_ok E s' (length log)" "nblk s' = nblk s" "p < nblk s \<Longrightarrow> fblk s' p = fblk s p" "jroom s' = jroom s"
proof -
  obtain w j where s': "s' = s\<lparr>fi_world := w, fi_journal := j\<rparr>" "rj_disk j = rj_disk (fi_journal s)"
    "only (fi_world s) w (rj_disk (fi_journal s))"
    using assms(2) by (auto simp: journal_step_def)
  show "store_ok E s' (length log)" "nblk s' = nblk s" "jroom s' = jroom s"
    using assms(1,3) s' only_valid [OF s'(3)] by (auto simp: store_ok_def nblk_def jroom_def fun_eq_iff)
  show "fblk s' p = fblk s p" if "p < nblk s"
    using only_blk [OF s'(3)] assms(1) that s'(1,2) by (auto simp: store_ok_def nblk_def fblk_def)
qed

lemma journal_step_trans: "journal_step s s' \<Longrightarrow> journal_step s' s'' \<Longrightarrow> journal_step s s''"
  unfolding journal_step_def using only_trans by fastforce

lemma with_host_write:
  assumes "store_ok E s k" "number < nblk s" "length buf = NODE_SIZE"
  shows "\<exists>s'. with_host (block_file_write E number buf) s = (Ok (), s') \<and> host_step s s' \<and>
    (\<forall>p < nblk s. fblk s' p = (if p = number then buf else fblk s p))"
proof -
  obtain w f where w: "block_file_write E number buf (fi_world s, fi_host_file s) = (Ok (), w, f)"
    "bf_disk f = bf_disk (fi_host_file s)" "only (fi_world s) w (bf_disk (fi_host_file s))"
    "\<forall>i < nblk s. blk w (bf_disk (fi_host_file s)) i =
       (if i = number then buf else blk (fi_world s) (bf_disk (fi_host_file s)) i)"
    using block_file_write_Ok [of E "fi_world s" "fi_host_file s" number buf] assms
    by (auto simp: store_ok_def nblk_def)
  show ?thesis
    using with_host_simps [of "block_file_write E number buf", OF w(1)] w by (auto simp: host_step_def fblk_def)
qed

lemma with_host_flush:
  assumes "store_ok E s k"
  shows "\<exists>s'. with_host (block_file_flush E) s = (Ok (), s') \<and> host_step s s' \<and> (\<forall>p < nblk s. fblk s' p = fblk s p)"
proof -
  have v: "valid (fi_world s) (bf_disk (fi_host_file s))" using assms by (simp add: store_ok_def)
  obtain w where w: "block_file_flush E (fi_world s, fi_host_file s) = (Ok (), w, fi_host_file s)"
    "only (fi_world s) w (bf_disk (fi_host_file s))"
    "\<forall>d'. valid (fi_world s) d' \<longrightarrow> content w d' = content (fi_world s) d'"
    using block_file_flush_Ok [of E "fi_world s" "fi_host_file s"] assms by (auto simp: store_ok_def)
  have "blk w (bf_disk (fi_host_file s)) p = blk (fi_world s) (bf_disk (fi_host_file s)) p" if "p < nblk s" for p
    using blk_content [OF v] blk_content [OF only_valid [OF w(2) v]] w(3) v that by (metis nblk_def)
  moreover have "host_step s (s\<lparr>fi_world := w\<rparr>)"
    unfolding host_step_def by (rule exI [of _ w], rule exI [of _ "fi_host_file s"]) (simp add: w(2))
  ultimately show ?thesis using with_host_simps [of "block_file_flush E", OF w(1)] by (auto simp: fblk_def)
qed

lemma with_journal_Ok:
  assumes "store_ok E s k"
    and f: "\<And>log. journal_inv (fi_world s) (fi_journal s) log \<Longrightarrow> length log = k \<Longrightarrow>
      \<exists>w j. f (fi_world s, fi_journal s) = (Ok (), w, j) \<and> (\<exists>log'. journal_inv w j log' \<and> length log' = k' \<and> P w j) \<and>
        rj_disk j = rj_disk (fi_journal s) \<and> only (fi_world s) w (rj_disk (fi_journal s))"
  shows "\<exists>s'. with_journal f s = (Ok (), s') \<and> journal_step s s' \<and> store_ok E s' k' \<and> nblk s' = nblk s \<and>
    (\<forall>p < nblk s. fblk s' p = fblk s p) \<and> jroom s' = jroom s \<and> P (fi_world s') (fi_journal s')"
proof -
  obtain log where log: "journal_inv (fi_world s) (fi_journal s) log" "length log = k"
    using assms(1) by (auto simp: store_ok_def)
  obtain w j log' where w: "f (fi_world s, fi_journal s) = (Ok (), w, j)" "journal_inv w j log'" "length log' = k'" "P w j"
    "rj_disk j = rj_disk (fi_journal s)" "only (fi_world s) w (rj_disk (fi_journal s))"
    using f [OF log] by blast
  define s' where "s' = s\<lparr>fi_world := w, fi_journal := j\<rparr>"
  have st: "journal_step s s'" unfolding journal_step_def s'_def using w(5,6) by blast
  have "journal_inv (fi_world s') (fi_journal s') log'" using w(2) by (simp add: s'_def)
  note ss = journal_step_store [OF assms(1) st this]
  show ?thesis
    using with_journal_simps [of f, OF w(1)] st ss w(3,4) by (intro exI [of _ s']) (auto simp: s'_def)
qed

end

end
