(* ===== verification/Flush_Correct.thy ===== *)
theory Flush_Correct
  imports File_Inv
begin

text \<open>
  The flush of an open file.  Under the invariant \<open>internal_flush\<close> succeeds, writes every changed
  node, and leaves a state in which nothing is changed, with the same content.  The phases follow
  the code: journal the old blocks, set the update flag, seal the nodes bottom up, seal the
  metadata, write the blocks.
\<close>

section \<open>Sealing\<close>

definition seal_step :: "('s, 'd) file_inner \<Rightarrow> ('s, 'd) file_inner \<Rightarrow> bool" where
  "seal_step s s' \<longleftrightarrow> (\<exists>h kg rng. s' = s\<lparr>fi_heap := h, fi_key_gen := kg, fi_rng := rng\<rparr> \<and>
     same_flags (fi_heap s) h \<and> kg_ok kg \<and> kg_metadata_key kg = kg_metadata_key (fi_key_gen s) \<and>
     (kg = KgIntegrityOnly) = (fi_key_gen s = KgIntegrityOnly))"

lemma seal_step_refl: "kg_ok (fi_key_gen s) \<Longrightarrow> seal_step s s"
  unfolding seal_step_def
  by (rule exI [of _ "fi_heap s"], rule exI [of _ "fi_key_gen s"], rule exI [of _ "fi_rng s"]) simp

lemma seal_step_trans:
  assumes "seal_step s s'" "seal_step s' s''" shows "seal_step s s''"
proof -
  obtain h kg rng where a: "s' = s\<lparr>fi_heap := h, fi_key_gen := kg, fi_rng := rng\<rparr>" "same_flags (fi_heap s) h"
    "kg_metadata_key kg = kg_metadata_key (fi_key_gen s)" "(kg = KgIntegrityOnly) = (fi_key_gen s = KgIntegrityOnly)"
    using assms(1) unfolding seal_step_def by blast
  obtain h' kg' rng' where b: "s'' = s'\<lparr>fi_heap := h', fi_key_gen := kg', fi_rng := rng'\<rparr>" "same_flags (fi_heap s') h'"
    "kg_ok kg'" "kg_metadata_key kg' = kg_metadata_key (fi_key_gen s')"
    "(kg' = KgIntegrityOnly) = (fi_key_gen s' = KgIntegrityOnly)"
    using assms(2) unfolding seal_step_def by blast
  have "same_flags (fi_heap s) h'" using a(1) b(2) by (intro same_flags_trans [OF a(2)]) simp
  then show ?thesis unfolding seal_step_def
    by (intro exI [of _ h'] exI [of _ kg'] exI [of _ rng']) (use a b in simp)
qed

definition held :: "openssl \<Rightarrow> ('s, 'd) file_inner \<Rightarrow> tree \<Rightarrow> nid \<Rightarrow> node_ref \<Rightarrow> bool" where
  "held C s t x r \<longleftrightarrow> sealed C (gd_key (entry t x)) (gd_mac (entry t x)) (plain t x) (fn_node_data (node_of s r))"

lemma node_key:
  assumes "rng_works C" "kg_ok (fi_key_gen s)"
  obtains kg rng where "with_keys (node_derive_key C n) s = (Ok key_default, s\<lparr>fi_key_gen := kg, fi_rng := rng\<rparr>)"
    "kg_ok kg" "kg_metadata_key kg = kg_metadata_key (fi_key_gen s)"
    "(kg = KgIntegrityOnly) = (fi_key_gen s = KgIntegrityOnly)"
proof -
  obtain kid kg rng where "fs_derive_key C (fi_key_gen s) KeyRandom (fn_physical_number n) (fi_rng s) = (Ok (key_default, kid), kg, rng)"
    "kg_ok kg" "kg_metadata_key kg = kg_metadata_key (fi_key_gen s)" "(kg = KgIntegrityOnly) = (fi_key_gen s = KgIntegrityOnly)"
    by (rule fs_derive_random_Ok [OF assms])
  then show thesis using that by (simp add: with_keys_def node_derive_key_def)
qed

lemma seal_node_Ok:
  assumes C: "aead_correct (env_ossl E)" "rng_works (env_ossl E)" "kg_ok (fi_key_gen s)"
    and h: "tree_heap (fi_heap s) xrs t" "(x, r) \<in> set xrs" "x \<noteq> root_id"
  shows "\<exists>mac s'. seal_node E r s = (Ok (key_default, mac), s') \<and> seal_step s s' \<and>
    tree_heap (fi_heap s') xrs (set_entry x \<lparr>gd_key = key_default, gd_mac = mac\<rparr> t) \<and>
    sealed (env_ossl E) key_default mac (plain t x) (fn_node_data (node_of s' r)) \<and>
    (\<forall>r'. r' \<noteq> r \<longrightarrow> fn_node_data (node_of s' r') = fn_node_data (node_of s r'))"
proof -
  obtain kg rng where k: "with_keys (node_derive_key (env_ossl E) (node_of s r)) s = (Ok key_default, s\<lparr>fi_key_gen := kg, fi_rng := rng\<rparr>)"
    "kg_ok kg" "kg_metadata_key kg = kg_metadata_key (fi_key_gen s)" "(kg = KgIntegrityOnly) = (fi_key_gen s = KgIntegrityOnly)"
    by (rule node_key [OF C(2,3)])
  obtain mac h' where e: "node_encrypt (env_ossl E) key_default r (fi_heap s) = (Ok mac, h')"
    "tree_heap h' xrs (set_entry x \<lparr>gd_key = key_default, gd_mac = mac\<rparr> t)"
    "sealed (env_ossl E) key_default mac (plain t x) (fn_node_data (nodes h' r))" "same_flags (fi_heap s) h'"
    "\<forall>r'. r' \<noteq> r \<longrightarrow> fn_node_data (nodes h' r') = fn_node_data (nodes (fi_heap s) r')"
    using node_encrypt_tree [OF C(1) h, of key_default] by (auto simp: key_default_def)
  define s' where "s' = s\<lparr>fi_key_gen := kg, fi_rng := rng, fi_heap := h'\<rparr>"
  have "seal_node E r s = (Ok (key_default, mac), s')"
    using k(1) e(1) by (simp add: seal_node_def with_heap_def s'_def)
  moreover have "seal_step s s'" unfolding seal_step_def
    by (rule exI [of _ h'], rule exI [of _ kg], rule exI [of _ rng]) (use e(4) k in \<open>simp add: s'_def\<close>)
  ultimately show ?thesis using e by (auto simp: s'_def node_of_def)
qed

lemma seal_root_Ok:
  assumes C: "aead_correct (env_ossl E)" "rng_works (env_ossl E)" "kg_ok (fi_key_gen s)"
    and h: "tree_heap (fi_heap s) xrs t" "(root_id, r) \<in> set xrs"
  shows "\<exists>mac s'. seal_node E r s = (Ok (key_default, mac), s') \<and> seal_step s s' \<and> length mac = 16 \<and>
    tree_heap (fi_heap s') xrs t \<and>
    sealed (env_ossl E) key_default mac (plain t root_id) (fn_node_data (node_of s' r)) \<and>
    (\<forall>r'. r' \<noteq> r \<longrightarrow> fn_node_data (node_of s' r') = fn_node_data (node_of s r'))"
proof -
  obtain kg rng where k: "with_keys (node_derive_key (env_ossl E) (node_of s r)) s = (Ok key_default, s\<lparr>fi_key_gen := kg, fi_rng := rng\<rparr>)"
    "kg_ok kg" "kg_metadata_key kg = kg_metadata_key (fi_key_gen s)" "(kg = KgIntegrityOnly) = (fi_key_gen s = KgIntegrityOnly)"
    by (rule node_key [OF C(2,3)])
  obtain mac h' where e: "node_encrypt (env_ossl E) key_default r (fi_heap s) = (Ok mac, h')" "length mac = 16"
    "tree_heap h' xrs t" "sealed (env_ossl E) key_default mac (plain t root_id) (fn_node_data (nodes h' r))" "same_flags (fi_heap s) h'"
    "\<forall>r'. r' \<noteq> r \<longrightarrow> fn_node_data (nodes h' r') = fn_node_data (nodes (fi_heap s) r')"
    using node_encrypt_tree_root [OF C(1) h, of key_default] by auto
  define s' where "s' = s\<lparr>fi_key_gen := kg, fi_rng := rng, fi_heap := h'\<rparr>"
  have "seal_node E r s = (Ok (key_default, mac), s')"
    using k(1) e(1) by (simp add: seal_node_def with_heap_def s'_def)
  moreover have "seal_step s s'" unfolding seal_step_def
    by (rule exI [of _ h'], rule exI [of _ kg], rule exI [of _ rng]) (use e(5) k in \<open>simp add: s'_def\<close>)
  ultimately show ?thesis using e by (auto simp: s'_def node_of_def)
qed

text \<open>
  Sealing a list of nodes in which no later node is a child of an earlier one: every node of the
  list then holds its sealed content.
\<close>

lemma update_mht_nodes_Ok:
  assumes C: "aead_correct (env_ossl E)" "rng_works (env_ossl E)" "kg_ok (fi_key_gen s)"
    and h: "tree_heap (fi_heap s) xrs t" "set ys \<subseteq> set xrs" "root_id \<notin> fst ` set ys"
    and d: "distinct (map fst ys)" "distinct (map snd ys)"
    and o: "sorted_wrt (\<lambda>a b. MhtId (par (fst b)) \<noteq> fst a) ys"
  shows "\<exists>s' t'. update_mht_nodes E (map snd ys) s = (Ok (), s') \<and> seal_step s s' \<and>
    tree_heap (fi_heap s') xrs t' \<and> t_data t' = t_data t \<and>
    (\<forall>(x, r)\<in>set ys. held (env_ossl E) s' t' x r) \<and>
    (\<forall>x. x \<noteq> root_id \<longrightarrow> x \<notin> fst ` set ys \<longrightarrow> entry t' x = entry t x) \<and>
    (\<forall>x. x \<notin> (\<lambda>y. MhtId (par (fst y))) ` set ys \<longrightarrow> plain t' x = plain t x) \<and>
    (\<forall>r. r \<notin> snd ` set ys \<longrightarrow> fn_node_data (node_of s' r) = fn_node_data (node_of s r))"
  using C(3) h d o
proof (induction ys arbitrary: s t)
  case Nil
  then show ?case using seal_step_refl by auto
next
  case (Cons y ys)
  obtain x r where y: "y = (x, r)" by fastforce
  obtain mac s1 where s1: "seal_node E r s = (Ok (key_default, mac), s1)" "seal_step s s1"
    "tree_heap (fi_heap s1) xrs (set_entry x \<lparr>gd_key = key_default, gd_mac = mac\<rparr> t)"
    "sealed (env_ossl E) key_default mac (plain t x) (fn_node_data (node_of s1 r))"
    "\<forall>r'. r' \<noteq> r \<longrightarrow> fn_node_data (node_of s1 r') = fn_node_data (node_of s r')"
    using seal_node_Ok [OF C(1,2) Cons.prems(1,2), of x r] Cons.prems(3,4) y by auto
  let ?t = "set_entry x \<lparr>gd_key = key_default, gd_mac = mac\<rparr> t"
  have k1: "kg_ok (fi_key_gen s1)" using s1(2) by (auto simp: seal_step_def)
  obtain s2 t2 where s2: "update_mht_nodes E (map snd ys) s1 = (Ok (), s2)" "seal_step s1 s2"
    "tree_heap (fi_heap s2) xrs t2" "t_data t2 = t_data ?t"
    "\<forall>(x, r)\<in>set ys. held (env_ossl E) s2 t2 x r"
    "\<forall>x'. x' \<noteq> root_id \<longrightarrow> x' \<notin> fst ` set ys \<longrightarrow> entry t2 x' = entry ?t x'"
    "\<forall>x'. x' \<notin> (\<lambda>y. MhtId (par (fst y))) ` set ys \<longrightarrow> plain t2 x' = plain ?t x'"
    "\<forall>r. r \<notin> snd ` set ys \<longrightarrow> fn_node_data (node_of s2 r) = fn_node_data (node_of s1 r)"
    using Cons.IH [OF k1 s1(3)] Cons.prems by auto
  have x: "x \<noteq> root_id" "x \<notin> fst ` set ys" "r \<notin> snd ` set ys" "x \<notin> (\<lambda>y. MhtId (par (fst y))) ` set ys"
    using Cons.prems(4-7) y by auto
  have tw: "tree_wf t" using Cons.prems(2) by simp
  have "held (env_ossl E) s2 t2 x r"
    using s1(4) s2(6-8) x tw plain_set_entry [OF par_neq [OF x(1), symmetric]] by (simp add: held_def)
  moreover have "entry t2 z = entry t z" if "z \<noteq> root_id" "z \<notin> fst ` set (y # ys)" for z
    using s2(6) that entry_set_other [of z x] x(1) y by simp
  moreover have "plain t2 z = plain t z" if "z \<notin> (\<lambda>y. MhtId (par (fst y))) ` set (y # ys)" for z
    using s2(7) that y by simp
  moreover have "fn_node_data (node_of s2 q) = fn_node_data (node_of s q)" if "q \<notin> snd ` set (y # ys)" for q
    using s2(8) s1(5) that y by simp
  ultimately show ?case
    using s1(1) s2 seal_step_trans [OF s1(2) s2(2)] y
    by (intro exI [of _ s2] exI [of _ t2]) auto
qed

text \<open>Under the invariant the ancestors of a changed node are changed already.\<close>

lemma dirty_ancs:
  assumes "cache_ok s xrs t n'" "dirty_ok s xrs n"
  shows "(x, r) \<in> set xrs \<Longrightarrow> dirty (fi_heap s) r \<Longrightarrow> y \<in> set (ancs x) \<Longrightarrow> (y, q) \<in> set (full s xrs) \<Longrightarrow> dirty (fi_heap s) q"
proof (induction x arbitrary: r rule: ancs.induct)
  case (1 x)
  have th: "tree_heap (fi_heap s) (full s xrs) t" using assms(1) by (simp add: cache_ok_def)
  have x: "x \<noteq> root_id" "par x \<noteq> 0" using "1.prems"(1,3) cache_okD(6) [OF assms(1)] by (force, subst (asm) ancs.simps) auto
  obtain p where p: "(MhtId (par x), p) \<in> set (full s xrs)"
    using tree_heap_parent [OF th, of x r] "1.prems"(1) x(1) by auto
  have dp: "dirty (fi_heap s) p" using assms(2) "1.prems"(1,2) p unfolding dirty_ok_def by blast
  have "y = MhtId (par x) \<or> y \<in> set (ancs (MhtId (par x)))" using "1.prems"(3) x by (subst (asm) ancs.simps) auto
  then show ?case
  proof
    assume y: "y = MhtId (par x)"
    then have "q = p" using tree_heapD(3) [OF th p] tree_heapD(3) [OF th "1.prems"(4)] by simp
    then show ?thesis using dp by simp
  next
    assume y: "y \<in> set (ancs (MhtId (par x)))"
    have "(MhtId (par x), p) \<in> set xrs" using p x(2) by (simp add: set_full)
    then show ?thesis using "1.IH" [OF _ _ dp y "1.prems"(4)] x by auto
  qed
qed

lemma mark_ancestors_id:
  assumes "tree_heap (fi_heap s) xrs t" "(x, r) \<in> set xrs" "x \<noteq> root_id"
    "\<And>q. q \<in> refs_of xrs (set (ancs x)) \<Longrightarrow> dirty (fi_heap s) q"
  shows "mark_ancestors r s = (Ok (), s)"
proof -
  have "fn_logic_number (nodes (fi_heap s) r) = nid_logic x" using tree_heapD(1) [OF assms(1,2)] by (simp add: node_at_def)
  then show ?thesis
    using mark_parents_Ok [OF assms(1-3) length_ancs] mark_dirty_id [OF assms(4)]
    by (simp add: mark_ancestors_def with_heap_def node_of_def)
qed

lemma update_data_nodes_eq:
  assumes C: "aead_correct (env_ossl E)" "rng_works (env_ossl E)" "kg_ok (fi_key_gen s)"
    and h: "tree_heap (fi_heap s) xrs t" "set ys \<subseteq> set xrs" "root_id \<notin> fst ` set ys"
    and d: "\<forall>x\<in>fst ` set ys. \<forall>q\<in>refs_of xrs (set (ancs x)). dirty (fi_heap s) q"
  shows "update_data_nodes E (map snd ys) s = update_mht_nodes E (map snd ys) s"
  using C(3) h d
proof (induction ys arbitrary: s t)
  case (Cons y ys)
  obtain x r where y: "y = (x, r)" by fastforce
  obtain mac s1 where s1: "seal_node E r s = (Ok (key_default, mac), s1)" "seal_step s s1"
    "tree_heap (fi_heap s1) xrs (set_entry x \<lparr>gd_key = key_default, gd_mac = mac\<rparr> t)"
    using seal_node_Ok [OF C(1,2) Cons.prems(1,2), of x r] Cons.prems(3,4) y by auto
  have d1: "dirty (fi_heap s1) q = dirty (fi_heap s) q" for q
    using s1(2) by (auto simp: seal_step_def same_flags_dirty)
  have "mark_ancestors r s1 = (Ok (), s1)"
    by (rule mark_ancestors_id [OF s1(3)]) (use Cons.prems(3-5) y d1 in auto)
  moreover have "kg_ok (fi_key_gen s1)" using s1(2) by (auto simp: seal_step_def)
  ultimately show ?case
    using s1(1) Cons.IH [OF _ s1(3)] Cons.prems(3-5) y d1 by simp
qed simp

section \<open>The order of the MHT nodes\<close>

lemma insort_key_map: "insort_key f (g x) (map g xs) = map g (insort_key (\<lambda>z. f (g z)) x xs)"
  by (induction xs) auto

lemma sort_key_map: "sort_key f (map g xs) = map g (sort_key (\<lambda>z. f (g z)) xs)"
  by (induction xs) (simp_all add: insort_key_map)

lemma distinct_map_sort_key: "distinct (map g xs) \<Longrightarrow> distinct (map g (sort_key f xs))"
  by (simp add: distinct_map)

lemma bottom_up_order:
  assumes "tree_heap (fi_heap s) xrs t" "set zs \<subseteq> set xrs" "root_id \<notin> fst ` set zs"
  obtains ys where "bottom_up s (map snd zs) = map snd ys" "set ys = set zs"
    "distinct (map fst zs) \<Longrightarrow> distinct (map fst ys)" "distinct (map snd zs) \<Longrightarrow> distinct (map snd ys)"
    "sorted_wrt (\<lambda>a b. MhtId (par (fst b)) \<noteq> fst a) ys"
proof -
  let ?f = "\<lambda>z. - int (fn_physical_number (node_of s (snd z)))"
  let ?ys = "sort_key ?f zs"
  have ph: "fn_physical_number (node_of s (snd z)) = phys (fst z)" if "z \<in> set zs" for z
    using tree_heapD(1) [OF assms(1), of "fst z" "snd z"] assms(2) that by (auto simp: node_at_def node_of_def)
  have "sorted_wrt (\<lambda>a b. ?f a \<le> ?f b) ?ys" using sorted_sort_key [of ?f zs] by (simp add: sorted_map)
  then have "sorted_wrt (\<lambda>a b. MhtId (par (fst b)) \<noteq> fst a) ?ys"
  proof (rule sorted_wrt_mono_rel [rotated])
    fix a b assume a: "a \<in> set ?ys" "b \<in> set ?ys" "?f a \<le> ?f b"
    have "fst b \<noteq> root_id" using a(2) assms(3) by force
    then have "phys (MhtId (par (fst b))) < phys (fst b)" using phys_par_less by simp
    then show "MhtId (par (fst b)) \<noteq> fst a" using a ph by fastforce
  qed
  then show thesis
    by (intro that [of ?ys]) (simp_all add: bottom_up_def sort_key_map distinct_map_sort_key)
qed

section \<open>Sealing all changed nodes\<close>

definition changed_of :: "node_heap \<Rightarrow> node_type \<Rightarrow> node_list \<Rightarrow> node_list" where
  "changed_of h ty xrs = filter (\<lambda>z. nid_type (fst z) = ty \<and> dirty h (snd z)) xrs"

lemma cached_refs_eq:
  assumes "lru_iter (fi_cache s) = map snd xrs" "\<And>x r. (x, r) \<in> set xrs \<Longrightarrow> P (node_of s r) = Q (x, r)"
  shows "cached_refs P s = map snd (filter Q xrs)"
proof -
  have "filter (P \<circ> node_of s \<circ> snd) xrs = filter Q xrs" using assms(2) by (intro filter_cong) auto
  then show ?thesis using assms(1) by (simp add: cached_refs_def filter_map comp_def)
qed

lemma changed_ofD:
  assumes "cache_ok s xrs t n'"
  shows "set (changed_of h ty xrs) \<subseteq> set (full s xrs)" "root_id \<notin> fst ` set (changed_of h ty xrs)"
    "distinct (map fst (changed_of h ty xrs))" "distinct (map snd (changed_of h ty xrs))"
  using cache_okD(3-6) [OF assms] by (auto simp: changed_of_def set_full distinct_map intro: inj_on_subset)

lemma cached_refs_changed:
  assumes "cache_ok s xrs t n'" "seal_step s s1" "tree_heap (fi_heap s1) (full s xrs) t1"
  shows "cached_refs (\<lambda>n. is_data n \<and> fn_need_writing n) s1 = map snd (changed_of (fi_heap s) NtData xrs)"
    "cached_refs (\<lambda>n. is_mht n \<and> fn_need_writing n) s1 = map snd (changed_of (fi_heap s) NtMht xrs)"
proof -
  have c: "lru_iter (fi_cache s1) = map snd xrs" using assms(1,2) cache_okD(1) by (fastforce simp: seal_step_def)
  have d: "dirty (fi_heap s1) r = dirty (fi_heap s) r" for r
    using assms(2) by (auto simp: seal_step_def same_flags_dirty)
  have t: "fn_node_type (nodes (fi_heap s1) r) = nid_type x" if "(x, r) \<in> set xrs" for x r
    using tree_heapD(1) [OF assms(3), of x r] that by (simp add: node_at_def)
  show "cached_refs (\<lambda>n. is_data n \<and> fn_need_writing n) s1 = map snd (changed_of (fi_heap s) NtData xrs)"
    "cached_refs (\<lambda>n. is_mht n \<and> fn_need_writing n) s1 = map snd (changed_of (fi_heap s) NtMht xrs)"
    unfolding changed_of_def
    by (rule cached_refs_eq [OF c]; use t d in \<open>auto simp: is_data_def is_mht_def node_of_def dirty_def\<close>)+
qed

lemma changed_parent:
  assumes "cache_ok s xrs t n'" "dirty_ok s xrs n" "(y, r) \<in> set xrs" "dirty (fi_heap s) r"
    "unchanged s xrs (MhtId (par y))"
  shows "par y = 0"
proof -
  have th: "tree_heap (fi_heap s) (full s xrs) t" using assms(1) by (simp add: cache_ok_def)
  have "y \<noteq> root_id" using cache_okD(6) [OF assms(1)] assms(3) by force
  then obtain p where p: "(MhtId (par y), p) \<in> set (full s xrs)"
    using tree_heap_parent [OF th] assms(3) in_full(2) by metis
  then have "dirty (fi_heap s) p" using assms(2-4) unfolding dirty_ok_def by blast
  then show ?thesis using p assms(5) by (auto simp: unchanged_def set_full)
qed

lemma seal_cached_Ok:
  assumes C: "aead_correct (env_ossl E)" "rng_works (env_ossl E)" "kg_ok (fi_key_gen s)"
    and c: "cache_ok s xrs t n'" and d: "dirty_ok s xrs n"
  obtains s1 s2 t1 t2 where
    "update_data_nodes E (cached_refs (\<lambda>n. is_data n \<and> fn_need_writing n) s) s = (Ok (), s1)"
    "update_mht_nodes E (bottom_up s1 (cached_refs (\<lambda>n. is_mht n \<and> fn_need_writing n) s1)) s1 = (Ok (), s2)"
    "seal_step s s2" "tree_heap (fi_heap s2) (full s xrs) t2" "t_data t2 = t_data t"
    "\<forall>(x, r)\<in>set xrs. dirty (fi_heap s) r \<longrightarrow> held (env_ossl E) s2 t2 x r"
    "\<forall>x. x \<noteq> root_id \<longrightarrow> unchanged s xrs x \<longrightarrow> entry t2 x = entry t x \<and> plain t2 x = plain t x"
proof -
  let ?L = "full s xrs" and ?ds = "changed_of (fi_heap s) NtData xrs" and ?ms = "changed_of (fi_heap s) NtMht xrs"
  let ?P = "\<lambda>ys. (\<lambda>y. MhtId (par (fst y))) ` set ys"
  have th: "tree_heap (fi_heap s) ?L t" using c by (simp add: cache_ok_def)
  note D = changed_ofD [OF c, of "fi_heap s"]
  have anc: "\<forall>x\<in>fst ` set ?ds. \<forall>q\<in>refs_of ?L (set (ancs x)). dirty (fi_heap s) q"
    using dirty_ancs [OF c d] by (auto simp: changed_of_def refs_of_def)
  have od: "sorted_wrt (\<lambda>a b. MhtId (par (fst b)) \<noteq> fst a) ?ds"
    by (rule sorted_wrt_mono_rel [of _ "\<lambda>_ _. True"]) (auto simp: changed_of_def)
  obtain s1 t1 where s1: "update_data_nodes E (map snd ?ds) s = (Ok (), s1)" "seal_step s s1"
    "tree_heap (fi_heap s1) ?L t1" "t_data t1 = t_data t" "\<forall>(x, r)\<in>set ?ds. held (env_ossl E) s1 t1 x r"
    "\<forall>x. x \<noteq> root_id \<longrightarrow> x \<notin> fst ` set ?ds \<longrightarrow> entry t1 x = entry t x" "\<forall>x. x \<notin> ?P ?ds \<longrightarrow> plain t1 x = plain t x"
    using update_mht_nodes_Ok [OF C th D od] update_data_nodes_eq [OF C th D(1,2) anc] by auto
  have k1: "kg_ok (fi_key_gen s1)" using s1(2) by (auto simp: seal_step_def)
  obtain ms where ms: "bottom_up s1 (map snd ?ms) = map snd ms" "set ms = set ?ms"
    "distinct (map fst ms)" "distinct (map snd ms)" "sorted_wrt (\<lambda>a b. MhtId (par (fst b)) \<noteq> fst a) ms"
    using bottom_up_order [OF s1(3) D(1,2)] D(3,4) by metis
  obtain s2 t2 where s2: "update_mht_nodes E (map snd ms) s1 = (Ok (), s2)" "seal_step s1 s2"
    "tree_heap (fi_heap s2) ?L t2" "t_data t2 = t_data t1" "\<forall>(x, r)\<in>set ms. held (env_ossl E) s2 t2 x r"
    "\<forall>x. x \<noteq> root_id \<longrightarrow> x \<notin> fst ` set ms \<longrightarrow> entry t2 x = entry t1 x" "\<forall>x. x \<notin> ?P ms \<longrightarrow> plain t2 x = plain t1 x"
    "\<forall>r. r \<notin> snd ` set ms \<longrightarrow> fn_node_data (node_of s2 r) = fn_node_data (node_of s1 r)"
    using update_mht_nodes_Ok [OF C(1,2) k1 s1(3), of ms] D(1,2) ms by blast
  have h: "held (env_ossl E) s2 t2 x r" if xr: "(x, r) \<in> set xrs" "dirty (fi_heap s) r" for x r
  proof (cases "nid_type x")
    case NtMht
    then show ?thesis using s2(5) ms(2) xr by (auto simp: changed_of_def)
  next
    case NtData
    have "x \<noteq> root_id" "x \<notin> fst ` set ms" "x \<notin> ?P ms" using NtData ms(2) by (auto simp: changed_of_def)
    moreover have "r \<notin> snd ` set ms"
      using NtData ms(2) xr(1) tree_heap_ref_inj [OF th, of x r] by (force simp: changed_of_def)
    moreover have "held (env_ossl E) s1 t1 x r" using s1(5) NtData xr by (auto simp: changed_of_def)
    ultimately show ?thesis using s2(6-8) by (simp add: held_def)
  qed
  have un: "entry t2 x = entry t x \<and> plain t2 x = plain t x" if "x \<noteq> root_id" "unchanged s xrs x" for x
  proof -
    have "x \<notin> fst ` set (changed_of (fi_heap s) ty xrs)" for ty using that(2) by (auto simp: unchanged_def changed_of_def)
    moreover have "x \<notin> ?P (changed_of (fi_heap s) ty xrs)" for ty
      using changed_parent [OF c d] that by (auto simp: changed_of_def)
    ultimately show ?thesis using s1(6,7) s2(6,7) ms(2) that(1) by simp
  qed
  show thesis
    by (rule that [of s1 s2 t2]; use s1 s2 ms(1) h un seal_step_trans [OF s1(2) s2(2)]
        cached_refs_changed(1) [OF c seal_step_refl [OF C(3)] th] cached_refs_changed(2) [OF c s1(2,3)] in auto)
qed

lemma update_nodes_Ok:
  assumes C: "aead_correct (env_ossl E)" "rng_works (env_ossl E)" "kg_ok (fi_key_gen s)"
    and c: "cache_ok s xrs t n'" and d: "dirty_ok s xrs n"
  obtains s' s3 t' mac where "update_nodes E s = (Ok (), s')" "seal_step s s3" "length mac = 16"
    "s' = s3\<lparr>fi_metadata := (fi_metadata s)\<lparr>mi_enc :=
      (mi_enc (fi_metadata s))\<lparr>me_mht_key := key_default, me_mht_gmac := mac\<rparr>\<rparr>\<rparr>"
    "tree_heap (fi_heap s') (full s xrs) t'" "t_data t' = t_data t"
    "\<forall>(x, r)\<in>set xrs. dirty (fi_heap s) r \<longrightarrow> held (env_ossl E) s' t' x r"
    "sealed (env_ossl E) key_default mac (plain t' root_id) (fn_node_data (node_of s' (fi_root_mht s)))"
    "\<forall>x. x \<noteq> root_id \<longrightarrow> unchanged s xrs x \<longrightarrow> entry t' x = entry t x \<and> plain t' x = plain t x"
proof -
  obtain s1 s2 t1 t2 where s2:
    "update_data_nodes E (cached_refs (\<lambda>n. is_data n \<and> fn_need_writing n) s) s = (Ok (), s1)"
    "update_mht_nodes E (bottom_up s1 (cached_refs (\<lambda>n. is_mht n \<and> fn_need_writing n) s1)) s1 = (Ok (), s2)"
    "seal_step s s2" "tree_heap (fi_heap s2) (full s xrs) t2" "t_data t2 = t_data t"
    "\<forall>(x, r)\<in>set xrs. dirty (fi_heap s) r \<longrightarrow> held (env_ossl E) s2 t2 x r"
    "\<forall>x. x \<noteq> root_id \<longrightarrow> unchanged s xrs x \<longrightarrow> entry t2 x = entry t x \<and> plain t2 x = plain t x"
    by (rule seal_cached_Ok [OF C c d])
  have k2: "kg_ok (fi_key_gen s2)" using s2(3) by (auto simp: seal_step_def)
  obtain mac s3 where s3: "seal_node E (fi_root_mht s) s2 = (Ok (key_default, mac), s3)" "seal_step s2 s3"
    "length mac = 16" "tree_heap (fi_heap s3) (full s xrs) t2"
    "sealed (env_ossl E) key_default mac (plain t2 root_id) (fn_node_data (node_of s3 (fi_root_mht s)))"
    "\<forall>r'. r' \<noteq> fi_root_mht s \<longrightarrow> fn_node_data (node_of s3 r') = fn_node_data (node_of s2 r')"
    using seal_root_Ok [OF C(1,2) k2 s2(4)] in_full(1) by blast
  define s' where "s' = s3\<lparr>fi_metadata := (fi_metadata s)\<lparr>mi_enc :=
      (mi_enc (fi_metadata s))\<lparr>me_mht_key := key_default, me_mht_gmac := mac\<rparr>\<rparr>\<rparr>"
  have m: "fi_metadata s3 = fi_metadata s" "fi_root_mht s2 = fi_root_mht s"
    using seal_step_trans [OF s2(3) s3(2)] s2(3) by (auto simp: seal_step_def)
  have u: "update_nodes E s = (Ok (), s')"
    using s2(1,2) s3(1) m by (simp add: update_nodes_def s'_def)
  have n: "node_of s' = node_of s3" by (simp add: s'_def node_of_def fun_eq_iff)
  have "held (env_ossl E) s' t2 x r" if "(x, r) \<in> set xrs" "dirty (fi_heap s) r" for x r
  proof -
    have "r \<noteq> fi_root_mht s" using that(1) cache_okD(5) [OF c] by force
    then show ?thesis using s2(6) that s3(6) by (auto simp: held_def n)
  qed
  then show thesis
    by (intro that [OF u seal_step_trans [OF s2(3) s3(2)] s3(3) s'_def]) (use s2 s3 n in \<open>auto simp: s'_def\<close>)
qed

section \<open>The journal records\<close>

lemma record_bytes_size:
  "\<forall>d\<in>set ds. length d = RECOVERY_NODE_SIZE \<Longrightarrow> length (record_bytes ds) = length ds * Suc RECOVERY_NODE_SIZE"
  by (induction ds) (simp_all add: record_bytes_def)

lemma length_filter_split: "length (filter P xs) + length (filter (\<lambda>x. \<not> P x) xs) = length xs"
  by (induction xs) auto

text \<open>The bytes of the journal that the records of a flush take, and a bound for \<open>c\<close> nodes.\<close>

definition record_cost :: "('s, 'd) file_inner \<Rightarrow> nat" where
  "record_cost s = length (recovery_records s) * Suc RECOVERY_NODE_SIZE"

definition flush_cost :: "nat \<Rightarrow> nat" where
  "flush_cost c = (c + 2) * Suc RECOVERY_NODE_SIZE"

lemma flush_cost_mono: "a \<le> b \<Longrightarrow> flush_cost a \<le> flush_cost b"
  unfolding flush_cost_def by (intro mult_le_mono1) simp

lemma record_cost_le:
  assumes c: "cache_ok s xrs t n'" shows "record_cost s \<le> flush_cost (min (old_count (fi_heap s)) (length xrs))"
proof -
  define P where "P = (\<lambda>n :: file_node. fn_need_writing n \<and> \<not> fn_new_node n)"
  define rs where "rs = filter (\<lambda>r. P (node_of s r)) (map snd xrs)"
  have "length (recovery_records s) \<le> length rs + 2"
    using length_filter_split [of is_mht "map (node_of s) rs"] cache_okD(1) [OF c]
    by (simp add: recovery_records_def cached_refs_def rs_def P_def Let_def)
  moreover have "length rs \<le> length xrs" using length_filter_le [of _ "map snd xrs"] by (simp add: rs_def)
  moreover have "length rs \<le> old_count (fi_heap s)"
  proof -
    have "distinct rs" using cache_okD(4) [OF c] by (simp add: rs_def)
    moreover have "set rs \<subseteq> set (filter (\<lambda>r. \<not> fn_new_node (nodes (fi_heap s) r)) [0..<next_ref (fi_heap s)])"
      using c by (auto simp: rs_def P_def node_of_def cache_ok_def tree_heap_def full_def)
    ultimately show ?thesis unfolding old_count_def using card_mono [of "set (filter _ _)" "set rs"] distinct_card
      by (metis List.finite_set card_length order_trans)
  qed
  ultimately show ?thesis unfolding record_cost_def flush_cost_def by (intro mult_le_mono1) simp
qed

lemma recovery_records_size:
  assumes c: "cache_ok s xrs t n'" and m: "meta_wf (fi_metadata s)"
  shows "\<forall>d\<in>set (recovery_records s). length d = RECOVERY_NODE_SIZE"
    "write_recovery_file_node E s = with_journal (journal_append_all E (recovery_records s)) s"
proof -
  have n: "length (fn_node_data (node_of s r)) = NODE_SIZE \<and> fn_physical_number (node_of s r) \<noteq> 0"
    if "(x, r) \<in> set (full s xrs)" for x r
    using cache_okD(8) [OF c that] by (simp add: node_at_def node_of_def)
  have i: "\<forall>r\<in>set (lru_iter (fi_cache s)). \<exists>x. (x, r) \<in> set (full s xrs)"
    using cache_okD(1) [OF c] by (auto simp: set_full)
  have r: "length (fn_node_data (node_of s (fi_root_mht s))) = NODE_SIZE" "fn_physical_number (node_of s (fi_root_mht s)) \<noteq> 0"
    using n [OF in_full(1)] by simp_all
  show "\<forall>d\<in>set (recovery_records s). length d = RECOVERY_NODE_SIZE"
    using n i r length_metadata_bytes [OF m]
    by (auto simp: recovery_records_def Let_def node_record_def encrypted_node_bytes_def cached_refs_def)
  show "write_recovery_file_node E s = with_journal (journal_append_all E (recovery_records s)) s"
    by (rule write_recovery_file_node_eq) (use n i r in auto)
qed

section \<open>Sealing the metadata\<close>

definition same_header :: "metadata_info \<Rightarrow> metadata_info \<Rightarrow> bool" where
  "same_header m m' \<longleftrightarrow> mp_file_id (mi_plain m') = mp_file_id (mi_plain m) \<and>
     mp_major_version (mi_plain m') = mp_major_version (mi_plain m) \<and>
     mp_update_flag (mi_plain m') = mp_update_flag (mi_plain m) \<and>
     mp_encrypt_flags (mi_plain m') = mp_encrypt_flags (mi_plain m)"

lemma same_header_refl [simp]: "same_header m m"
  by (simp add: same_header_def)

lemma same_header_trans: "same_header m m' \<Longrightarrow> same_header m' m'' \<Longrightarrow> same_header m m''"
  by (simp add: same_header_def)

lemma meta_ok_header:
  "meta_ok m \<Longrightarrow> same_header m m' \<Longrightarrow> meta_wf m' \<Longrightarrow> meta_ok m'"
  by (simp add: meta_ok_def same_header_def)

lemma update_metadata_Ok:
  assumes C: "aead_correct (env_ossl E)" "rng_works (env_ossl E)" "kg_ok (fi_key_gen s)"
    and m: "meta_wf (fi_metadata s)" "metadata_encrypt_flags (fi_metadata s) \<in> {EF_UserKey, EF_IntegrityOnly}"
  obtains rng m' where "update_metadata E s = (Ok (), s\<lparr>fi_rng := rng, fi_metadata := m'\<rparr>)" "meta_wf m'"
    "meta_sealed (env_ossl E) (kg_metadata_key (fi_key_gen s)) m'" "mi_enc m' = mi_enc (fi_metadata s)"
    "same_header (fi_metadata s) m'"
proof -
  let ?m = "fi_metadata s" and ?k = "kg_metadata_key (fi_key_gen s)"
  obtain kid rng where k: "fs_derive_key (env_ossl E) (fi_key_gen s) KeyMetadata 0 (fi_rng s) = (Ok (?k, kid), fi_key_gen s, rng)"
    "length kid = 32"
    by (rule fs_derive_metadata_Ok [OF C(2,3)])
  define m1 where "m1 = (if metadata_encrypt_flags ?m = EF_UserKey then ?m\<lparr>mi_plain := (mi_plain ?m)\<lparr>mp_key_id := kid\<rparr>\<rparr> else ?m)"
  have d: "metadata_derive_key (env_ossl E) (fi_key_gen s) ?m (fi_rng s) = (Ok (?k, m1), fi_key_gen s, rng)"
    using k(1) m(2) by (auto simp: metadata_derive_key_def m1_def)
  have m1: "meta_wf m1" "mi_enc m1 = mi_enc ?m" "same_header ?m m1"
    using m(1) k(2) by (auto simp: m1_def meta_wf_def plain_wf_def same_header_def)
  obtain m' ct mac where e: "metadata_encrypt (env_ossl E) ?k m1 = Ok m'"
    "m' = m1\<lparr>mi_ciphertext := ct, mi_plain := (mi_plain m1)\<lparr>mp_gmac := mac\<rparr>\<rparr>"
    "meta_wf m'" "meta_sealed (env_ossl E) ?k m'"
    by (rule metadata_encrypt_Ok [OF C(1) m1(1)])
  have "update_metadata E s = (Ok (), s\<lparr>fi_rng := rng, fi_metadata := m'\<rparr>)"
    using d e(1) by (simp add: update_metadata_def with_keys_def Let_def)
  then show thesis using that e m1 by (auto simp: same_header_def)
qed

section \<open>Cleaned nodes\<close>

definition cleaned :: "node_ref set \<Rightarrow> node_heap \<Rightarrow> node_heap" where
  "cleaned R h = h\<lparr>nodes := (\<lambda>r. if r \<in> R then (nodes h r)\<lparr>fn_need_writing := False, fn_new_node := False\<rparr> else nodes h r)\<rparr>"

lemma nodes_cleaned [simp]:
  "nodes (cleaned R h) r = (if r \<in> R then (nodes h r)\<lparr>fn_need_writing := False, fn_new_node := False\<rparr> else nodes h r)"
  "next_ref (cleaned R h) = next_ref h"
  by (simp_all add: cleaned_def)

lemma dirty_cleaned [simp]: "dirty (cleaned R h) r \<longleftrightarrow> r \<notin> R \<and> dirty h r"
  by (simp add: dirty_def)

lemma cleaned_empty [simp]: "cleaned {} h = h"
  by (simp add: cleaned_def)

lemma cleaned_cleaned: "cleaned R (cleaned R' h) = cleaned (R \<union> R') h"
  by (auto simp: cleaned_def fun_eq_iff)

lemma cleaned_upd: "upd_node r (\<lambda>_. (nodes h r)\<lparr>fn_need_writing := False, fn_new_node := False\<rparr>) h = cleaned {r} h"
  by (auto simp: cleaned_def upd_node_def fun_eq_iff)

lemma tree_heap_cleaned:
  assumes "tree_heap h xrs t" shows "tree_heap (cleaned R h) xrs t"
proof -
  have "node_at (cleaned R h) xrs t x r" if "(x, r) \<in> set xrs" for x r
    using tree_heapD(1) [OF assms that] unfolding node_at_def by (cases "r \<in> R") simp_all
  then show ?thesis using assms unfolding tree_heap_def by auto
qed

context block_set
begin

lemma write_recovery_file_Ok:
  assumes st: "store_ok E s k" and c: "cache_ok s xrs t n'" and m: "meta_wf (fi_metadata s)"
    and room: "jroom s (k + record_cost s)"
  shows "\<exists>s' k'. write_recovery_file E s = (Ok (), s') \<and> journal_step s s' \<and> store_ok E s' k' \<and> nblk s' = nblk s \<and>
    (\<forall>p < nblk s. fblk s' p = fblk s p) \<and> jroom s' = jroom s \<and> k' \<le> k + record_cost s"
proof -
  let ?rs = "recovery_records s"
  note R = recovery_records_size [OF c m]
  have l: "length (record_bytes ?rs) \<le> record_cost s"
    unfolding record_bytes_size [OF R(1)]
    by (simp add: record_cost_def)
  have "\<exists>s'. with_journal (journal_append_all E ?rs) s = (Ok (), s') \<and> journal_step s s' \<and>
    store_ok E s' (k + length (record_bytes ?rs)) \<and> nblk s' = nblk s \<and>
    (\<forall>p < nblk s. fblk s' p = fblk s p) \<and> jroom s' = jroom s \<and> True"
  proof (rule with_journal_Ok [OF st])
    fix log assume log: "journal_inv (fi_world s) (fi_journal s) log" "length log = k"
    have "journal_room (fi_journal s) (log @ record_bytes ?rs)" "env_bs E = B"
      using room l log(2) st by (simp_all add: jroom_def journal_room_def store_ok_def)
    then show "\<exists>w j. journal_append_all E ?rs (fi_world s, fi_journal s) = (Ok (), w, j) \<and>
        (\<exists>log'. journal_inv w j log' \<and> length log' = k + length (record_bytes ?rs) \<and> True) \<and>
        rj_disk j = rj_disk (fi_journal s) \<and> only (fi_world s) w (rj_disk (fi_journal s))"
      using journal_append_all_Ok [OF _ log(1) R(1)] log(2) by fastforce
  qed
  then obtain s' where s': "with_journal (journal_append_all E ?rs) s = (Ok (), s')" "journal_step s s'"
    "store_ok E s' (k + length (record_bytes ?rs))" "nblk s' = nblk s" "\<forall>p < nblk s. fblk s' p = fblk s p" "jroom s' = jroom s"
    by blast
  have "write_recovery_file E s = (Ok (), s')" using R(2) s'(1) by (simp add: write_recovery_file_def)
  then show ?thesis
    by (intro exI [of _ s'] exI [of _ "k + length (record_bytes ?rs)"]) (use s' l in auto)
qed

lemma write_metadata_Ok:
  assumes "store_ok E s k" "meta_wf (fi_metadata s)"
  shows "\<exists>s'. write_metadata E s = (Ok (), s') \<and> host_step s s' \<and>
    (\<forall>p < nblk s. fblk s' p = (if p = 0 then metadata_bytes (fi_metadata s) else fblk s p))"
proof -
  have "0 < nblk s" using assms(1) by (simp add: store_ok_def)
  then show ?thesis
    using with_host_write [OF assms(1) _ length_metadata_bytes [OF assms(2)], of 0]
    by (simp add: write_metadata_def metadata_write_to_disk_def [abs_def])
qed

lemma set_update_flag_Ok:
  assumes st: "store_ok E s k" and m: "meta_wf (fi_metadata s)" "mp_update_flag (mi_plain (fi_metadata s)) = 0"
  shows "\<exists>s'. set_update_flag E fl s = (Ok (), s') \<and> host_step s s' \<and>
    (\<forall>p. 0 < p \<longrightarrow> p < nblk s \<longrightarrow> fblk s' p = fblk s p)"
proof -
  let ?s = "s\<lparr>fi_metadata := metadata_set_update_flag 1 (fi_metadata s)\<rparr>"
  have "store_ok E ?s k" using st by (simp add: store_ok_def nblk_def)
  then obtain s1 where s1: "write_metadata E ?s = (Ok (), s1)" "host_step ?s s1" "\<forall>p. 0 < p \<longrightarrow> p < nblk s \<longrightarrow> fblk s1 p = fblk s p"
    using write_metadata_Ok [of E ?s k] meta_wf_update_flag [OF m(1)] by (auto simp: nblk_def fblk_def)
  let ?s1 = "s1\<lparr>fi_metadata := metadata_set_update_flag 0 (fi_metadata s1)\<rparr>"
  have h1: "host_step s ?s1"
    using s1(2) set_update_flag_id [OF m(2)] unfolding host_step_def by fastforce
  have b1: "\<forall>p. 0 < p \<longrightarrow> p < nblk s \<longrightarrow> fblk ?s1 p = fblk s p" using s1(3) by (simp add: fblk_def)
  note st1 = host_step_store [OF st h1]
  obtain s2 where s2: "with_host (block_file_flush E) ?s1 = (Ok (), s2)" "host_step ?s1 s2" "\<forall>p < nblk s. fblk s2 p = fblk ?s1 p"
    using with_host_flush [OF st1(1)] st1(2) by auto
  show ?thesis
    using s1(1) h1 b1 s2 host_step_trans [OF h1 s2(2)] by (cases fl) (auto simp: set_update_flag_def)
qed


definition write_step :: "('s, 'd) file_inner \<Rightarrow> node_ref set \<Rightarrow> ('s, 'd) file_inner \<Rightarrow> bool" where
  "write_step s R s' \<longleftrightarrow> (\<exists>w f. s' = s\<lparr>fi_world := w, fi_host_file := f, fi_heap := cleaned R (fi_heap s)\<rparr> \<and>
     bf_disk f = bf_disk (fi_host_file s) \<and> only (fi_world s) w (bf_disk (fi_host_file s)))"

lemma write_step_trans:
  assumes "write_step s R s'" "write_step s' R' s''" shows "write_step s (R \<union> R') s''"
proof -
  obtain w f where a: "s' = s\<lparr>fi_world := w, fi_host_file := f, fi_heap := cleaned R (fi_heap s)\<rparr>"
    "bf_disk f = bf_disk (fi_host_file s)" "only (fi_world s) w (bf_disk (fi_host_file s))"
    using assms(1) unfolding write_step_def by blast
  obtain w' f' where b: "s'' = s'\<lparr>fi_world := w', fi_host_file := f', fi_heap := cleaned R' (fi_heap s')\<rparr>"
    "bf_disk f' = bf_disk (fi_host_file s')" "only (fi_world s') w' (bf_disk (fi_host_file s'))"
    using assms(2) unfolding write_step_def by blast
  have "only (fi_world s) w' (bf_disk (fi_host_file s))" using only_trans [OF a(3)] a b by simp
  then show ?thesis unfolding write_step_def
    by (intro exI [of _ w'] exI [of _ f']) (use a b in \<open>simp add: cleaned_cleaned Un_commute\<close>)
qed

lemma write_step_host: "host_step s s' \<Longrightarrow> write_step s {} s'"
  unfolding write_step_def host_step_def by fastforce

lemma write_step_store:
  assumes "store_ok E s k" "write_step s R s'" shows "store_ok E s' k" "nblk s' = nblk s"
proof -
  obtain w f where a: "s' = s\<lparr>fi_world := w, fi_host_file := f, fi_heap := cleaned R (fi_heap s)\<rparr>"
    "bf_disk f = bf_disk (fi_host_file s)" "only (fi_world s) w (bf_disk (fi_host_file s))"
    using assms(2) unfolding write_step_def by blast
  have "host_step s (s\<lparr>fi_world := w, fi_host_file := f\<rparr>)" unfolding host_step_def using a(2,3) by blast
  from host_step_store [OF assms(1) this] show "store_ok E s' k" "nblk s' = nblk s"
    unfolding a(1) by (simp_all add: store_ok_def nblk_def)
qed

lemma write_node_Ok:
  assumes st: "store_ok E s k" and n: "fn_physical_number (node_of s r) = phys x" "phys x < nblk s"
    "length (fn_node_data (node_of s r)) = NODE_SIZE"
  shows "\<exists>s'. write_node E r s = (Ok (), s') \<and> write_step s {r} s' \<and>
    (\<forall>p < nblk s. fblk s' p = (if p = phys x then fn_node_data (node_of s r) else fblk s p))"
proof -
  obtain w f where w: "block_file_write E (phys x) (fn_node_data (node_of s r)) (fi_world s, fi_host_file s) = (Ok (), w, f)"
    "bf_disk f = bf_disk (fi_host_file s)" "only (fi_world s) w (bf_disk (fi_host_file s))"
    "\<forall>i < nblk s. blk w (bf_disk (fi_host_file s)) i =
       (if i = phys x then fn_node_data (node_of s r) else blk (fi_world s) (bf_disk (fi_host_file s)) i)"
    using block_file_write_Ok [of E "fi_world s" "fi_host_file s" "phys x" "fn_node_data (node_of s r)"] assms
    by (auto simp: store_ok_def nblk_def)
  define s' where "s' = s\<lparr>fi_world := w, fi_host_file := f, fi_heap := cleaned {r} (fi_heap s)\<rparr>"
  have "write_node E r s = (Ok (), s')"
    using w(1) n(1) by (simp add: write_node_def with_host_def node_write_to_disk_def set_node_def node_of_def cleaned_upd s'_def)
  moreover have "write_step s {r} s'" unfolding write_step_def s'_def using w(2,3) by blast
  ultimately show ?thesis using w(2,4) by (auto simp: s'_def fblk_def)
qed

lemma write_nodes_Ok:
  assumes "store_ok E s k" "distinct (map fst ys)" "distinct (map snd ys)"
    "\<forall>(x, r)\<in>set ys. fn_physical_number (node_of s r) = phys x \<and> phys x < nblk s \<and> length (fn_node_data (node_of s r)) = NODE_SIZE"
  shows "\<exists>s'. write_nodes E (map snd ys) s = (Ok (), s') \<and> write_step s (snd ` set ys) s' \<and>
    (\<forall>(x, r)\<in>set ys. fblk s' (phys x) = fn_node_data (node_of s r)) \<and>
    (\<forall>p < nblk s. p \<notin> phys ` fst ` set ys \<longrightarrow> fblk s' p = fblk s p)"
  using assms
proof (induction ys arbitrary: s)
  case Nil
  then show ?case using write_step_host [OF host_step_refl] by auto
next
  case (Cons y ys)
  obtain x r where y: "y = (x, r)" by fastforce
  obtain s1 where s1: "write_node E r s = (Ok (), s1)" "write_step s {r} s1"
    "\<forall>p < nblk s. fblk s1 p = (if p = phys x then fn_node_data (node_of s r) else fblk s p)"
    using write_node_Ok [OF Cons.prems(1), of r x] Cons.prems(4) y by auto
  note st1 = write_step_store [OF Cons.prems(1) s1(2)]
  have n1: "node_of s1 q = node_of s q" if "q \<noteq> r" for q
    using s1(2) that by (auto simp: write_step_def node_of_def)
  have ys: "\<forall>(z, q)\<in>set ys. node_of s1 q = node_of s q" using Cons.prems(3) y n1 by force
  have "\<forall>(z, q)\<in>set ys. fn_physical_number (node_of s1 q) = phys z \<and> phys z < nblk s1 \<and> length (fn_node_data (node_of s1 q)) = NODE_SIZE"
    using Cons.prems(4) ys st1(2) by fastforce
  then obtain s2 where s2: "write_nodes E (map snd ys) s1 = (Ok (), s2)" "write_step s1 (snd ` set ys) s2"
    "\<forall>(x, r)\<in>set ys. fblk s2 (phys x) = fn_node_data (node_of s1 r)"
    "\<forall>p < nblk s1. p \<notin> phys ` fst ` set ys \<longrightarrow> fblk s2 p = fblk s1 p"
    using Cons.IH [OF st1(1)] Cons.prems(2,3) by auto
  have x: "phys x \<notin> phys ` fst ` set ys" "phys x < nblk s" using Cons.prems(2,4) y by (auto simp: inj_image_mem_iff [OF inj_phys])
  have "fblk s2 (phys x) = fn_node_data (node_of s r)" using s2(4) x s1(3) st1(2) by simp
  moreover have "\<forall>(z, q)\<in>set ys. fblk s2 (phys z) = fn_node_data (node_of s q)" using s2(3) ys by fastforce
  moreover have "\<forall>p < nblk s. p \<notin> phys ` fst ` set (y # ys) \<longrightarrow> fblk s2 p = fblk s p" using s2(4) s1(3) st1(2) y by auto
  moreover have "write_step s (snd ` set (y # ys)) s2" using write_step_trans [OF s1(2) s2(2)] y by simp
  ultimately show ?case using s1(1) s2(1) y by simp
qed


definition changed_refs :: "('s, 'd) file_inner \<Rightarrow> node_list \<Rightarrow> node_ref set" where
  "changed_refs s xrs = {r \<in> snd ` set (full s xrs). dirty (fi_heap s) r}"

definition written :: "('s, 'd) file_inner \<Rightarrow> node_list \<Rightarrow> ('s, 'd) file_inner \<Rightarrow> bool" where
  "written s xrs s' \<longleftrightarrow>
     (\<forall>(x, r)\<in>set (full s xrs). dirty (fi_heap s) r \<longrightarrow> fblk s' (phys x) = fn_node_data (node_of s r)) \<and>
     (\<forall>p. 0 < p \<longrightarrow> p < nblk s \<longrightarrow> (\<forall>(x, r)\<in>set (full s xrs). dirty (fi_heap s) r \<longrightarrow> p \<noteq> phys x) \<longrightarrow> fblk s' p = fblk s p)"

lemma write_changed_Ok:
  assumes st: "store_ok E s k" and c: "cache_ok s xrs t n'"
    and room: "\<forall>(x, r)\<in>set (full s xrs). dirty (fi_heap s) r \<longrightarrow> phys x < nblk s"
    and need: "is_need_write_node s = dirty (fi_heap s) (fi_root_mht s)"
    and root: "\<forall>(x, r)\<in>set xrs. dirty (fi_heap s) r \<longrightarrow> dirty (fi_heap s) (fi_root_mht s)"
  shows "\<exists>s'. (if is_need_write_node s
      then then_do (write_nodes E (rev (cached_refs fn_need_writing s)) s) (\<lambda>_ s. write_node E (fi_root_mht s) s)
      else (Ok (), s)) = (Ok (), s') \<and> write_step s (changed_refs s xrs) s' \<and> written s xrs s'"
proof (cases "dirty (fi_heap s) (fi_root_mht s)")
  case False
  then have "\<forall>(x, r)\<in>set (full s xrs). \<not> dirty (fi_heap s) r" using root by (auto simp: set_full)
  then have "written s xrs s" "changed_refs s xrs = {}" unfolding written_def changed_refs_def by auto
  then show ?thesis using False need write_step_host [OF host_step_refl] by simp
next
  case True
  let ?r = "fi_root_mht s"
  define ys where "ys = rev (filter (\<lambda>z. dirty (fi_heap s) (snd z)) xrs)"
  have ys: "rev (cached_refs fn_need_writing s) = map snd ys" "set ys = {z \<in> set xrs. dirty (fi_heap s) (snd z)}"
    using cached_refs_eq [OF cache_okD(1) [OF c], of fn_need_writing "\<lambda>z. dirty (fi_heap s) (snd z)"]
    by (auto simp: ys_def dirty_def node_of_def rev_map)
  have d: "distinct (map fst ys)" "distinct (map snd ys)"
    using cache_okD(3,4) [OF c] by (auto simp: ys_def distinct_map rev_map [symmetric] intro: inj_on_subset)
  have n: "fn_physical_number (node_of s r) = phys x" "length (fn_node_data (node_of s r)) = NODE_SIZE"
    if "(x, r) \<in> set (full s xrs)" for x r
    using cache_okD(8) [OF c that] by (auto simp: node_at_def node_of_def)
  have "\<forall>(x, r)\<in>set ys. fn_physical_number (node_of s r) = phys x \<and> phys x < nblk s \<and> length (fn_node_data (node_of s r)) = NODE_SIZE"
    using n room ys(2) by (auto simp: set_full)
  then obtain s1 where s1: "write_nodes E (map snd ys) s = (Ok (), s1)" "write_step s (snd ` set ys) s1"
    "\<forall>(x, r)\<in>set ys. fblk s1 (phys x) = fn_node_data (node_of s r)"
    "\<forall>p < nblk s. p \<notin> phys ` fst ` set ys \<longrightarrow> fblk s1 p = fblk s p"
    using write_nodes_Ok [OF st d] by blast
  note st1 = write_step_store [OF st s1(2)]
  have rr: "?r \<notin> snd ` set ys" "root_id \<notin> fst ` set ys" using ys(2) cache_okD(5,6) [OF c] by auto
  have r1: "fi_root_mht s1 = ?r" "node_of s1 ?r = node_of s ?r" using s1(2) rr by (auto simp: write_step_def node_of_def)
  obtain s2 where s2: "write_node E ?r s1 = (Ok (), s2)" "write_step s1 {?r} s2"
    "\<forall>p < nblk s. fblk s2 p = (if p = phys root_id then fn_node_data (node_of s ?r) else fblk s1 p)"
    using write_node_Ok [OF st1(1), of ?r root_id] n [OF in_full(1)] room True r1 st1(2) by (auto simp: set_full)
  have R: "snd ` set ys \<union> {?r} = changed_refs s xrs" using ys(2) True by (force simp: changed_refs_def set_full)
  have "written s xrs s2"
  proof -
    have a: "fblk s2 (phys x) = fn_node_data (node_of s r)" if "(x, r) \<in> set xrs" "dirty (fi_heap s) r" for x r
    proof -
      have "x \<noteq> root_id" "(x, r) \<in> set ys" "phys x < nblk s" using that cache_okD(6) [OF c] ys(2) room by (force simp: set_full)+
      then show ?thesis using s2(3) s1(3) by auto
    qed
    have b: "fblk s2 p = fblk s p" if "p < nblk s" "\<forall>(x, r)\<in>set (full s xrs). dirty (fi_heap s) r \<longrightarrow> p \<noteq> phys x" for p
    proof -
      have "p \<noteq> phys root_id" "p \<notin> phys ` fst ` set ys" using that(2) True ys(2) by (auto simp: set_full)
      then show ?thesis using s2(3) s1(4) that(1) by simp
    qed
    have "phys root_id < nblk s" using room True by (simp add: set_full)
    then show ?thesis using a b s2(3) by (auto simp: written_def set_full)
  qed
  then show ?thesis
    using True need s1(1) s2(1) ys(1) r1(1) write_step_trans [OF s1(2) s2(2)] R by simp
qed


text \<open>Committing the journal and resetting it.\<close>

definition journal_done :: "('s, 'd) file_inner \<Rightarrow> bool" where
  "journal_done s \<longleftrightarrow> journal_header (fi_world s) (fi_journal s) [] \<and> rj_buf (fi_journal s) = []"

definition journal_ok :: "('s, 'd) env \<Rightarrow> ('s, 'd) file_inner \<Rightarrow> nat \<Rightarrow> ('s, 'd) file_inner \<Rightarrow> bool" where
  "journal_ok E s k s' \<longleftrightarrow> journal_step s s' \<and> store_ok E s' k \<and> nblk s' = nblk s \<and>
     (\<forall>p < nblk s. fblk s' p = fblk s p) \<and> jroom s' = jroom s"

lemma journal_ok_trans: "journal_ok E s k s' \<Longrightarrow> journal_ok E s' k' s'' \<Longrightarrow> journal_ok E s k' s''"
  unfolding journal_ok_def using journal_step_trans by metis

lemma with_commit_Ok:
  assumes st: "store_ok E s k" and room: "jroom s (k + 1)"
  shows "\<exists>s'. with_journal (journal_commit E) s = (Ok (), s') \<and> journal_ok E s (k + 1) s'"
proof -
  have "\<exists>s1. with_journal (journal_commit E) s = (Ok (), s1) \<and> journal_step s s1 \<and> store_ok E s1 (k + 1) \<and> nblk s1 = nblk s \<and>
    (\<forall>p < nblk s. fblk s1 p = fblk s p) \<and> jroom s1 = jroom s \<and> True"
  proof (rule with_journal_Ok [OF st])
    fix log assume log: "journal_inv (fi_world s) (fi_journal s) log" "length log = k"
    have E: "env_bs E = B" and "journal_room (fi_journal s) (log @ [journal_flag_byte FlagCommit])"
      using st room log(2) by (simp_all add: store_ok_def jroom_def journal_room_def)
    from journal_commit_Ok [OF E log(1) this(2)]
    show "\<exists>w j. journal_commit E (fi_world s, fi_journal s) = (Ok (), w, j) \<and>
        (\<exists>log'. journal_inv w j log' \<and> length log' = k + 1 \<and> True) \<and>
        rj_disk j = rj_disk (fi_journal s) \<and> only (fi_world s) w (rj_disk (fi_journal s))"
      using log(2) by fastforce
  qed
  then show ?thesis by (simp add: journal_ok_def)
qed

lemma with_raw_flush_Ok:
  assumes st: "store_ok E s k" and room: "jroom s k"
  shows "\<exists>s'. with_journal (raw_flush E) s = (Ok (), s') \<and> journal_ok E s k s'"
proof -
  have "\<exists>s1. with_journal (raw_flush E) s = (Ok (), s1) \<and> journal_step s s1 \<and> store_ok E s1 k \<and> nblk s1 = nblk s \<and>
    (\<forall>p < nblk s. fblk s1 p = fblk s p) \<and> jroom s1 = jroom s \<and> True"
  proof (rule with_journal_Ok [OF st])
    fix log assume log: "journal_inv (fi_world s) (fi_journal s) log" "length log = k"
    have E: "env_bs E = B" and "journal_room (fi_journal s) log"
      using st room log(2) by (simp_all add: store_ok_def jroom_def journal_room_def)
    from raw_flush_Ok [OF E log(1) this(2)]
    show "\<exists>w j. raw_flush E (fi_world s, fi_journal s) = (Ok (), w, j) \<and>
        (\<exists>log'. journal_inv w j log' \<and> length log' = k \<and> True) \<and>
        rj_disk j = rj_disk (fi_journal s) \<and> only (fi_world s) w (rj_disk (fi_journal s))"
      using log(2) by blast
  qed
  then show ?thesis by (simp add: journal_ok_def)
qed

lemma with_raw_reset_Ok:
  assumes st: "store_ok E s k"
  shows "\<exists>s'. with_journal (raw_reset E) s = (Ok (), s') \<and> journal_ok E s 0 s' \<and> journal_done s'"
proof -
  have "\<exists>s1. with_journal (raw_reset E) s = (Ok (), s1) \<and> journal_step s s1 \<and> store_ok E s1 0 \<and> nblk s1 = nblk s \<and>
    (\<forall>p < nblk s. fblk s1 p = fblk s p) \<and> jroom s1 = jroom s \<and>
    (journal_header (fi_world s1) (fi_journal s1) [] \<and> rj_buf (fi_journal s1) = [])"
  proof (rule with_journal_Ok [OF st])
    fix log assume log: "journal_inv (fi_world s) (fi_journal s) log"
    have E: "env_bs E = B" using st by (simp add: store_ok_def)
    from raw_reset_Ok [OF E log]
    show "\<exists>w j. raw_reset E (fi_world s, fi_journal s) = (Ok (), w, j) \<and>
        (\<exists>log'. journal_inv w j log' \<and> length log' = 0 \<and> (journal_header w j [] \<and> rj_buf j = [])) \<and>
        rj_disk j = rj_disk (fi_journal s) \<and> only (fi_world s) w (rj_disk (fi_journal s))"
      by blast
  qed
  then show ?thesis by (simp add: journal_ok_def journal_done_def)
qed

lemma journal_finish_Ok:
  assumes st: "store_ok E s k" and room: "jroom s (k + 1)"
  shows "\<exists>s'. then_do (with_journal (journal_commit E) s) (\<lambda>_ s. then_do (with_journal (raw_flush E) s) (\<lambda>_ s.
      with_journal (raw_reset E) s)) = (Ok (), s') \<and> journal_ok E s 0 s' \<and> journal_done s'"
proof -
  obtain s1 where s1: "with_journal (journal_commit E) s = (Ok (), s1)" "journal_ok E s (k + 1) s1"
    using with_commit_Ok [OF st room] by blast
  then have a: "store_ok E s1 (k + 1)" "jroom s1 (k + 1)" using room by (simp_all add: journal_ok_def)
  obtain s2 where s2: "with_journal (raw_flush E) s1 = (Ok (), s2)" "journal_ok E s1 (k + 1) s2"
    using with_raw_flush_Ok [OF a] by blast
  then have b: "store_ok E s2 (k + 1)" by (simp add: journal_ok_def)
  obtain s3 where s3: "with_journal (raw_reset E) s2 = (Ok (), s3)" "journal_ok E s2 0 s3" "journal_done s3"
    using with_raw_reset_Ok [OF b] by blast
  show ?thesis
    using s1(1) s2(1) s3(1,3) journal_ok_trans [OF journal_ok_trans [OF s1(2) s2(2)] s3(2)] by simp
qed

definition disk_step :: "('s, 'd) file_inner \<Rightarrow> node_ref set \<Rightarrow> ('s, 'd) file_inner \<Rightarrow> bool" where
  "disk_step s R s' \<longleftrightarrow> (\<exists>w f j. s' = s\<lparr>fi_world := w, fi_host_file := f, fi_heap := cleaned R (fi_heap s), fi_journal := j\<rparr> \<and>
     bf_disk f = bf_disk (fi_host_file s) \<and> rj_disk j = rj_disk (fi_journal s))"

lemma disk_step_write: "write_step s R s' \<Longrightarrow> disk_step s R s'"
  unfolding disk_step_def write_step_def
  by (elim exE conjE, rule_tac x = w in exI, rule_tac x = f in exI, rule exI [of _ "fi_journal s"]) simp

lemma disk_step_journal: "disk_step s R s' \<Longrightarrow> journal_step s' s'' \<Longrightarrow> disk_step s R s''"
  unfolding disk_step_def journal_step_def
  by (elim exE conjE, rule_tac x = wa in exI, rule_tac x = f in exI, rule_tac x = ja in exI) simp

lemma write_to_disk_Ok:
  assumes st: "store_ok E s k" and c: "cache_ok s xrs t n'"
    and room: "\<forall>(x, r)\<in>set (full s xrs). dirty (fi_heap s) r \<longrightarrow> phys x < nblk s"
    and need: "is_need_write_node s = dirty (fi_heap s) (fi_root_mht s)"
    and root: "\<forall>(x, r)\<in>set xrs. dirty (fi_heap s) r \<longrightarrow> dirty (fi_heap s) (fi_root_mht s)"
    and m: "meta_wf (fi_metadata s)" and j: "jroom s (k + 1)"
  shows "\<exists>s'. write_to_disk E fl s = (Ok (), s') \<and> disk_step s (changed_refs s xrs) s' \<and> written s xrs s' \<and>
    fblk s' 0 = metadata_bytes (fi_metadata s) \<and> store_ok E s' (if fl then 0 else k) \<and> (fl \<longrightarrow> journal_done s')"
proof -
  obtain s1 where s1: "(if is_need_write_node s
      then then_do (write_nodes E (rev (cached_refs fn_need_writing s)) s) (\<lambda>_ s. write_node E (fi_root_mht s) s)
      else (Ok (), s)) = (Ok (), s1)" "write_step s (changed_refs s xrs) s1" "written s xrs s1"
    using write_changed_Ok [OF st c room need root] by blast
  note st1 = write_step_store [OF st s1(2)]
  have m1: "fi_metadata s1 = fi_metadata s" using s1(2) by (auto simp: write_step_def)
  obtain s2 where s2: "write_metadata E s1 = (Ok (), s2)" "host_step s1 s2"
    "\<forall>p < nblk s. fblk s2 p = (if p = 0 then metadata_bytes (fi_metadata s) else fblk s1 p)"
    using write_metadata_Ok [OF st1(1)] m m1 st1(2) by auto
  note st2 = host_step_store [OF st1(1) s2(2)]
  obtain s3 where s3: "with_host (block_file_flush E) s2 = (Ok (), s3)" "host_step s2 s3" "\<forall>p < nblk s. fblk s3 p = fblk s2 p"
    using with_host_flush [OF st2(1)] st1(2) st2(2) by auto
  note st3 = host_step_store [OF st2(1) s3(2)]
  have w3: "write_step s (changed_refs s xrs) s2" "write_step s (changed_refs s xrs) s3"
    using write_step_trans [OF s1(2) write_step_host [OF s2(2)]]
      write_step_trans [OF s1(2) write_step_host [OF host_step_trans [OF s2(2) s3(2)]]] by simp_all
  have j3: "jroom s3 (k + 1)" using j w3(2) by (auto simp: write_step_def jroom_def)
  obtain s4 where s4: "then_do (with_journal (journal_commit E) s3) (\<lambda>_ s. then_do (with_journal (raw_flush E) s) (\<lambda>_ s.
      with_journal (raw_reset E) s)) = (Ok (), s4)" "journal_step s3 s4" "store_ok E s4 0"
      "\<forall>p < nblk s. fblk s4 p = fblk s3 p" "journal_done s4"
    using journal_finish_Ok [OF st3(1) j3] st1(2) st2(2) st3(2) by (auto simp: journal_ok_def)
  define s' where "s' = (if fl then s4 else s2)"
  have e: "write_to_disk E fl s = (Ok (), s')"
    using s1(1) s2(1) s3(1) s4(1) by (simp add: write_to_disk_def s'_def)
  have b: "\<forall>p < nblk s. fblk s' p = (if p = 0 then metadata_bytes (fi_metadata s) else fblk s1 p)"
    using s2(3) s3(3) s4(4) by (simp add: s'_def)
  have "written s xrs s'" using s1(3) b room unfolding written_def by fastforce
  moreover have "disk_step s (changed_refs s xrs) s'"
    using disk_step_write [OF w3(1)] disk_step_journal [OF disk_step_write [OF w3(2)] s4(2)] by (simp add: s'_def)
  moreover have "fblk s' 0 = metadata_bytes (fi_metadata s)" using b st by (simp add: store_ok_def)
  ultimately show ?thesis using e st2(1) s4(3,5) by (simp add: s'_def)
qed


end

section \<open>The flush\<close>

text \<open>What a flush keeps of the state.\<close>

definition same_file :: "('s, 'd) file_inner \<Rightarrow> ('s, 'd) file_inner \<Rightarrow> bool" where
  "same_file s s' \<longleftrightarrow> fi_root_mht s' = fi_root_mht s \<and> fi_opts s' = fi_opts s \<and>
     fi_end_of_file s' = fi_end_of_file s \<and> fi_max_cache_page s' = fi_max_cache_page s \<and> fi_offset s' = fi_offset s \<and>
     fi_last_error s' = fi_last_error s \<and> fi_status s' = fi_status s \<and>
     bf_disk (fi_host_file s') = bf_disk (fi_host_file s) \<and> rj_disk (fi_journal s') = rj_disk (fi_journal s) \<and>
     kg_metadata_key (fi_key_gen s') = kg_metadata_key (fi_key_gen s) \<and>
     (fi_key_gen s' = KgIntegrityOnly) = (fi_key_gen s = KgIntegrityOnly) \<and>
     same_header (fi_metadata s) (fi_metadata s') \<and>
     me_size (mi_enc (fi_metadata s')) = me_size (mi_enc (fi_metadata s)) \<and>
     me_data (mi_enc (fi_metadata s')) = me_data (mi_enc (fi_metadata s)) \<and>
     me_file_name (mi_enc (fi_metadata s')) = me_file_name (mi_enc (fi_metadata s))"

definition same_view :: "('s, 'd) file_inner \<Rightarrow> ('s, 'd) file_inner \<Rightarrow> bool" where
  "same_view s s' \<longleftrightarrow> same_file s s' \<and> fi_cache s' = fi_cache s"

lemma same_file_refl [simp]: "same_file s s"
  by (simp add: same_file_def)

lemma same_file_trans: "same_file s s' \<Longrightarrow> same_file s' s'' \<Longrightarrow> same_file s s''"
  unfolding same_file_def using same_header_trans by auto

lemma same_view_refl [simp]: "same_view s s"
  by (simp add: same_view_def)

lemma same_view_trans: "same_view s s' \<Longrightarrow> same_view s' s'' \<Longrightarrow> same_view s s''"
  unfolding same_view_def using same_file_trans by auto

lemma same_file_simps:
  assumes "same_file s s'"
  shows "full s' xrs = full s xrs" "file_size_of s' = file_size_of s"
    "fi_root_mht s' = fi_root_mht s" "fi_offset s' = fi_offset s" "fi_max_cache_page s' = fi_max_cache_page s"
  using assms by (simp_all add: same_file_def full_def file_size_of_def)

lemma same_view_simps:
  assumes "same_view s s'"
  shows "full s' xrs = full s xrs" "file_size_of s' = file_size_of s"
    "fi_root_mht s' = fi_root_mht s" "fi_cache s' = fi_cache s" "fi_offset s' = fi_offset s"
    "fi_max_cache_page s' = fi_max_cache_page s"
  using assms by (simp_all add: same_view_def same_file_def full_def file_size_of_def)

lemma cache_ok_cong:
  "fi_cache s' = fi_cache s \<Longrightarrow> fi_root_mht s' = fi_root_mht s \<Longrightarrow> fi_heap s' = fi_heap s \<Longrightarrow> cache_ok s' xrs t n' = cache_ok s xrs t n'"
  by (simp add: cache_ok_def full_def)

lemma dirty_ok_cong:
  "fi_root_mht s' = fi_root_mht s \<Longrightarrow> fi_need_writing s' = fi_need_writing s \<Longrightarrow>
   (\<And>r. dirty (fi_heap s') r = dirty (fi_heap s) r) \<Longrightarrow> dirty_ok s' xrs n = dirty_ok s xrs n"
  by (simp add: dirty_ok_def full_def)

lemma unchanged_cong:
  "(\<And>r. dirty (fi_heap s') r = dirty (fi_heap s) r) \<Longrightarrow> unchanged s' xrs x = unchanged s xrs x"
  by (simp add: unchanged_def)

lemma same_view_cache_ok:
  "same_view s s' \<Longrightarrow> cache_ok s xrs t n' \<Longrightarrow> tree_heap (fi_heap s') (full s xrs) t' \<Longrightarrow> cache_ok s' xrs t' n'"
  by (simp add: cache_ok_def same_view_def same_file_def full_def)

context block_set
begin

definition sealed_state ::
  "('s, 'd) env \<Rightarrow> ('s, 'd) file_inner \<Rightarrow> node_list \<Rightarrow> tree \<Rightarrow> ('s, 'd) file_inner \<Rightarrow> tree \<Rightarrow> bool"
where
  "sealed_state E s xrs t s' t' \<longleftrightarrow> same_view s s' \<and> same_flags (fi_heap s) (fi_heap s') \<and>
     fi_need_writing s' = fi_need_writing s \<and> kg_ok (fi_key_gen s') \<and> meta_wf (fi_metadata s') \<and>
     tree_heap (fi_heap s') (full s xrs) t' \<and> t_data t' = t_data t \<and>
     (\<forall>p. 0 < p \<longrightarrow> p < nblk s \<longrightarrow> fblk s' p = fblk s p) \<and>
     (\<forall>(x, r)\<in>set xrs. dirty (fi_heap s) r \<longrightarrow> held (env_ossl E) s' t' x r) \<and>
     (if dirty (fi_heap s) (fi_root_mht s)
      then sealed (env_ossl E) (me_mht_key (mi_enc (fi_metadata s'))) (me_mht_gmac (mi_enc (fi_metadata s')))
             (plain t' root_id) (fn_node_data (node_of s' (fi_root_mht s)))
      else plain t' root_id = plain t root_id \<and> mi_enc (fi_metadata s') = mi_enc (fi_metadata s)) \<and>
     (\<forall>x. x \<noteq> root_id \<longrightarrow> unchanged s xrs x \<longrightarrow> entry t' x = entry t x \<and> plain t' x = plain t x)"

lemma file_invD:
  assumes "file_inv E s xrs t n n' k"
  shows "store_ok E s k" "keys_ok E s" "meta_ok (fi_metadata s)" "cache_ok s xrs t n'" "dirty_ok s xrs n"
    "disk_ok (env_ossl E) s xrs t n" "saved_ok (env_ossl E) s" "n \<le> n'" "n = data_nodes (file_size_of s)"
    "0 < n' \<Longrightarrow> data_phys (n' - 1) < nblk s"
    "meta_wf (fi_metadata s)" "mp_update_flag (mi_plain (fi_metadata s)) = 0"
    "aead_correct (env_ossl E)" "rng_works (env_ossl E)" "kg_ok (fi_key_gen s)"
    "metadata_encrypt_flags (fi_metadata s) \<in> {EF_UserKey, EF_IntegrityOnly}"
    "tree_heap (fi_heap s) (full s xrs) t"
  using assms unfolding file_inv_def keys_ok_def meta_ok_def cache_ok_def by blast+

lemma need_write_root:
  assumes "file_inv E s xrs t n n' k" shows "is_need_write_node s = dirty (fi_heap s) (fi_root_mht s)"
proof -
  have "MD_USER_DATA_SIZE < file_size_of s" if "dirty (fi_heap s) (fi_root_mht s)"
  proof (rule ccontr)
    assume "\<not> ?thesis"
    then have "n = 0" using file_invD(9) [OF assms] by (simp add: data_nodes_def)
    then show False using file_invD(5) [OF assms] that by (simp add: dirty_ok_def)
  qed
  then show ?thesis by (auto simp: is_need_write_node_def dirty_def node_of_def)
qed

lemma seal_phase_Ok:
  assumes inv: "file_inv E s xrs t n n' k" and d: "is_need_write_node s"
    and room: "jroom s (k + record_cost s)"
  obtains s1 s2 s' t' k' where "write_recovery_file E s = (Ok (), s1)" "set_update_flag E fl s1 = (Ok (), s2)"
    "update_nodes E s2 = (Ok (), s')" "sealed_state E s xrs t s' t'" "store_ok E s' k'" "nblk s' = nblk s" "jroom s' = jroom s"
    "k' \<le> k + record_cost s"
proof -
  note I = file_invD [OF inv]
  obtain s1 k' where s1: "write_recovery_file E s = (Ok (), s1)" "journal_step s s1" "store_ok E s1 k'" "nblk s1 = nblk s"
    "\<forall>p < nblk s. fblk s1 p = fblk s p" "jroom s1 = jroom s" "k' \<le> k + record_cost s"
    using write_recovery_file_Ok [OF I(1,4,11) room] by blast
  have e1: "fi_metadata s1 = fi_metadata s" using s1(2) by (auto simp: journal_step_def)
  obtain s2 where s2: "set_update_flag E fl s1 = (Ok (), s2)" "host_step s1 s2"
    "\<forall>p. 0 < p \<longrightarrow> p < nblk s \<longrightarrow> fblk s2 p = fblk s1 p"
    using set_update_flag_Ok [OF s1(3), of fl] I(11,12) e1 s1(4) by auto
  note st2 = host_step_store [OF s1(3) s2(2)]
  have e2: "fi_metadata s2 = fi_metadata s" "fi_cache s2 = fi_cache s" "fi_root_mht s2 = fi_root_mht s" "fi_heap s2 = fi_heap s"
    "fi_need_writing s2 = fi_need_writing s" "fi_key_gen s2 = fi_key_gen s" "same_view s s2"
    using s1(2) s2(2) by (auto simp: journal_step_def host_step_def same_view_def same_file_def)
  have full2: "full s2 xrs = full s xrs" using e2 by (simp add: full_def)
  have c2: "cache_ok s2 xrs t n'" "dirty_ok s2 xrs n"
    using I(4,5) cache_ok_cong [OF e2(2,3,4)] dirty_ok_cong [OF e2(3,5)] e2(4) by simp_all
  have u2: "unchanged s2 xrs x = unchanged s xrs x" for x by (rule unchanged_cong) (simp add: e2)
  have k2: "kg_ok (fi_key_gen s2)" using I(15) e2(6) by simp
  obtain s' s3 t' mac where s': "update_nodes E s2 = (Ok (), s')" "seal_step s2 s3" "length mac = 16"
    "s' = s3\<lparr>fi_metadata := (fi_metadata s)\<lparr>mi_enc := (mi_enc (fi_metadata s))\<lparr>me_mht_key := key_default, me_mht_gmac := mac\<rparr>\<rparr>\<rparr>"
    "tree_heap (fi_heap s') (full s xrs) t'" "t_data t' = t_data t"
    "\<forall>(x, r)\<in>set xrs. dirty (fi_heap s) r \<longrightarrow> held (env_ossl E) s' t' x r"
    "sealed (env_ossl E) key_default mac (plain t' root_id) (fn_node_data (node_of s' (fi_root_mht s)))"
    "\<forall>x. x \<noteq> root_id \<longrightarrow> unchanged s xrs x \<longrightarrow> entry t' x = entry t x \<and> plain t' x = plain t x"
    by (rule update_nodes_Ok [OF I(13,14) k2 c2, unfolded e2(1-6) full2 u2])
  obtain h kg rng where s3: "s3 = s2\<lparr>fi_heap := h, fi_key_gen := kg, fi_rng := rng\<rparr>" "same_flags (fi_heap s2) h" "kg_ok kg"
     "kg_metadata_key kg = kg_metadata_key (fi_key_gen s2)" "(kg = KgIntegrityOnly) = (fi_key_gen s2 = KgIntegrityOnly)"
    using s'(2) unfolding seal_step_def by blast
  have f: "store_ok E s' k'" "nblk s' = nblk s" "same_flags (fi_heap s) (fi_heap s')"
    "fi_need_writing s' = fi_need_writing s" "kg_ok (fi_key_gen s')" "fblk s' = fblk s2" "same_view s2 s'"
    using st2 s1(4) e2(1,4,5) s3(2-5) unfolding s'(4) s3(1)
    by (simp_all add: store_ok_def nblk_def fblk_def fun_eq_iff same_view_def same_file_def same_header_def)
  have "fi_journal s' = fi_journal s1" using s2(2) unfolding s'(4) s3(1) host_step_def by auto
  then have j: "jroom s' = jroom s" using s1(6) by (simp add: jroom_def [abs_def])
  have m: "meta_wf (fi_metadata s')" using I(11) s'(3) unfolding s'(4) by (simp add: e2 meta_wf_def enc_wf_def key_default_def)
  have "sealed_state E s xrs t s' t'"
    unfolding sealed_state_def using s'(4-9) f same_view_trans [OF e2(7) f(7)] m s1(5) s2(3) need_write_root [OF inv] d by simp
  then show thesis using that s1(1,7) s2(1) s'(1) f(1,2) j by blast
qed


lemma phys_room:
  assumes "file_inv E s xrs t n n' k" "in_file n' x" shows "phys x < nblk s"
proof (cases "x = root_id")
  case True
  then show ?thesis using file_invD(1) [OF assms(1)] by (simp add: store_ok_def)
next
  case False
  show ?thesis using in_file_phys [OF assms(2) False] file_invD(10) [OF assms(1)] by simp
qed

lemma sealed_state_refl:
  assumes inv: "file_inv E s xrs t n n' k" and d: "\<not> dirty (fi_heap s) (fi_root_mht s)"
  shows "sealed_state E s xrs t s t"
proof -
  have "\<not> dirty (fi_heap s) r" if "(x, r) \<in> set xrs" for x r
    using dirty_root [OF file_invD(4,5) [OF inv]] that d in_full(2) by blast
  then show ?thesis using file_invD(11,15,17) [OF inv] d by (auto simp: sealed_state_def)
qed

text \<open>The blocks and the state after the sealed nodes are written.\<close>

lemma flush_blocks:
  assumes inv: "file_inv E s xrs t n n' k" and se: "sealed_state E s xrs t sA t'"
    and k: "\<And>p. 0 < p \<Longrightarrow> p < nblk s \<Longrightarrow> \<forall>(x, r)\<in>set (full s xrs). dirty (fi_heap s) r \<longrightarrow> p \<noteq> phys x \<Longrightarrow> f p = fblk s p"
    and wr: "\<And>x r. (x, r) \<in> set (full s xrs) \<Longrightarrow> dirty (fi_heap s) r \<Longrightarrow> f (phys x) = fn_node_data (node_of sA r)"
  shows "x \<noteq> root_id \<Longrightarrow> in_file n x \<Longrightarrow> on_disk (env_ossl E) f t' x"
    "0 < n \<Longrightarrow> sealed (env_ossl E) (me_mht_key (mi_enc (fi_metadata sA))) (me_mht_gmac (mi_enc (fi_metadata sA)))
       (plain t' root_id) (f 1)"
proof -
  note I = file_invD [OF inv]
  show "on_disk (env_ossl E) f t' x" if x: "x \<noteq> root_id" "in_file n x"
  proof (cases "unchanged s xrs x")
    case True
    have "in_file n' x" by (rule in_file_mono [OF x(2) I(8)])
    then have ph: "phys x < nblk s" by (rule phys_room [OF inv])
    have "\<forall>(y, r)\<in>set (full s xrs). dirty (fi_heap s) r \<longrightarrow> phys x \<noteq> phys y" using True x(1) by (auto simp: unchanged_def set_full)
    then have "f (phys x) = fblk s (phys x)" using k [of "phys x"] ph by simp
    then show ?thesis using I(6) True x se unfolding disk_ok_def on_disk_def sealed_state_def by simp
  next
    case False
    then obtain r where r: "(x, r) \<in> set xrs" "dirty (fi_heap s) r" by (auto simp: unchanged_def)
    then have "held (env_ossl E) sA t' x r" using se unfolding sealed_state_def by blast
    then show ?thesis using wr [OF in_full(2) [OF r(1)] r(2)] by (simp add: on_disk_def held_def)
  qed
  show "sealed (env_ossl E) (me_mht_key (mi_enc (fi_metadata sA))) (me_mht_gmac (mi_enc (fi_metadata sA)))
       (plain t' root_id) (f 1)" if n: "0 < n"
  proof (cases "dirty (fi_heap s) (fi_root_mht s)")
    case True
    then show ?thesis using wr [OF in_full(1) True] se unfolding sealed_state_def by simp
  next
    case False
    then have "\<forall>(y, r)\<in>set (full s xrs). dirty (fi_heap s) r \<longrightarrow> 1 \<noteq> phys y"
      using dirty_root [OF I(4,5)] by blast
    then have "f 1 = fblk s 1" using k [of 1] I(1) by (simp add: store_ok_def)
    then show ?thesis using I(6) False n se unfolding disk_ok_def sealed_state_def by simp
  qed
qed

lemma flush_result:
  assumes inv: "file_inv E s xrs t n n' k" and se: "sealed_state E s xrs t sA t'"
    and B: "sB = sA\<lparr>fi_rng := rng, fi_metadata := m\<rparr>" "meta_wf m" "meta_sealed (env_ossl E) (kg_metadata_key (fi_key_gen sA)) m"
      "mi_enc m = mi_enc (fi_metadata sA)" "same_header (fi_metadata sA) m"
    and C: "disk_step sB (changed_refs sB xrs) sC" "written sB xrs sC" "fblk sC 0 = metadata_bytes m" "store_ok E sC k'"
    and nb: "nblk sB = nblk s"
  shows "file_inv E (sC\<lparr>fi_need_writing := False\<rparr>) xrs t' n n' k'" "same_view s (sC\<lparr>fi_need_writing := False\<rparr>)"
    "\<forall>(x, r)\<in>set (full s xrs). \<not> dirty (fi_heap sC) r"
proof -
  let ?s = "sC\<lparr>fi_need_writing := False\<rparr>" and ?C = "env_ossl E"
  note I = file_invD [OF inv]
  obtain w f j where sC: "sC = sB\<lparr>fi_world := w, fi_host_file := f, fi_heap := cleaned (changed_refs sB xrs) (fi_heap sB), fi_journal := j\<rparr>"
    "bf_disk f = bf_disk (fi_host_file sB)" "rj_disk j = rj_disk (fi_journal sB)"
    using C(1) unfolding disk_step_def by blast
  have vA: "same_view s sA" and th: "tree_heap (fi_heap sA) (full s xrs) t'" and fl: "same_flags (fi_heap s) (fi_heap sA)"
    and kg: "kg_ok (fi_key_gen sA)" using se by (simp_all add: sealed_state_def)
  have vB: "same_view sA ?s" using B(4,5) sC(2,3) unfolding sC(1) B(1) by (simp add: same_view_def same_file_def)
  show v: "same_view s ?s" by (rule same_view_trans [OF vA vB])
  have fB: "full sB xrs = full s xrs" using same_view_simps(1) [OF vA] by (simp add: B(1) full_def)
  have dB: "dirty (fi_heap sB) r = dirty (fi_heap s) r" for r using same_flags_dirty [OF fl] by (simp add: B(1))
  show nd: "\<forall>(x, r)\<in>set (full s xrs). \<not> dirty (fi_heap sC) r"
    unfolding sC(1) by (force simp: changed_refs_def fB)
  have hd: "fi_metadata ?s = m" "fi_key_gen ?s = fi_key_gen sA" by (simp_all add: sC(1) B(1))
  have "same_header (fi_metadata s) m" using v hd(1) by (simp add: same_view_def same_file_def)
  then have mo: "meta_ok m" "keys_ok E ?s" using meta_ok_header [OF I(3)] B(2) I(13,14,16) kg hd
    by (auto simp: keys_ok_def same_header_def metadata_encrypt_flags_def)
  have co: "cache_ok ?s xrs t' n'"
  proof (rule same_view_cache_ok [OF v I(4)])
    show "tree_heap (fi_heap ?s) (full s xrs) t'" using tree_heap_cleaned [OF th] by (simp add: sC(1) B(1))
  qed
  have "dirty_ok ?s xrs n" using nd same_view_simps(3) [OF v] by (auto simp: dirty_ok_def set_full)
  moreover have "disk_ok ?C ?s xrs t' n"
  proof -
    have b: "fblk ?s = fblk sC" "node_of sB = node_of sA" "fblk sB = fblk sA" by (simp_all add: fblk_def node_of_def B(1) fun_eq_iff)
    have "fblk sC p = fblk s p" if "0 < p" "p < nblk s" "\<forall>(x, r)\<in>set (full s xrs). dirty (fi_heap s) r \<longrightarrow> p \<noteq> phys x" for p
    proof -
      have "fblk sC p = fblk sA p" using C(2) that unfolding written_def fB dB b nb by blast
      then show ?thesis using se that(1,2) by (simp add: sealed_state_def)
    qed
    moreover have "fblk sC (phys x) = fn_node_data (node_of sA r)" if "(x, r) \<in> set (full s xrs)" "dirty (fi_heap s) r" for x r
      using C(2) that unfolding written_def fB dB b by blast
    ultimately show ?thesis using flush_blocks [OF inv se] hd(1) B(4) by (simp add: disk_ok_def b)
  qed
  moreover have "saved_ok ?C ?s" using B(3) C(3) hd by (simp add: saved_ok_def fblk_def)
  moreover have "store_ok E ?s k'" "nblk ?s = nblk s" using C(4) nb sC(2) by (simp_all add: store_ok_def nblk_def sC(1))
  ultimately show "file_inv E ?s xrs t' n n' k'"
    using co mo hd(1) I(8-10) same_view_simps(2) [OF v] by (simp add: file_inv_def)
qed


lemma flush_seal_Ok:
  assumes inv: "file_inv E s xrs t n n' k" and room: "jroom s (k + record_cost s)"
  obtains sA tA kA where "(if is_need_write_node s
             then then_do (on_err (write_recovery_file E s) (\<lambda>_. set_file_status FlushError)) (\<lambda>_ s.
                  then_do (on_err (set_update_flag E fl s) (\<lambda>_. set_file_status FlushError)) (\<lambda>_ s.
                  on_err_do (update_nodes E s) (\<lambda>_ s.
                    then_do (clear_update_flag E s) (\<lambda>_ s. (Ok (), set_file_status FlushError s)))))
             else (Ok (), s)) = (Ok (), sA)"
    "sealed_state E s xrs t sA tA" "store_ok E sA kA" "nblk sA = nblk s" "jroom sA = jroom s" "kA \<le> k + record_cost s"
proof (cases "is_need_write_node s")
  case True
  obtain s1 s2 s' t' k' where "write_recovery_file E s = (Ok (), s1)" "set_update_flag E fl s1 = (Ok (), s2)"
    "update_nodes E s2 = (Ok (), s')" "sealed_state E s xrs t s' t'" "store_ok E s' k'" "nblk s' = nblk s" "jroom s' = jroom s"
    "k' \<le> k + record_cost s"
    by (rule seal_phase_Ok [OF inv True room, of fl])
  then show thesis using that [of s' t' k'] True by simp
next
  case False
  then show thesis
    using that [of s t k] sealed_state_refl [OF inv] need_write_root [OF inv] file_invD(1) [OF inv] by simp
qed

lemma internal_flush_Ok:
  assumes inv: "file_inv E s xrs t n n' k" and room: "jroom s (k + record_cost s + 1)"
  obtains s' t' k' where "internal_flush E fl s = (Ok (), s')" "file_inv E s' xrs t' n n' k'" "same_view s s'"
    "t_data t' = t_data t" "\<not> fi_need_writing s'" "\<forall>(x, r)\<in>set (full s xrs). \<not> dirty (fi_heap s') r"
    "k' \<le> k + record_cost s" "fl \<Longrightarrow> fi_need_writing s \<Longrightarrow> k' = 0 \<and> journal_done s'"
proof (cases "fi_need_writing s")
  case False
  have "\<forall>(x, r)\<in>set (full s xrs). \<not> dirty (fi_heap s) r"
    using file_invD(4,5) [OF inv] dirty_root [OF file_invD(4,5) [OF inv]] False unfolding dirty_ok_def by blast
  then show thesis using that [of s t k] inv False by (simp add: internal_flush_def)
next
  case True
  note I = file_invD [OF inv]
  have room': "jroom s (k + record_cost s)" using room by (simp add: jroom_def)
  obtain sA tA kA where A: "(if is_need_write_node s
             then then_do (on_err (write_recovery_file E s) (\<lambda>_. set_file_status FlushError)) (\<lambda>_ s.
                  then_do (on_err (set_update_flag E fl s) (\<lambda>_. set_file_status FlushError)) (\<lambda>_ s.
                  on_err_do (update_nodes E s) (\<lambda>_ s.
                    then_do (clear_update_flag E s) (\<lambda>_ s. (Ok (), set_file_status FlushError s)))))
             else (Ok (), s)) = (Ok (), sA)"
    "sealed_state E s xrs t sA tA" "store_ok E sA kA" "nblk sA = nblk s" "jroom sA = jroom s" "kA \<le> k + record_cost s"
    by (rule flush_seal_Ok [OF inv room'])
  have vA: "same_view s sA" and fA: "kg_ok (fi_key_gen sA)" "meta_wf (fi_metadata sA)" "tree_heap (fi_heap sA) (full s xrs) tA"
      and sf: "same_flags (fi_heap s) (fi_heap sA)" using A(2) by (simp_all add: sealed_state_def)
  have mA: "metadata_encrypt_flags (fi_metadata sA) \<in> {EF_UserKey, EF_IntegrityOnly}"
    using vA I(16) by (simp add: same_view_def same_file_def same_header_def metadata_encrypt_flags_def)
  obtain rng m where m: "update_metadata E sA = (Ok (), sA\<lparr>fi_rng := rng, fi_metadata := m\<rparr>)" "meta_wf m"
    "meta_sealed (env_ossl E) (kg_metadata_key (fi_key_gen sA)) m" "mi_enc m = mi_enc (fi_metadata sA)"
    "same_header (fi_metadata sA) m"
    by (rule update_metadata_Ok [OF I(13,14) fA(1,2) mA])
  define sB where "sB = sA\<lparr>fi_rng := rng, fi_metadata := m\<rparr>"
  have B: "store_ok E sB kA" "nblk sB = nblk s" "jroom sB (kA + 1)" "full sB xrs = full s xrs" "meta_wf (fi_metadata sB)"
    "cache_ok sB xrs tA n'"
  proof -
    have "jroom sA (kA + 1)" unfolding A(5) using room A(6) by (simp add: jroom_def)
    then show "jroom sB (kA + 1)" by (simp add: sB_def jroom_def)
    show "store_ok E sB kA" "nblk sB = nblk s" "full sB xrs = full s xrs" "meta_wf (fi_metadata sB)"
      using A(3,4) m(2) same_view_simps(1) [OF vA] by (simp_all add: sB_def store_ok_def nblk_def full_def)
    show "cache_ok sB xrs tA n'"
      using same_view_cache_ok [OF vA I(4) fA(3)] by (simp add: sB_def cache_ok_def full_def)
  qed
  have dB: "dirty (fi_heap sB) r = dirty (fi_heap s) r" for r using same_flags_dirty [OF sf] by (simp add: sB_def)
  have rB: "fi_root_mht sB = fi_root_mht s" "is_need_write_node sB = is_need_write_node s"
    using same_view_simps(2,3) [OF vA] m(4) dB [of "fi_root_mht s"]
    by (simp_all add: sB_def is_need_write_node_def file_size_of_def dirty_def node_of_def)
  have room_B: "\<forall>(x, r)\<in>set (full sB xrs). dirty (fi_heap sB) r \<longrightarrow> phys x < nblk sB"
    using phys_room [OF inv] I(1,4) unfolding B(2,4) by (auto simp: set_full cache_ok_def store_ok_def)
  obtain sC where C: "write_to_disk E fl sB = (Ok (), sC)" "disk_step sB (changed_refs sB xrs) sC" "written sB xrs sC"
    "fblk sC 0 = metadata_bytes m" "store_ok E sC (if fl then 0 else kA)" "fl \<longrightarrow> journal_done sC"
  proof -
    have "is_need_write_node sB = dirty (fi_heap sB) (fi_root_mht sB)" using rB dB need_write_root [OF inv] by simp
    moreover have "\<forall>(x, r)\<in>set xrs. dirty (fi_heap sB) r \<longrightarrow> dirty (fi_heap sB) (fi_root_mht sB)"
      unfolding rB(1) dB using dirty_root [OF I(4,5)] in_full(2) by blast
    ultimately show thesis using write_to_disk_Ok [OF B(1,6) room_B _ _ B(5,3), of fl] that by (auto simp: sB_def)
  qed
  have "internal_flush E fl s = (Ok (), sC\<lparr>fi_need_writing := False\<rparr>)"
    using True A(1) m(1) C(1) by (simp add: internal_flush_def sB_def)
  moreover have "t_data tA = t_data t" using A(2) by (simp add: sealed_state_def)
  ultimately show thesis
    using flush_result [OF inv A(2) sB_def m(2-5) C(2-5) B(2)] A(6) C(6)
    by (intro that [of "sC\<lparr>fi_need_writing := False\<rparr>" tA "if fl then 0 else kA"]) (simp_all add: journal_done_def)
qed

end

end
