(* ===== verification/Cache_Correct.thy ===== *)
theory Cache_Correct
  imports Flush_Correct
begin

text \<open>
  Getting nodes through the cache (\<open>core/src/pfs/sys/file/node.rs\<close>).  Under the invariant a node of
  the file is found in the cache or read and decrypted to its content, and \<open>shrink_cache\<close> drops the
  nodes at the end of the cache, with at most one flush.  The parents of a cached node stand before
  it in the cache, so a dropped node has no child left, and a node just entered is never dropped
  when the cache holds at least twelve nodes.
\<close>

section \<open>Dropping a node\<close>

lemma parents_first_in:
  "parents_first S xrs \<Longrightarrow> (x, r) \<in> set xrs \<Longrightarrow> par x = 0 \<or> MhtId (par x) \<in> S \<union> fst ` set xrs"
proof (induction xrs arbitrary: S)
  case (Cons y xrs)
  show ?case
  proof (cases "(x, r) = y")
    case True
    then show ?thesis using Cons.prems by auto
  next
    case False
    then have "par x = 0 \<or> MhtId (par x) \<in> insert (fst y) S \<union> fst ` set xrs"
      by (intro Cons.IH) (use Cons.prems in auto)
    then show ?thesis by auto
  qed
qed simp

lemma parents_first_take: "parents_first S xrs \<Longrightarrow> parents_first S (take m xrs)"
  by (metis append_take_drop_id parents_first_append)

lemma tree_heap_pop:
  assumes "tree_heap h ((root_id, ro) # ys @ [(x, r)]) t" "parents_first {} ys"
  shows "tree_heap h ((root_id, ro) # ys) t"
proof -
  let ?L = "(root_id, ro) # ys @ [(x, r)]" and ?K = "(root_id, ro) # ys"
  have d: "x \<notin> fst ` set ?K" using assms(1) by (auto simp: tree_heap_def)
  have "node_at h ?K t y q" if yq: "(y, q) \<in> set ?K" for y q
  proof -
    have o: "node_at h ?L t y q" using assms(1) yq unfolding tree_heap_def by auto
    have p: "MhtId (par y) \<in> fst ` set ?K" if "y \<noteq> root_id"
      using parents_first_in [OF assms(2), of y q] yq that by auto
    moreover have "map_of ?L z = map_of ?K z" if "z \<in> fst ` set ?K" for z
    proof -
      have "z \<noteq> x" using that d by auto
      then show ?thesis by (auto simp: map_add_def split: option.splits)
    qed
    ultimately have "y \<noteq> root_id \<Longrightarrow> map_of ?L (MhtId (par y)) = map_of ?K (MhtId (par y))" by blast
    then show ?thesis using o p unfolding node_at_def by simp
  qed
  then show ?thesis using assms(1) unfolding tree_heap_def by auto
qed

text \<open>The nodes read for the parent of \<open>x\<close> are ancestors of \<open>x\<close>.\<close>

lemma new_ancs:
  assumes "fst ` set new \<subseteq> insert (MhtId (par x)) (set (ancs (MhtId (par x))))" "root_id \<notin> fst ` set new" "x \<noteq> root_id"
  shows "fst ` set new \<subseteq> set (ancs x)"
proof (cases "par x = 0")
  case True
  then have "fst ` set new \<subseteq> {root_id}" using assms(1) by (simp add: ancs.simps)
  then have "new = []" using assms(2) by (cases new) auto
  then show ?thesis by simp
next
  case False
  then have "ancs x = MhtId (par x) # ancs (MhtId (par x))" using assms(3) by (subst ancs.simps) simp
  then show ?thesis using assms(1) by simp
qed

lemma dirty_ok_mono:
  assumes "dirty_ok s xrs n" "set ys \<subseteq> set xrs" shows "dirty_ok s ys n"
proof -
  have "set (full s ys) \<subseteq> set (full s xrs)" using assms(2) by (auto simp: set_full)
  then show ?thesis using assms unfolding dirty_ok_def by blast
qed

context block_set
begin

lemma file_inv_pop:
  assumes inv: "file_inv E s (ys @ [(x, r)]) t n n' k" and pf: "parents_first {} ys" and d: "\<not> dirty (fi_heap s) r"
  shows "file_inv E (s\<lparr>fi_cache := snd (lru_pop_back (fi_cache s))\<rparr>) ys t n n' k"
proof -
  let ?xrs = "ys @ [(x, r)]" and ?s = "s\<lparr>fi_cache := snd (lru_pop_back (fi_cache s))\<rparr>"
  note I = file_invD [OF inv]
  have c: "lru_repr (fi_cache s) (keyed ys @ [(phys x, r)])" using I(4) by (simp add: cache_ok_def)
  then have lr: "lru_repr (fi_cache ?s) (keyed ys)" using lru_repr_pop_back [OF c] by auto
  have th: "tree_heap (fi_heap s) (full s ys) t" using tree_heap_pop [OF _ pf] I(17) by (simp add: full_def)
  then have "cache_ok ?s ys t n'" using lr I(4) by (simp add: cache_ok_def full_def)
  moreover have "dirty_ok ?s ys n"
    using dirty_ok_mono [OF I(5), of ys] dirty_ok_cong [of ?s s ys n] by auto
  moreover have "disk_ok (env_ossl E) ?s ys t n"
  proof -
    have "x \<notin> fst ` set ys" using cache_okD(3) [OF I(4)] by simp
    then have "unchanged ?s ys z = unchanged s ?xrs z" for z using d unfolding unchanged_def by (cases "z = x") auto
    then show ?thesis using I(6) by (simp add: disk_ok_def fblk_def [abs_def])
  qed
  moreover have "saved_ok (env_ossl E) ?s" "store_ok E ?s k" "keys_ok E ?s" "nblk ?s = nblk s"
    using I(1,2,7) by (simp_all add: saved_ok_def fblk_def store_ok_def keys_ok_def nblk_def)
  ultimately show ?thesis using I(3,8,9,10) by (simp add: file_inv_def file_size_of_def)
qed

lemma shrink_clean:
  assumes "file_inv E s xrs t n n' k" "parents_first {} xrs" "\<forall>(x, r)\<in>set xrs. \<not> dirty (fi_heap s) r"
    "length xrs - fi_max_cache_page s < fuel"
  shows "\<exists>c. shrink_cache_loop fuel E s = (Ok (), s\<lparr>fi_cache := c\<rparr>) \<and>
    file_inv E (s\<lparr>fi_cache := c\<rparr>) (take (fi_max_cache_page s) xrs) t n n' k"
  using assms
proof (induction fuel arbitrary: s xrs)
  case (Suc fuel)
  have len: "lru_len (fi_cache s) = length xrs" using cache_okD(2) [OF file_invD(4) [OF Suc.prems(1)]] .
  show ?case
  proof (cases "fi_max_cache_page s < length xrs")
    case False
    then show ?thesis using len Suc.prems(1) by (intro exI [of _ "fi_cache s"]) simp
  next
    case True
    then obtain ys x r where xrs: "xrs = ys @ [(x, r)]" by (metis list.size(3) not_less0 prod.exhaust rev_exhaust)
    have b: "lru_back (fi_cache s) = Some r"
      using lru_repr_back [of "fi_cache s" "keyed xrs"] file_invD(4) [OF Suc.prems(1)] xrs by (simp add: cache_ok_def)
    have c: "\<not> fn_need_writing (node_of s r)" using Suc.prems(3) xrs by (simp add: dirty_def node_of_def)
    let ?s = "s\<lparr>fi_cache := snd (lru_pop_back (fi_cache s))\<rparr>"
    have "file_inv E ?s ys t n n' k"
      by (rule file_inv_pop) (use Suc.prems(1-3) xrs in auto)
    moreover have "length ys - fi_max_cache_page s < fuel" using Suc.prems(4) True xrs by auto
    ultimately obtain c where "shrink_cache_loop fuel E ?s = (Ok (), ?s\<lparr>fi_cache := c\<rparr>)"
      "file_inv E (?s\<lparr>fi_cache := c\<rparr>) (take (fi_max_cache_page s) ys) t n n' k"
      using Suc.IH [of ?s ys] Suc.prems(2,3) xrs by auto
    then show ?thesis using len b c True xrs by (intro exI [of _ c]) simp
  qed
qed simp

lemma shrink_loop_Ok:
  assumes "file_inv E s xrs t n n' k" "parents_first {} xrs" "Suc (length xrs - fi_max_cache_page s) < fuel"
    "length xrs \<le> fi_max_cache_page s \<or> jroom s (k + flush_cost (length xrs) + 1)"
  shows "\<exists>s' t' k'. shrink_cache_loop fuel E s = (Ok (), s') \<and>
    file_inv E s' (take (fi_max_cache_page s) xrs) t' n n' k' \<and> same_file s s' \<and> t_data t' = t_data t \<and>
    k' \<le> k + flush_cost (length xrs) \<and> (length xrs \<le> fi_max_cache_page s \<longrightarrow> s' = s \<and> t' = t \<and> k' = k)"
  using assms
proof (induction fuel arbitrary: s xrs)
  case (Suc fuel)
  note inv = Suc.prems(1)
  have len: "lru_len (fi_cache s) = length xrs" using cache_okD(2) [OF file_invD(4) [OF inv]] .
  show ?case
  proof (cases "fi_max_cache_page s < length xrs")
    case False
    then show ?thesis using len inv by (intro exI [of _ s] exI [of _ t] exI [of _ k]) simp
  next
    case True
    then obtain ys x r where xrs: "xrs = ys @ [(x, r)]" by (metis list.size(3) not_less0 prod.exhaust rev_exhaust)
    have b: "lru_back (fi_cache s) = Some r"
      using lru_repr_back [of "fi_cache s" "keyed xrs"] file_invD(4) [OF inv] xrs by (simp add: cache_ok_def)
    have room: "jroom s (k + flush_cost (length xrs) + 1)" using Suc.prems(4) True by simp
    show ?thesis
    proof (cases "fn_need_writing (node_of s r)")
      case False
      let ?s = "s\<lparr>fi_cache := snd (lru_pop_back (fi_cache s))\<rparr>"
      have "file_inv E ?s ys t n n' k"
        by (rule file_inv_pop) (use inv Suc.prems(2) False xrs in \<open>auto simp: dirty_def node_of_def\<close>)
      moreover have "flush_cost (length ys) \<le> flush_cost (length xrs)" by (simp add: xrs flush_cost_def)
      moreover have "jroom ?s (k + flush_cost (length ys) + 1)" using room calculation(2) by (simp add: jroom_def)
      moreover have "Suc (length ys - fi_max_cache_page s) < fuel" using Suc.prems(3) True xrs by auto
      ultimately obtain s' t' k' where "shrink_cache_loop fuel E ?s = (Ok (), s')"
        "file_inv E s' (take (fi_max_cache_page s) ys) t' n n' k'" "same_file ?s s'" "t_data t' = t_data t"
        "k' \<le> k + flush_cost (length xrs)"
        using Suc.IH [of ?s ys] Suc.prems(2) xrs by fastforce
      then show ?thesis using len b False True xrs
        by (intro exI [of _ s'] exI [of _ t'] exI [of _ k']) (simp add: same_file_def)
    next
      case True': True
      obtain s1 t' k' where s1: "internal_flush E False s = (Ok (), s1)" "file_inv E s1 xrs t' n n' k'" "same_view s s1"
        "t_data t' = t_data t" "\<forall>(x, r)\<in>set (full s xrs). \<not> dirty (fi_heap s1) r" "k' \<le> k + flush_cost (length xrs)"
      proof -
        have rc: "record_cost s \<le> flush_cost (length xrs)"
          using record_cost_le [OF file_invD(4) [OF inv]] flush_cost_mono [of "min (old_count (fi_heap s)) (length xrs)" "length xrs"] by simp
        then have "jroom s (k + record_cost s + 1)" using room by (simp add: jroom_def)
        then show thesis using internal_flush_Ok [OF inv, of False thesis] that rc by fastforce
      qed
      note v = same_view_simps [OF s1(3)]
      have "\<forall>(x, r)\<in>set xrs. \<not> dirty (fi_heap s1) r" using s1(5) by (auto simp: set_full)
      then obtain c where c: "shrink_cache_loop fuel E s1 = (Ok (), s1\<lparr>fi_cache := c\<rparr>)"
        "file_inv E (s1\<lparr>fi_cache := c\<rparr>) (take (fi_max_cache_page s) xrs) t' n n' k'"
        using shrink_clean [OF s1(2) Suc.prems(2), of fuel] Suc.prems(3) v(6) by auto
      moreover have "same_file s (s1\<lparr>fi_cache := c\<rparr>)" using s1(3) by (simp add: same_view_def same_file_def)
      ultimately show ?thesis using len b True True' s1(1,4,6)
        by (intro exI [of _ "s1\<lparr>fi_cache := c\<rparr>"] exI [of _ t'] exI [of _ k']) simp
    qed
  qed
qed simp


section \<open>Entering a node\<close>

definition flags :: "('s, 'd) file_inner \<Rightarrow> bool \<times> nat" where
  "flags s = (fi_need_writing s, old_count (fi_heap s))"

lemma jroom_same_file: "same_file s s' \<Longrightarrow> jroom s' = jroom s"
  by (simp add: same_file_def jroom_def [abs_def])

definition new_node :: "('s, 'd) file_inner \<Rightarrow> nid \<Rightarrow> node_ref \<Rightarrow> file_node" where
  "new_node s x p = (file_node_new (nid_type x) (nid_logic x) (phys x) (metadata_encrypt_flags (fi_metadata s)))
     \<lparr>fn_parent := Some p\<rparr>"

lemma file_inv_insert:
  assumes inv: "file_inv E s xrs t n n' k" and x: "x \<notin> fst ` set xrs" "x \<noteq> root_id" "(MhtId (par x), p) \<in> set (full s xrs)" "in_file n' x"
    and nd: "nd = (new_node s x p)\<lparr>fn_node_data := d, fn_plaintext := plain t x\<rparr>" "length d = NODE_SIZE"
  shows "\<exists>s'. cache_node (phys x) nd s = (Ok (next_ref (fi_heap s)), s') \<and> same_file s s' \<and> flags s' = flags s \<and>
    file_inv E s' ((x, next_ref (fi_heap s)) # xrs) t n n' k"
proof -
  let ?r = "next_ref (fi_heap s)" and ?h = "snd (build_ref nd (fi_heap s))"
  note I = file_invD [OF inv]
  obtain c where c: "cache_node (phys x) nd s = (Ok ?r, s\<lparr>fi_heap := ?h, fi_cache := c\<rparr>)" "lru_repr c (keyed ((x, ?r) # xrs))"
    "tree_heap ?h ((root_id, fi_root_mht s) # (x, ?r) # xrs) t"
  proof -
    have "x \<notin> fst ` set ((root_id, fi_root_mht s) # xrs)" using x(1,2) by simp
    then show thesis
      using cache_node_Ok [OF I(17) [unfolded full_def] _ x(2) x(3) [unfolded full_def], of nd] I(4) that nd
      by (auto simp: cache_ok_def new_node_def file_node_new_def)
  qed
  define s' where "s' = s\<lparr>fi_heap := ?h, fi_cache := c\<rparr>"
  have fresh: "q \<noteq> ?r" if "(y, q) \<in> set (full s xrs)" for y q using tree_heapD(2) [OF I(17) that] by simp
  have d: "dirty (fi_heap s') q \<longleftrightarrow> q \<noteq> ?r \<and> dirty (fi_heap s) q" for q
    by (simp add: s'_def dirty_def build_ref_def nd(1) new_node_def file_node_new_def)
  have f: "full s' ys = full s ys" "fblk s' = fblk s" "fi_need_writing s' = fi_need_writing s" "nblk s' = nblk s" "same_file s s'" for ys
    by (simp_all add: s'_def full_def fblk_def nblk_def fun_eq_iff same_file_def)
  have "cache_ok s' ((x, ?r) # xrs) t n'" using c(2,3) I(4) x(4) by (simp add: cache_ok_def s'_def full_def)
  moreover have "dirty_ok s' ((x, ?r) # xrs) n"
  proof -
    have "in_file n y \<and> (\<forall>p. (MhtId (par y), p) \<in> set (full s ((x, ?r) # xrs)) \<longrightarrow> dirty (fi_heap s') p)"
      if yq: "(y, q) \<in> set xrs" "dirty (fi_heap s) q" for y q
    proof -
      have y: "y \<noteq> root_id" using yq(1) cache_okD(6) [OF I(4)] by force
      obtain p where p: "(MhtId (par y), p) \<in> set (full s xrs)" using tree_heap_parent [OF I(17) in_full(2) [OF yq(1)] y] by blast
      then have "MhtId (par y) \<noteq> x" using x(1,2) by (force simp: set_full)
      then have "set (full s ((x, ?r) # xrs)) \<inter> {MhtId (par y)} \<times> UNIV \<subseteq> set (full s xrs)" by (auto simp: set_full)
      moreover have "in_file n y" "\<forall>p. (MhtId (par y), p) \<in> set (full s xrs) \<longrightarrow> dirty (fi_heap s) p"
        using I(5) yq unfolding dirty_ok_def by blast+
      ultimately show ?thesis using fresh unfolding d by blast
    qed
    moreover have "dirty (fi_heap s) (fi_root_mht s) \<Longrightarrow> fi_need_writing s \<and> 0 < n" using I(5) by (simp add: dirty_ok_def)
    ultimately show ?thesis unfolding dirty_ok_def f(1,3) using d by (auto simp: s'_def)
  qed
  moreover have "disk_ok (env_ossl E) s' ((x, ?r) # xrs) t n"
  proof -
    have fr: "q \<noteq> ?r" if "(y, q) \<in> set xrs" for y q using fresh [OF in_full(2) [OF that]] .
    have "unchanged s' ((x, ?r) # xrs) y = unchanged s xrs y" if "y \<noteq> root_id" for y
      using fr x(1) unfolding unchanged_def d by (cases "y = x") (auto simp: rev_image_eqI)
    moreover have "dirty (fi_heap s') (fi_root_mht s') = dirty (fi_heap s) (fi_root_mht s)"
      using fresh [OF in_full(1)] d by (simp add: s'_def)
    ultimately show ?thesis using I(6) unfolding disk_ok_def f by (simp add: s'_def)
  qed
  moreover have "saved_ok (env_ossl E) s'" "store_ok E s' k" "keys_ok E s'" "meta_ok (fi_metadata s')" "file_size_of s' = file_size_of s"
    using I(1,2,3,7) by (simp_all add: s'_def saved_ok_def fblk_def store_ok_def keys_ok_def nblk_def file_size_of_def)
  ultimately have "file_inv E s' ((x, ?r) # xrs) t n n' k" using I(8-10) f(4) by (simp add: file_inv_def)
  moreover have "flags s' = flags s"
    using old_count_build [of nd "fi_heap s"] by (simp add: flags_def s'_def nd(1) new_node_def)
  ultimately show ?thesis using c(1) f(5) by (auto simp: s'_def)
qed

lemma fetch_node_Ok:
  assumes inv: "file_inv E s xrs t n n' k" and x: "x \<notin> fst ` set xrs" "x \<noteq> root_id" "(MhtId (par x), p) \<in> set (full s xrs)" "in_file n x"
  shows "\<exists>s'. fetch_node E (new_node s x p) s = (Ok (next_ref (fi_heap s)), s') \<and> same_file s s' \<and> flags s' = flags s \<and>
    file_inv E s' ((x, next_ref (fi_heap s)) # xrs) t n n' k"
proof -
  note I = file_invD [OF inv]
  let ?nd = "new_node s x p" and ?C = "env_ossl E" and ?b = "fblk s (phys x)"
  have x': "in_file n' x" by (rule in_file_mono [OF x(4) I(8)])
  have ph: "phys x < nblk s" by (rule phys_room [OF inv x'])
  have "unchanged s xrs x" using x(1) by (force simp: unchanged_def)
  then have od: "on_disk ?C (fblk s) t x" using I(6) x(2,4) by (simp add: disk_ok_def)
  have rd: "node_read_from_disk E (fi_world s) (fi_host_file s) ?nd = Ok (?nd\<lparr>fn_node_data := ?b\<rparr>)"
    using block_file_read_Ok [of E "fi_world s" "fi_host_file s" "phys x" "zeros NODE_SIZE"] I(1) ph
    by (simp add: node_read_from_disk_def new_node_def file_node_new_def store_ok_def nblk_def fblk_def)
  have lb: "length ?b = NODE_SIZE"
    using I(1) ph by (simp add: fblk_def store_ok_def nblk_def blk_length)
  have g: "get_gcm_data (fi_heap s) (?nd\<lparr>fn_node_data := ?b\<rparr>) = Ok (Some (entry t x))"
  proof -
    have "fn_plaintext (nodes (fi_heap s) p) = plain t (MhtId (par x))" using cache_okD(8) [OF I(4) x(3)] by (simp add: node_at_def)
    moreover have "gcm_index (?nd\<lparr>fn_node_data := ?b\<rparr>) = Ok (Some (cidx x))"
      using x(2) phys_gt_1 [OF x(2)] by (cases x) (auto simp: gcm_index_def new_node_def file_node_new_def is_root_mht_def child_index_def)
    ultimately show ?thesis using node_get_entry [of t x] by (simp add: get_gcm_data_def new_node_def file_node_new_def)
  qed
  have "node_decrypt ?C (gd_key (entry t x)) (gd_mac (entry t x)) (?nd\<lparr>fn_node_data := ?b\<rparr>) = Ok (?nd\<lparr>fn_node_data := ?b, fn_plaintext := plain t x\<rparr>)"
  proof (rule node_decrypt_sealed [OF I(13)])
    have "fn_wf ?nd" unfolding fn_wf_def by (simp add: new_node_def file_node_new_def)
    then show "fn_wf (?nd\<lparr>fn_node_data := ?b\<rparr>)" using lb by simp
    show "node_wf (fn_node_type (?nd\<lparr>fn_node_data := ?b\<rparr>)) (plain t x)"
      using plain_wf_node [OF cache_okD(10) [OF I(4)], of x] by (simp add: new_node_def file_node_new_def)
    show "sealed ?C (gd_key (entry t x)) (gd_mac (entry t x)) (plain t x) (fn_node_data (?nd\<lparr>fn_node_data := ?b\<rparr>))"
      using od by (simp add: on_disk_def)
  qed
  then have "fetch_node E ?nd s = cache_node (phys x) (?nd\<lparr>fn_node_data := ?b, fn_plaintext := plain t x\<rparr>) s"
    using rd g by (simp add: fetch_node_def ok_or_def new_node_def file_node_new_def)
  then show ?thesis using file_inv_insert [OF inv x(1-3) x' refl lb] by simp
qed


lemma read_mht_node_Ok:
  assumes "file_inv E s xrs t n n' k" "in_file n (MhtId m)"
  shows "\<exists>s' new r. read_mht_node E m s = (Ok r, s') \<and> same_file s s' \<and> flags s' = flags s \<and>
    file_inv E s' (new @ xrs) t n n' k \<and> (MhtId m, r) \<in> set (full s (new @ xrs)) \<and>
    fst ` set new \<subseteq> insert (MhtId m) (set (ancs (MhtId m)))"
  using assms(2)
proof (induction m rule: less_induct)
  case (less m)
  note I = file_invD [OF assms(1)]
  consider "m = 0" | r where "m \<noteq> 0" "map_of xrs (MhtId m) = Some r" | "m \<noteq> 0" "map_of xrs (MhtId m) = None"
    by (cases "map_of xrs (MhtId m)") auto
  then show ?case
  proof cases
    case 1
    then have "read_mht_node E m s = (Ok (fi_root_mht s), s)" by (simp add: read_mht_node.simps)
    then show ?thesis using assms(1) 1 in_full(1) by (intro exI [of _ s] exI [of _ "[]"]) auto
  next
    case 2
    then have "read_mht_node E m s = (Ok r, s)"
      using cache_okD(7) [OF I(4), of "MhtId m"] by (simp add: read_mht_node.simps Let_def)
    moreover have "(MhtId m, r) \<in> set (full s xrs)" using 2(2) by (intro in_full(2) map_of_SomeD)
    ultimately show ?thesis using assms(1) by (intro exI [of _ s] exI [of _ "[]"] exI [of _ r]) simp
  next
    case 3
    let ?x = "MhtId m" and ?m' = "(m - 1) div CHILD_MHT_NODES_COUNT"
    have par: "par ?x = ?m'" "?x \<noteq> root_id" "?m' < m" using 3(1) by (auto simp: mht_parent_less)
    have "in_file n (MhtId ?m')" using in_file_par [OF less.prems] par(1) by simp
    from less.IH [OF par(3) this] obtain s1 new1 p where s1: "read_mht_node E ?m' s = (Ok p, s1)" "same_file s s1"
      "flags s1 = flags s" "file_inv E s1 (new1 @ xrs) t n n' k" "(MhtId ?m', p) \<in> set (full s (new1 @ xrs))"
      "fst ` set new1 \<subseteq> insert (MhtId ?m') (set (ancs (MhtId ?m')))" by blast
    have f1: "full s1 ys = full s ys" for ys by (rule same_file_simps [OF s1(2)])
    have less: "phys y < phys ?x" if "y \<in> fst ` set new1" for y
    proof -
      have "y = MhtId ?m' \<or> y \<in> set (ancs (MhtId ?m'))" using s1(6) that by blast
      then show ?thesis using ancs_phys [of y "MhtId ?m'"] phys_par_less [OF par(2)] par(1) by auto
    qed
    have nin: "?x \<notin> fst ` set (new1 @ xrs)" using less [of ?x] 3(2) by (auto simp: map_of_eq_None_iff)
    obtain s2 where s2: "fetch_node E (new_node s1 ?x p) s1 = (Ok (next_ref (fi_heap s1)), s2)" "same_file s1 s2"
      "flags s2 = flags s1" "file_inv E s2 ((?x, next_ref (fi_heap s1)) # new1 @ xrs) t n n' k"
      using fetch_node_Ok [OF s1(4) nin par(2) _ less.prems] s1(5) f1 par(1) by auto
    have "read_mht_node E m s = (Ok (next_ref (fi_heap s1)), s2)"
      using 3 s1(1) s2(1) cache_okD(7) [OF I(4), of ?x] by (subst read_mht_node.simps) (simp add: Let_def new_node_def)
    moreover have "fst ` set new1 \<subseteq> set (ancs ?x)"
      by (rule new_ancs) (use s1(6) par cache_okD(6) [OF file_invD(4) [OF s1(4)]] in auto)
    ultimately show ?thesis
      using s2 same_file_trans [OF s1(2) s2(2)] s1(3)
      by (intro exI [of _ s2] exI [of _ "(?x, next_ref (fi_heap s1)) # new1"] exI [of _ "next_ref (fi_heap s1)"])
        (auto simp: set_full)
  qed
qed


end

section \<open>The size of the cache\<close>

text \<open>An offset inside the file, or at its end when the last data node is not full.\<close>

definition inside :: "nat \<Rightarrow> nat \<Rightarrow> bool" where
  "inside off sz \<longleftrightarrow> MD_USER_DATA_SIZE \<le> off \<and> off \<le> sz \<and> (off = sz \<longrightarrow> (off - MD_USER_DATA_SIZE) mod NODE_SIZE \<noteq> 0)"

lemma data_logic_less:
  assumes "inside off sz" shows "data_logic off < data_nodes sz"
proof -
  define q r where "q = (off - 3072) div 4096" and "r = (off - 3072) mod 4096"
  have "off - 3072 = q * 4096 + r" by (simp add: q_def r_def)
  moreover have "off < sz \<or> 0 < r" using assms unfolding inside_def r_def by linarith
  ultimately have "Suc q * 4096 \<le> sz - 3072 + 4095" using assms by (auto simp: inside_def)
  then have "Suc q \<le> (sz - 3072 + 4095) div 4096" by (simp add: less_eq_div_iff_mult_less_eq)
  then show ?thesis by (simp add: data_logic_def data_nodes_def q_def)
qed

lemma inside_not_append:
  assumes "inside off sz" shows "\<not> ((off - MD_USER_DATA_SIZE) mod NODE_SIZE = 0 \<and> off = sz)"
    "\<not> ((off - MD_USER_DATA_SIZE) mod (ATTACHED_DATA_NODES_COUNT * NODE_SIZE) = 0 \<and> off = sz)"
proof -
  show a: "\<not> ((off - MD_USER_DATA_SIZE) mod NODE_SIZE = 0 \<and> off = sz)" using assms by (auto simp: inside_def)
  have "a mod NODE_SIZE = 0" if "a mod (ATTACHED_DATA_NODES_COUNT * NODE_SIZE) = 0" for a :: nat
    using that by (metis mod_mod_cancel dvd_triv_right mod_0)
  from this [of "off - MD_USER_DATA_SIZE"]
  show "\<not> ((off - MD_USER_DATA_SIZE) mod (ATTACHED_DATA_NODES_COUNT * NODE_SIZE) = 0 \<and> off = sz)" using a by linarith
qed

lemma in_file_card:
  assumes "distinct xs" "\<forall>x\<in>set xs. in_file n x \<and> x \<noteq> root_id"
  shows "length xs \<le> n + n div ATTACHED_DATA_NODES_COUNT"
proof -
  have "set xs \<subseteq> DataId ` {..<n} \<union> MhtId ` {1..n div 96}"
  proof
    fix x assume "x \<in> set xs"
    then have x: "in_file n x" "x \<noteq> root_id" using assms(2) by auto
    show "x \<in> DataId ` {..<n} \<union> MhtId ` {1..n div 96}"
    proof (cases x)
      case (MhtId m)
      then have "m * 96 div 96 \<le> n div 96" using x by (intro div_le_mono) auto
      then show ?thesis using MhtId x by auto
    qed (use x in auto)
  qed
  then have "card (set xs) \<le> card (DataId ` {..<n} \<union> MhtId ` {1..n div 96})" by (intro card_mono) auto
  also have "\<dots> \<le> card (DataId ` {..<n}) + card (MhtId ` {1..n div 96})" by (rule card_Un_le)
  also have "\<dots> \<le> n + n div 96" by (intro add_mono order_trans [OF card_image_le]) auto
  finally show ?thesis using distinct_card [OF assms(1)] by simp
qed

lemma tree_heap_ancs:
  assumes "tree_heap h ((root_id, ro) # xrs) t"
  shows "x \<in> fst ` set ((root_id, ro) # xrs) \<Longrightarrow> set (ancs x) \<subseteq> fst ` set xrs"
proof (induction x rule: ancs.induct)
  case (1 x)
  show ?case
  proof (cases "x = root_id \<or> par x = 0")
    case True
    then show ?thesis by (subst ancs.simps) simp
  next
    case False
    obtain r where "(x, r) \<in> set ((root_id, ro) # xrs)" using "1.prems" by force
    then obtain p where "(MhtId (par x), p) \<in> set ((root_id, ro) # xrs)" using tree_heap_parent [OF assms] False by metis
    then have p: "MhtId (par x) \<in> fst ` set ((root_id, ro) # xrs)" by force
    have "ancs x = MhtId (par x) # ancs (MhtId (par x))" using False by (subst ancs.simps) simp
    then show ?thesis using "1.IH" [OF False p] p False by auto
  qed
qed

lemma tree_heap_perm:
  assumes "tree_heap h xrs t" "set ys = set xrs" "distinct (map fst ys)"
  shows "tree_heap h ys t"
proof -
  have "map_of ys = map_of xrs" using assms by (simp add: map_of_inject_set tree_heap_def)
  moreover have "distinct (map snd ys)" using assms by (auto simp: tree_heap_def distinct_map)
  ultimately show ?thesis using assms unfolding tree_heap_def node_at_def by auto
qed

context block_set
begin

lemma file_inv_perm:
  assumes inv: "file_inv E s xrs t n n' k" and p: "set ys = set xrs" "distinct (map fst ys)" "lru_repr c (keyed ys)"
  shows "file_inv E (s\<lparr>fi_cache := c\<rparr>) ys t n n' k"
proof -
  let ?s = "s\<lparr>fi_cache := c\<rparr>"
  note I = file_invD [OF inv]
  have "tree_heap (fi_heap s) (full s ys) t"
    by (rule tree_heap_perm [OF I(17)]) (use p cache_okD(6) [OF I(4)] in \<open>auto simp: full_def\<close>)
  then have "cache_ok ?s ys t n'" using I(4) p by (simp add: cache_ok_def full_def)
  moreover have "dirty_ok ?s ys n" using dirty_ok_mono [OF I(5), of ys] dirty_ok_cong [of ?s s ys n] p(1) by auto
  moreover have "unchanged ?s ys z = unchanged s xrs z" for z using p(1) by (simp add: unchanged_def)
  then have "disk_ok (env_ossl E) ?s ys t n" using I(6) by (simp add: disk_ok_def fblk_def [abs_def])
  moreover have "saved_ok (env_ossl E) ?s" "store_ok E ?s k" "keys_ok E ?s" "nblk ?s = nblk s"
    using I(1,2,7) by (simp_all add: saved_ok_def fblk_def store_ok_def keys_ok_def nblk_def)
  ultimately show ?thesis using I(3,8,9,10) by (simp add: file_inv_def file_size_of_def)
qed

text \<open>
  What the journal must hold for \<open>j\<close> more evictions or flushes on a file of at most \<open>m\<close> data nodes.  When
  the whole file fits into the cache nothing is evicted, and only the room for one flush is kept.
\<close>

definition fits :: "('s, 'd) file_inner \<Rightarrow> nat \<Rightarrow> bool" where
  "fits s m \<longleftrightarrow> m + m div ATTACHED_DATA_NODES_COUNT \<le> fi_max_cache_page s"

definition credit :: "('s, 'd) file_inner \<Rightarrow> nat \<Rightarrow> nat \<Rightarrow> nat \<Rightarrow> bool" where
  "credit s m k j \<longleftrightarrow> (fits s m \<and>
        jroom s (k + flush_cost (min (old_count (fi_heap s)) (m + m div ATTACHED_DATA_NODES_COUNT)) + 1)) \<or>
     jroom s (k + j * flush_cost (fi_max_cache_page s + 12) + 1)"

lemma bump_mht_node_Ok:
  assumes inv: "file_inv E s xrs t n n' k" and x: "(x, r) \<in> set xrs"
  shows "\<exists>c. bump_mht_node r s = (Ok (), s\<lparr>fi_cache := c\<rparr>) \<and> file_inv E (s\<lparr>fi_cache := c\<rparr>) (bump_list x xrs) t n n' k"
proof -
  note I = file_invD [OF inv]
  have xr: "x \<noteq> root_id" using x cache_okD(6) [OF I(4)] by force
  have "x \<in> fst ` set (full s xrs)" using in_full(2) [OF x] by force
  then have a: "set (ancs x) \<subseteq> fst ` set xrs" using tree_heap_ancs [OF I(17) [unfolded full_def]] by (simp add: full_def)
  have "fn_logic_number (nodes (fi_heap s) r) = nid_logic x" using cache_okD(8) [OF I(4) in_full(2) [OF x]] by (simp add: node_at_def)
  moreover obtain c where "bump_parents (nid_logic x + 2) (fn_parent (nodes (fi_heap s) r)) s = (Ok (), s\<lparr>fi_cache := c\<rparr>)"
    "lru_repr c (keyed (bump_list x xrs))"
    using bump_parents_Ok [OF I(17) in_full(2) [OF x] xr length_ancs _ cache_okD(3) [OF I(4)] set_full] I(4) by (auto simp: cache_ok_def)
  ultimately show ?thesis
    using file_inv_perm [OF inv bump_list_set(1,2) [OF cache_okD(3) [OF I(4)] a]] by (auto simp: bump_mht_node_def node_of_def)
qed


text \<open>A node just obtained: it was cached, or it was entered together with some of its ancestors.\<close>

definition obtained :: "nid \<Rightarrow> node_ref \<Rightarrow> node_list \<Rightarrow> node_list \<Rightarrow> bool" where
  "obtained x r new xrs \<longleftrightarrow> new = [] \<and> (x, r) \<in> set xrs \<or>
     (\<exists>new'. new = (x, r) # new' \<and> fst ` set new' \<subseteq> set (ancs x))"

lemma obtained_length:
  assumes inv: "file_inv E s (new @ xrs) t n n' k" and new: "obtained (DataId l) r new xrs"
  shows "length new \<le> 12" "length (ancs (DataId l)) < 12"
proof -
  note I = file_invD [OF inv]
  have "in_file n' (DataId l)" using I(4) new unfolding cache_ok_def obtained_def by force
  then have "data_phys l < nblk s" using phys_room [OF inv] by fastforce
  then have "data_phys l * NODE_SIZE < nblk s * NODE_SIZE" by simp
  then have "data_phys l * NODE_SIZE < 2 ^ 64" using I(1) by (simp add: store_ok_def)
  then show a: "length (ancs (DataId l)) < 12" by (rule length_ancs_data)
  show "length new \<le> 12"
  proof (cases new)
    case (Cons y new')
    have "distinct (map fst new')" using cache_okD(3) [OF I(4)] Cons by simp
    then have "length new' = card (fst ` set new')" using distinct_card [of "map fst new'"] by simp
    also have "\<dots> \<le> card (set (ancs (DataId l)))" using new Cons by (intro card_mono) (auto simp: obtained_def)
    also have "\<dots> \<le> length (ancs (DataId l))" by (rule card_length)
    finally show ?thesis using Cons a by simp
  qed simp
qed

lemma settle_Ok:
  assumes inv: "file_inv E s (new @ xrs) t n n' k" and pf: "parents_first {} xrs" and new: "obtained (DataId l) r new xrs"
    and max: "12 \<le> fi_max_cache_page s" "length xrs \<le> fi_max_cache_page s"
    and cr: "credit s m k (Suc j)" "n' \<le> m"
  shows "\<exists>s' xrs' t' k'. then_do (bump_mht_node r s) (\<lambda>_ s. then_do (shrink_cache E s) (\<lambda>_ s. (Ok r, s))) = (Ok r, s') \<and>
    file_inv E s' xrs' t' n n' k' \<and> parents_first {} xrs' \<and> length xrs' \<le> fi_max_cache_page s \<and>
    (DataId l, r) \<in> set xrs' \<and> same_file s s' \<and> t_data t' = t_data t \<and> credit s' m k' j \<and>
    (fits s m \<longrightarrow> fi_need_writing s' = fi_need_writing s)"
proof -
  let ?x = "DataId l" and ?L = "new @ xrs" and ?max = "fi_max_cache_page s"
  note I = file_invD [OF inv]
  have x: "(?x, r) \<in> set ?L" using new by (auto simp: obtained_def)
  obtain c where c: "bump_mht_node r s = (Ok (), s\<lparr>fi_cache := c\<rparr>)" "file_inv E (s\<lparr>fi_cache := c\<rparr>) (bump_list ?x ?L) t n n' k"
    using bump_mht_node_Ok [OF inv x] by blast
  have d: "distinct (map fst ?L)" by (rule cache_okD(3) [OF I(4)])
  have "?x \<in> fst ` set (full s ?L)" using in_full(2) [OF x] by force
  then have a: "set (ancs ?x) \<subseteq> fst ` set ?L" using tree_heap_ancs [OF I(17) [unfolded full_def]] by (simp add: full_def)
  note len = obtained_length [OF inv new]
  have pf': "parents_first {} (bump_list ?x ?L)"
  proof (rule parents_first_bump [OF d pf _ a])
    show "fst ` set new \<subseteq> insert ?x (set (ancs ?x))" using new unfolding obtained_def
      by (elim disjE exE conjE) (simp_all add: subset_insertI2)
  qed simp
  have ll: "length (bump_list ?x ?L) = length ?L" by (rule bump_list_set(3) [OF d a])
  have le: "length ?L \<le> ?max + 12" using len(1) max(2) by simp
  have nn: "length ?L \<le> n' + n' div 96"
  proof -
    have "root_id \<notin> set (map fst ?L)" using cache_okD(6) [OF I(4)] by (simp add: image_Un)
    moreover have "\<forall>y\<in>set (map fst ?L). in_file n' y" using I(4) unfolding cache_ok_def by auto
    ultimately have "\<forall>y\<in>set (map fst ?L). in_file n' y \<and> y \<noteq> root_id" by blast
    from in_file_card [OF d this] show ?thesis by simp
  qed
  have mm: "n' + n' div 96 \<le> m + m div 96" using cr(2) by (intro add_mono div_le_mono)
  have fc: "flush_cost (length ?L) \<le> flush_cost (?max + 12)" unfolding flush_cost_def using le by (intro mult_le_mono1) simp
  have room: "length ?L \<le> ?max \<or> jroom (s\<lparr>fi_cache := c\<rparr>) (k + flush_cost (length ?L) + 1)"
    using cr(1) nn mm fc unfolding credit_def jroom_def fits_def by auto
  obtain s' t' k' where s': "shrink_cache_loop (length ?L + 2) E (s\<lparr>fi_cache := c\<rparr>) = (Ok (), s')"
    "file_inv E s' (take ?max (bump_list ?x ?L)) t' n n' k'" "same_file (s\<lparr>fi_cache := c\<rparr>) s'" "t_data t' = t_data t"
    "k' \<le> k + flush_cost (length ?L)" "length ?L \<le> ?max \<longrightarrow> s' = s\<lparr>fi_cache := c\<rparr> \<and> k' = k"
  proof -
    have mx: "fi_max_cache_page (s\<lparr>fi_cache := c\<rparr>) = ?max" by simp
    have "Suc (length ?L - ?max) < length ?L + 2" by linarith
    from shrink_loop_Ok [OF c(2) pf', unfolded ll mx, OF this room] show thesis using that by blast
  qed
  have sf: "same_file s s'" using s'(3) by (simp add: same_file_def)
  have "(?x, r) \<in> set (take ?max (bump_list ?x ?L))"
  proof (cases "new = []")
    case True
    then have "(?x, r) \<in> set (bump_list ?x ?L)" using x bump_list_set(1) [OF d a] by simp
    then show ?thesis using True max(2) ll by simp
  next
    case False
    then obtain new' where n: "new = (?x, r) # new'" "fst ` set new' \<subseteq> set (ancs ?x)" using new by (auto simp: obtained_def)
    have "set (ancs ?x) \<subseteq> fst ` set (new' @ xrs)" using a n(1) ancs_not_self [of ?x] by auto
    then obtain as bs where "bump_list ?x ?L = as @ (?x, r) # bs" "length as = length (ancs ?x)"
      using bump_list_front [of ?x r new' xrs] d n by auto
    moreover have "?max - length as = Suc (?max - length as - 1)" using calculation(2) len(2) max(1) by simp
    ultimately show ?thesis using len(2) max(1) by (metis in_set_conv_decomp take_Suc_Cons take_append)
  qed
  moreover have "credit s' m k' j"
  proof (cases "fits s m \<and> jroom s (k + flush_cost (min (old_count (fi_heap s)) (m + m div 96)) + 1)")
    case True
    then have "s' = s\<lparr>fi_cache := c\<rparr>" "k' = k" using s'(6) nn mm by (simp_all add: fits_def)
    then show ?thesis using True by (simp add: credit_def jroom_def fits_def)
  next
    case False
    then have "jroom s (k + Suc j * flush_cost (?max + 12) + 1)" using cr(1) by (auto simp: credit_def)
    then have "jroom s (k' + j * flush_cost (?max + 12) + 1)" using s'(5) fc by (simp add: jroom_def)
    then show ?thesis using same_file_simps(5) [OF sf] jroom_same_file [OF sf] by (simp add: credit_def)
  qed
  moreover have "then_do (bump_mht_node r s) (\<lambda>_ s. then_do (shrink_cache E s) (\<lambda>_ s. (Ok r, s))) = (Ok r, s')"
  proof -
    have "lru_len c = length ?L" using cache_okD(2) [OF file_invD(4) [OF c(2)]] ll by simp
    then have "shrink_cache E (s\<lparr>fi_cache := c\<rparr>) = (Ok (), s')" unfolding shrink_cache_def using s'(1) by (simp del: shrink_cache_loop.simps)
    then show ?thesis using c(1) by simp
  qed
  moreover have "fits s m \<longrightarrow> fi_need_writing s' = fi_need_writing s" using s'(6) nn mm by (simp add: fits_def)
  ultimately show ?thesis
    using s'(2,4) sf parents_first_take [OF pf', of ?max] by (intro exI [of _ s'] exI [of _ "take ?max (bump_list ?x ?L)"]) auto
qed


section \<open>The data node at the offset\<close>

lemma get_mht_node_read:
  assumes inv: "file_inv E s xrs t n n' k" and off: "MD_USER_DATA_SIZE \<le> fi_offset s"
    and m: "m = par (DataId (data_logic (fi_offset s)))" "in_file n (MhtId m)"
    and a: "m \<noteq> 0 \<Longrightarrow> \<not> ((fi_offset s - MD_USER_DATA_SIZE) mod (ATTACHED_DATA_NODES_COUNT * NODE_SIZE) = 0 \<and> fi_offset s = file_size_of s)"
  shows "\<exists>s' new r. get_mht_node E s = (Ok r, s') \<and> same_file s s' \<and> flags s' = flags s \<and>
    file_inv E s' (new @ xrs) t n n' k \<and> (MhtId m, r) \<in> set (full s (new @ xrs)) \<and>
    fst ` set new \<subseteq> set (ancs (DataId (data_logic (fi_offset s))))"
proof -
  obtain s' new r where s': "read_mht_node E m s = (Ok r, s')" "same_file s s'" "flags s' = flags s"
    "file_inv E s' (new @ xrs) t n n' k" "(MhtId m, r) \<in> set (full s (new @ xrs))"
    "fst ` set new \<subseteq> insert (MhtId m) (set (ancs (MhtId m)))"
    using read_mht_node_Ok [OF inv m(2)] by blast
  have "get_mht_node E s = read_mht_node E m s"
    using off a m(1) by (cases "m = 0") (auto simp: get_mht_node_def read_mht_node.simps [of E 0])
  moreover have "fst ` set new \<subseteq> set (ancs (DataId (data_logic (fi_offset s))))"
    by (rule new_ancs) (use s'(6) m(1) cache_okD(6) [OF file_invD(4) [OF s'(4)]] in auto)
  ultimately show ?thesis using s' by auto
qed

lemma read_data_node_Ok:
  assumes inv: "file_inv E s xrs t n n' k" and ins: "inside (fi_offset s) (file_size_of s)"
  shows "\<exists>s' new r. read_data_node E s = (Ok r, s') \<and> same_file s s' \<and> flags s' = flags s \<and>
    file_inv E s' (new @ xrs) t n n' k \<and> obtained (DataId (data_logic (fi_offset s))) r new xrs"
proof (cases "map_of xrs (DataId (data_logic (fi_offset s)))")
  let ?x = "DataId (data_logic (fi_offset s))"
  have off: "MD_USER_DATA_SIZE \<le> fi_offset s" using ins by (simp add: inside_def)
  note I = file_invD [OF inv]
  note f = cache_okD(7) [OF I(4), of ?x]
  case (Some r)
  then have "read_data_node E s = (Ok r, s)" using f by (simp add: read_data_node_def off)
  then show ?thesis using inv map_of_SomeD [OF Some] by (intro exI [of _ s] exI [of _ "[]"] exI [of _ r]) (simp add: obtained_def)
next
  let ?x = "DataId (data_logic (fi_offset s))"
  have off: "MD_USER_DATA_SIZE \<le> fi_offset s" using ins by (simp add: inside_def)
  note I = file_invD [OF inv]
  note f = cache_okD(7) [OF I(4), of ?x]
  case None
  have x: "in_file n ?x" using data_logic_less [OF ins] I(9) by simp
  obtain s1 new p where s1: "get_mht_node E s = (Ok p, s1)" "same_file s s1" "flags s1 = flags s"
    "file_inv E s1 (new @ xrs) t n n' k" "(MhtId (par ?x), p) \<in> set (full s (new @ xrs))" "fst ` set new \<subseteq> set (ancs ?x)"
    using get_mht_node_read [OF inv off refl in_file_par [OF x] inside_not_append(2) [OF ins]] by blast
  have n: "?x \<notin> fst ` set (new @ xrs)" using s1(6) None ancs_not_self [of ?x] by (auto simp: map_of_eq_None_iff)
  have p: "(MhtId (par ?x), p) \<in> set (full s1 (new @ xrs))" using s1(5) same_file_simps(1) [OF s1(2)] by simp
  obtain s2 where s2: "fetch_node E (new_node s1 ?x p) s1 = (Ok (next_ref (fi_heap s1)), s2)" "same_file s1 s2"
    "flags s2 = flags s1" "file_inv E s2 ((?x, next_ref (fi_heap s1)) # new @ xrs) t n n' k"
    using fetch_node_Ok [OF s1(4) n _ p x] by auto
  have "read_data_node E s = (Ok (next_ref (fi_heap s1)), s2)"
    using s1(1) s2(1) None f by (simp add: read_data_node_def off new_node_def)
  then show ?thesis
    using s2 s1(3,6) same_file_trans [OF s1(2) s2(2)]
    by (intro exI [of _ s2] exI [of _ "(?x, next_ref (fi_heap s1)) # new"] exI [of _ "next_ref (fi_heap s1)"])
      (auto simp: obtained_def)
qed


end

section \<open>Appending a data node\<close>

text \<open>The tree with empty nodes for the data node \<open>n\<close> and, where it is the first below it, its MHT node.\<close>

definition grow_tree :: "nat \<Rightarrow> tree \<Rightarrow> tree" where
  "grow_tree n t = t\<lparr>t_data := (t_data t)(n := zeros NODE_SIZE),
     t_mht := (if n mod ATTACHED_DATA_NODES_COUNT = 0 \<and> n \<noteq> 0
               then (t_mht t)(n div ATTACHED_DATA_NODES_COUNT := mht_default) else t_mht t)\<rparr>"

lemma grow_tree_in_file:
  assumes "in_file n x" shows "plain (grow_tree n t) x = plain t x" "x \<noteq> root_id \<Longrightarrow> entry (grow_tree n t) x = entry t x"
proof -
  have m: "t_mht (grow_tree n t) m = t_mht t m" if "in_file n (MhtId m)" for m
  proof (cases "n mod 96 = 0 \<and> n \<noteq> 0")
    case True
    then have "m \<noteq> n div 96" using that by (auto simp: dvd_div_eq_0_iff mod_eq_0_iff_dvd)
    then show ?thesis by (simp add: grow_tree_def)
  qed (auto simp: grow_tree_def)
  show "plain (grow_tree n t) x = plain t x"
  proof (cases x)
    case (DataId l)
    then show ?thesis using assms by (simp add: grow_tree_def)
  qed (use assms m in auto)
  show "entry (grow_tree n t) x = entry t x" using m [OF in_file_par [OF assms]] by (cases "nid_type x") (simp_all add: entry_def)
qed

lemma grow_tree_wf: "tree_wf t \<Longrightarrow> tree_wf (grow_tree n t)"
  by (simp add: tree_wf_def grow_tree_def)

lemma data_nodes_aligned:
  assumes "(sz - MD_USER_DATA_SIZE) mod NODE_SIZE = 0" shows "data_nodes sz = data_logic sz" "sz - MD_USER_DATA_SIZE = data_nodes sz * NODE_SIZE"
proof -
  obtain q where "sz - 3072 = 4096 * q" using assms by auto
  then show "data_nodes sz = data_logic sz" "sz - MD_USER_DATA_SIZE = data_nodes sz * NODE_SIZE"
    by (simp_all add: data_nodes_def data_logic_def)
qed

context block_set
begin

lemma file_inv_grow:
  assumes inv: "file_inv E s xrs t n n k" and r: "data_phys n < nblk s"
  shows "file_inv E s xrs (grow_tree n t) n (Suc n) k"
proof -
  note I = file_invD [OF inv]
  have x: "in_file n x" if "x \<in> fst ` set (full s xrs)" for x using I(4) that by (auto simp: cache_ok_def full_def)
  have "tree_heap (fi_heap s) (full s xrs) (grow_tree n t)"
    by (rule tree_heap_tree_cong [OF I(17)]) (use x grow_tree_in_file(1) grow_tree_wf cache_okD(10) [OF I(4)] in auto)
  then have "cache_ok s xrs (grow_tree n t) (Suc n)" using I(4) in_file_mono [of n _ "Suc n"] by (auto simp: cache_ok_def)
  moreover have "disk_ok (env_ossl E) s xrs (grow_tree n t) n"
    using I(6) grow_tree_in_file [of n] grow_tree_in_file(1) [of n root_id t] by (simp add: disk_ok_def on_disk_def)
  ultimately show ?thesis using I r unfolding file_inv_def by simp
qed

lemma new_node_insert:
  assumes inv: "file_inv E s xrs t n n' k" and x: "x \<notin> fst ` set xrs" "x \<noteq> root_id" "(MhtId (par x), p) \<in> set (full s xrs)" "in_file n' x"
    and pl: "plain t x = node_new (nid_type x)"
  shows "\<exists>s'. cache_node (phys x) (new_node s x p) s = (Ok (next_ref (fi_heap s)), s') \<and> same_file s s' \<and>
    flags s' = flags s \<and> file_inv E s' ((x, next_ref (fi_heap s)) # xrs) t n n' k"
  by (rule file_inv_insert [OF inv x, of _ "zeros NODE_SIZE"]) (simp_all add: new_node_def file_node_new_def pl)

lemma append_mht_node_Ok:
  assumes inv: "file_inv E s xrs t n n' k" and x: "MhtId m \<notin> fst ` set xrs" "m \<noteq> 0" "in_file n (MhtId (par (MhtId m)))" "in_file n' (MhtId m)"
    and pl: "t_mht t m = mht_default"
  shows "\<exists>s' new r. append_mht_node E m s = (Ok r, s') \<and> same_file s s' \<and> flags s' = flags s \<and>
    file_inv E s' (new @ xrs) t n n' k \<and> (MhtId m, r) \<in> set (full s (new @ xrs)) \<and>
    fst ` set new \<subseteq> insert (MhtId m) (set (ancs (MhtId m)))"
proof -
  let ?x = "MhtId m" and ?m' = "(m - 1) div CHILD_MHT_NODES_COUNT"
  have par: "par ?x = ?m'" "?x \<noteq> root_id" using x(2) by auto
  obtain s1 new1 p where s1: "read_mht_node E ?m' s = (Ok p, s1)" "same_file s s1"
    "flags s1 = flags s" "file_inv E s1 (new1 @ xrs) t n n' k" "(MhtId ?m', p) \<in> set (full s (new1 @ xrs))"
    "fst ` set new1 \<subseteq> insert (MhtId ?m') (set (ancs (MhtId ?m')))"
    using read_mht_node_Ok [OF inv x(3)] par(1) by auto
  have an: "fst ` set new1 \<subseteq> set (ancs ?x)"
    by (rule new_ancs) (use s1(6) par cache_okD(6) [OF file_invD(4) [OF s1(4)]] in auto)
  have "?x \<notin> fst ` set (new1 @ xrs)" using an x(1) ancs_not_self [of ?x] by auto
  moreover have "(MhtId (par ?x), p) \<in> set (full s1 (new1 @ xrs))" using s1(5) par(1) same_file_simps(1) [OF s1(2)] by simp
  ultimately obtain s2 where s2: "cache_node (phys ?x) (new_node s1 ?x p) s1 = (Ok (next_ref (fi_heap s1)), s2)" "same_file s1 s2"
    "flags s2 = flags s1" "file_inv E s2 ((?x, next_ref (fi_heap s1)) # new1 @ xrs) t n n' k"
    using new_node_insert [OF s1(4) _ par(2) _ x(4)] pl by auto
  have "append_mht_node E m s = (Ok (next_ref (fi_heap s1)), s2)"
    using s1(1) s2(1) by (simp add: append_mht_node_def new_node_def Let_def)
  then show ?thesis
    using s2 s1(3) an same_file_trans [OF s1(2) s2(2)]
    by (intro exI [of _ s2] exI [of _ "(?x, next_ref (fi_heap s1)) # new1"] exI [of _ "next_ref (fi_heap s1)"]) (auto simp: full_def)
qed


lemma get_mht_node_append:
  assumes inv: "file_inv E s xrs t n n k" and off: "MD_USER_DATA_SIZE \<le> fi_offset s" "fi_offset s = file_size_of s"
    "(fi_offset s - MD_USER_DATA_SIZE) mod NODE_SIZE = 0" and r: "data_phys n < nblk s"
  shows "\<exists>s' new p. get_mht_node E s = (Ok p, s') \<and> same_file s s' \<and> flags s' = flags s \<and>
    file_inv E s' (new @ xrs) (grow_tree n t) n (Suc n) k \<and> (MhtId (par (DataId n)), p) \<in> set (full s (new @ xrs)) \<and>
    fst ` set new \<subseteq> set (ancs (DataId n))"
proof -
  note I = file_invD [OF inv]
  have l: "data_logic (fi_offset s) = n" "fi_offset s - MD_USER_DATA_SIZE = n * NODE_SIZE"
    using data_nodes_aligned [of "fi_offset s"] off(2,3) I(9) by auto
  have inv': "file_inv E s xrs (grow_tree n t) n (Suc n) k" by (rule file_inv_grow [OF inv r])
  have al: "(fi_offset s - MD_USER_DATA_SIZE) mod (ATTACHED_DATA_NODES_COUNT * NODE_SIZE) = 0 \<longleftrightarrow> n mod ATTACHED_DATA_NODES_COUNT = 0"
    unfolding l(2) by (subst mult_mod_left [symmetric]) simp
  define m where "m = par (DataId n)"
  show ?thesis
  proof (cases "m \<noteq> 0 \<and> n mod ATTACHED_DATA_NODES_COUNT = 0")
    case True
    then have m: "m * 96 = n" "m \<noteq> 0" by (auto simp: m_def)
    have x: "\<not> in_file n (MhtId m)" "in_file (Suc n) (MhtId m)" using m by auto
    have "(m - 1) div 32 < m" using m(2) mht_parent_less [of m] by (simp add: mht_parent_def)
    then have "in_file n (MhtId (par (MhtId m)))" using m(1) by simp
    moreover have "MhtId m \<notin> fst ` set xrs" using x(1) I(4) unfolding cache_ok_def by blast
    moreover have "t_mht (grow_tree n t) m = mht_default" using True by (auto simp: grow_tree_def m_def)
    ultimately obtain s' new p where s': "append_mht_node E m s = (Ok p, s')" "same_file s s'" "flags s' = flags s"
      "file_inv E s' (new @ xrs) (grow_tree n t) n (Suc n) k" "(MhtId m, p) \<in> set (full s (new @ xrs))"
      "fst ` set new \<subseteq> insert (MhtId m) (set (ancs (MhtId m)))"
      using append_mht_node_Ok [OF inv' _ m(2) _ x(2)] by blast
    have "get_mht_node E s = (Ok p, s')"
      using s'(1) off(1,2) al True l(1) by (simp add: get_mht_node_def m_def)
    moreover have "fst ` set new \<subseteq> set (ancs (DataId n))"
      by (rule new_ancs) (use s'(6) cache_okD(6) [OF file_invD(4) [OF s'(4)]] in \<open>auto simp: m_def\<close>)
    ultimately show ?thesis using s' unfolding m_def by blast
  next
    case False
    have "in_file n (MhtId m)"
    proof (cases "m = 0")
      case m: False
      have "n div 96 * 96 + n mod 96 = n" by (rule div_mult_mod_eq)
      moreover have "0 < n mod 96" using False m by simp
      ultimately have "n div 96 * 96 < n" by linarith
      then have "m * 96 < n" by (simp add: m_def)
      then show ?thesis by simp
    qed simp
    then have im: "in_file n (MhtId (par (DataId n)))" unfolding m_def .
    have na: "par (DataId n) \<noteq> 0 \<Longrightarrow> \<not> (n mod ATTACHED_DATA_NODES_COUNT = 0 \<and> fi_offset s = file_size_of s)"
      using False by (simp add: m_def)
    show ?thesis by (rule get_mht_node_read [OF inv' off(1) refl, unfolded l(1) al, OF im na])
  qed
qed

lemma append_data_node_Ok:
  assumes inv: "file_inv E s xrs t n n k" and off: "MD_USER_DATA_SIZE \<le> fi_offset s" "fi_offset s = file_size_of s"
    "(fi_offset s - MD_USER_DATA_SIZE) mod NODE_SIZE = 0" and r: "data_phys n < nblk s"
  shows "\<exists>s' new r. append_data_node E s = (Ok r, s') \<and> same_file s s' \<and> flags s' = flags s \<and>
    file_inv E s' (new @ xrs) (grow_tree n t) n (Suc n) k \<and> obtained (DataId n) r new xrs"
proof -
  let ?x = "DataId n"
  note I = file_invD [OF inv]
  have l: "data_logic (fi_offset s) = n" using data_nodes_aligned(1) [of "fi_offset s"] off(2,3) I(9) by simp
  obtain s1 new p where s1: "get_mht_node E s = (Ok p, s1)" "same_file s s1" "flags s1 = flags s"
    "file_inv E s1 (new @ xrs) (grow_tree n t) n (Suc n) k" "(MhtId (par ?x), p) \<in> set (full s (new @ xrs))" "fst ` set new \<subseteq> set (ancs ?x)"
    using get_mht_node_append [OF inv off r] by blast
  have "\<not> in_file n ?x" by simp
  then have "?x \<notin> fst ` set xrs" using I(4) unfolding cache_ok_def by blast
  then have n: "?x \<notin> fst ` set (new @ xrs)" using s1(6) ancs_not_self [of ?x] by auto
  have p: "(MhtId (par ?x), p) \<in> set (full s1 (new @ xrs))" using s1(5) same_file_simps(1) [OF s1(2)] by simp
  obtain s2 where s2: "cache_node (phys ?x) (new_node s1 ?x p) s1 = (Ok (next_ref (fi_heap s1)), s2)" "same_file s1 s2"
    "flags s2 = flags s1" "file_inv E s2 ((?x, next_ref (fi_heap s1)) # new @ xrs) (grow_tree n t) n (Suc n) k"
    using new_node_insert [OF s1(4) n _ p] by (auto simp: grow_tree_def)
  have "append_data_node E s = (Ok (next_ref (fi_heap s1)), s2)"
    using s1(1) s2(1) off(1) l same_file_simps(4) [OF s1(2)] by (simp add: append_data_node_def new_node_def)
  then show ?thesis
    using s2 s1(3,6) same_file_trans [OF s1(2) s2(2)]
    by (intro exI [of _ s2] exI [of _ "(?x, next_ref (fi_heap s1)) # new"] exI [of _ "next_ref (fi_heap s1)"])
      (auto simp: obtained_def)
qed

text \<open>The state between operations.\<close>

definition file_ok :: "('s, 'd) env \<Rightarrow> ('s, 'd) file_inner \<Rightarrow> node_list \<Rightarrow> tree \<Rightarrow> nat \<Rightarrow> nat \<Rightarrow> nat \<Rightarrow> bool" where
  "file_ok E s xrs t n n' k \<longleftrightarrow> file_inv E s xrs t n n' k \<and> parents_first {} xrs \<and>
     length xrs \<le> fi_max_cache_page s \<and> 12 \<le> fi_max_cache_page s"

lemma get_data_node_read:
  assumes ok: "file_ok E s xrs t n n k" and ins: "inside (fi_offset s) (file_size_of s)"
    and cr: "credit s m k (Suc j)" "n \<le> m"
  shows "\<exists>s' xrs' t' k' r. get_data_node E s = (Ok r, s') \<and> file_ok E s' xrs' t' n n k' \<and>
    (DataId (data_logic (fi_offset s)), r) \<in> set xrs' \<and> same_file s s' \<and> t_data t' = t_data t \<and> credit s' m k' j \<and>
    (fits s m \<longrightarrow> fi_need_writing s' = fi_need_writing s)"
proof -
  have o: "file_inv E s xrs t n n k" "parents_first {} xrs" "length xrs \<le> fi_max_cache_page s" "12 \<le> fi_max_cache_page s"
    using ok by (simp_all add: file_ok_def)
  obtain s1 new r where s1: "read_data_node E s = (Ok r, s1)" "same_file s s1" "file_inv E s1 (new @ xrs) t n n k"
    "obtained (DataId (data_logic (fi_offset s))) r new xrs" "flags s1 = flags s"
    using read_data_node_Ok [OF o(1) ins] by blast
  note f1 = same_file_simps [OF s1(2)]
  have "credit s1 m k (Suc j)" using cr(1) f1(5) jroom_same_file [OF s1(2)] s1(5) by (simp add: credit_def flags_def fits_def)
  then obtain s' xrs' t' k' where s': "then_do (bump_mht_node r s1) (\<lambda>_ s. then_do (shrink_cache E s) (\<lambda>_ s. (Ok r, s))) = (Ok r, s')"
    "file_inv E s' xrs' t' n n k'" "parents_first {} xrs'" "length xrs' \<le> fi_max_cache_page s"
    "(DataId (data_logic (fi_offset s)), r) \<in> set xrs'" "same_file s1 s'" "t_data t' = t_data t" "credit s' m k' j"
    "fits s1 m \<longrightarrow> fi_need_writing s' = fi_need_writing s1"
    using settle_Ok [OF s1(3) o(2) s1(4), of m j] o(3,4) cr(2) f1(5) by auto
  have sf: "same_file s s'" by (rule same_file_trans [OF s1(2) s'(6)])
  have "get_data_node E s = (Ok r, s')" unfolding get_data_node_def if_not_P [OF inside_not_append(1) [OF ins]]
    using ins s1(1) s'(1) by (simp add: inside_def)
  moreover have "file_ok E s' xrs' t' n n k'" using s'(2-4) o(4) same_file_simps(5) [OF sf] by (simp add: file_ok_def)
  moreover have "fits s m \<longrightarrow> fi_need_writing s' = fi_need_writing s" using s'(9) s1(5) f1(5) by (simp add: fits_def flags_def)
  ultimately show ?thesis using s'(5,7,8) sf by blast
qed

lemma get_data_node_append:
  assumes ok: "file_ok E s xrs t n n k" and off: "MD_USER_DATA_SIZE \<le> fi_offset s" "fi_offset s = file_size_of s"
    "(fi_offset s - MD_USER_DATA_SIZE) mod NODE_SIZE = 0" and r: "data_phys n < nblk s"
    and cr: "credit s m k (Suc j)" "Suc n \<le> m"
  shows "\<exists>s' xrs' t' k' r. get_data_node E s = (Ok r, s') \<and> file_ok E s' xrs' t' n (Suc n) k' \<and>
    (DataId n, r) \<in> set xrs' \<and> same_file s s' \<and> t_data t' = (t_data t)(n := zeros NODE_SIZE) \<and> credit s' m k' j \<and>
    (fits s m \<longrightarrow> fi_need_writing s' = fi_need_writing s)"
proof -
  have o: "file_inv E s xrs t n n k" "parents_first {} xrs" "length xrs \<le> fi_max_cache_page s" "12 \<le> fi_max_cache_page s"
    using ok by (simp_all add: file_ok_def)
  obtain s1 new r where s1: "append_data_node E s = (Ok r, s1)" "same_file s s1" "file_inv E s1 (new @ xrs) (grow_tree n t) n (Suc n) k"
    "obtained (DataId n) r new xrs" "flags s1 = flags s"
    using append_data_node_Ok [OF o(1) off r] by blast
  note f1 = same_file_simps [OF s1(2)]
  have "credit s1 m k (Suc j)" using cr(1) f1(5) jroom_same_file [OF s1(2)] s1(5) by (simp add: credit_def flags_def fits_def)
  then obtain s' xrs' t' k' where s': "then_do (bump_mht_node r s1) (\<lambda>_ s. then_do (shrink_cache E s) (\<lambda>_ s. (Ok r, s))) = (Ok r, s')"
    "file_inv E s' xrs' t' n (Suc n) k'" "parents_first {} xrs'" "length xrs' \<le> fi_max_cache_page s"
    "(DataId n, r) \<in> set xrs'" "same_file s1 s'" "t_data t' = t_data (grow_tree n t)" "credit s' m k' j"
    "fits s1 m \<longrightarrow> fi_need_writing s' = fi_need_writing s1"
    using settle_Ok [OF s1(3) o(2) s1(4), of m j] o(3,4) cr(2) f1(5) by auto
  have sf: "same_file s s'" by (rule same_file_trans [OF s1(2) s'(6)])
  have "get_data_node E s = (Ok r, s')" using off s1(1) s'(1) by (simp add: get_data_node_def)
  moreover have "file_ok E s' xrs' t' n (Suc n) k'" using s'(2-4) o(4) same_file_simps(5) [OF sf] by (simp add: file_ok_def)
  moreover have "t_data t' = (t_data t)(n := zeros NODE_SIZE)" using s'(7) by (simp add: grow_tree_def)
  moreover have "fits s m \<longrightarrow> fi_need_writing s' = fi_need_writing s" using s'(9) s1(5) f1(5) by (simp add: fits_def flags_def)
  ultimately show ?thesis using s'(5,8) sf by blast
qed

end

end
