(* ===== verification/File_Refine.thy ===== *)
theory File_Refine
  imports Cache_Correct
begin

text \<open>
  An open file refines the string of its bytes.  \<open>file_bytes\<close> reads the content off the metadata
  node and the abstract tree; \<open>file_read\<close> returns the part of it at the offset and \<open>file_write\<close>
  overwrites or extends it.
\<close>

section \<open>The content\<close>

definition byte_at :: "bytes \<Rightarrow> tree \<Rightarrow> nat \<Rightarrow> byte" where
  "byte_at d t i = (if i < MD_USER_DATA_SIZE then d ! i
     else t_data t (data_logic i) ! ((i - MD_USER_DATA_SIZE) mod NODE_SIZE))"

definition file_bytes :: "('s, 'd) file_inner \<Rightarrow> tree \<Rightarrow> bytes" where
  "file_bytes s t = map (byte_at (me_data (mi_enc (fi_metadata s))) t) [0..<file_size_of s]"

lemma length_file_bytes [simp]: "length (file_bytes s t) = file_size_of s"
  by (simp add: file_bytes_def)

lemma file_bytes_cong:
  "same_file s s' \<Longrightarrow> t_data t' = t_data t \<Longrightarrow> file_bytes s' t' = file_bytes s t"
  by (simp add: file_bytes_def same_file_def file_size_of_def byte_at_def [abs_def])

lemma slice_file_bytes:
  assumes "off + len \<le> file_size_of s"
  shows "slice off (off + len) (file_bytes s t) = map (byte_at (me_data (mi_enc (fi_metadata s))) t) [off..<off + len]"
  using assms by (intro slice_eq_nths) (simp_all add: file_bytes_def)

text \<open>Positions inside one node.\<close>

definition node_pos :: "nat \<Rightarrow> nat" where
  "node_pos off = (off - MD_USER_DATA_SIZE) mod NODE_SIZE"

lemma node_pos_less [simp]: "node_pos off < NODE_SIZE"
  by (simp add: node_pos_def)

lemma node_pos_add:
  assumes "MD_USER_DATA_SIZE \<le> off" "node_pos off + i < NODE_SIZE"
  shows "data_logic (off + i) = data_logic off" "node_pos (off + i) = node_pos off + i"
proof -
  define q where "q = off - 3072"
  have o: "off + i - 3072 = q + i" using assms(1) by (simp add: q_def)
  have a: "(a * 4096 + b) div 4096 = a" "(a * 4096 + b) mod 4096 = b" if "b < 4096" for a b :: nat using that by simp_all
  have e: "q div 4096 * 4096 + (q mod 4096 + i) = q + i" by simp
  have l: "q mod 4096 + i < 4096" using assms(2) by (simp add: node_pos_def q_def)
  have "(q + i) div 4096 = q div 4096" "(q + i) mod 4096 = q mod 4096 + i" using a [OF l, of "q div 4096"] unfolding e .
  then show "data_logic (off + i) = data_logic off" "node_pos (off + i) = node_pos off + i"
    by (simp_all add: data_logic_def node_pos_def o flip: q_def)
qed

lemma node_pos_inverse:
  assumes "MD_USER_DATA_SIZE \<le> i" shows "i = MD_USER_DATA_SIZE + data_logic i * NODE_SIZE + node_pos i"
  using assms by (simp add: data_logic_def node_pos_def)

lemma slice_node:
  assumes "MD_USER_DATA_SIZE \<le> off" "node_pos off + len \<le> NODE_SIZE" "length (t_data t (data_logic off)) = NODE_SIZE"
  shows "slice (node_pos off) (node_pos off + len) (t_data t (data_logic off)) = map (byte_at d t) [off..<off + len]"
proof (rule slice_eq_nths)
  fix i assume "i < node_pos off + len - node_pos off"
  then show "t_data t (data_logic off) ! (node_pos off + i) = map (byte_at d t) [off..<off + len] ! i"
    using node_pos_add [OF assms(1), of i] assms by (simp add: byte_at_def flip: node_pos_def)
qed (use assms in simp_all)

lemma byte_at_write:
  assumes off: "MD_USER_DATA_SIZE \<le> off" "node_pos off + length bs \<le> NODE_SIZE"
    and l: "length (t_data t (data_logic off)) = NODE_SIZE"
  shows "byte_at d (t\<lparr>t_data := (t_data t)(data_logic off := overwrite (t_data t (data_logic off)) (node_pos off) bs)\<rparr>) i =
    (if off \<le> i \<and> i < off + length bs then bs ! (i - off) else byte_at d t i)"
proof (cases "MD_USER_DATA_SIZE \<le> i \<and> data_logic i = data_logic off")
  case True
  have "i = 3072 + data_logic off * 4096 + node_pos i" "off = 3072 + data_logic off * 4096 + node_pos off"
    using node_pos_inverse [of i] node_pos_inverse [OF off(1)] True by simp_all
  then have "off \<le> i \<and> i < off + length bs \<longleftrightarrow> node_pos off \<le> node_pos i \<and> node_pos i < node_pos off + length bs"
    "node_pos i - node_pos off = i - off" by linarith+
  then show ?thesis using True off(2) l by (simp add: byte_at_def nth_overwrite flip: node_pos_def)
next
  case False
  then have "\<not> (off \<le> i \<and> i < off + length bs)"
    using node_pos_add(1) [OF off(1), of "i - off"] off by fastforce
  then show ?thesis using False by (auto simp: byte_at_def)
qed

lemma map_overwrite:
  assumes "off \<le> n" "\<And>i. i < off + length bs \<or> i < n \<Longrightarrow> f' i = (if off \<le> i \<and> i < off + length bs then bs ! (i - off) else f i)"
  shows "map f' [0..<max (off + length bs) n] = overwrite (map f [0..<n]) off bs"
proof (rule nth_equalityI)
  show l: "length (map f' [0..<max (off + length bs) n]) = length (overwrite (map f [0..<n]) off bs)"
    using assms(1) by (simp add: overwrite_def)
  fix i assume "i < length (map f' [0..<max (off + length bs) n])"
  then have "i < off + length bs \<or> i < n" by (auto simp: less_max_iff_disj)
  then show "map f' [0..<max (off + length bs) n] ! i = overwrite (map f [0..<n]) off bs ! i"
    using assms by (auto simp: overwrite_def nth_append min_def)
qed

lemma slice_join: "a \<le> b \<Longrightarrow> b \<le> c \<Longrightarrow> slice a b xs @ slice b c xs = slice a c xs"
  using take_add [of "b - a" "c - b" "drop a xs"] by (simp add: slice_def)

section \<open>Changing a data node\<close>

definition put_data :: "nat \<Rightarrow> bytes \<Rightarrow> tree \<Rightarrow> tree" where
  "put_data l bs t = t\<lparr>t_data := (t_data t)(l := bs)\<rparr>"

lemma put_data_simps [simp]:
  "t_data (put_data l bs t) = (t_data t)(l := bs)" "t_mht (put_data l bs t) = t_mht t"
  "entry (put_data l bs t) x = entry t x"
  by (simp_all add: put_data_def entry_def split: node_type.splits)

lemma plain_put_data [simp]: "x \<noteq> DataId l \<Longrightarrow> plain (put_data l bs t) x = plain t x" "plain (put_data l bs t) (DataId l) = Data bs"
  by (cases x) (auto simp: put_data_def)

lemma tree_heap_put_data:
  assumes h: "tree_heap h xrs t" "(DataId l, r) \<in> set xrs" and bs: "length bs = NODE_SIZE"
  shows "tree_heap (upd_node r (\<lambda>n. n\<lparr>fn_plaintext := Data bs\<rparr>) h) xrs (put_data l bs t)"
proof -
  have "node_at (upd_node r (\<lambda>n. n\<lparr>fn_plaintext := Data bs\<rparr>) h) xrs (put_data l bs t) y q" if yq: "(y, q) \<in> set xrs" for y q
  proof (cases "q = r")
    case True
    then have "y = DataId l" using tree_heap_ref_inj [OF h(1) yq] h(2) by simp
    then show ?thesis using tree_heapD(1) [OF h(1) yq] True unfolding node_at_def by simp
  next
    case False
    then have "y \<noteq> DataId l" using tree_heapD(3) [OF h(1) yq] tree_heapD(3) [OF h] by auto
    then show ?thesis using tree_heapD(1) [OF h(1) yq] False unfolding node_at_def by simp
  qed
  moreover have "tree_wf (put_data l bs t)" using h(1) bs by (auto simp: tree_heap_def tree_wf_def)
  ultimately show ?thesis using h(1) unfolding tree_heap_def by auto
qed

text \<open>The nodes that a change of \<open>x\<close> marks: the node, its ancestors and the root.\<close>

definition marked :: "('s, 'd) file_inner \<Rightarrow> node_list \<Rightarrow> nid \<Rightarrow> node_ref set" where
  "marked s xrs x = refs_of (full s xrs) ({x, root_id} \<union> set (ancs x))"

lemma mark_dirty_Ok:
  assumes c: "cache_ok s xrs t n'" and d: "dirty_ok s xrs n" and x: "(x, r) \<in> set xrs"
  shows "mark_dirty r s = (Ok (), s\<lparr>fi_heap := mark (marked s xrs x) (fi_heap s), fi_need_writing := True\<rparr>)"
proof -
  have th: "tree_heap (fi_heap s) (full s xrs) t" using c by (simp add: cache_ok_def)
  have xr: "x \<noteq> root_id" using x cache_okD(6) [OF c] by force
  have r1: "(x, q) \<in> set (full s xrs) \<longleftrightarrow> q = r" "(root_id, q) \<in> set (full s xrs) \<longleftrightarrow> q = fi_root_mht s" for q
    using tree_heapD(3) [OF th, of x q] tree_heapD(3) [OF th in_full(2) [OF x]] tree_heapD(3) [OF th, of root_id q]
      tree_heapD(3) [OF th in_full(1)] in_full(2) [OF x] in_full(1) [of s xrs] by auto
  then have m: "marked s xrs x = {fi_root_mht s} \<union> (refs_of (full s xrs) (set (ancs x)) \<union> {r})"
    unfolding marked_def refs_of_def by auto
  show ?thesis
  proof (cases "dirty (fi_heap s) r")
    case True
    have "dirty (fi_heap s) q" if "q \<in> marked s xrs x" for q
      using that True dirty_root [OF c d in_full(2) [OF x] True] dirty_ancs [OF c d x True] unfolding m refs_of_def by blast
    moreover have "fi_need_writing s" using d dirty_root [OF c d in_full(2) [OF x] True] by (simp add: dirty_ok_def)
    ultimately show ?thesis using True by (simp add: mark_dirty_def dirty_def node_of_def mark_dirty_id)
  next
    case False
    let ?s = "set_node r (\<lambda>n. n\<lparr>fn_need_writing := True\<rparr>) s"
    have h1: "fi_heap ?s = mark {r} (fi_heap s)" by (simp add: set_node_def upd_need_writing)
    have n1: "fn_logic_number (nodes (mark {r} (fi_heap s)) r) = nid_logic x"
      using tree_heapD(1) [OF th in_full(2) [OF x]] by (simp add: node_at_def)
    have p: "mark_parents (nid_logic x + 2) (fn_parent (nodes (mark {r} (fi_heap s)) r)) (mark {r} (fi_heap s)) =
        (Ok (), mark (refs_of (full s xrs) (set (ancs x))) (mark {r} (fi_heap s)))"
      by (rule mark_parents_Ok [OF tree_heap_mark [OF th] in_full(2) [OF x] xr length_ancs])
    have "mark_ancestors r ?s = (Ok (), ?s\<lparr>fi_heap := mark (refs_of (full s xrs) (set (ancs x))) (mark {r} (fi_heap s))\<rparr>)"
      unfolding mark_ancestors_def node_of_def h1 n1 by (rule with_heap_simps) (simp only: h1 p)
    then have "mark_ancestors r ?s = (Ok (), s\<lparr>fi_heap := mark (refs_of (full s xrs) (set (ancs x)) \<union> {r}) (fi_heap s)\<rparr>)"
      by (simp add: mark_mark set_node_def)
    then show ?thesis
      using False unfolding m by (simp add: mark_dirty_def dirty_def node_of_def set_node_def upd_need_writing mark_mark)
  qed
qed

lemma marked_parent:
  assumes c: "cache_ok s xrs t n'" and x: "(x, r) \<in> set xrs" and y: "(y, q) \<in> set xrs" "q \<in> marked s xrs x"
  shows "in_file n' y" "(MhtId (par y), p) \<in> set (full s xrs) \<Longrightarrow> p \<in> marked s xrs x"
proof -
  have th: "tree_heap (fi_heap s) (full s xrs) t" using c by (simp add: cache_ok_def)
  show "in_file n' y" using c y(1) unfolding cache_ok_def by force
  obtain z where z: "z \<in> {x, root_id} \<union> set (ancs x)" "(z, q) \<in> set (full s xrs)" using y(2) unfolding marked_def refs_of_def by blast
  have "z = y" by (rule tree_heap_ref_inj [OF th z(2) in_full(2) [OF y(1)]])
  moreover have "y \<noteq> root_id" "x \<noteq> root_id" using y(1) x cache_okD(6) [OF c] by force+
  ultimately have "y = x \<or> y \<in> set (ancs x)" using z(1) by auto
  then have "par y = 0 \<or> MhtId (par y) \<in> set (ancs x)"
    using ancs_par [of y x] \<open>x \<noteq> root_id\<close> by (auto simp: ancs.simps [of x])
  then show "p \<in> marked s xrs x" if "(MhtId (par y), p) \<in> set (full s xrs)"
    using that unfolding marked_def refs_of_def by auto
qed

text \<open>What reads and writes keep.\<close>

definition same_handle :: "('s, 'd) file_inner \<Rightarrow> ('s, 'd) file_inner \<Rightarrow> bool" where
  "same_handle s s' \<longleftrightarrow> fi_opts s' = fi_opts s \<and> fi_max_cache_page s' = fi_max_cache_page s \<and>
     fi_last_error s' = fi_last_error s \<and> fi_status s' = fi_status s \<and>
     bf_disk (fi_host_file s') = bf_disk (fi_host_file s) \<and> rj_disk (fi_journal s') = rj_disk (fi_journal s) \<and>
     kg_metadata_key (fi_key_gen s') = kg_metadata_key (fi_key_gen s) \<and>
     (fi_key_gen s' = KgIntegrityOnly) = (fi_key_gen s = KgIntegrityOnly) \<and>
     same_header (fi_metadata s) (fi_metadata s') \<and>
     me_file_name (mi_enc (fi_metadata s')) = me_file_name (mi_enc (fi_metadata s))"

lemma same_handle_refl [simp]: "same_handle s s"
  by (simp add: same_handle_def)

lemma same_handle_trans: "same_handle s s' \<Longrightarrow> same_handle s' s'' \<Longrightarrow> same_handle s s''"
  unfolding same_handle_def using same_header_trans by auto

lemma same_file_handle: "same_file s s' \<Longrightarrow> same_handle s s'"
  by (simp add: same_file_def same_handle_def)

lemma data_nodes_mono: "a \<le> b \<Longrightarrow> data_nodes a \<le> data_nodes b"
  unfolding data_nodes_def by (intro div_le_mono) simp

lemma data_nodes_max: "data_nodes (max a b) = max (data_nodes a) (data_nodes b)"
  using data_nodes_mono [of a b] data_nodes_mono [of b a] by (cases "a \<le> b") (auto simp: max_def)

lemma data_nodes_chunk:
  assumes "MD_USER_DATA_SIZE \<le> off" "0 < len" "node_pos off + len \<le> NODE_SIZE"
  shows "data_nodes (off + len) = Suc (data_logic off)"
proof -
  have "off + len - 3072 + 4095 = Suc (data_logic off) * 4096 + (node_pos off + len - 1)"
    using node_pos_inverse [OF assms(1)] assms(2) by simp
  moreover have "(Suc (data_logic off) * 4096 + (node_pos off + len - 1)) div 4096 = Suc (data_logic off)"
    using assms(2,3) by simp
  ultimately show ?thesis by (simp add: data_nodes_def)
qed

lemma data_nodes_bound: "sz \<le> MD_USER_DATA_SIZE + data_nodes sz * NODE_SIZE"
proof -
  define q r where "q = (sz - 3072 + 4095) div 4096" and "r = (sz - 3072 + 4095) mod 4096"
  have "q * 4096 + r = sz - 3072 + 4095" by (simp add: q_def r_def)
  moreover have "r \<le> 4095" by (simp add: r_def)
  ultimately have "sz \<le> 3072 + q * 4096" by linarith
  then show ?thesis by (simp add: data_nodes_def q_def)
qed

context block_set
begin

text \<open>Changing the file after a write: the new size, content and flags.\<close>

lemma size_fits:
  assumes "store_ok E s k" "0 < n \<Longrightarrow> data_phys (n - 1) < nblk s" "data_nodes sz \<le> n" shows "sz < 2 ^ 64"
proof (cases "n = 0")
  case True
  then show ?thesis using assms(3) data_nodes_bound [of sz] by simp
next
  case False
  have "n + 1 \<le> nblk s" using assms(2) False by (simp add: data_phys_def)
  then have "(n + 1) * 4096 \<le> nblk s * 4096" by (rule mult_le_mono1)
  moreover have "data_nodes sz * 4096 \<le> n * 4096" using assms(3) by (rule mult_le_mono1)
  ultimately show ?thesis using assms(1) data_nodes_bound [of sz] by (simp add: store_ok_def)
qed

lemma file_inv_write:
  assumes inv: "file_inv E s xrs t n n' k" and x: "(DataId l, r) \<in> set xrs" and n': "n' = max n (Suc l)" "n' \<le> Suc n"
    and bs: "length bs = NODE_SIZE" and sz: "data_nodes sz = n'"
    and s': "s' = s\<lparr>fi_heap := mark (marked s xrs (DataId l)) (upd_node r (\<lambda>n. n\<lparr>fn_plaintext := Data bs\<rparr>) (fi_heap s)),
      fi_need_writing := True, fi_offset := off,
      fi_metadata := (fi_metadata s)\<lparr>mi_enc := (mi_enc (fi_metadata s))\<lparr>me_size := sz\<rparr>\<rparr>\<rparr>"
  shows "file_inv E s' xrs (put_data l bs t) n' n' k"
proof -
  let ?x = "DataId l" and ?R = "marked s xrs (DataId l)" and ?t = "put_data l bs t"
  note I = file_invD [OF inv]
  have th: "tree_heap (fi_heap s') (full s xrs) ?t"
    using tree_heap_mark [OF tree_heap_put_data [OF I(17) in_full(2) [OF x] bs]] by (simp add: s')
  have f: "full s' xrs = full s xrs" "fblk s' = fblk s" "nblk s' = nblk s" by (simp_all add: s' full_def fblk_def nblk_def fun_eq_iff)
  have d: "dirty (fi_heap s') q \<longleftrightarrow> q \<in> ?R \<or> dirty (fi_heap s) q" for q
    by (cases "q = r") (simp_all add: s' dirty_def)
  have root: "fi_root_mht s \<in> ?R" by (auto simp: marked_def refs_of_def)
  have "cache_ok s' xrs ?t n'" using I(4) th by (simp add: cache_ok_def f(1)) (simp add: s')
  moreover have "dirty_ok s' xrs n'"
  proof -
    have "in_file n' y \<and> (\<forall>p. (MhtId (par y), p) \<in> set (full s xrs) \<longrightarrow> p \<in> ?R \<or> dirty (fi_heap s) p)"
      if "(y, q) \<in> set xrs" "q \<in> ?R \<or> dirty (fi_heap s) q" for y q
    proof (cases "q \<in> ?R")
      case True
      then show ?thesis using marked_parent [OF I(4) x that(1)] by blast
    next
      case False
      then have "in_file n y \<and> (\<forall>p. (MhtId (par y), p) \<in> set (full s xrs) \<longrightarrow> dirty (fi_heap s) p)"
        using I(5) that unfolding dirty_ok_def by blast
      then show ?thesis using in_file_mono [of n y n'] n'(1) by simp
    qed
    moreover have "0 < n'" using n'(1) by simp
    ultimately show ?thesis unfolding dirty_ok_def d f(1) by (simp add: s')
  qed
  moreover have "disk_ok (env_ossl E) s' xrs ?t n'"
  proof -
    have "on_disk (env_ossl E) (fblk s) ?t y" if y: "y \<noteq> root_id" "in_file n' y" "unchanged s' xrs y" for y
    proof -
      have u: "unchanged s xrs y" "\<And>q. (y, q) \<in> set xrs \<Longrightarrow> q \<notin> ?R" using y(3) d by (auto simp: unchanged_def)
      have yx: "y \<notin> insert ?x (set (ancs ?x))"
      proof
        assume a: "y \<in> insert ?x (set (ancs ?x))"
        then have "y \<in> fst ` set xrs"
          using tree_heap_ancs [OF I(17) [unfolded full_def], of ?x] x by (force simp: full_def)
        then obtain q where q: "(y, q) \<in> set xrs" by force
        have "q \<in> ?R" using a in_full(2) [OF q, of s] unfolding marked_def refs_of_def by blast
        then show False using u(2) q by blast
      qed
      have "in_file n y"
      proof (rule ccontr)
        assume ny: "\<not> in_file n y"
        then have "n' \<noteq> n" using y(2) by auto
        then have "n' = Suc n" "l = n" using n' by (auto simp: max_def split: if_splits)
        then have "y = ?x \<or> (y = MhtId (par ?x) \<and> par ?x \<noteq> 0)"
          using ny y(2) by (cases y) (auto simp: less_Suc_eq)
        then show False using yx by (auto simp: ancs.simps [of ?x])
      qed
      then show ?thesis using I(6) y(1) u(1) yx by (simp add: disk_ok_def on_disk_def)
    qed
    then show ?thesis using root unfolding disk_ok_def f(2) d by (simp add: s')
  qed
  moreover have "saved_ok (env_ossl E) s'" by (simp add: saved_ok_def s')
  moreover have "store_ok E s' k" "keys_ok E s'"
    using I(1,2) by (simp_all add: s' store_ok_def keys_ok_def nblk_def metadata_encrypt_flags_def)
  moreover have "meta_ok (fi_metadata s')"
    using I(3) size_fits [OF I(1,10)] sz by (simp add: s' meta_ok_def meta_wf_def enc_wf_def)
  ultimately show ?thesis using I(10) f(3) sz by (simp add: file_inv_def) (simp add: s' file_size_of_def)
qed


section \<open>Writing into a data node\<close>

lemma write_chunk_Ok:
  assumes inv: "file_inv E s xrs t n n' k" and x: "(DataId (data_logic (fi_offset s)), r) \<in> set xrs"
    and n': "n' = max n (Suc (data_logic (fi_offset s)))" "n' \<le> Suc n"
    and off: "MD_USER_DATA_SIZE \<le> fi_offset s" "fi_offset s \<le> file_size_of s"
    and bs: "bs \<noteq> []" "node_pos (fi_offset s) + length bs \<le> NODE_SIZE"
  shows "\<exists>s' t'. write_chunk r bs s = (Ok (), s') \<and> file_inv E s' xrs t' n' n' k \<and> same_handle s s' \<and>
    fi_offset s' = fi_offset s + length bs \<and> fi_end_of_file s' = fi_end_of_file s \<and>
    file_bytes s' t' = overwrite (file_bytes s t) (fi_offset s) bs \<and> fi_need_writing s' \<and>
    old_count (fi_heap s') = old_count (fi_heap s)"
proof -
  let ?off = "fi_offset s" and ?l = "data_logic (fi_offset s)"
  note I = file_invD [OF inv]
  define pt where "pt = overwrite (t_data t ?l) (node_pos ?off) bs"
  have tl: "length (t_data t ?l) = NODE_SIZE" using cache_okD(10) [OF I(4)] by (simp add: tree_wf_def)
  then have lp: "length pt = NODE_SIZE" using bs(2) by (simp add: pt_def)
  have pl: "fn_plaintext (nodes (fi_heap s) r) = Data (t_data t ?l)"
    using cache_okD(8) [OF I(4) in_full(2) [OF x]] by (simp add: node_at_def)
  define sz where "sz = max (?off + length bs) (file_size_of s)"
  define h where "h = upd_node r (\<lambda>n. n\<lparr>fn_plaintext := Data pt\<rparr>) (fi_heap s)"
  define s1 where "s1 = s\<lparr>fi_heap := h, fi_offset := ?off + length bs,
      fi_metadata := (fi_metadata s)\<lparr>mi_enc := (mi_enc (fi_metadata s))\<lparr>me_size := sz\<rparr>\<rparr>\<rparr>"
  define s' where "s' = s1\<lparr>fi_heap := mark (marked s xrs (DataId ?l)) h, fi_need_writing := True\<rparr>"
  have w: "write_chunk r bs s = mark_dirty r s1"
    using pl tl bs(2)
    by (simp add: write_chunk_def Let_def node_of_def set_node_def advance_def s1_def h_def sz_def pt_def upd_node_def
        file_size_of_def flip: node_pos_def)
  have f1: "full s1 xrs = full s xrs" "marked s1 xrs = marked s xrs"
    by (simp_all add: s1_def full_def marked_def fun_eq_iff)
  have "cache_ok s1 xrs (put_data ?l pt t) n'"
    using I(4) tree_heap_put_data [OF I(17) in_full(2) [OF x] lp] by (simp add: cache_ok_def f1(1)) (simp add: s1_def h_def)
  moreover have "dirty_ok s1 xrs n"
  proof -
    have "dirty h q = dirty (fi_heap s) q" for q by (cases "q = r") (simp_all add: h_def dirty_def)
    then show ?thesis using I(5) dirty_ok_cong [of s1 s xrs n] by (simp add: s1_def)
  qed
  ultimately have m: "mark_dirty r s1 = (Ok (), s')"
    using mark_dirty_Ok [of s1 xrs "put_data ?l pt t" n' n "DataId ?l" r] x by (simp add: f1(2)) (simp add: s'_def s1_def)
  have dn: "data_nodes sz = n'"
    using data_nodes_chunk [OF off(1) _ bs(2)] bs(1) I(9) n'(1) unfolding sz_def data_nodes_max by simp
  have "file_inv E s' xrs (put_data ?l pt t) n' n' k"
    by (rule file_inv_write [OF inv x n' lp dn, of _ "?off + length bs"]) (simp add: s'_def s1_def h_def)
  moreover have "file_bytes s' (put_data ?l pt t) = overwrite (file_bytes s t) ?off bs"
  proof -
    have "file_size_of s' = sz" "me_data (mi_enc (fi_metadata s')) = me_data (mi_enc (fi_metadata s))"
      by (simp_all add: s'_def s1_def file_size_of_def)
    then show ?thesis unfolding file_bytes_def sz_def
      using byte_at_write [OF off(1) bs(2) tl] by (simp add: put_data_def pt_def map_overwrite [OF off(2)])
  qed
  moreover have "same_handle s s'" "fi_offset s' = ?off + length bs" "fi_end_of_file s' = fi_end_of_file s"
    by (simp_all add: s'_def s1_def same_handle_def same_header_def)
  moreover have "fi_need_writing s'" "old_count (fi_heap s') = old_count (fi_heap s)"
    by (simp_all add: s'_def s1_def h_def old_count_upd)
  ultimately show ?thesis using w m by (intro exI [of _ s'] exI [of _ "put_data ?l pt t"]) simp
qed


end

section \<open>The loops\<close>

text \<open>The number of data nodes that \<open>len\<close> bytes from \<open>off\<close> on lie in.\<close>

definition io_chunks :: "nat \<Rightarrow> nat \<Rightarrow> nat" where
  "io_chunks off len = (if len = 0 then 0 else (node_pos off + len + (NODE_SIZE - 1)) div NODE_SIZE)"

lemma io_chunks_step:
  assumes "MD_USER_DATA_SIZE \<le> off" "0 < len"
  shows "io_chunks off len =
    Suc (io_chunks (off + min len (NODE_SIZE - node_pos off)) (len - min len (NODE_SIZE - node_pos off)))"
proof (cases "len \<le> NODE_SIZE - node_pos off")
  case True
  have "(node_pos off + len + 4095) div 4096 = 1"
  proof (rule div_nat_eqI)
    show "4096 * 1 \<le> node_pos off + len + 4095" using assms(2) by simp
    have "node_pos off + len \<le> 4096" using True node_pos_less [of off] by linarith
    then show "node_pos off + len + 4095 < 4096 * Suc 1" by simp
  qed
  then show ?thesis using True assms(2) by (simp add: io_chunks_def)
next
  case False
  let ?r = "4096 - node_pos off"
  have p: "node_pos (off + ?r) = 0"
  proof -
    have "off + ?r - 3072 = Suc (data_logic off) * 4096"
      using node_pos_inverse [OF assms(1)] node_pos_less [of off] unfolding mult_Suc by linarith
    then show ?thesis by (simp add: node_pos_def)
  qed
  have "node_pos off + len + 4095 = 4096 + (len - ?r + 4095)" using False node_pos_less [of off] by linarith
  then have "(node_pos off + len + 4095) div 4096 = Suc ((len - ?r + 4095) div 4096)" by simp
  then show ?thesis using False p by (simp add: io_chunks_def min_def)
qed

lemma file_bytes_grow:
  assumes "(file_size_of s - MD_USER_DATA_SIZE) mod NODE_SIZE = 0" "same_file s s'" "t_data t' = (t_data t)(data_nodes (file_size_of s) := z)"
  shows "file_bytes s' t' = file_bytes s t"
proof -
  have "data_logic i \<noteq> data_nodes (file_size_of s)" if "i < file_size_of s" "MD_USER_DATA_SIZE \<le> i" for i
    using data_logic_less [of i "file_size_of s"] that by (simp add: inside_def)
  then show ?thesis
    using assms(2,3) by (simp add: file_bytes_def same_file_def file_size_of_def byte_at_def)
qed

context block_set
begin

text \<open>Getting the node at the offset, for a write of at least one byte.\<close>

lemma get_data_node_Ok:
  assumes ok: "file_ok E s xrs t n n k" and off: "MD_USER_DATA_SIZE \<le> fi_offset s" "fi_offset s \<le> file_size_of s"
    and m: "n \<le> m" "Suc (data_logic (fi_offset s)) \<le> m" "data_phys (m - 1) < nblk s" and cr: "credit s m k (Suc j)"
  shows "\<exists>s' xrs' t' k' r n'. get_data_node E s = (Ok r, s') \<and> file_ok E s' xrs' t' n n' k' \<and>
    (DataId (data_logic (fi_offset s)), r) \<in> set xrs' \<and> same_file s s' \<and>
    n' = max n (Suc (data_logic (fi_offset s))) \<and> n' \<le> Suc n \<and> file_bytes s' t' = file_bytes s t \<and> credit s' m k' j"
proof -
  have inv: "file_inv E s xrs t n n k" using ok by (simp add: file_ok_def)
  note I = file_invD [OF inv]
  show ?thesis
  proof (cases "inside (fi_offset s) (file_size_of s)")
    case True
    obtain s' xrs' t' k' r where g: "get_data_node E s = (Ok r, s')" "file_ok E s' xrs' t' n n k'"
      "(DataId (data_logic (fi_offset s)), r) \<in> set xrs'" "same_file s s'" "t_data t' = t_data t" "credit s' m k' j"
      using get_data_node_read [OF ok True cr m(1)] by blast
    have "n = max n (Suc (data_logic (fi_offset s)))" using data_logic_less [OF True] I(9) by simp
    then show ?thesis using g file_bytes_cong [OF g(4,5)] by fastforce
  next
    case False
    then have a: "fi_offset s = file_size_of s" "(file_size_of s - MD_USER_DATA_SIZE) mod NODE_SIZE = 0" using off by (auto simp: inside_def)
    have l: "data_logic (fi_offset s) = n" using data_nodes_aligned(1) [OF a(2)] a(1) I(9) by simp
    have sn: "Suc n \<le> m" using m(2) l by simp
    then have "n \<le> m - 1" by simp
    then have p: "data_phys n < nblk s" using data_phys_mono [of n "m - 1"] m(3) by simp
    obtain s' xrs' t' k' r where g: "get_data_node E s = (Ok r, s')" "file_ok E s' xrs' t' n (Suc n) k'"
      "(DataId n, r) \<in> set xrs'" "same_file s s'" "t_data t' = (t_data t)(n := zeros NODE_SIZE)" "credit s' m k' j"
      using get_data_node_append [OF ok off(1) a(1) _ p cr sn] a by auto
    have "file_bytes s' t' = file_bytes s t" by (rule file_bytes_grow [OF a(2) g(4)]) (use g(5) I(9) in simp)
    then show ?thesis using g l by fastforce
  qed
qed

lemma file_ok_write:
  assumes ok: "file_ok E s xrs t n n' k" and inv: "file_inv E s' xrs t' n'' n'' k" and h: "same_handle s s'"
  shows "file_ok E s' xrs t' n'' n'' k"
  using assms by (simp add: file_ok_def same_handle_def)

lemma credit_cong: "same_handle s s' \<Longrightarrow> old_count (fi_heap s') = old_count (fi_heap s) \<Longrightarrow> credit s' m k j = credit s m k j"
  by (simp add: credit_def fits_def same_handle_def jroom_def)

lemma nblk_cong: "same_handle s s' \<Longrightarrow> nblk s' = nblk s"
  by (simp add: nblk_def same_handle_def)

lemma write_loop_Ok:
  assumes "file_ok E s xrs t n n k" "buf \<noteq> [] \<Longrightarrow> MD_USER_DATA_SIZE \<le> fi_offset s" "fi_offset s \<le> file_size_of s"
    "n \<le> m" "data_nodes (fi_offset s + length buf) \<le> m" "0 < m \<Longrightarrow> data_phys (m - 1) < nblk s"
    "credit s m k (io_chunks (fi_offset s) (length buf) + j)"
  shows "\<exists>s' xrs' t' n' k'. write_loop E buf s = (Ok (), s') \<and> file_ok E s' xrs' t' n' n' k' \<and> same_handle s s' \<and>
    fi_offset s' = fi_offset s + length buf \<and> fi_end_of_file s' = fi_end_of_file s \<and>
    file_bytes s' t' = overwrite (file_bytes s t) (fi_offset s) buf \<and> credit s' m k' j \<and>
    (buf = [] \<longrightarrow> s' = s) \<and> (buf \<noteq> [] \<longrightarrow> fi_need_writing s')"
  using assms
proof (induction "length buf" arbitrary: s xrs t n k buf rule: less_induct)
  case less
  note ok = less.prems(1)
  show ?case
  proof (cases "buf = []")
    case True
    then show ?thesis using ok less.prems(7) by (simp add: write_loop.simps io_chunks_def) blast
  next
    case False
    let ?off = "fi_offset s" and ?l = "data_logic (fi_offset s)"
    define len where "len = min (length buf) (NODE_SIZE - node_pos ?off)"
    have off: "MD_USER_DATA_SIZE \<le> ?off" "?off \<le> file_size_of s" using less.prems(2,3) False by simp_all
    have len: "0 < len" "len \<le> length buf" "node_pos ?off + len \<le> NODE_SIZE"
      using False node_pos_less [of ?off] by (auto simp: len_def min_def simp del: node_pos_less)
    have ch: "io_chunks ?off (length buf) = Suc (io_chunks (?off + len) (length (drop len buf)))"
      using io_chunks_step [OF off(1), of "length buf"] False by (simp add: len_def)
    have lm: "Suc ?l \<le> m"
      using data_nodes_chunk [OF off(1) len(1,3)] data_nodes_mono [of "?off + len" "?off + length buf"] len(2) less.prems(5) by simp
    then have pm: "data_phys (m - 1) < nblk s" using less.prems(6) by simp
    obtain s1 xrs1 t1 k1 r n1 where g: "get_data_node E s = (Ok r, s1)" "file_ok E s1 xrs1 t1 n n1 k1" "(DataId ?l, r) \<in> set xrs1"
      "same_file s s1" "n1 = max n (Suc ?l)" "n1 \<le> Suc n" "file_bytes s1 t1 = file_bytes s t"
      "credit s1 m k1 (io_chunks (?off + len) (length (drop len buf)) + j)"
      using get_data_node_Ok [OF ok off less.prems(4) lm pm] less.prems(7) ch by fastforce
    have o1: "fi_offset s1 = ?off" "file_size_of s1 = file_size_of s" using same_file_simps [OF g(4)] by simp_all
    have inv1: "file_inv E s1 xrs1 t1 n n1 k1" using g(2) by (simp add: file_ok_def)
    obtain s2 t2 where w: "write_chunk r (take len buf) s1 = (Ok (), s2)" "file_inv E s2 xrs1 t2 n1 n1 k1" "same_handle s1 s2"
      "fi_offset s2 = ?off + len" "fi_end_of_file s2 = fi_end_of_file s1" "file_bytes s2 t2 = overwrite (file_bytes s1 t1) ?off (take len buf)"
      "fi_need_writing s2" "old_count (fi_heap s2) = old_count (fi_heap s1)"
    proof -
      have "take len buf \<noteq> []" "node_pos (fi_offset s1) + length (take len buf) \<le> NODE_SIZE" using len o1 False by auto
      from write_chunk_Ok [OF inv1, unfolded o1, OF g(3) g(5,6) off this [unfolded o1]] show thesis using that o1 len(2) by auto
    qed
    have h2: "same_handle s s2" by (rule same_handle_trans [OF same_file_handle [OF g(4)] w(3)])
    have ok2: "file_ok E s2 xrs1 t2 n1 n1 k1" by (rule file_ok_write [OF g(2) w(2,3)])
    have sz2: "fi_offset s2 \<le> file_size_of s2"
      using arg_cong [OF w(6), of length] g(7) off(2) len(2) o1(2) by (simp add: w(4) overwrite_def)
    have "\<exists>s' xrs' t' n' k'. write_loop E (drop len buf) s2 = (Ok (), s') \<and> file_ok E s' xrs' t' n' n' k' \<and> same_handle s2 s' \<and>
      fi_offset s' = fi_offset s2 + length (drop len buf) \<and> fi_end_of_file s' = fi_end_of_file s2 \<and>
      file_bytes s' t' = overwrite (file_bytes s2 t2) (fi_offset s2) (drop len buf) \<and> credit s' m k' j \<and>
      (drop len buf = [] \<longrightarrow> s' = s2) \<and> (drop len buf \<noteq> [] \<longrightarrow> fi_need_writing s')"
    proof (rule less.hyps [OF _ ok2 _ sz2])
      show "length (drop len buf) < length buf" using len by simp
      show "MD_USER_DATA_SIZE \<le> fi_offset s2" using w(4) off(1) by simp
      show "n1 \<le> m" using g(5) less.prems(4) lm by simp
      show "data_nodes (fi_offset s2 + length (drop len buf)) \<le> m" using w(4) len(2) less.prems(5) by simp
      show "data_phys (m - 1) < nblk s2" using pm nblk_cong [OF h2] by simp
      show "credit s2 m k1 (io_chunks (fi_offset s2) (length (drop len buf)) + j)" using g(8) w(4) credit_cong [OF w(3,8)] by simp
    qed
    then obtain s' xrs' t' n' k' where i: "write_loop E (drop len buf) s2 = (Ok (), s')" "file_ok E s' xrs' t' n' n' k'" "same_handle s2 s'"
      "fi_offset s' = fi_offset s2 + length (drop len buf)" "fi_end_of_file s' = fi_end_of_file s2"
      "file_bytes s' t' = overwrite (file_bytes s2 t2) (fi_offset s2) (drop len buf)" "credit s' m k' j"
      "drop len buf = [] \<longrightarrow> s' = s2" "drop len buf \<noteq> [] \<longrightarrow> fi_need_writing s'"
      by blast
    have "write_loop E buf s = (Ok (), s')"
      using False g(1) w(1) i(1) by (subst write_loop.simps) (simp add: Let_def node_room_def o1 len_def flip: node_pos_def)
    moreover have "file_bytes s' t' = overwrite (file_bytes s t) ?off buf"
    proof -
      have l: "length (take len buf) = len" using len(2) by simp
      show ?thesis
        using overwrite_append [of ?off "file_bytes s t" "take len buf" "drop len buf"] off(2) i(6) w(4,6) g(7) unfolding l by simp
    qed
    moreover have "fi_offset s' = ?off + length buf" using i(4) w(4) len(2) by simp
    moreover have "fi_end_of_file s' = fi_end_of_file s" using i(5) w(5) g(4) by (simp add: same_file_def)
    moreover have "fi_need_writing s'" using i(8,9) w(7) by blast
    ultimately show ?thesis using i(2,7) same_handle_trans [OF h2 i(3)] False by blast
  qed
qed


text \<open>Fields of the state that the invariant does not constrain.\<close>

lemma file_inv_misc [simp]:
  "file_inv E (s\<lparr>fi_offset := off\<rparr>) xrs t n n' k = file_inv E s xrs t n n' k"
  "file_inv E (s\<lparr>fi_end_of_file := b\<rparr>) xrs t n n' k = file_inv E s xrs t n n' k"
  "file_inv E (s\<lparr>fi_last_error := e\<rparr>) xrs t n n' k = file_inv E s xrs t n n' k"
  "file_inv E (s\<lparr>fi_status := st\<rparr>) xrs t n n' k = file_inv E s xrs t n n' k"
  unfolding file_inv_def store_ok_def keys_ok_def cache_ok_def dirty_ok_def disk_ok_def saved_ok_def unchanged_def full_def
    fblk_def [abs_def] nblk_def file_size_of_def by simp_all

lemma file_ok_misc [simp]:
  "file_ok E (s\<lparr>fi_offset := off\<rparr>) xrs t n n' k = file_ok E s xrs t n n' k"
  "file_ok E (s\<lparr>fi_end_of_file := b\<rparr>) xrs t n n' k = file_ok E s xrs t n n' k"
  "file_ok E (s\<lparr>fi_last_error := e\<rparr>) xrs t n n' k = file_ok E s xrs t n n' k"
  "file_ok E (s\<lparr>fi_status := st\<rparr>) xrs t n n' k = file_ok E s xrs t n n' k"
  by (simp_all add: file_ok_def)

lemma file_bytes_misc [simp]:
  "file_bytes (s\<lparr>fi_offset := off\<rparr>) t = file_bytes s t" "file_bytes (s\<lparr>fi_end_of_file := b\<rparr>) t = file_bytes s t"
  "file_bytes (s\<lparr>fi_last_error := e\<rparr>) t = file_bytes s t" "file_bytes (s\<lparr>fi_status := st\<rparr>) t = file_bytes s t"
  by (simp_all add: file_bytes_def file_size_of_def)

lemma credit_misc [simp]:
  "credit (s\<lparr>fi_offset := off\<rparr>) m k j = credit s m k j" "credit (s\<lparr>fi_end_of_file := b\<rparr>) m k j = credit s m k j"
  by (simp_all add: credit_def fits_def jroom_def)

lemma fits_misc [simp]: "fits (s\<lparr>fi_offset := off\<rparr>) m = fits s m" "fits (s\<lparr>fi_end_of_file := b\<rparr>) m = fits s m"
  by (simp_all add: fits_def)

lemma fits_cong: "same_handle s s' \<Longrightarrow> fits s' m = fits s m"
  by (simp add: fits_def same_handle_def)

lemma read_loop_Ok:
  assumes "file_ok E s xrs t n n k" "0 < left \<Longrightarrow> MD_USER_DATA_SIZE \<le> fi_offset s" "fi_offset s + left \<le> file_size_of s"
    "n \<le> m" "credit s m k (io_chunks (fi_offset s) left + j)"
  shows "\<exists>s' xrs' t' k'. read_loop E left buf s = (Ok (buf @ slice (fi_offset s) (fi_offset s + left) (file_bytes s t), 0), s') \<and>
    file_ok E s' xrs' t' n n k' \<and> same_file s (s'\<lparr>fi_offset := fi_offset s\<rparr>) \<and> fi_offset s' = fi_offset s + left \<and>
    t_data t' = t_data t \<and> credit s' m k' j \<and> (fits s m \<longrightarrow> fi_need_writing s' = fi_need_writing s)"
  using assms
proof (induction left arbitrary: s xrs t k buf rule: less_induct)
  case (less left)
  note ok = less.prems(1)
  show ?case
  proof (cases "left = 0")
    case True
    then show ?thesis using ok less.prems(5)
      by (intro exI [of _ s] exI [of _ xrs] exI [of _ t] exI [of _ k]) (simp add: read_loop.simps io_chunks_def)
  next
    case False
    let ?off = "fi_offset s" and ?l = "data_logic (fi_offset s)"
    define len where "len = min left (NODE_SIZE - node_pos ?off)"
    have off: "MD_USER_DATA_SIZE \<le> ?off" "?off < file_size_of s" using less.prems(2,3) False by simp_all
    have len: "0 < len" "len \<le> left" "node_pos ?off + len \<le> NODE_SIZE"
      using False node_pos_less [of ?off] by (auto simp: len_def min_def simp del: node_pos_less)
    have ch: "io_chunks ?off left = Suc (io_chunks (?off + len) (left - len))"
      using io_chunks_step [OF off(1), of left] False by (simp add: len_def)
    have ins: "inside ?off (file_size_of s)" using off by (simp add: inside_def)
    obtain s1 xrs1 t1 k1 r where g: "get_data_node E s = (Ok r, s1)" "file_ok E s1 xrs1 t1 n n k1" "(DataId ?l, r) \<in> set xrs1"
      "same_file s s1" "t_data t1 = t_data t" "credit s1 m k1 (io_chunks (?off + len) (left - len) + j)"
      "fits s m \<longrightarrow> fi_need_writing s1 = fi_need_writing s"
      using get_data_node_read [OF ok ins _ less.prems(4)] less.prems(5) ch by fastforce
    have o1: "fi_offset s1 = ?off" "file_size_of s1 = file_size_of s" using same_file_simps [OF g(4)] by simp_all
    have inv1: "file_inv E s1 xrs1 t1 n n k1" using g(2) by (simp add: file_ok_def)
    note I1 = file_invD [OF inv1]
    have tl: "length (t_data t ?l) = NODE_SIZE" using cache_okD(10) [OF I1(4)] g(5) by (simp add: tree_wf_def)
    have pl: "fn_plaintext (node_of s1 r) = Data (t_data t ?l)"
      using cache_okD(8) [OF I1(4) in_full(2) [OF g(3)]] g(5) by (simp add: node_at_def node_of_def)
    let ?bs = "slice (node_pos ?off) (node_pos ?off + len) (t_data t ?l)" and ?s2 = "s1\<lparr>fi_offset := ?off + len\<rparr>"
    have sl: "?bs = slice ?off (?off + len) (file_bytes s t)"
      using slice_node [OF off(1) len(3) tl] slice_file_bytes [of ?off len s t] less.prems(3) len(2) by simp
    have fb: "file_bytes ?s2 t1 = file_bytes s t" using file_bytes_cong [OF g(4,5)] by simp
    have "\<exists>s' xrs' t' k'. read_loop E (left - len) (buf @ ?bs) ?s2 =
        (Ok ((buf @ ?bs) @ slice (fi_offset ?s2) (fi_offset ?s2 + (left - len)) (file_bytes ?s2 t1), 0), s') \<and>
      file_ok E s' xrs' t' n n k' \<and> same_file ?s2 (s'\<lparr>fi_offset := fi_offset ?s2\<rparr>) \<and> fi_offset s' = fi_offset ?s2 + (left - len) \<and>
      t_data t' = t_data t1 \<and> credit s' m k' j \<and> (fits ?s2 m \<longrightarrow> fi_need_writing s' = fi_need_writing ?s2)"
    proof (rule less.IH)
      show "left - len < left" using len by simp
      show "file_ok E ?s2 xrs1 t1 n n k1" using g(2) by simp
      show "MD_USER_DATA_SIZE \<le> fi_offset ?s2" using off by simp
      show "fi_offset ?s2 + (left - len) \<le> file_size_of ?s2" using less.prems(3) len(2) o1(2) by (simp add: file_size_of_def)
      show "credit ?s2 m k1 (io_chunks (fi_offset ?s2) (left - len) + j)" using g(6) by simp
    qed (rule less.prems(4))
    then obtain s' xrs' t' k' where i: "read_loop E (left - len) (buf @ ?bs) ?s2 =
        (Ok ((buf @ ?bs) @ slice (?off + len) (?off + left) (file_bytes s t), 0), s')"
      "file_ok E s' xrs' t' n n k'" "same_file ?s2 (s'\<lparr>fi_offset := ?off + len\<rparr>)" "fi_offset s' = ?off + left"
      "t_data t' = t_data t1" "credit s' m k' j" "fits s1 m \<longrightarrow> fi_need_writing s' = fi_need_writing s1"
      unfolding fb using len(2) by auto
    have "slice ?off (?off + len) (file_bytes s t) @ slice (?off + len) (?off + left) (file_bytes s t) = slice ?off (?off + left) (file_bytes s t)"
      using len(2) by (intro slice_join) simp_all
    then have "read_loop E left buf s = (Ok (buf @ slice ?off (?off + left) (file_bytes s t), 0), s')"
      using False g(1) i(1) pl tl len(3) sl
      by (subst read_loop.simps) (simp add: Let_def node_room_def o1 flip: node_pos_def len_def)
    moreover have "same_file s (s'\<lparr>fi_offset := ?off\<rparr>)" using i(3) g(4) by (simp add: same_file_def same_header_def)
    moreover have "fits s m \<longrightarrow> fi_need_writing s' = fi_need_writing s" using i(7) g(7) same_file_simps(5) [OF g(4)] by (simp add: fits_def)
    ultimately show ?thesis using i(2,4,5,6) g(5) by auto
  qed
qed

end

end
