(* ===== verification/File_Spec.thy ===== *)
theory File_Spec
  imports File_Refine
begin

text \<open>
  The specification of an open file: \<open>holds E s bs k\<close> says that the state \<open>s\<close> represents a file
  with the content \<open>bs\<close> and that its journal has \<open>k\<close> bytes.  Reading, writing, flushing and
  reopening are described on \<open>bs\<close> alone.
\<close>

text \<open>The number of data nodes touched by \<open>len\<close> bytes at \<open>off\<close>.\<close>

definition data_chunks :: "nat \<Rightarrow> nat \<Rightarrow> nat" where
  "data_chunks off len = io_chunks (max off MD_USER_DATA_SIZE) (off + len - max off MD_USER_DATA_SIZE)"

lemma file_bytes_area:
  assumes "off + len \<le> file_size_of s" "off + len \<le> MD_USER_DATA_SIZE" "length (me_data (mi_enc (fi_metadata s))) = MD_USER_DATA_SIZE"
  shows "slice off (off + len) (me_data (mi_enc (fi_metadata s))) = slice off (off + len) (file_bytes s t)"
  unfolding slice_file_bytes [OF assms(1)] using assms(2,3) by (intro slice_eq_nths) (simp_all add: byte_at_def)

context block_set
begin

definition holds :: "('s, 'd) env \<Rightarrow> ('s, 'd) file_inner \<Rightarrow> bytes \<Rightarrow> nat \<Rightarrow> bool" where
  "holds E s bs k \<longleftrightarrow> (\<exists>xrs t n. file_ok E s xrs t n n k \<and> file_bytes s t = bs)"

lemma holds_size: "holds E s bs k \<Longrightarrow> file_size_of s = length bs"
  by (auto simp: holds_def)

lemma credit_mono: "credit s m k (i + j) \<Longrightarrow> credit s m k j"
  unfolding credit_def jroom_def add_mult_distrib by linarith

lemma file_read_Ok:
  assumes h: "holds E s bs k" and e: "\<not> fi_end_of_file s" and off: "fi_offset s \<le> length bs"
    and m: "data_nodes (length bs) \<le> m" and cr: "credit s m k (data_chunks (fi_offset s) (min len (length bs - fi_offset s)) + j)"
  shows "\<exists>s' k'. file_read E len s = (Ok (slice (fi_offset s) (fi_offset s + len) bs), s') \<and> holds E s' bs k' \<and>
    fi_offset s' = min (fi_offset s + len) (length bs) \<and> fi_end_of_file s' = (len \<noteq> 0 \<and> length bs < fi_offset s + len) \<and>
    same_handle s s' \<and> credit s' m k' j \<and> (fits s m \<longrightarrow> fi_need_writing s' = fi_need_writing s)"
proof -
  obtain xrs t n where ok: "file_ok E s xrs t n n k" and fb: "file_bytes s t = bs" using h by (auto simp: holds_def)
  have sz: "file_size_of s = length bs" by (rule holds_size [OF h])
  have n: "n = data_nodes (length bs)" using ok sz by (simp add: file_ok_def file_inv_def)
  let ?off = "fi_offset s"
  show ?thesis
  proof (cases "len = 0 \<or> ?off = length bs")
    case True
    have "credit s m k j" by (rule credit_mono [OF cr])
    moreover have "holds E (s\<lparr>fi_end_of_file := True\<rparr>) bs k" using ok fb by (auto simp: holds_def)
    moreover have "same_handle s (s\<lparr>fi_end_of_file := True\<rparr>)" by (simp add: same_handle_def)
    ultimately show ?thesis using True h e off sz
      by (cases "len = 0") (auto simp: file_read_def slice_def Let_def)
  next
    case False
    define att where "att = min len (length bs - ?off)"
    define l1 where "l1 = min att (MD_USER_DATA_SIZE - ?off)"
    have a: "0 < att" "?off + att \<le> length bs" "l1 \<le> att" using False off by (auto simp: att_def l1_def)
    have m1: "length (me_data (mi_enc (fi_metadata s))) = MD_USER_DATA_SIZE"
      using ok by (simp add: file_ok_def file_inv_def meta_ok_def meta_wf_def enc_wf_def)
    have area: "(if ?off < MD_USER_DATA_SIZE then (get_slice ?off (?off + l1) (me_data (mi_enc (fi_metadata s))) :: bytes result, s) else (Ok [], s)) =
        (Ok (slice ?off (?off + l1) bs), s)"
    proof (cases "?off < MD_USER_DATA_SIZE")
      case True
      then have "?off + l1 \<le> MD_USER_DATA_SIZE" "?off + l1 \<le> file_size_of s" using a sz by (auto simp: l1_def)
      then show ?thesis using True file_bytes_area [of ?off l1 s t] m1 fb by simp
    qed (simp add: l1_def)
    let ?s = "s\<lparr>fi_offset := ?off + l1\<rparr>"
    have ch: "io_chunks (?off + l1) (att - l1) = data_chunks ?off att"
      by (cases "?off < MD_USER_DATA_SIZE") (auto simp: data_chunks_def l1_def io_chunks_def min_def max_def)
    obtain s' xrs' t' k' where r: "read_loop E (att - l1) (slice ?off (?off + l1) bs) ?s =
        (Ok (slice ?off (?off + l1) bs @ slice (?off + l1) (?off + att) bs, 0), s')"
      "file_ok E s' xrs' t' n n k'" "same_file ?s (s'\<lparr>fi_offset := ?off + l1\<rparr>)" "fi_offset s' = ?off + att"
      "t_data t' = t_data t" "credit s' m k' j" "fits s m \<longrightarrow> fi_need_writing s' = fi_need_writing s"
    proof -
      have "0 < att - l1 \<Longrightarrow> MD_USER_DATA_SIZE \<le> fi_offset ?s" by (auto simp: l1_def min_def split: if_splits)
      moreover have "fi_offset ?s + (att - l1) \<le> file_size_of ?s" using a sz by (simp add: file_size_of_def)
      moreover have "credit ?s m k (io_chunks (fi_offset ?s) (att - l1) + j)" using cr ch by (simp add: att_def)
      moreover have "file_ok E ?s xrs t n n k" "n \<le> m" using ok n m by simp_all
      ultimately show thesis
        using read_loop_Ok [of E ?s xrs t n k "att - l1" m j "slice ?off (?off + l1) bs"] that a(3) fb by auto
    qed
    have sl: "slice ?off (?off + l1) bs @ slice (?off + l1) (?off + att) bs = slice ?off (?off + len) bs"
    proof -
      have "slice ?off (?off + att) bs = slice ?off (?off + len) bs" by (auto simp: slice_def att_def min_def)
      then show ?thesis using a(3) by (simp add: slice_join)
    qed
    define s'' where "s'' = (if att \<noteq> len then s'\<lparr>fi_end_of_file := True\<rparr> else s')"
    have e': "\<not> fi_end_of_file s'" using r(3) e by (simp add: same_file_def)
    have "?off < file_size_of s" using False off sz by simp
    then have "file_read E len s = (Ok (slice ?off (?off + len) bs), s'')"
      using False e r(1,4) area sl sz a(2)
      unfolding file_read_def Let_def sz att_def [symmetric] l1_def [symmetric] s''_def area
      by (auto simp: att_def)
    moreover have "holds E s'' bs k'"
    proof -
      have "file_bytes s' t' = bs" using file_bytes_cong [OF r(3,5)] fb by simp
      then show ?thesis using r(2) by (auto simp: holds_def s''_def)
    qed
    moreover have "fi_offset s'' = min (?off + len) (length bs)" using r(4) off by (auto simp: s''_def att_def)
    moreover have "fi_end_of_file s'' = (len \<noteq> 0 \<and> length bs < ?off + len)"
      using e' False by (auto simp: s''_def att_def min_def)
    moreover have "same_handle s s''" using r(3) by (auto simp: s''_def same_file_def same_handle_def)
    moreover have "credit s'' m k' j" "fits s m \<longrightarrow> fi_need_writing s'' = fi_need_writing s" using r(6,7) by (simp_all add: s''_def)
    ultimately show ?thesis by blast
  qed
qed


lemma file_ok_area:
  assumes ok: "file_ok E s xrs t n n k" and d: "length d = MD_USER_DATA_SIZE" and sz: "data_nodes sz = n"
    and s': "s' = s\<lparr>fi_need_writing := True, fi_offset := off, fi_metadata := (fi_metadata s)\<lparr>mi_enc :=
      (mi_enc (fi_metadata s))\<lparr>me_data := d, me_size := sz\<rparr>\<rparr>\<rparr>"
  shows "file_ok E s' xrs t n n k"
proof -
  have inv: "file_inv E s xrs t n n k" using ok by (simp add: file_ok_def)
  note I = file_invD [OF inv]
  have f: "full s' xrs = full s xrs" "fblk s' = fblk s" "nblk s' = nblk s" "fi_heap s' = fi_heap s"
    by (simp_all add: s' full_def fblk_def nblk_def fun_eq_iff)
  have "sz < 2 ^ 64" by (rule size_fits [OF I(1,10)]) (use sz in simp_all)
  then have "meta_ok (fi_metadata s')" using I(3) d by (simp add: s' meta_ok_def meta_wf_def enc_wf_def)
  moreover have "cache_ok s' xrs t n" using I(4) by (simp add: cache_ok_def f) (simp add: s')
  moreover have "dirty_ok s' xrs n" using I(5) unfolding dirty_ok_def f by (simp add: s')
  moreover have "disk_ok (env_ossl E) s' xrs t n" using I(6) unfolding disk_ok_def unchanged_def f by (simp add: s')
  moreover have "saved_ok (env_ossl E) s'" by (simp add: saved_ok_def s')
  moreover have "store_ok E s' k" "keys_ok E s'"
    using I(1,2) by (simp_all add: s' store_ok_def keys_ok_def nblk_def metadata_encrypt_flags_def)
  ultimately have "file_inv E s' xrs t n n k" using I(10) f(3) sz by (simp add: file_inv_def) (simp add: s' file_size_of_def)
  then show ?thesis using ok by (simp add: file_ok_def s')
qed

lemma write_metadata_area_Ok:
  assumes ok: "file_ok E s xrs t n n k" and off: "fi_offset s \<le> file_size_of s" "fi_offset s + length bs \<le> MD_USER_DATA_SIZE"
  shows "\<exists>s'. write_metadata_area bs s = (Ok (), s') \<and> file_ok E s' xrs t n n k \<and> same_handle s s' \<and>
    fi_offset s' = fi_offset s + length bs \<and> fi_end_of_file s' = fi_end_of_file s \<and>
    file_bytes s' t = overwrite (file_bytes s t) (fi_offset s) bs \<and> fi_need_writing s' \<and> fi_heap s' = fi_heap s"
proof -
  let ?d = "me_data (mi_enc (fi_metadata s))" and ?off = "fi_offset s"
  have l: "length ?d = MD_USER_DATA_SIZE" and n: "n = data_nodes (file_size_of s)"
    using ok by (simp_all add: file_ok_def file_inv_def meta_ok_def meta_wf_def enc_wf_def)
  define sz where "sz = max (?off + length bs) (file_size_of s)"
  define s' where "s' = s\<lparr>fi_need_writing := True, fi_offset := ?off + length bs, fi_metadata := (fi_metadata s)\<lparr>mi_enc :=
      (mi_enc (fi_metadata s))\<lparr>me_data := overwrite ?d ?off bs, me_size := sz\<rparr>\<rparr>\<rparr>"
  have "write_metadata_area bs s = (Ok (), s')"
    using off(2) l by (simp add: write_metadata_area_def advance_def Let_def s'_def sz_def file_size_of_def)
  moreover have "file_ok E s' xrs t n n k"
  proof (rule file_ok_area [OF ok _ _ s'_def])
    show "length (overwrite ?d ?off bs) = MD_USER_DATA_SIZE" using l off(2) by simp
    have "data_nodes (?off + length bs) = 0" using off(2) by (simp add: data_nodes_def)
    then show "data_nodes sz = n" unfolding sz_def data_nodes_max n by simp
  qed
  moreover have "file_bytes s' t = overwrite (file_bytes s t) ?off bs"
  proof -
    have "byte_at (overwrite ?d ?off bs) t i = (if ?off \<le> i \<and> i < ?off + length bs then bs ! (i - ?off) else byte_at ?d t i)" for i
      using off(2) l by (auto simp: byte_at_def nth_overwrite)
    then show ?thesis unfolding file_bytes_def
      by (simp add: s'_def file_size_of_def sz_def map_overwrite [OF off(1) [unfolded file_size_of_def]])
  qed
  moreover have "same_handle s s'" by (simp add: s'_def same_handle_def same_header_def)
  ultimately show ?thesis by (simp add: s'_def)
qed

text \<open>Where a write starts.\<close>

definition write_pos :: "('s, 'd) file_inner \<Rightarrow> nat" where
  "write_pos s = (if oo_append (fi_opts s) then file_size_of s else fi_offset s)"

lemma file_write_Ok:
  assumes h: "holds E s bs k" and w: "oo_write (fi_opts s) \<or> oo_append (fi_opts s) \<or> oo_update (fi_opts s)"
    and off: "fi_offset s \<le> length bs" and buf: "buf \<noteq> []"
    and m: "data_nodes (max (write_pos s + length buf) (length bs)) \<le> m" "0 < m \<Longrightarrow> data_phys (m - 1) < nblk s"
    and cr: "credit s m k (data_chunks (write_pos s) (length buf) + j)"
  shows "\<exists>s' k'. file_write E buf s = (Ok (length buf), s') \<and> holds E s' (overwrite bs (write_pos s) buf) k' \<and>
    fi_offset s' = write_pos s + length buf \<and> fi_end_of_file s' = fi_end_of_file s \<and> same_handle s s' \<and> credit s' m k' j \<and>
    fi_need_writing s'"
proof -
  obtain xrs t n where ok: "file_ok E s xrs t n n k" and fb: "file_bytes s t = bs" using h by (auto simp: holds_def)
  have sz: "file_size_of s = length bs" by (rule holds_size [OF h])
  have n: "n = data_nodes (length bs)" using ok sz by (simp add: file_ok_def file_inv_def)
  define off where "off = write_pos s"
  define s0 where "s0 = s\<lparr>fi_offset := off\<rparr>"
  have s0: "(if oo_append (fi_opts s) then s\<lparr>fi_offset := file_size_of s\<rparr> else s) = s0" by (simp add: s0_def off_def write_pos_def)
  have o: "off \<le> length bs" using off sz by (simp add: off_def write_pos_def)
  have z0: "file_size_of s0 = length bs" "fi_offset s0 = off" "file_bytes s0 t = bs" "same_handle s s0" "fi_end_of_file s0 = fi_end_of_file s"
    using sz fb by (simp_all add: s0_def file_size_of_def same_handle_def)
  have ok0: "file_ok E s0 xrs t n n k" using ok by (simp add: s0_def)
  define len where "len = min (length buf) (MD_USER_DATA_SIZE - off)"
  have len: "len \<le> length buf" by (simp add: len_def)
  obtain s1 where s1: "(if off < MD_USER_DATA_SIZE then write_metadata_area (take len buf) s0 else (Ok (), s0)) = (Ok (), s1)"
    "file_ok E s1 xrs t n n k" "same_handle s0 s1" "fi_offset s1 = off + len" "fi_end_of_file s1 = fi_end_of_file s0"
    "file_bytes s1 t = overwrite bs off (take len buf)" "fi_heap s1 = fi_heap s" "off < MD_USER_DATA_SIZE \<longrightarrow> fi_need_writing s1"
  proof (cases "off < MD_USER_DATA_SIZE")
    case True
    then have "off + length (take len buf) \<le> MD_USER_DATA_SIZE" by (simp add: len_def)
    then show thesis using write_metadata_area_Ok [OF ok0, of "take len buf"] that True o z0 len s0_def by auto
  next
    case False
    then have "len = 0" by (simp add: len_def)
    then show thesis using that [of s0] False ok0 z0 by (simp add: s0_def)
  qed
  have sz1: "file_size_of s1 = length (overwrite bs off (take len buf))" using length_file_bytes [of s1 t] s1(6) by simp
  have n1: "n \<le> m" "data_nodes (fi_offset s1 + length (drop len buf)) \<le> m"
    using m(1) n data_nodes_mono [of "length bs" "max (off + length buf) (length bs)"]
      data_nodes_mono [of "off + length buf" "max (off + length buf) (length bs)"] s1(4) len by (auto simp: off_def)
  have h1: "same_handle s s1" by (rule same_handle_trans [OF z0(4) s1(3)])
  have ch: "io_chunks (off + len) (length buf - len) = data_chunks off (length buf)"
    by (cases "off < MD_USER_DATA_SIZE") (auto simp: data_chunks_def len_def io_chunks_def min_def max_def)
  have cr1: "credit s1 m k (io_chunks (fi_offset s1) (length (drop len buf)) + j)"
    using cr ch s1(4,7) credit_cong [OF h1] by (simp add: off_def)
  have a: "drop len buf \<noteq> [] \<Longrightarrow> MD_USER_DATA_SIZE \<le> fi_offset s1" using s1(4) by (auto simp: len_def min_def split: if_splits)
  have b: "fi_offset s1 \<le> file_size_of s1" using s1(4) sz1 o len by (simp add: overwrite_def)
  have c: "0 < m \<Longrightarrow> data_phys (m - 1) < nblk s1" using m(2) nblk_cong [OF h1] by simp
  obtain s' xrs' t' n' k' where l: "write_loop E (drop len buf) s1 = (Ok (), s')" "file_ok E s' xrs' t' n' n' k'" "same_handle s1 s'"
    "fi_offset s' = fi_offset s1 + length (drop len buf)" "fi_end_of_file s' = fi_end_of_file s1"
    "file_bytes s' t' = overwrite (file_bytes s1 t) (fi_offset s1) (drop len buf)" "credit s' m k' j"
    "drop len buf = [] \<longrightarrow> s' = s1" "drop len buf \<noteq> [] \<longrightarrow> fi_need_writing s'"
    using write_loop_Ok [OF s1(2) a b n1 c cr1] by blast
  have "file_write E buf s = (Ok (length buf), s')"
    using buf w l(1) unfolding file_write_def Let_def s0 z0(2) len_def [symmetric] s1(1) by simp
  moreover have "file_bytes s' t' = overwrite bs off buf"
  proof -
    have "length (take len buf) = len" using len by simp
    then show ?thesis using overwrite_append [OF o, of "take len buf" "drop len buf"] l(6) s1(4,6) by simp
  qed
  then have "holds E s' (overwrite bs off buf) k'" using l(2) by (auto simp: holds_def)
  moreover have "fi_offset s' = off + length buf" "fi_end_of_file s' = fi_end_of_file s" using l(4,5) s1(4,5) z0(5) len by simp_all
  moreover have "fi_need_writing s'"
  proof (cases "drop len buf = []")
    case True
    then have "off < MD_USER_DATA_SIZE" using buf by (cases buf) (auto simp: len_def min_def split: if_splits)
    then show ?thesis using s1(8) l(8) True by simp
  qed (use l(9) in simp)
  ultimately show ?thesis using l(7) same_handle_trans [OF h1 l(3)] unfolding off_def by blast
qed

end

end
