(* ===== verification/File_Life.thy ===== *)
theory File_Life
  imports File_Spec File_Open
begin

text \<open>
  Creating, flushing and reopening a file.  A new file is empty; after a flush the disk holds an
  image of the content, from which \<open>file_open\<close> restores a file with the same content.
\<close>

section \<open>The image of a file\<close>

definition content_bytes :: "metadata_info \<Rightarrow> tree \<Rightarrow> bytes" where
  "content_bytes m t = map (byte_at (me_data (mi_enc m)) t) [0..<me_size (mi_enc m)]"

lemma file_bytes_eq: "file_bytes s t = content_bytes (fi_metadata s) t"
  by (simp add: file_bytes_def content_bytes_def file_size_of_def)

text \<open>Blocks \<open>f\<close> from which the file can be opened under \<open>key\<close>: the sealed nodes of a tree.\<close>

definition sealed_tree :: "openssl \<Rightarrow> (nat \<Rightarrow> bytes) \<Rightarrow> metadata_info \<Rightarrow> tree \<Rightarrow> bool" where
  "sealed_tree C f m t \<longleftrightarrow> tree_wf t \<and>
     (\<forall>x. x \<noteq> root_id \<longrightarrow> in_file (data_nodes (me_size (mi_enc m))) x \<longrightarrow> on_disk C f t x) \<and>
     (0 < data_nodes (me_size (mi_enc m)) \<longrightarrow>
        sealed C (me_mht_key (mi_enc m)) (me_mht_gmac (mi_enc m)) (plain t root_id) (f 1))"

definition capacity :: "metadata_info \<Rightarrow> nat \<Rightarrow> bool" where
  "capacity m N \<longleftrightarrow> (0 < data_nodes (me_size (mi_enc m)) \<longrightarrow> data_phys (data_nodes (me_size (mi_enc m)) - 1) < N)"

definition stored :: "openssl \<Rightarrow> (nat \<Rightarrow> bytes) \<Rightarrow> nat \<Rightarrow> key \<Rightarrow> metadata_info \<Rightarrow> bytes \<Rightarrow> bool" where
  "stored C f N key m bs \<longleftrightarrow> meta_ok m \<and> f 0 = metadata_bytes m \<and> meta_sealed C key m \<and> capacity m N \<and>
     (\<exists>t. sealed_tree C f m t \<and> content_bytes m t = bs)"

lemma sealed_tree_cong:
  assumes "\<forall>p<N. f' p = f p" "2 \<le> N" "capacity m N" "sealed_tree C f m t"
  shows "sealed_tree C f' m t"
proof -
  have "on_disk C f' t x" if x: "x \<noteq> root_id" "in_file (data_nodes (me_size (mi_enc m))) x" "on_disk C f t x" for x
  proof -
    have "phys x < N" using in_file_phys [OF x(2)] x assms(2,3) by (cases x) (auto simp: capacity_def)
    then show ?thesis using assms(1) x(3) by (simp add: on_disk_def)
  qed
  then show ?thesis using assms(1,2,4) by (simp add: sealed_tree_def)
qed

lemma stored_cong:
  assumes "\<forall>p<N. f' p = f p" "2 \<le> N" "stored C f N key m bs" shows "stored C f' N key m bs"
  using sealed_tree_cong [OF assms(1,2), of m C] assms by (auto simp: stored_def)

context block_set
begin

lemma clean_stored:
  assumes h: "holds E s bs k" and n: "\<not> fi_need_writing s"
  shows "stored (env_ossl E) (fblk s) (nblk s) (kg_metadata_key (fi_key_gen s)) (fi_metadata s) bs"
proof -
  obtain xrs t n where ok: "file_ok E s xrs t n n k" and fb: "file_bytes s t = bs" using h by (auto simp: holds_def)
  have inv: "file_inv E s xrs t n n k" using ok by (simp add: file_ok_def)
  note I = file_invD [OF inv]
  have c: "\<not> dirty (fi_heap s) r" if "(x, r) \<in> set (full s xrs)" for x r
    using dirty_root [OF I(4,5) that] I(5) n by (auto simp: dirty_ok_def)
  have "unchanged s xrs x" for x using c [OF in_full(2)] by (auto simp: unchanged_def)
  then have "sealed_tree (env_ossl E) (fblk s) (fi_metadata s) t"
    using I(6,9) c [OF in_full(1)] cache_okD(10) [OF I(4)] by (simp add: sealed_tree_def disk_ok_def file_size_of_def)
  moreover have "capacity (fi_metadata s) (nblk s)" using inv by (clarsimp simp: capacity_def file_inv_def file_size_of_def)
  ultimately show ?thesis using I(3,7) n fb by (auto simp: stored_def saved_ok_def file_bytes_eq)
qed

lemma credit_flush:
  assumes ok: "file_ok E s xrs t n n k" and cr: "credit s m k (Suc j)" "n \<le> m"
  shows "jroom s (k + record_cost s + 1)" "record_cost s \<le> flush_cost (fi_max_cache_page s + 12)"
    "record_cost s \<le> flush_cost (min (old_count (fi_heap s)) (m + m div ATTACHED_DATA_NODES_COUNT))"
proof -
  have inv: "file_inv E s xrs t n n k" and max: "length xrs \<le> fi_max_cache_page s" using ok by (simp_all add: file_ok_def)
  note I = file_invD [OF inv]
  have "root_id \<notin> set (map fst xrs)" "\<forall>y\<in>set (map fst xrs). in_file n y"
    using cache_okD(6) [OF I(4)] I(4) unfolding cache_ok_def by auto
  then have "\<forall>y\<in>set (map fst xrs). in_file n y \<and> y \<noteq> root_id" by blast
  then have "length xrs \<le> n + n div 96" using in_file_card [OF cache_okD(3) [OF I(4)]] by simp
  also have "\<dots> \<le> m + m div 96" using cr(2) by (intro add_mono div_le_mono)
  finally have l: "length xrs \<le> m + m div 96" .
  note r = record_cost_le [OF I(4)]
  show a: "record_cost s \<le> flush_cost (min (old_count (fi_heap s)) (m + m div ATTACHED_DATA_NODES_COUNT))"
    by (rule order_trans [OF r flush_cost_mono]) (use l in simp)
  show b: "record_cost s \<le> flush_cost (fi_max_cache_page s + 12)"
    by (rule order_trans [OF r flush_cost_mono]) (use max in simp)
  show "jroom s (k + record_cost s + 1)" using cr(1) a b by (auto simp: credit_def jroom_def)
qed

text \<open>A flush keeps the credit when the journal has room for the whole file, or for one more flush.\<close>

definition journal_fits :: "('s, 'd) file_inner \<Rightarrow> nat \<Rightarrow> bool" where
  "journal_fits s m \<longleftrightarrow> fits s m \<and>
     jroom s (flush_cost (m + m div ATTACHED_DATA_NODES_COUNT) + 1)"

lemma file_flush_Ok:
  assumes h: "holds E s bs k" and st: "status_is_ok (fi_status s)"
    and m: "data_nodes (length bs) \<le> m" and cr: "credit s m k (Suc j)"
  shows "\<exists>s' k'. file_flush E s = (Ok (), s') \<and> holds E s' bs k' \<and> same_file s s' \<and> \<not> fi_need_writing s' \<and>
    (fi_need_writing s \<longrightarrow> k' = 0 \<and> journal_done s') \<and>
    (journal_fits s m \<or> jroom s (k + Suc j * flush_cost (fi_max_cache_page s + 12) + 1) \<longrightarrow> credit s' m k' j)"
proof (cases "fi_need_writing s")
  case False
  then have "file_flush E s = (Ok (), s)" using st by (simp add: file_flush_def internal_flush_def)
  then show ?thesis using False h credit_mono [of s m k 1 j] cr by auto
next
  case True
  obtain xrs t n where ok: "file_ok E s xrs t n n k" and fb: "file_bytes s t = bs" using h by (auto simp: holds_def)
  have inv: "file_inv E s xrs t n n k" using ok by (simp add: file_ok_def)
  have n: "n \<le> m" using file_invD(9) [OF inv] holds_size [OF h] m by simp
  note c = credit_flush [OF ok cr n]
  obtain s' t' k' where f: "internal_flush E True s = (Ok (), s')" "file_inv E s' xrs t' n n k'" "same_view s s'"
    "t_data t' = t_data t" "\<not> fi_need_writing s'" "k' = 0" "journal_done s'"
    by (rule internal_flush_Ok [OF inv c(1), of True]) (use True in blast)
  have sf: "same_file s s'" using f(3) by (simp add: same_view_def)
  have "file_ok E s' xrs t' n n 0" using f(2,6) ok same_file_simps(5) [OF sf] by (simp add: file_ok_def)
  moreover have "file_bytes s' t' = bs" using file_bytes_cong [OF sf f(4)] fb by simp
  ultimately have "holds E s' bs 0" by (auto simp: holds_def)
  moreover have "file_flush E s = (Ok (), s')" using st f(1) by (simp add: file_flush_def)
  moreover have "credit s' m 0 j" if r: "journal_fits s m \<or> jroom s (k + Suc j * flush_cost (fi_max_cache_page s + 12) + 1)"
  proof -
    have "jroom s (j * flush_cost (fi_max_cache_page s + 12) + 1) \<or> journal_fits s m" using r by (auto simp: jroom_def)
    then show ?thesis using same_file_simps(5) [OF sf] jroom_same_file [OF sf]
        flush_cost_mono [of "min (old_count (fi_heap s')) (m + m div 96)" "m + m div 96"]
      by (auto simp: credit_def fits_def journal_fits_def jroom_def)
  qed
  ultimately show ?thesis using sf f(5,7) by blast
qed

section \<open>Creating\<close>

definition data_blocks :: "'d \<Rightarrow> nat" where
  "data_blocks d = bs_nblocks B d * 7 div 8"

definition parts :: "'d \<Rightarrow> 'd \<Rightarrow> 'd \<Rightarrow> bool" where
  "parts d dd dj \<longleftrightarrow> bs_subset B d 0 (data_blocks d) = Ok dd \<and> bs_subset B d (data_blocks d) (bs_nblocks B d) = Ok dj"

definition disk_sizes :: "'d \<Rightarrow> bool" where
  "disk_sizes d \<longleftrightarrow> 2 \<le> data_blocks d \<and> data_blocks d + 2 \<le> bs_nblocks B d \<and> bs_nblocks B d * BLOCK_SIZE < 2 ^ 64"

definition disk_fits :: "('s, 'd) env \<Rightarrow> 's \<Rightarrow> 'd \<Rightarrow> bool" where
  "disk_fits E w d \<longleftrightarrow> env_bs E = B \<and> disk_sizes d \<and>
     (\<exists>dd dj. parts d dd dj \<and> bs_nblocks B dd = data_blocks d \<and> bs_nblocks B dj = bs_nblocks B d - data_blocks d \<and>
        valid w dd \<and> valid w dj \<and> sep dd dj \<and> sep dj dd)"

lemma disk_fitsI:
  assumes v: "env_bs E = B" "valid w d" "disk_sizes d" shows "disk_fits E w d"
proof -
  have le: "data_blocks d \<le> bs_nblocks B d" using v(3) by (simp add: disk_sizes_def)
  obtain dd where dd: "bs_subset B d 0 (data_blocks d) = Ok dd" "bs_nblocks B dd = data_blocks d" "valid w dd"
    using subset_blocks [OF v(2), of 0 "data_blocks d"] le by auto
  obtain dj where dj: "bs_subset B d (data_blocks d) (bs_nblocks B d) = Ok dj"
    "bs_nblocks B dj = bs_nblocks B d - data_blocks d" "valid w dj"
    using subset_blocks [OF v(2), of "data_blocks d" "bs_nblocks B d"] le by auto
  have "sep dd dj" "sep dj dd" using subset_sep [OF v(2) dd(1) dj(1)] le by auto
  then show ?thesis using dd dj v unfolding disk_fits_def parts_def by blast
qed

lemma disk_parts:
  assumes "disk_fits E w d"
  obtains dd dj where "parts d dd dj" "subdisk_for_data E d = Ok dd" "subdisk_for_journal E d = Ok dj"
    "bs_nblocks B dd = data_blocks d" "bs_nblocks B dj = bs_nblocks B d - data_blocks d"
    "valid w dd" "valid w dj" "sep dd dj" "sep dj dd"
  using assms unfolding disk_fits_def parts_def subdisk_for_data_def subdisk_for_journal_def data_blocks_def by metis

lemma parts_fun: "parts d dd dj \<Longrightarrow> parts d dd' dj' \<Longrightarrow> dd' = dd \<and> dj' = dj"
  by (auto simp: parts_def)

lemma disk_fits_step:
  assumes "disk_fits E w d" "parts d dd dj" "valid w' dd" "valid w' dj" shows "disk_fits E w' d"
proof -
  obtain dd' dj' where p: "parts d dd' dj'" "bs_nblocks B dd' = data_blocks d" "bs_nblocks B dj' = bs_nblocks B d - data_blocks d"
    "sep dd' dj'" "sep dj' dd'" using assms(1) unfolding disk_fits_def by blast
  have "dd' = dd" "dj' = dj" using parts_fun [OF assms(2) p(1)] by simp_all
  then show ?thesis using p assms unfolding disk_fits_def by blast
qed

lemma fits_blocks:
  assumes "disk_fits E w d" shows "data_blocks d * BLOCK_SIZE < 2 ^ 64" "(bs_nblocks B d - data_blocks d) * BLOCK_SIZE < 2 ^ 64"
proof -
  have "data_blocks d * BLOCK_SIZE \<le> bs_nblocks B d * BLOCK_SIZE" "(bs_nblocks B d - data_blocks d) * BLOCK_SIZE \<le> bs_nblocks B d * BLOCK_SIZE"
    using assms by (intro mult_le_mono1; simp add: disk_fits_def disk_sizes_def)+
  then show "data_blocks d * BLOCK_SIZE < 2 ^ 64" "(bs_nblocks B d - data_blocks d) * BLOCK_SIZE < 2 ^ 64"
    using assms unfolding disk_fits_def disk_sizes_def by linarith+
qed

lemma fresh_store:
  assumes f: "disk_fits E w d" and p: "parts d dd dj"
    and s: "fi_world s = w" "bf_disk (fi_host_file s) = dd" "fi_journal s = raw_create dj"
  shows "store_ok E s 0" "nblk s = data_blocks d" "jroom s k \<longleftrightarrow> INNER_OFFSET + k \<le> (bs_nblocks B d - data_blocks d - 1) * BLOCK_SIZE"
proof -
  obtain dd' dj' where q: "parts d dd' dj'" "bs_nblocks B dd' = data_blocks d" "bs_nblocks B dj' = bs_nblocks B d - data_blocks d"
    "valid w dd'" "valid w dj'" "sep dd' dj'" "sep dj' dd'"
    by (rule disk_parts [OF f])
  have e: "dd' = dd" "dj' = dj" using parts_fun [OF p q(1)] by simp_all
  have fd: "2 \<le> data_blocks d" "2 \<le> bs_nblocks B d - data_blocks d" "env_bs E = B" using f by (auto simp: disk_fits_def disk_sizes_def)
  have "BLOCK_SIZE \<le> (bs_nblocks B d - data_blocks d) * BLOCK_SIZE"
    using mult_le_mono1 [of 1 "bs_nblocks B d - data_blocks d" BLOCK_SIZE] fd(2) by simp
  then have "journal_inv w (raw_create dj) []"
    using q e fits_blocks(2) [OF f] fd by (simp add: journal_inv_def raw_create_def)
  then show "store_ok E s 0" "nblk s = data_blocks d" "jroom s k \<longleftrightarrow> INNER_OFFSET + k \<le> (bs_nblocks B d - data_blocks d - 1) * BLOCK_SIZE"
    using s q e fd fits_blocks(1) [OF f] by (auto simp: store_ok_def nblk_def jroom_def raw_create_def)
qed


end

text \<open>The modes without a key policy and the metadata key they give.\<close>

definition plain_mode :: "open_mode \<Rightarrow> bool" where
  "plain_mode mode \<longleftrightarrow> (\<exists>k. mode = UserKey k) \<or> mode = IntegrityOnly"

fun mode_key :: "open_mode \<Rightarrow> key" where
  "mode_key (UserKey k) = k"
| "mode_key _ = key_default"

lemma plain_mode_key_gen:
  assumes "rng_works C" "plain_mode mode"
  obtains kg rng' where "fs_key_gen_new C mode rng = (Ok kg, rng')" "kg_ok kg" "kg_metadata_key kg = mode_key mode"
proof -
  obtain k where k: "mode = UserKey k \<or> mode = IntegrityOnly" using assms(2) by (auto simp: plain_mode_def)
  obtain kg rng' where g: "fs_key_gen_new C mode rng = (Ok kg, rng')" "kg_ok kg"
    "kg_metadata_key kg = (if mode = IntegrityOnly then key_default else k)"
    by (rule fs_key_gen_new_Ok [OF assms(1) k])
  then have "kg_metadata_key kg = mode_key mode" using k by (cases mode) simp_all
  then show thesis using that g(1,2) by blast
qed

definition empty_tree :: tree where
  "empty_tree = \<lparr>t_mht = (\<lambda>_. mht_default), t_data = (\<lambda>_. zeros NODE_SIZE)\<rparr>"

lemma empty_tree_wf [simp]: "tree_wf empty_tree"
  by (simp add: empty_tree_def tree_wf_def)

text \<open>A heap with the root alone.\<close>

lemma tree_heap_root:
  assumes "tree_wf t" "r < next_ref h" "nodes h r = (file_node_new_root fl)\<lparr>fn_node_data := ct, fn_plaintext := plain t root_id, fn_new_node := b\<rparr>"
    "length ct = NODE_SIZE"
  shows "tree_heap h [(root_id, r)] t" "\<not> dirty h r"
  using assms by (simp_all add: tree_heap_def node_at_def file_node_new_root_def file_node_new_def dirty_def)

lemma new_file_Ok:
  assumes "plain_mode mode" "length path \<le> FILENAME_MAX_LEN"
  obtains m where "new_file path mode = Ok m" "meta_ok m" "metadata_encrypt_flags m = encrypt_flags_from mode"
    "metadata_encrypt_flags m \<in> {EF_UserKey, EF_IntegrityOnly}" "me_size (mi_enc m) = 0" "me_file_name (mi_enc m) = overwrite (zeros FILENAME_MAX_LEN) 0 path"
proof -
  let ?m = "metadata_set_encrypt_flags (encrypt_flags_from mode) metadata_info_new"
  let ?m' = "?m\<lparr>mi_enc := (mi_enc ?m)\<lparr>me_file_name := overwrite (zeros FILENAME_MAX_LEN) 0 path\<rparr>\<rparr>"
  have e: "mi_enc (metadata_set_encrypt_flags fl metadata_info_new) = metadata_encrypted_default" for fl
    by (simp add: metadata_set_encrypt_flags_def metadata_info_new_def)
  have e': "me_file_name metadata_encrypted_default = zeros FILENAME_MAX_LEN" "me_size metadata_encrypted_default = 0"
    by (simp_all add: metadata_encrypted_default_def)
  have fl: "encrypt_flags_from mode \<in> {EF_UserKey, EF_IntegrityOnly}" using assms(1) by (auto simp: plain_mode_def)
  have "new_file path mode = Ok ?m'"
    using assms by (auto simp: new_file_def Let_def e e' plain_mode_def)
  moreover have "meta_ok ?m'"
    using metadata_info_new_wf(1) assms(2) fl
    by (auto simp: meta_ok_def meta_wf_def metadata_set_encrypt_flags_def plain_wf_def enc_wf_def e e' encrypt_flags_of_byte_def
        metadata_info_new_def metadata_plain_new_def metadata_plain_default_def)
  moreover have "metadata_encrypt_flags ?m' = encrypt_flags_from mode"
    by (simp add: metadata_encrypt_flags_def metadata_set_encrypt_flags_def)
  ultimately show thesis using that [of ?m'] fl e e' by simp
qed

context block_set
begin

text \<open>A file just created or opened.\<close>

definition handle_ok ::
  "('s, 'd) file_inner \<Rightarrow> 'd \<Rightarrow> open_options \<Rightarrow> open_mode \<Rightarrow> nat \<Rightarrow> bool"
where
  "handle_ok s d opts mode pages \<longleftrightarrow> fi_opts s = opts \<and> fi_max_cache_page s = pages \<and> fi_status s = StatusOk \<and>
     \<not> fi_end_of_file s \<and> fi_last_error s = None \<and> old_count (fi_heap s) \<le> 2 \<and>
     parts d (bf_disk (fi_host_file s)) (rj_disk (fi_journal s)) \<and> nblk s = data_blocks d \<and>
     (\<forall>k. jroom s k \<longleftrightarrow> INNER_OFFSET + k \<le> (bs_nblocks B d - data_blocks d - 1) * BLOCK_SIZE) \<and>
     kg_metadata_key (fi_key_gen s) = mode_key mode \<and> metadata_encrypt_flags (fi_metadata s) = encrypt_flags_from mode"

lemma root_file_ok:
  assumes f: "disk_fits E w d" and p: "parts d dd dj" and C: "aead_correct (env_ossl E)" "rng_works (env_ossl E)" "kg_ok kg"
    and m: "meta_ok m" "metadata_encrypt_flags m \<in> {EF_UserKey, EF_IntegrityOnly}" and pg: "12 \<le> pages"
    and th: "tree_heap h [(root_id, r)] t" "\<not> dirty h r"
    and n: "n = data_nodes (me_size (mi_enc m))" "0 < n \<Longrightarrow> data_phys (n - 1) < data_blocks d"
    and st: "sealed_tree (env_ossl E) (blk w dd) m t"
      "nw \<or> (blk w dd 0 = metadata_bytes m \<and> meta_sealed (env_ossl E) (kg_metadata_key kg) m)"
    and s: "s = set_file_status StatusOk (file_inner_init w h rng (block_file_create E dd) (raw_create dj) m r kg opts nw pages off)"
  shows "file_ok E s [] t n n 0" "holds E s (content_bytes m t) 0"
proof -
  have sf: "fi_world s = w" "bf_disk (fi_host_file s) = dd" "fi_journal s = raw_create dj" "fi_metadata s = m" "fi_heap s = h"
    "fi_root_mht s = r" "fi_cache s = lru_new pages" "fi_key_gen s = kg" "fi_need_writing s = nw" "fi_max_cache_page s = pages"
    by (simp_all add: s set_file_status_def file_inner_init_def block_file_create_def)
  note st0 = fresh_store [OF f p sf(1-3)]
  have "cache_ok s [] t n" using th(1) lru_repr_new by (simp add: cache_ok_def sf full_def)
  moreover have "dirty_ok s [] n" using th(2) by (simp add: dirty_ok_def sf full_def)
  moreover have "disk_ok (env_ossl E) s [] t n"
    using st(1) n(1) th(2) by (simp add: disk_ok_def sealed_tree_def sf fblk_def [abs_def])
  moreover have "saved_ok (env_ossl E) s" using st(2) by (auto simp: saved_ok_def sf fblk_def)
  moreover have "keys_ok E s" using C m(2) by (simp add: keys_ok_def sf)
  ultimately have "file_inv E s [] t n n 0" using st0 m(1) n by (simp add: file_inv_def sf file_size_of_def)
  then show ok: "file_ok E s [] t n n 0" using pg by (simp add: file_ok_def sf)
  then show "holds E s (content_bytes m t) 0" unfolding holds_def using file_bytes_eq [of s t] sf(4) by fastforce
qed

lemma file_create_Ok:
  assumes f: "disk_fits E w d" and C: "aead_correct (env_ossl E)" "rng_works (env_ossl E)" and mode: "plain_mode mode"
    and cs: "check_cache_size cs = Ok pages" "12 \<le> pages" and path: "length path \<le> FILENAME_MAX_LEN"
  shows "\<exists>s rng'. file_create E path d opts mode cs (w, rng) = (Ok s, w, rng') \<and> holds E s [] 0 \<and>
    handle_ok s d opts mode pages \<and> fi_offset s = 0 \<and> fi_need_writing s \<and> fi_world s = w \<and>
    me_file_name (mi_enc (fi_metadata s)) = overwrite (zeros FILENAME_MAX_LEN) 0 path"
proof -
  obtain dd dj where p: "parts d dd dj" "subdisk_for_data E d = Ok dd" "subdisk_for_journal E d = Ok dj"
    by (rule disk_parts [OF f])
  obtain kg rng' where kg: "fs_key_gen_new (env_ossl E) mode rng = (Ok kg, rng')" "kg_ok kg" "kg_metadata_key kg = mode_key mode"
    by (rule plain_mode_key_gen [OF C(2) mode])
  obtain m where m: "new_file path mode = Ok m" "meta_ok m" "metadata_encrypt_flags m = encrypt_flags_from mode"
    "metadata_encrypt_flags m \<in> {EF_UserKey, EF_IntegrityOnly}" "me_size (mi_enc m) = 0" "me_file_name (mi_enc m) = overwrite (zeros FILENAME_MAX_LEN) 0 path"
    by (rule new_file_Ok [OF mode path])
  let ?fl = "encrypt_flags_from mode"
  let ?h = "snd (build_ref (file_node_new_root ?fl) empty_heap)"
  define s where "s = set_file_status StatusOk (file_inner_init w ?h rng' (block_file_create E dd) (raw_create dj) m 0 kg opts True pages 0)"
  have c: "file_create E path d opts mode cs (w, rng) = (Ok s, w, rng')"
    using cs(1) kg(1) p(2,3) m(1) by (simp add: file_create_def s_def build_ref_def empty_heap_def)
  have r: "nodes ?h 0 = (file_node_new_root ?fl)\<lparr>fn_node_data := zeros NODE_SIZE, fn_plaintext := plain empty_tree root_id, fn_new_node := True\<rparr>"
    "0 < next_ref ?h"
    by (simp_all add: build_ref_def empty_heap_def file_node_new_root_def file_node_new_def empty_tree_def)
  have th: "tree_heap ?h [(root_id, 0)] empty_tree" "\<not> dirty ?h 0"
    by (rule tree_heap_root [OF empty_tree_wf r(2,1)], simp)+
  have "sealed_tree (env_ossl E) (blk w dd) m empty_tree"
  proof -
    have "\<not> in_file 0 x" if "x \<noteq> root_id" for x using that by (cases x) auto
    then show ?thesis by (simp add: sealed_tree_def m(5) data_nodes_def)
  qed
  then have "holds E s (content_bytes m empty_tree) 0"
    using root_file_ok(2) [OF f p(1) C kg(2) m(2,4) cs(2) th refl _ _ _ s_def] m(5) by (simp add: data_nodes_def)
  then have "holds E s [] 0" using m(5) by (simp add: content_bytes_def)
  moreover have sf: "fi_world s = w" "bf_disk (fi_host_file s) = dd" "fi_journal s = raw_create dj"
    by (simp_all add: s_def set_file_status_def file_inner_init_def block_file_create_def)
  moreover have oc: "old_count ?h = 0" unfolding old_count_build by (simp add: old_count_def empty_heap_def file_node_new_root_def)
  moreover have "handle_ok s d opts mode pages"
    using fresh_store [OF f p(1) sf] p(1) m(3) kg(3) oc
    by (simp add: handle_ok_def s_def set_file_status_def file_inner_init_def block_file_create_def raw_create_def)
  ultimately show ?thesis using c m(6) by (simp add: s_def set_file_status_def file_inner_init_def)
qed

text \<open>What a new handle may do when the whole file fits into its cache.\<close>

lemma handle_credit:
  assumes "handle_ok s d opts mode pages" "m + m div ATTACHED_DATA_NODES_COUNT \<le> pages"
    "INNER_OFFSET + flush_cost 2 + 1 \<le> (bs_nblocks B d - data_blocks d - 1) * BLOCK_SIZE"
  shows "credit s m 0 j"
proof -
  have h: "fi_max_cache_page s = pages" "old_count (fi_heap s) \<le> 2" "\<And>k. jroom s k \<longleftrightarrow> INNER_OFFSET + k \<le> (bs_nblocks B d - data_blocks d - 1) * BLOCK_SIZE"
    using assms(1) by (simp_all add: handle_ok_def)
  have "min (old_count (fi_heap s)) (m + m div 96) \<le> 2" using h(2) by simp
  then have "flush_cost (min (old_count (fi_heap s)) (m + m div 96)) \<le> flush_cost 2" by (rule flush_cost_mono)
  then show ?thesis using assms(2,3) unfolding credit_def fits_def h by simp
qed

section \<open>Opening\<close>

lemma read_root_Ok:
  assumes E: "env_bs E = B" "aead_correct (env_ossl E)" and v: "valid w (bf_disk hf)" "2 \<le> bs_nblocks B (bf_disk hf)"
    and st: "sealed_tree (env_ossl E) (blk w (bf_disk hf)) m t"
  obtains t' ct b where "read_root E w hf fl m = Ok ((file_node_new_root fl)\<lparr>fn_node_data := ct, fn_plaintext := plain t' root_id, fn_new_node := b\<rparr>)"
    "length ct = NODE_SIZE" "sealed_tree (env_ossl E) (blk w (bf_disk hf)) m t'" "content_bytes m t' = content_bytes m t"
proof (cases "MD_USER_DATA_SIZE < me_size (mi_enc m)")
  case True
  let ?n = "(file_node_new_root fl)\<lparr>fn_node_data := blk w (bf_disk hf) 1\<rparr>"
  have "0 < data_nodes (me_size (mi_enc m))" using True by (simp add: data_nodes_def div_greater_zero_iff)
  then have s: "sealed (env_ossl E) (me_mht_key (mi_enc m)) (me_mht_gmac (mi_enc m)) (plain t root_id) (fn_node_data ?n)"
    using st by (simp add: sealed_tree_def)
  have wf: "fn_wf ?n" "node_wf (fn_node_type ?n) (plain t root_id)"
    using st blk_length [OF v(1), of 1] v(2) by (simp_all add: file_node_new_root_def fn_wf_def file_node_new_def sealed_tree_def tree_wf_def)
  have "node_read_from_disk E w hf (file_node_new_root fl) = Ok ?n"
    using block_file_read_Ok [OF E(1) v(1), of 1] v(2) by (simp add: node_read_from_disk_def file_node_new_root_def file_node_new_def)
  then have "read_root E w hf fl m = Ok (?n\<lparr>fn_plaintext := plain t root_id, fn_new_node := False\<rparr>)"
    using True node_decrypt_sealed [OF E(2) wf s] by (simp add: read_root_def)
  then show ?thesis using that [where t' = t and b = False] st blk_length [OF v(1), of 1] v(2) by simp
next
  case False
  let ?t = "t\<lparr>t_mht := (t_mht t)(0 := mht_default)\<rparr>"
  have n: "data_nodes (me_size (mi_enc m)) = 0" using False by (simp add: data_nodes_def)
  have "\<not> in_file 0 x" if "x \<noteq> root_id" for x using that by (cases x) auto
  then have "sealed_tree (env_ossl E) (blk w (bf_disk hf)) m ?t" using st n by (simp add: sealed_tree_def tree_wf_def)
  moreover have "content_bytes m ?t = content_bytes m t" by (simp add: content_bytes_def byte_at_def [abs_def])
  moreover have "read_root E w hf fl m = Ok ((file_node_new_root fl)\<lparr>fn_node_data := zeros NODE_SIZE, fn_plaintext := plain ?t root_id, fn_new_node := True\<rparr>)"
    using False by (simp add: read_root_def file_node_new_root_def file_node_new_def)
  ultimately show ?thesis using that [where t' = ?t and b = True] by simp
qed

end

end
