(* ===== verification/File_Reopen.thy ===== *)
theory File_Reopen
  imports File_Life
begin

text \<open>
  Opening a flushed file, and the life of a file from its creation to its reading after a reopen.
\<close>

section \<open>Opening\<close>

context block_set
begin

text \<open>A key generator and the mode agree with the header of the image.\<close>

lemma header_Ok:
  assumes m: "meta_ok m" "metadata_encrypt_flags m = encrypt_flags_from mode" and mode: "plain_mode mode" "kg_ok kg"
    and m0: "mi_plain m0 = mi_plain m"
  shows "check_header mode m0 = Ok ()" "open_key kg mode m0 = Ok (kg_metadata_key kg, m0)"
proof -
  have fl: "metadata_encrypt_flags m0 = encrypt_flags_from mode" using m(2) m0 by (simp add: metadata_encrypt_flags_def)
  show "check_header mode m0 = Ok ()"
    using m(1) m0 fl mode(1) by (auto simp: check_header_def meta_ok_def metadata_update_flag_def plain_mode_def)
  show "open_key kg mode m0 = Ok (kg_metadata_key kg, m0)"
    using fl mode fs_restore_metadata [OF mode(2)] by (auto simp: open_key_def metadata_restore_key_def plain_mode_def)
qed

lemma open_file_Ok:
  assumes E: "env_bs E = B" "aead_correct (env_ossl E)" and v: "valid w (bf_disk hf)" "2 \<le> bs_nblocks B (bf_disk hf)"
    and mode: "plain_mode mode" "kg_ok kg" "kg_metadata_key kg = mode_key mode"
    and st: "stored (env_ossl E) (blk w (bf_disk hf)) N (mode_key mode) m bs"
    and m: "metadata_encrypt_flags m = encrypt_flags_from mode" "metadata_file_name m = Ok path"
  obtains r h' t where "open_file E w hf path kg mode h = (Ok (m, r), h')" "tree_heap h' [(root_id, r)] t" "\<not> dirty h' r"
    "sealed_tree (env_ossl E) (blk w (bf_disk hf)) m t" "content_bytes m t = bs"
    "old_count h' \<le> Suc (old_count h)"
proof -
  obtain t0 where t0: "sealed_tree (env_ossl E) (blk w (bf_disk hf)) m t0" "content_bytes m t0 = bs" using st by (auto simp: stored_def)
  have mo: "meta_ok m" "meta_wf m" "blk w (bf_disk hf) 0 = metadata_bytes m" "meta_sealed (env_ossl E) (mode_key mode) m"
    using st by (auto simp: stored_def meta_ok_def)
  let ?m0 = "metadata_fill (metadata_bytes m) metadata_info_default"
  have "metadata_read_from_disk E w hf metadata_info_default = Ok ?m0"
    using block_file_read_Ok [OF E(1) v(1), of 0] v(2) mo(3) length_metadata_bytes [OF metadata_info_new_wf(2)]
    by (simp add: metadata_read_from_disk_def)
  moreover have pl: "mi_plain ?m0 = mi_plain m" using metadata_fill_bytes [OF mo(2)] by simp
  moreover note header_Ok [OF mo(1) m(1) mode(1,2) pl]
  moreover have "metadata_decrypt (env_ossl E) (mode_key mode) ?m0 = Ok m" by (rule metadata_decrypt_fill [OF E(2) mo(2,4)])
  moreover obtain t ct b where t: "read_root E w hf (encrypt_flags_from mode) m =
      Ok ((file_node_new_root (encrypt_flags_from mode))\<lparr>fn_node_data := ct, fn_plaintext := plain t root_id, fn_new_node := b\<rparr>)"
    "length ct = NODE_SIZE" "sealed_tree (env_ossl E) (blk w (bf_disk hf)) m t" "content_bytes m t = content_bytes m t0"
    by (rule read_root_Ok [OF E v t0(1)])
  ultimately obtain h' where h': "open_file E w hf path kg mode h = (Ok (m, next_ref h), h')"
    "h' = snd (build_ref ((file_node_new_root (encrypt_flags_from mode))\<lparr>fn_node_data := ct, fn_plaintext := plain t root_id, fn_new_node := b\<rparr>) h)"
    using m(2) mode(3) by (simp add: open_file_def build_ref_def)
  have "tree_heap h' [(root_id, next_ref h)] t" "\<not> dirty h' (next_ref h)"
    by (rule tree_heap_root [OF _ _ _ t(2)]; use t(3) h'(2) in \<open>simp add: build_ref_def sealed_tree_def\<close>)+
  moreover have "old_count h' \<le> Suc (old_count h)" unfolding h'(2) old_count_build by simp
  ultimately show thesis using that h'(1) t t0 by simp
qed

lemma fresh_journal:
  assumes "disk_fits E w d" "parts d dd dj" shows "journal_inv w (raw_create dj) []"
proof -
  define s where "s = file_inner_init w empty_heap 0 (block_file_create E dd) (raw_create dj) metadata_info_new 0 KgIntegrityOnly undefined False 0 0"
  have s: "fi_world s = w" "bf_disk (fi_host_file s) = dd" "fi_journal s = raw_create dj"
    by (simp_all add: s_def file_inner_init_def block_file_create_def)
  obtain log where "journal_inv w (raw_create dj) log" "length log = 0"
    using fresh_store(1) [OF assms s] s by (auto simp: store_ok_def)
  then show ?thesis by simp
qed

lemma file_open_Ok:
  assumes f: "disk_fits E w d" and p: "parts d dd dj" and C: "aead_correct (env_ossl E)" "rng_works (env_ossl E)"
    and mode: "plain_mode mode" and cs: "check_cache_size cs = Ok pages" "12 \<le> pages"
    and st: "stored (env_ossl E) (blk w dd) (data_blocks d) (mode_key mode) m bs" and j: "journal_header w (raw_create dj) []"
    and m: "metadata_encrypt_flags m = encrypt_flags_from mode" "metadata_file_name m = Ok path"
  shows "\<exists>s w' rng'. file_open E path d opts mode cs (w, rng) = (Ok s, w', rng') \<and> holds E s bs 0 \<and>
    handle_ok s d opts mode pages \<and> fi_offset s = (if oo_append opts \<and> \<not> oo_update opts then length bs else 0) \<and>
    \<not> fi_need_writing s \<and> fi_metadata s = m \<and> fi_world s = w'"
proof -
  obtain dd' dj' where q: "parts d dd' dj'" "subdisk_for_data E d = Ok dd'" "subdisk_for_journal E d = Ok dj'"
    "bs_nblocks B dd' = data_blocks d" "bs_nblocks B dj' = bs_nblocks B d - data_blocks d" "valid w dd'" "valid w dj'"
    by (rule disk_parts [OF f])
  have e: "dd' = dd" "dj' = dj" using parts_fun [OF p q(1)] by simp_all
  have E: "env_bs E = B" "2 \<le> data_blocks d" using f by (auto simp: disk_fits_def disk_sizes_def)
  obtain kg rng' where kg: "fs_key_gen_new (env_ossl E) mode rng = (Ok kg, rng')" "kg_ok kg" "kg_metadata_key kg = mode_key mode"
    by (rule plain_mode_key_gen [OF C(2) mode])
  let ?hf = "block_file_create E dd"
  have hf: "bf_disk ?hf = dd" by (simp add: block_file_create_def)
  have v: "valid w (bf_disk ?hf)" "2 \<le> bs_nblocks B (bf_disk ?hf)" using q(4,6) e E(2) hf by simp_all
  have sth: "stored (env_ossl E) (blk w (bf_disk ?hf)) (data_blocks d) (mode_key mode) m bs" using st hf by simp
  obtain r1 h1 where o1: "open_file E w ?hf path kg mode empty_heap = (Ok (m, r1), h1)" "old_count h1 \<le> Suc (old_count empty_heap)"
    by (rule open_file_Ok [OF E(1) C(1) v mode kg(2,3) sth m, of empty_heap])
  have ji: "journal_inv w (raw_create dj) []" by (rule fresh_journal [OF f p])
  obtain w' where w': "recovery E (raw_create dj) (w, ?hf, h1) = (Ok [], w', ?hf, h1)" "only w w' dd" "content w' dd = content w dd"
    using recovery_empty [OF E(1) ji _ j v(1), of h1] hf v(1) by (auto simp: raw_create_def)
  have v': "valid w' dd" "valid w' dj" using w'(2) v(1) hf q(7) e by (auto simp: only_def)
  have f': "disk_fits E w' d" by (rule disk_fits_step [OF f p v'])
  have "\<forall>p<data_blocks d. blk w' dd p = blk w dd p"
    using blk_content [OF v'(1)] blk_content [of w dd] q(4) e v(1) hf w'(3) by metis
  then have st': "stored (env_ossl E) (blk w' dd) (data_blocks d) (mode_key mode) m bs" using stored_cong E(2) st by blast
  then have mo: "meta_ok m" "capacity m (data_blocks d)" "blk w' dd 0 = metadata_bytes m" "meta_sealed (env_ossl E) (mode_key mode) m"
    by (auto simp: stored_def)
  have v2: "valid w' (bf_disk ?hf)" "2 \<le> bs_nblocks B (bf_disk ?hf)" using v' v(2) hf by simp_all
  have sth': "stored (env_ossl E) (blk w' (bf_disk ?hf)) (data_blocks d) (mode_key mode) m bs" using st' hf by simp
  obtain r h t where o2: "open_file E w' ?hf path kg mode h1 = (Ok (m, r), h)" "tree_heap h [(root_id, r)] t" "\<not> dirty h r"
    "sealed_tree (env_ossl E) (blk w' dd) m t" "content_bytes m t = bs" "old_count h \<le> Suc (old_count h1)"
    by (rule open_file_Ok [OF E(1) C(1) v2 mode kg(2,3) sth' m, of h1]) (simp add: hf)
  define off where "off = (if oo_append opts \<and> \<not> oo_update opts then me_size (mi_enc m) else 0)"
  define s where "s = set_file_status StatusOk (file_inner_init w' h rng' ?hf (raw_create dj) m r kg opts False pages off)"
  have c: "file_open E path d opts mode cs (w, rng) = (Ok s, w', rng')"
    using cs(1) kg(1) q(2,3) e o1(1) w'(1) o2(1)
    by (simp add: file_open_def open_or_recover_def recover_and_reopen_def s_def off_def Let_def file_inner_init_def)
  have "metadata_encrypt_flags m \<in> {EF_UserKey, EF_IntegrityOnly}" using m(1) mode by (auto simp: plain_mode_def)
  then have "holds E s bs 0"
    using root_file_ok(2) [OF f' p C kg(2) mo(1) _ cs(2) o2(2,3) refl _ o2(4) _ s_def] mo(2-4) kg(3) o2(5) by (simp add: capacity_def)
  moreover have "me_size (mi_enc m) = length bs" using o2(5) by (auto simp: content_bytes_def)
  moreover have sf: "fi_world s = w'" "bf_disk (fi_host_file s) = dd" "fi_journal s = raw_create dj"
    by (simp_all add: s_def set_file_status_def file_inner_init_def block_file_create_def)
  moreover have "old_count h \<le> 2" using o1(2) o2(6) by (simp add: old_count_def empty_heap_def)
  then have "handle_ok s d opts mode pages"
    using fresh_store [OF f' p sf] p m(1) kg(3)
    by (simp add: handle_ok_def s_def set_file_status_def file_inner_init_def block_file_create_def raw_create_def)
  ultimately show ?thesis using c by (simp add: s_def set_file_status_def file_inner_init_def off_def)
qed

end

end
