(* ===== verification/File_Ops.thy ===== *)
theory File_Ops
  imports File_Reopen Protected_File
begin

text \<open>
  A file as its user sees it: the content, the position and the end-of-file mark.  Every sequence of
  operations on a \<open>ProtectedFile\<close> behaves as on this view.
\<close>

section \<open>The abstract file\<close>

record file_view =
  fv_bytes :: bytes
  fv_pos :: nat
  fv_eof :: bool

definition read_view :: "nat \<Rightarrow> file_view \<Rightarrow> bytes \<times> file_view" where
  "read_view len v =
     (if fv_eof v then ([], v)
      else (slice (fv_pos v) (fv_pos v + len) (fv_bytes v),
            v\<lparr>fv_pos := min (fv_pos v + len) (length (fv_bytes v)),
              fv_eof := (len \<noteq> 0 \<and> length (fv_bytes v) < fv_pos v + len)\<rparr>))"

definition view_write_pos :: "bool \<Rightarrow> file_view \<Rightarrow> nat" where
  "view_write_pos app v = (if app then length (fv_bytes v) else fv_pos v)"

definition write_view :: "bool \<Rightarrow> bytes \<Rightarrow> file_view \<Rightarrow> file_view" where
  "write_view app buf v =
     (if buf = [] then v
      else v\<lparr>fv_bytes := overwrite (fv_bytes v) (view_write_pos app v) buf,
             fv_pos := view_write_pos app v + length buf\<rparr>)"

definition seek_view :: "nat \<Rightarrow> file_view \<Rightarrow> file_view" where
  "seek_view off v = v\<lparr>fv_pos := off, fv_eof := False\<rparr>"

definition read_at_view :: "nat \<Rightarrow> nat \<Rightarrow> file_view \<Rightarrow> bytes \<times> file_view" where
  "read_at_view len off v =
     (if length (fv_bytes v) < off then ([], v)
      else (fst (read_view len (seek_view off v)), (snd (read_view len (seek_view off v)))\<lparr>fv_pos := fv_pos v\<rparr>))"

definition pad_view :: "bool \<Rightarrow> nat \<Rightarrow> file_view \<Rightarrow> file_view" where
  "pad_view app off v =
     (if length (fv_bytes v) < off
      then write_view app (zeros (off - length (fv_bytes v))) (seek_view (length (fv_bytes v)) v) else v)"

definition write_at_view :: "bool \<Rightarrow> bytes \<Rightarrow> nat \<Rightarrow> file_view \<Rightarrow> file_view" where
  "write_at_view app buf off v = (write_view app buf (seek_view off (pad_view app off v)))\<lparr>fv_pos := fv_pos v\<rparr>"

definition view_ok :: "file_view \<Rightarrow> bool" where
  "view_ok v \<longleftrightarrow> fv_pos v \<le> length (fv_bytes v)"

definition view_nodes :: "file_view \<Rightarrow> nat" where
  "view_nodes v = data_nodes (length (fv_bytes v))"

lemma length_overwrite_max: "p \<le> length xs \<Longrightarrow> length (overwrite xs p ys) = max (p + length ys) (length xs)"
  by (simp add: overwrite_def)

lemma view_write_pos_le: "view_ok v \<Longrightarrow> view_write_pos app v \<le> length (fv_bytes v)"
  by (simp add: view_ok_def view_write_pos_def)

lemma write_view_length:
  "view_ok v \<Longrightarrow> buf \<noteq> [] \<Longrightarrow>
    length (fv_bytes (write_view app buf v)) = max (view_write_pos app v + length buf) (length (fv_bytes v))"
  using length_overwrite_max [OF view_write_pos_le] by (simp add: write_view_def)

lemma write_view_grows: "view_ok v \<Longrightarrow> length (fv_bytes v) \<le> length (fv_bytes (write_view app buf v))"
  using write_view_length [of v buf app] by (cases "buf = []") (simp_all add: write_view_def)

lemma write_view_ok [simp]: "view_ok v \<Longrightarrow> view_ok (write_view app buf v)"
  using write_view_length [of v buf app] by (cases "buf = []") (simp_all add: write_view_def view_ok_def)

lemma read_view_ok [simp]: "view_ok v \<Longrightarrow> view_ok (snd (read_view len v))"
  by (simp add: read_view_def view_ok_def)

lemma write_view_append:
  assumes "view_ok v" shows "write_view app b (write_view app a v) = write_view app (a @ b) v"
proof (cases "a = [] \<or> b = []")
  case False
  have "view_write_pos app (write_view app a v) = view_write_pos app v + length a"
    using False write_view_length [OF assms, of a app] assms by (auto simp: view_write_pos_def write_view_def view_ok_def)
  then show ?thesis
    using False overwrite_append [OF view_write_pos_le [OF assms], of app a b] by (simp add: write_view_def)
qed (auto simp: write_view_def)

lemma data_chunks_small: "len \<le> NODE_SIZE \<Longrightarrow> data_chunks off len \<le> 2"
proof -
  assume l: "len \<le> NODE_SIZE"
  have "io_chunks p q \<le> 2" if "q \<le> NODE_SIZE" for p q
  proof -
    have "node_pos p + q + 4095 < 3 * 4096" using that node_pos_less [of p] by linarith
    then have "(node_pos p + q + 4095) div 4096 < 3" by (rule less_mult_imp_div_less)
    then show ?thesis by (simp add: io_chunks_def)
  qed
  then show ?thesis using l by (simp add: data_chunks_def)
qed

text \<open>The nodes that \<open>len\<close> bytes of zeros touch, written in pieces of a node.\<close>

definition zeros_cost :: "nat \<Rightarrow> nat" where
  "zeros_cost len = 2 * ((len + (NODE_SIZE - 1)) div NODE_SIZE)"

lemma zeros_cost_step: "0 < len \<Longrightarrow> zeros_cost len = 2 + zeros_cost (len - min len NODE_SIZE)"
proof (cases "len \<le> NODE_SIZE")
  case True
  assume "0 < len"
  then have "(len + 4095) div 4096 = 1" using True by (intro div_nat_eqI) simp_all
  then show ?thesis using True by (simp add: zeros_cost_def)
next
  case False
  have "len + 4095 = 4096 + (len - 4096 + 4095)" using False by simp
  then have "(len + 4095) div 4096 = Suc ((len - 4096 + 4095) div 4096)" by simp
  then show ?thesis using False by (simp add: zeros_cost_def)
qed

section \<open>One operation\<close>

context block_set
begin

definition rep :: "('s, 'd) env \<Rightarrow> ('s, 'd) file_inner \<Rightarrow> file_view \<Rightarrow> nat \<Rightarrow> bool" where
  "rep E s v k \<longleftrightarrow> holds E s (fv_bytes v) k \<and> fi_offset s = fv_pos v \<and> fi_end_of_file s = fv_eof v \<and>
     view_ok v \<and> fi_status s = StatusOk"

text \<open>From \<open>s\<close> an operation leads to \<open>s'\<close>, which represents \<open>v\<close> and leaves the credit \<open>j\<close>.\<close>

definition leads :: "('s, 'd) env \<Rightarrow> nat \<Rightarrow> ('s, 'd) file_inner \<Rightarrow> ('s, 'd) file_inner \<Rightarrow> file_view \<Rightarrow> nat \<Rightarrow> nat \<Rightarrow> bool" where
  "leads E m s s' v k j \<longleftrightarrow> rep E s' v k \<and> same_handle s s' \<and> credit s' m k j \<and>
     (fits s m \<longrightarrow> fi_need_writing s \<longrightarrow> fi_need_writing s')"

lemma leads_trans: "leads E m s s1 v1 k1 j1 \<Longrightarrow> leads E m s1 s2 v2 k2 j2 \<Longrightarrow> leads E m s s2 v2 k2 j2"
  unfolding leads_def using same_handle_trans fits_cong by blast

lemma rep_misc:
  "rep E s v k \<Longrightarrow> off \<le> length (fv_bytes v) \<Longrightarrow> rep E (s\<lparr>fi_offset := off\<rparr>) (v\<lparr>fv_pos := off\<rparr>) k"
  "rep E s v k \<Longrightarrow> rep E (s\<lparr>fi_end_of_file := b\<rparr>) (v\<lparr>fv_eof := b\<rparr>) k"
  by (auto simp: rep_def holds_def view_ok_def)

lemma leads_offset:
  "leads E m s s' v k j \<Longrightarrow> off \<le> length (fv_bytes v) \<Longrightarrow> leads E m s (s'\<lparr>fi_offset := off\<rparr>) (v\<lparr>fv_pos := off\<rparr>) k j"
  unfolding leads_def by (simp add: rep_misc(1)) (simp add: same_handle_def)

lemma leads_seek:
  assumes "rep E s v k" "off \<le> length (fv_bytes v)" "credit s m k j"
  shows "leads E m s (s\<lparr>fi_offset := off, fi_end_of_file := False\<rparr>) (seek_view off v) k j"
  using rep_misc(2) [OF rep_misc(1) [OF assms(1,2)], of False] assms(3)
  by (simp add: leads_def seek_view_def same_handle_def)

lemma seek_start:
  "rep E s v k \<Longrightarrow> off \<le> length (fv_bytes v) \<Longrightarrow>
    file_seek (SeekStart off) s = (Ok off, s\<lparr>fi_offset := off, fi_end_of_file := False\<rparr>)"
  using holds_size [of E s "fv_bytes v" k]
  by (simp add: rep_def file_seek_def seek_target_def status_is_ok_def ok_or_def)

lemma seek_end:
  "rep E s v k \<Longrightarrow>
    file_seek (SeekEnd 0) s = (Ok (length (fv_bytes v)), s\<lparr>fi_offset := length (fv_bytes v), fi_end_of_file := False\<rparr>)"
  using holds_size [of E s "fv_bytes v" k]
  by (simp add: rep_def file_seek_def seek_target_def status_is_ok_def ok_or_def neg_i64_def checked_sub_def)

lemma seek_any:
  assumes "rep E s v k" "seek_target (length (fv_bytes v)) (fv_pos v) pos = Ok (Some off)"
  shows "file_seek pos s = (Ok off, s\<lparr>fi_offset := off, fi_end_of_file := False\<rparr>)"
  using assms holds_size [of E s "fv_bytes v" k]
  by (simp add: rep_def file_seek_def status_is_ok_def ok_or_def)

lemma read_leads:
  assumes r: "rep E s v k" and m: "view_nodes v \<le> m"
    and cr: "credit s m k (data_chunks (fv_pos v) (min len (length (fv_bytes v) - fv_pos v)) + j)"
  shows "\<exists>s' k'. file_read E len s = (Ok (fst (read_view len v)), s') \<and> leads E m s s' (snd (read_view len v)) k' j"
proof (cases "fv_eof v")
  case True
  then have "file_read E len s = (Ok [], s)" using r by (simp add: rep_def file_read_def)
  then show ?thesis using True r credit_mono [OF cr] by (auto simp: read_view_def leads_def)
next
  case False
  have h: "holds E s (fv_bytes v) k" "\<not> fi_end_of_file s" "fi_offset s \<le> length (fv_bytes v)" "fi_offset s = fv_pos v" "view_ok v"
    "fi_status s = StatusOk"
    using r False by (auto simp: rep_def view_ok_def)
  obtain s' k' where s': "file_read E len s = (Ok (slice (fv_pos v) (fv_pos v + len) (fv_bytes v)), s')" "holds E s' (fv_bytes v) k'"
    "fi_offset s' = min (fv_pos v + len) (length (fv_bytes v))" "fi_end_of_file s' = (len \<noteq> 0 \<and> length (fv_bytes v) < fv_pos v + len)"
    "same_handle s s'" "credit s' m k' j" "fits s m \<longrightarrow> fi_need_writing s' = fi_need_writing s"
    using file_read_Ok [OF h(1-3) m [unfolded view_nodes_def], of len j] cr h(4) by auto
  have "rep E s' (snd (read_view len v)) k'"
    using s' h(6) False read_view_ok [OF h(5), of len] by (simp add: rep_def read_view_def same_handle_def)
  then show ?thesis using s' False by (auto simp: leads_def read_view_def)
qed

text \<open>A write needs permission, and the blocks of a file with \<open>m\<close> data nodes.\<close>

definition writable :: "('s, 'd) file_inner \<Rightarrow> nat \<Rightarrow> bool" where
  "writable s m \<longleftrightarrow> (oo_write (fi_opts s) \<or> oo_append (fi_opts s) \<or> oo_update (fi_opts s)) \<and>
     (0 < m \<longrightarrow> data_phys (m - 1) < nblk s)"

lemma writable_cong: "same_handle s s' \<Longrightarrow> writable s' m = writable s m"
  using nblk_cong [of s s'] by (simp add: writable_def same_handle_def)

lemma write_leads:
  assumes r: "rep E s v k" and w: "writable s m" and m: "view_nodes (write_view (oo_append (fi_opts s)) buf v) \<le> m"
    and cr: "credit s m k (data_chunks (view_write_pos (oo_append (fi_opts s)) v) (length buf) + j)"
  shows "\<exists>s' k'. file_write E buf s = (Ok (length buf), s') \<and>
    leads E m s s' (write_view (oo_append (fi_opts s)) buf v) k' j \<and> (buf \<noteq> [] \<longrightarrow> fi_need_writing s')"
proof (cases "buf = []")
  case True
  then show ?thesis using r credit_mono [OF cr] by (auto simp: file_write_def write_view_def leads_def)
next
  case False
  let ?app = "oo_append (fi_opts s)"
  have h: "holds E s (fv_bytes v) k" "fi_offset s \<le> length (fv_bytes v)" "fi_offset s = fv_pos v" "view_ok v" "fi_status s = StatusOk"
    using r by (auto simp: rep_def view_ok_def)
  have p: "write_pos s = view_write_pos ?app v" using h(3) holds_size [OF h(1)] by (simp add: write_pos_def view_write_pos_def)
  have m': "data_nodes (max (write_pos s + length buf) (length (fv_bytes v))) \<le> m"
    using m write_view_length [OF h(4) False, of ?app] p by (simp add: view_nodes_def)
  obtain s' k' where s': "file_write E buf s = (Ok (length buf), s')" "holds E s' (overwrite (fv_bytes v) (write_pos s) buf) k'"
    "fi_offset s' = write_pos s + length buf" "fi_end_of_file s' = fi_end_of_file s" "same_handle s s'" "credit s' m k' j" "fi_need_writing s'"
    using file_write_Ok [OF h(1) _ h(2) False m', of j] w cr p by (auto simp: writable_def)
  have "rep E s' (write_view ?app buf v) k'"
    using s' h(5) r False write_view_ok [OF h(4), of ?app buf] p by (simp add: rep_def write_view_def same_handle_def)
  then show ?thesis using s' by (auto simp: leads_def)
qed

lemma zeros_leads:
  assumes "rep E s v k" "writable s m" "view_nodes (write_view (oo_append (fi_opts s)) (zeros len) v) \<le> m" "credit s m k (zeros_cost len + j)"
  shows "\<exists>s' k'. write_zeros E len s = (Ok (), s') \<and>
    leads E m s s' (write_view (oo_append (fi_opts s)) (zeros len) v) k' j \<and> (0 < len \<longrightarrow> fi_need_writing s')"
  using assms
proof (induction len arbitrary: s v k rule: less_induct)
  case (less len)
  show ?case
  proof (cases "len = 0")
    case True
    then show ?thesis using less.prems credit_mono [of s m k 0 j]
      by (auto simp: write_zeros.simps write_view_def leads_def zeros_cost_def)
  next
    case False
    let ?app = "oo_append (fi_opts s)" and ?n = "min len NODE_SIZE"
    let ?v = "write_view ?app (zeros ?n) v"
    have ok: "view_ok v" using less.prems(1) by (simp add: rep_def)
    have z: "zeros len = zeros ?n @ zeros (len - ?n)" by (simp flip: replicate_add)
    have e: "write_view ?app (zeros (len - ?n)) ?v = write_view ?app (zeros len) v"
      unfolding write_view_append [OF ok] z [symmetric] by (rule refl)
    have "length (fv_bytes ?v) \<le> length (fv_bytes (write_view ?app (zeros len) v))"
      using write_view_grows [OF write_view_ok [OF ok], of ?app "zeros ?n" ?app "zeros (len - ?n)"] by (simp only: e)
    then have m1: "view_nodes ?v \<le> m"
      using less.prems(3) data_nodes_mono unfolding view_nodes_def by (meson order_trans)
    have "data_chunks (view_write_pos ?app v) (length (zeros ?n)) \<le> 2" by (rule data_chunks_small) simp
    moreover have "zeros_cost len = 2 + zeros_cost (len - ?n)" by (rule zeros_cost_step) (use False in simp)
    ultimately have c: "zeros_cost len + j = (2 - data_chunks (view_write_pos ?app v) (length (zeros ?n))) +
        (data_chunks (view_write_pos ?app v) (length (zeros ?n)) + (zeros_cost (len - ?n) + j))" by linarith
    have "credit s m k (data_chunks (view_write_pos ?app v) (length (zeros ?n)) + (zeros_cost (len - ?n) + j))"
      by (rule credit_mono [OF less.prems(4) [unfolded c]])
    from write_leads [OF less.prems(1,2) m1 this] obtain s1 k1 where s1: "file_write E (zeros ?n) s = (Ok ?n, s1)"
      "leads E m s s1 ?v k1 (zeros_cost (len - ?n) + j)" "fi_need_writing s1" using False by auto
    have sh: "same_handle s s1" "rep E s1 ?v k1" "credit s1 m k1 (zeros_cost (len - ?n) + j)" using s1(2) by (simp_all add: leads_def)
    have ap: "oo_append (fi_opts s1) = ?app" using sh(1) by (simp add: same_handle_def)
    have w1: "writable s1 m" using less.prems(2) writable_cong [OF sh(1)] by simp
    have "len - ?n < len" using False by simp
    from less.IH [OF this sh(2) w1 _ sh(3), unfolded ap e, OF less.prems(3)]
    obtain s' k' where s': "write_zeros E (len - ?n) s1 = (Ok (), s')" "leads E m s1 s' (write_view ?app (zeros len) v) k' j"
      "0 < len - ?n \<longrightarrow> fi_need_writing s'" by (elim exE conjE)
    have "write_zeros E len s = (Ok (), s')" using False s1(1) s'(1) by (subst write_zeros.simps) simp
    moreover have "fi_need_writing s'"
    proof (cases "len - ?n = 0")
      case True
      then have "s' = s1" using s'(1) by (simp add: write_zeros.simps)
      then show ?thesis using s1(3) by simp
    qed (use s'(3) in simp)
    ultimately show ?thesis using leads_trans [OF s1(2) s'(2)] by blast
  qed
qed

lemma read_at_leads:
  assumes r: "rep E s v k" and m: "view_nodes v \<le> m"
    and cr: "credit s m k (data_chunks off (min len (length (fv_bytes v) - off)) + j)"
  shows "\<exists>s' k'. file_read_at E len off s = (Ok (fst (read_at_view len off v)), s') \<and> leads E m s s' (snd (read_at_view len off v)) k' j"
proof -
  have sz: "file_size_of s = length (fv_bytes v)" "fi_offset s = fv_pos v" "fv_pos v \<le> length (fv_bytes v)"
    using r holds_size by (auto simp: rep_def view_ok_def)
  show ?thesis
  proof (cases "length (fv_bytes v) < off")
    case True
    then show ?thesis using sz r credit_mono [OF cr] by (auto simp: file_read_at_def read_at_view_def leads_def Let_def)
  next
    case False
    let ?s = "s\<lparr>fi_offset := off, fi_end_of_file := False\<rparr>" and ?v = "seek_view off v"
    have off: "off \<le> length (fv_bytes v)" using False by simp
    note l = leads_seek [OF r off cr]
    have m': "view_nodes ?v \<le> m" using m by (simp add: view_nodes_def seek_view_def)
    obtain s' k' where s': "file_read E len ?s = (Ok (fst (read_view len ?v)), s')" "leads E m ?s s' (snd (read_view len ?v)) k' j"
      using read_leads [of E ?s ?v k m len j] l m' by (auto simp: leads_def seek_view_def)
    have "leads E m s (s'\<lparr>fi_offset := fv_pos v\<rparr>) (snd (read_at_view len off v)) k' j"
      using leads_offset [OF leads_trans [OF l s'(2)], of "fv_pos v"] sz(3) False by (simp add: read_at_view_def read_view_def seek_view_def)
    moreover have "file_read_at E len off s = (Ok (fst (read_at_view len off v)), s'\<lparr>fi_offset := fv_pos v\<rparr>)"
      using False sz seek_start [OF r off] s'(1) by (simp add: file_read_at_def read_at_view_def Let_def)
    ultimately show ?thesis by blast
  qed
qed

lemma pad_leads:
  assumes r: "rep E s v k" and w: "writable s m" and m: "view_nodes (pad_view (oo_append (fi_opts s)) off v) \<le> m"
    and cr: "credit s m k (zeros_cost (off - length (fv_bytes v)) + j)" and n: "n = length (fv_bytes v)"
  shows "\<exists>s' k'. (if off > n
               then then_do (file_seek (SeekEnd 0) s) (\<lambda>_ s.
                    on_err (write_zeros E (off - n) s) (\<lambda>_. restore_offset cur))
               else (Ok (), s)) = (Ok (), s') \<and> leads E m s s' (pad_view (oo_append (fi_opts s)) off v) k' j"
proof (cases "length (fv_bytes v) < off")
  case False
  then show ?thesis using r credit_mono [OF cr] n by (auto simp: pad_view_def leads_def)
next
  case True
  let ?n = "length (fv_bytes v)" and ?s = "s\<lparr>fi_offset := length (fv_bytes v), fi_end_of_file := False\<rparr>" and ?v = "seek_view (length (fv_bytes v)) v"
  note l = leads_seek [OF r order_refl cr]
  have l': "rep E ?s ?v k" "credit ?s m k (zeros_cost (off - ?n) + j)" "same_handle s ?s" using l by (simp_all add: leads_def)
  have w': "writable ?s m" using w writable_cong [OF l'(3)] by simp
  have m': "view_nodes (write_view (oo_append (fi_opts ?s)) (zeros (off - ?n)) ?v) \<le> m" using m True by (simp add: pad_view_def)
  obtain s' k' where s': "write_zeros E (off - ?n) ?s = (Ok (), s')"
    "leads E m ?s s' (write_view (oo_append (fi_opts ?s)) (zeros (off - ?n)) ?v) k' j"
    using zeros_leads [OF l'(1) w' m' l'(2)] by blast
  then show ?thesis using leads_trans [OF l s'(2)] seek_end [OF r] True n by (auto simp: pad_view_def)
qed

lemma write_at_leads:
  assumes r: "rep E s v k" and w: "writable s m" and m: "view_nodes (write_at_view (oo_append (fi_opts s)) buf off v) \<le> m"
    and cr: "credit s m k (zeros_cost (off - length (fv_bytes v)) +
      (data_chunks (view_write_pos (oo_append (fi_opts s)) (seek_view off (pad_view (oo_append (fi_opts s)) off v))) (length buf) + j))"
  shows "\<exists>s' k'. file_write_at E buf off s = (Ok (length buf), s') \<and>
    leads E m s s' (write_at_view (oo_append (fi_opts s)) buf off v) k' j"
proof -
  let ?app = "oo_append (fi_opts s)"
  let ?v1 = "pad_view ?app off v" and ?p = "fv_pos v"
  have ok: "view_ok v" "fi_offset s = ?p" using r by (simp_all add: rep_def)
  have ok1: "view_ok ?v1" "off \<le> length (fv_bytes ?v1)" "?p \<le> length (fv_bytes ?v1)"
  proof -
    have s: "view_ok (seek_view (length (fv_bytes v)) v)" by (simp add: view_ok_def seek_view_def)
    then show "view_ok ?v1" using ok(1) by (simp add: pad_view_def)
    have "length (fv_bytes (write_view ?app (zeros (off - length (fv_bytes v))) (seek_view (length (fv_bytes v)) v))) = off" if "length (fv_bytes v) < off"
      using write_view_length [OF s, of "zeros (off - length (fv_bytes v))" ?app] that by (simp add: view_write_pos_def seek_view_def)
    then show "off \<le> length (fv_bytes ?v1)" by (simp add: pad_view_def)
    then show "?p \<le> length (fv_bytes ?v1)" using ok(1) by (auto simp: pad_view_def view_ok_def split: if_splits)
  qed
  let ?v2 = "seek_view off ?v1"
  have ok2: "view_ok ?v2" using ok1(2) by (simp add: view_ok_def seek_view_def)
  have grow: "length (fv_bytes ?v1) \<le> length (fv_bytes (write_view ?app buf ?v2))"
    using write_view_grows [OF ok2, of ?app buf] by (simp add: seek_view_def)
  have m2: "view_nodes (write_view ?app buf ?v2) \<le> m" using m by (simp add: write_at_view_def view_nodes_def)
  have m1: "view_nodes ?v1 \<le> m" using m2 data_nodes_mono [OF grow] by (simp add: view_nodes_def)
  obtain n where n: "file_size_of s = n" "n = length (fv_bytes v)" using r holds_size by (auto simp: rep_def)
  obtain s1 k1 where s1: "(if off > n then then_do (file_seek (SeekEnd 0) s) (\<lambda>_ s.
        on_err (write_zeros E (off - n) s) (\<lambda>_. restore_offset ?p)) else (Ok (), s)) = (Ok (), s1)"
    "leads E m s s1 ?v1 k1 (data_chunks (view_write_pos ?app ?v2) (length buf) + j)"
    using pad_leads [OF r w m1 cr n(2)] by blast
  have r1: "rep E s1 ?v1 k1" "credit s1 m k1 (data_chunks (view_write_pos ?app ?v2) (length buf) + j)" "same_handle s s1"
    using s1(2) by (simp_all add: leads_def)
  let ?s2 = "s1\<lparr>fi_offset := off, fi_end_of_file := False\<rparr>"
  note l2 = leads_seek [OF r1(1) ok1(2) r1(2)]
  have r2: "rep E ?s2 ?v2 k1" "credit ?s2 m k1 (data_chunks (view_write_pos ?app ?v2) (length buf) + j)" "same_handle s1 ?s2"
    using l2 by (simp_all add: leads_def)
  have a2: "oo_append (fi_opts ?s2) = ?app" "writable ?s2 m"
    using r1(3) w writable_cong [OF same_handle_trans [OF r1(3) r2(3)]] by (simp_all add: same_handle_def)
  obtain s' k' where s': "file_write E buf ?s2 = (Ok (length buf), s')" "leads E m ?s2 s' (write_view ?app buf ?v2) k' j"
    using write_leads [OF r2(1) a2(2), unfolded a2(1), OF m2 r2(2)] by blast
  have "file_write_at E buf off s = (Ok (length buf), s'\<lparr>fi_offset := ?p\<rparr>)"
    using seek_start [OF r1(1) ok1(2)] s'(1) unfolding file_write_at_def Let_def ok(2) n(1) s1(1) by (simp add: restore_offset_def)
  moreover have "leads E m s (s'\<lparr>fi_offset := ?p\<rparr>) (write_at_view ?app buf off v) k' j"
    using leads_offset [OF leads_trans [OF leads_trans [OF s1(2) l2] s'(2)], of ?p] ok1(3) grow by (simp add: write_at_view_def)
  ultimately show ?thesis by blast
qed

end

end
