(* ===== verification/File_Sim.thy ===== *)
theory File_Sim
  imports File_Ops
begin

text \<open>
  Runs of a \<open>ProtectedFile\<close>: lists of commands, executed by the operations of the code and by the
  abstract file.  The two give the same replies, and what was written survives a flush and a reopen.
\<close>

section \<open>Commands\<close>

datatype file_cmd =
    CmdRead nat | CmdWrite bytes | CmdSeek seek_from | CmdReadAt nat nat | CmdWriteAt bytes nat | CmdFlush

datatype reply = Bytes bytes | Count nat | Done

fun run_cmd :: "('s, 'd) env \<Rightarrow> file_cmd \<Rightarrow> ('s, 'd) file_inner \<Rightarrow> reply result \<times> ('s, 'd) file_inner" where
  "run_cmd E (CmdRead len) s = then_do (pf_read E len s) (\<lambda>bs s. (Ok (Bytes bs), s))"
| "run_cmd E (CmdWrite buf) s = then_do (pf_write E buf s) (\<lambda>n s. (Ok (Count n), s))"
| "run_cmd E (CmdSeek pos) s = then_do (pf_seek pos s) (\<lambda>n s. (Ok (Count n), s))"
| "run_cmd E (CmdReadAt len off) s = then_do (pf_read_at E len off s) (\<lambda>bs s. (Ok (Bytes bs), s))"
| "run_cmd E (CmdWriteAt buf off) s = then_do (pf_write_at E buf off s) (\<lambda>n s. (Ok (Count n), s))"
| "run_cmd E CmdFlush s = then_do (pf_flush E s) (\<lambda>_ s. (Ok Done, s))"

primrec run_cmds :: "('s, 'd) env \<Rightarrow> file_cmd list \<Rightarrow> ('s, 'd) file_inner \<Rightarrow> reply list result \<times> ('s, 'd) file_inner" where
  "run_cmds E [] s = (Ok [], s)"
| "run_cmds E (c # cs) s =
     then_do (run_cmd E c s) (\<lambda>r s. then_do (run_cmds E cs s) (\<lambda>rs s. (Ok (r # rs), s)))"

text \<open>The abstract file; \<open>app\<close> is the append mode.\<close>

fun cmd_spec :: "bool \<Rightarrow> file_cmd \<Rightarrow> file_view \<Rightarrow> reply \<times> file_view" where
  "cmd_spec app (CmdRead len) v = (case read_view len v of (bs, v) \<Rightarrow> (Bytes bs, v))"
| "cmd_spec app (CmdWrite buf) v = (Count (length buf), write_view app buf v)"
| "cmd_spec app (CmdSeek pos) v =
     (case seek_target (length (fv_bytes v)) (fv_pos v) pos of
        Ok (Some off) \<Rightarrow> (Count off, seek_view off v) | _ \<Rightarrow> (Done, v))"
| "cmd_spec app (CmdReadAt len off) v = (case read_at_view len off v of (bs, v) \<Rightarrow> (Bytes bs, v))"
| "cmd_spec app (CmdWriteAt buf off) v = (Count (length buf), write_at_view app buf off v)"
| "cmd_spec app CmdFlush v = (Done, v)"

primrec cmds_spec :: "bool \<Rightarrow> file_cmd list \<Rightarrow> file_view \<Rightarrow> reply list \<times> file_view" where
  "cmds_spec app [] v = ([], v)"
| "cmds_spec app (c # cs) v =
     (fst (cmd_spec app c v) # fst (cmds_spec app cs (snd (cmd_spec app c v))),
      snd (cmds_spec app cs (snd (cmd_spec app c v))))"

text \<open>
  A valid command does not seek out of the file, and leaves at most \<open>m\<close> data nodes.  The cost bounds
  the data nodes it touches.
\<close>

fun cmd_ok :: "bool \<Rightarrow> nat \<Rightarrow> file_cmd \<Rightarrow> file_view \<Rightarrow> bool" where
  "cmd_ok app m (CmdSeek pos) v \<longleftrightarrow>
     (case seek_target (length (fv_bytes v)) (fv_pos v) pos of Ok (Some _) \<Rightarrow> True | _ \<Rightarrow> False)"
| "cmd_ok app m c v \<longleftrightarrow> view_nodes (snd (cmd_spec app c v)) \<le> m"

fun cmd_writes :: "file_cmd \<Rightarrow> bool" where
  "cmd_writes (CmdWrite buf) \<longleftrightarrow> buf \<noteq> []"
| "cmd_writes _ \<longleftrightarrow> False"

fun cmd_cost :: "bool \<Rightarrow> file_cmd \<Rightarrow> file_view \<Rightarrow> nat" where
  "cmd_cost app (CmdRead len) v = data_chunks (fv_pos v) (min len (length (fv_bytes v) - fv_pos v))"
| "cmd_cost app (CmdWrite buf) v = data_chunks (view_write_pos app v) (length buf)"
| "cmd_cost app (CmdSeek pos) v = 0"
| "cmd_cost app (CmdReadAt len off) v = data_chunks off (min len (length (fv_bytes v) - off))"
| "cmd_cost app (CmdWriteAt buf off) v = zeros_cost (off - length (fv_bytes v)) +
     data_chunks (view_write_pos app (seek_view off (pad_view app off v))) (length buf)"
| "cmd_cost app CmdFlush v = 1"

primrec cmds_ok :: "bool \<Rightarrow> nat \<Rightarrow> file_cmd list \<Rightarrow> file_view \<Rightarrow> bool" where
  "cmds_ok app m [] v \<longleftrightarrow> True"
| "cmds_ok app m (c # cs) v \<longleftrightarrow> cmd_ok app m c v \<and> cmds_ok app m cs (snd (cmd_spec app c v))"

primrec cmds_cost :: "bool \<Rightarrow> file_cmd list \<Rightarrow> file_view \<Rightarrow> nat" where
  "cmds_cost app [] v = 0"
| "cmds_cost app (c # cs) v = cmd_cost app c v + cmds_cost app cs (snd (cmd_spec app c v))"

lemma seek_target_le:
  "seek_target n p pos = Ok (Some off) \<Longrightarrow> p \<le> n \<Longrightarrow> off \<le> n"
  by (auto simp: seek_target_def checked_sub_def checked_add_def outcome_simps split: seek_from.splits if_splits option.splits)

lemma read_at_view_bytes: "fv_bytes (snd (read_at_view len off v)) = fv_bytes v"
  by (simp add: read_at_view_def read_view_def seek_view_def)

section \<open>Simulation\<close>

context block_set
begin

definition reaches ::
  "('s, 'd) env \<Rightarrow> nat \<Rightarrow> bool \<Rightarrow> bool \<Rightarrow> ('s, 'd) file_inner \<Rightarrow> ('s, 'd) file_inner \<Rightarrow> file_view \<Rightarrow> nat \<Rightarrow> nat \<Rightarrow> bool"
where
  "reaches E m q c s s' v k j \<longleftrightarrow> rep E s' v k \<and> same_handle s s' \<and> credit s' m k j \<and>
     (q \<longrightarrow> fits s m \<longrightarrow> c \<or> fi_need_writing s \<longrightarrow> fi_need_writing s')"

lemma leads_reaches: "leads E m s s' v k j \<Longrightarrow> (c \<longrightarrow> fi_need_writing s') \<Longrightarrow> reaches E m q c s s' v k j"
  by (simp add: leads_def reaches_def)

lemma flush_reaches:
  assumes r: "rep E s v k" and m: "view_nodes v \<le> m" and cr: "credit s m k (Suc j)" and j: "fits s m \<longrightarrow> journal_fits s m"
  shows "\<exists>s' k'. file_flush E s = (Ok (), s') \<and> reaches E m False c s s' v k' j"
proof -
  have h: "holds E s (fv_bytes v) k" "status_is_ok (fi_status s)" using r by (simp_all add: rep_def status_is_ok_def)
  obtain s' k' where s': "file_flush E s = (Ok (), s')" "holds E s' (fv_bytes v) k'" "same_file s s'"
    "journal_fits s m \<or> jroom s (k + Suc j * flush_cost (fi_max_cache_page s + 12) + 1) \<longrightarrow> credit s' m k' j"
    using file_flush_Ok [OF h m [unfolded view_nodes_def] cr] by blast
  have "journal_fits s m \<or> jroom s (k + Suc j * flush_cost (fi_max_cache_page s + 12) + 1)"
    using j cr by (auto simp: credit_def)
  then have "credit s' m k' j" using s'(4) by blast
  moreover have "rep E s' v k'" using s'(2,3) r by (simp add: rep_def same_file_def)
  ultimately show ?thesis using s'(1) same_file_handle [OF s'(3)] by (auto simp: reaches_def)
qed

lemma run_cmd_Ok:
  assumes r: "rep E s v k" and w: "writable s m" and app: "app = oo_append (fi_opts s)" and c: "cmd_ok app m c v" "view_nodes v \<le> m"
    and cr: "credit s m k (cmd_cost app c v + j)" and j: "c = CmdFlush \<longrightarrow> fits s m \<longrightarrow> journal_fits s m"
  shows "\<exists>s' k'. run_cmd E c s = (Ok (fst (cmd_spec app c v)), s') \<and> reaches E m (c \<noteq> CmdFlush) (cmd_writes c) s s' (snd (cmd_spec app c v)) k' j"
proof (cases c)
  case (CmdRead len)
  then show ?thesis using read_leads [OF r c(2), of len j] cr leads_reaches by (fastforce simp: pf_read_def recording_def split_beta)
next
  case (CmdWrite buf)
  then show ?thesis using write_leads [OF r w, of buf j] c(1) cr app leads_reaches by (fastforce simp: pf_write_def recording_def)
next
  case (CmdSeek pos)
  then obtain off where off: "seek_target (length (fv_bytes v)) (fv_pos v) pos = Ok (Some off)"
    using c(1) by (auto split: outcome.splits option.splits)
  have "off \<le> length (fv_bytes v)" using seek_target_le [OF off] r by (simp add: rep_def view_ok_def)
  then show ?thesis using CmdSeek off seek_any [OF r off] leads_seek [OF r _ credit_mono [OF cr]] leads_reaches
    by (fastforce simp: pf_seek_def recording_def)
next
  case (CmdReadAt len off)
  then show ?thesis using read_at_leads [OF r c(2), of off len j] cr leads_reaches
    by (fastforce simp: pf_read_at_def recording_def split_beta)
next
  case (CmdWriteAt buf off)
  then show ?thesis using write_at_leads [OF r w, of buf off j] c(1) cr app leads_reaches
    by (fastforce simp: pf_write_at_def recording_def add.assoc)
next
  case CmdFlush
  then show ?thesis using flush_reaches [OF r c(2), of j] cr j by (fastforce simp: pf_flush_def recording_def)
qed

lemma cmd_spec_nodes:
  assumes "cmd_ok app m c v" "view_nodes v \<le> m" shows "view_nodes (snd (cmd_spec app c v)) \<le> m"
  using assms by (cases c) (auto simp: view_nodes_def seek_view_def split: outcome.splits option.splits)

lemma run_cmds_Ok:
  assumes "rep E s v k" "writable s m" "app = oo_append (fi_opts s)" "cmds_ok app m cs v" "view_nodes v \<le> m"
    "credit s m k (cmds_cost app cs v + j)" "CmdFlush \<in> set cs \<longrightarrow> fits s m \<longrightarrow> journal_fits s m"
  shows "\<exists>s' k'. run_cmds E cs s = (Ok (fst (cmds_spec app cs v)), s') \<and>
    reaches E m (CmdFlush \<notin> set cs) (list_ex cmd_writes cs) s s' (snd (cmds_spec app cs v)) k' j"
  using assms
proof (induction cs arbitrary: s v k)
  case Nil
  then show ?case by (auto simp: reaches_def)
next
  case (Cons c cs)
  let ?v = "snd (cmd_spec app c v)"
  have cr: "credit s m k (cmd_cost app c v + (cmds_cost app cs ?v + j))" using Cons.prems(6) by (simp add: add.assoc)
  obtain s1 k1 where s1: "run_cmd E c s = (Ok (fst (cmd_spec app c v)), s1)" "rep E s1 ?v k1" "same_handle s s1"
    "credit s1 m k1 (cmds_cost app cs ?v + j)" "c \<noteq> CmdFlush \<longrightarrow> fits s m \<longrightarrow> cmd_writes c \<or> fi_need_writing s \<longrightarrow> fi_need_writing s1"
    using run_cmd_Ok [OF Cons.prems(1-3) _ Cons.prems(5) cr] Cons.prems(4,7) by (auto simp: reaches_def)
  have f: "fits s1 m = fits s m" "writable s1 m" "app = oo_append (fi_opts s1)" "journal_fits s1 m = journal_fits s m"
    using s1(3) fits_cong [OF s1(3)] writable_cong [OF s1(3)] Cons.prems(2,3)
    by (simp_all add: same_handle_def journal_fits_def jroom_def)
  have n: "view_nodes ?v \<le> m" by (rule cmd_spec_nodes) (use Cons.prems(4,5) in auto)
  obtain s2 k2 where s2: "run_cmds E cs s1 = (Ok (fst (cmds_spec app cs ?v)), s2)" "reaches E m (CmdFlush \<notin> set cs) (list_ex cmd_writes cs) s1 s2 (snd (cmds_spec app cs ?v)) k2 j"
    using Cons.IH [OF s1(2) f(2,3) _ n s1(4)] Cons.prems(4,7) f(1,4) by auto
  have "reaches E m (CmdFlush \<notin> set (c # cs)) (list_ex cmd_writes (c # cs)) s s2 (snd (cmds_spec app cs ?v)) k2 j"
    using s2(2) s1(5) f(1) same_handle_trans [OF s1(3)] by (auto simp: reaches_def)
  then show ?case using s1(1) s2(1) by auto
qed

section \<open>Flush and reopen\<close>

lemma handle_rep:
  "holds E s bs 0 \<Longrightarrow> handle_ok s d opts mode pages \<Longrightarrow> fi_offset s \<le> length bs \<Longrightarrow>
    rep E s \<lparr>fv_bytes = bs, fv_pos = fi_offset s, fv_eof = False\<rparr> 0"
  by (simp add: rep_def handle_ok_def view_ok_def)

lemma flush_reopen:
  assumes f: "disk_fits E w d" and C: "aead_correct (env_ossl E)" "rng_works (env_ossl E)" and mode: "plain_mode mode"
    and s0: "handle_ok s0 d opts mode pages" "metadata_file_name (fi_metadata s0) = Ok path" "same_handle s0 s"
    and r: "rep E s v k" "view_nodes v \<le> m" "credit s m k 1" "fi_need_writing s"
    and cs: "check_cache_size cs = Ok pages'" "12 \<le> pages'"
  shows "\<exists>s1. file_flush E s = (Ok (), s1) \<and> (\<exists>s2 w2 rng2. file_open E path d opts' mode cs (fi_world s1, rng) = (Ok s2, w2, rng2) \<and>
    rep E s2 \<lparr>fv_bytes = fv_bytes v, fv_pos = fi_offset s2, fv_eof = False\<rparr> 0 \<and> handle_ok s2 d opts' mode pages' \<and>
    metadata_file_name (fi_metadata s2) = Ok path \<and>
    fi_offset s2 = (if oo_append opts' \<and> \<not> oo_update opts' then length (fv_bytes v) else 0))"
proof -
  have h: "holds E s (fv_bytes v) k" "status_is_ok (fi_status s)" "data_nodes (length (fv_bytes v)) \<le> m"
    using r(1,2) by (simp_all add: rep_def status_is_ok_def view_nodes_def)
  obtain s1 where s1: "file_flush E s = (Ok (), s1)" "holds E s1 (fv_bytes v) 0" "same_file s s1" "\<not> fi_need_writing s1" "journal_done s1"
    using file_flush_Ok [OF h, of 0] r(3,4) by auto
  have sh: "same_handle s0 s1" using s0(3) same_file_handle [OF s1(3)] same_handle_trans by blast
  let ?dd = "bf_disk (fi_host_file s1)" and ?dj = "rj_disk (fi_journal s1)" and ?m = "fi_metadata s1" and ?w = "fi_world s1"
  have p: "parts d ?dd ?dj" and nb: "nblk s1 = data_blocks d" and kg: "kg_metadata_key (fi_key_gen s1) = mode_key mode"
    and fl: "metadata_encrypt_flags ?m = encrypt_flags_from mode" and nm: "metadata_file_name ?m = Ok path"
    using s0(1,2) sh nblk_cong [OF sh]
    by (simp_all add: handle_ok_def same_handle_def same_header_def metadata_encrypt_flags_def metadata_file_name_def)
  have v: "valid ?w ?dd" "valid ?w ?dj"
    using s1(2) by (auto simp: holds_def file_ok_def file_inv_def store_ok_def journal_inv_def)
  have st: "stored (env_ossl E) (blk ?w ?dd) (data_blocks d) (mode_key mode) ?m (fv_bytes v)"
    using clean_stored [OF s1(2,4)] kg nb by (simp add: fblk_def [abs_def])
  have j: "journal_header ?w (raw_create ?dj) []" using s1(5) by (simp add: journal_done_def journal_header_def raw_create_def)
  obtain s2 w2 rng2 where s2: "file_open E path d opts' mode cs (?w, rng) = (Ok s2, w2, rng2)" "holds E s2 (fv_bytes v) 0"
    "handle_ok s2 d opts' mode pages'" "fi_offset s2 = (if oo_append opts' \<and> \<not> oo_update opts' then length (fv_bytes v) else 0)"
    "fi_metadata s2 = ?m"
    using file_open_Ok [OF disk_fits_step [OF f p v] p C mode cs st j fl nm] by blast
  then show ?thesis using s1(1) nm handle_rep [OF s2(2,3)] by (auto split: if_splits)
qed

text \<open>The life of a file whose nodes all fit into the cache: create, run, flush, open, read.\<close>

lemma created_name:
  assumes "me_file_name (mi_enc m) = overwrite (zeros FILENAME_MAX_LEN) 0 path" "length path < FILENAME_MAX_LEN"
    "0 \<notin> set path" "utf8_valid path"
  shows "metadata_file_name m = Ok path"
  by (rule metadata_file_name_padded [OF assms])

lemma file_life_Ok:
  assumes f: "disk_fits E w d" and C: "aead_correct (env_ossl E)" "rng_works (env_ossl E)" and mode: "plain_mode mode"
    and path: "length path < FILENAME_MAX_LEN" "0 \<notin> set path" "utf8_valid path"
    and cs: "check_cache_size cs = Ok pages" "12 \<le> pages"
    and opts: "oo_write opts \<or> oo_append opts \<or> oo_update opts"
    and cmds: "cmds_ok (oo_append opts) m cmds \<lparr>fv_bytes = [], fv_pos = 0, fv_eof = False\<rparr>" "CmdFlush \<notin> set cmds"
    and m: "m + m div ATTACHED_DATA_NODES_COUNT \<le> pages" "0 < m \<longrightarrow> data_phys (m - 1) < data_blocks d"
    and jr: "INNER_OFFSET + flush_cost 2 + 1 \<le> (bs_nblocks B d - data_blocks d - 1) * BLOCK_SIZE"
    and spec: "cmds_spec (oo_append opts) cmds \<lparr>fv_bytes = [], fv_pos = 0, fv_eof = False\<rparr> = (replies, v)"
  shows "\<exists>s rng1 s1 s2 s3 w3 rng3 s4. file_create E path d opts mode cs (w, rng) = (Ok s, w, rng1) \<and>
    run_cmds E cmds s = (Ok replies, s1) \<and> file_flush E s1 = (Ok (), s2) \<and>
    file_open E path d opts' mode cs (fi_world s2, rng') = (Ok s3, w3, rng3) \<and>
    file_read_at E (length (fv_bytes v)) 0 s3 = (Ok (fv_bytes v), s4)"
proof -
  let ?v0 = "\<lparr>fv_bytes = [], fv_pos = 0, fv_eof = False\<rparr>" and ?app = "oo_append opts"
  obtain s rng1 where s: "file_create E path d opts mode cs (w, rng) = (Ok s, w, rng1)" "holds E s [] 0" "handle_ok s d opts mode pages"
    "fi_offset s = 0" "fi_need_writing s" "me_file_name (mi_enc (fi_metadata s)) = overwrite (zeros FILENAME_MAX_LEN) 0 path"
    using file_create_Ok [OF f C mode cs] path(1) by (meson less_imp_le)
  have ho: "fi_opts s = opts" "fi_max_cache_page s = pages" "nblk s = data_blocks d" using s(3) by (simp_all add: handle_ok_def)
  have r: "rep E s ?v0 0" using handle_rep [OF s(2,3)] s(4) by simp
  have w: "writable s m" "fits s m" using ho opts m by (simp_all add: writable_def fits_def)
  have vn: "view_nodes ?v0 \<le> m" by (simp add: view_nodes_def data_nodes_def)
  obtain s1 k1 where s1: "run_cmds E cmds s = (Ok replies, s1)" "reaches E m True (list_ex cmd_writes cmds) s s1 v k1 1"
    using run_cmds_Ok [OF r w(1) _ cmds(1) vn handle_credit [OF s(3) m(1) jr], of 1] cmds(2) ho(1) spec by auto
  have q: "rep E s1 v k1" "credit s1 m k1 1" "same_handle s s1" "fi_need_writing s1" using s1(2) w(2) s(5) by (simp_all add: reaches_def)
  have vm: "view_nodes v \<le> m"
  proof -
    have "cmds_ok ?app m cs v' \<Longrightarrow> view_nodes v' \<le> m \<Longrightarrow> view_nodes (snd (cmds_spec ?app cs v')) \<le> m" for cs v'
      by (induction cs arbitrary: v') (simp_all add: cmd_spec_nodes)
    then show ?thesis using cmds(1) vn spec by (metis snd_conv)
  qed
  obtain s2 s3 w3 rng3 where s2: "file_flush E s1 = (Ok (), s2)" "file_open E path d opts' mode cs (fi_world s2, rng') = (Ok s3, w3, rng3)"
    "rep E s3 \<lparr>fv_bytes = fv_bytes v, fv_pos = fi_offset s3, fv_eof = False\<rparr> 0" "handle_ok s3 d opts' mode pages"
    using flush_reopen [OF f C mode s(3) created_name [OF s(6) path] q(3,1) vm q(2,4) cs] by blast
  have "view_nodes \<lparr>fv_bytes = fv_bytes v, fv_pos = fi_offset s3, fv_eof = False\<rparr> \<le> m" using vm by (simp add: view_nodes_def)
  from read_at_leads [OF s2(3) this, of 0 "length (fv_bytes v)" 0] handle_credit [OF s2(4) m(1) jr]
  obtain s4 where "file_read_at E (length (fv_bytes v)) 0 s3 = (Ok (fv_bytes v), s4)"
    by (auto simp: read_at_view_def read_view_def seek_view_def)
  then show ?thesis using s(1) s1(1) s2(1,2) by blast
qed

text \<open>
  A run with flushes.  When all nodes fit into the cache, the journal must hold one record for each of them; otherwise
  an eviction may flush, and the journal, which only a successful \<open>flush\<close> resets, must hold the records of all of them.
\<close>

lemma file_run_Ok:
  assumes f: "disk_fits E w d" and C: "aead_correct (env_ossl E)" "rng_works (env_ossl E)" and mode: "plain_mode mode"
    and path: "length path \<le> FILENAME_MAX_LEN" and cs: "check_cache_size cs = Ok pages" "12 \<le> pages"
    and opts: "oo_write opts \<or> oo_append opts \<or> oo_update opts"
    and cmds: "cmds_ok (oo_append opts) m cmds \<lparr>fv_bytes = [], fv_pos = 0, fv_eof = False\<rparr>"
    and m: "0 < m \<longrightarrow> data_phys (m - 1) < data_blocks d"
    and jr: "INNER_OFFSET + (if m + m div ATTACHED_DATA_NODES_COUNT \<le> pages then flush_cost (m + m div ATTACHED_DATA_NODES_COUNT)
        else cmds_cost (oo_append opts) cmds \<lparr>fv_bytes = [], fv_pos = 0, fv_eof = False\<rparr> * flush_cost (pages + 12)) + 1 \<le>
      (bs_nblocks B d - data_blocks d - 1) * BLOCK_SIZE"
  shows "\<exists>s rng1 s1. file_create E path d opts mode cs (w, rng) = (Ok s, w, rng1) \<and>
    run_cmds E cmds s = (Ok (fst (cmds_spec (oo_append opts) cmds \<lparr>fv_bytes = [], fv_pos = 0, fv_eof = False\<rparr>)), s1)"
proof -
  let ?v0 = "\<lparr>fv_bytes = [], fv_pos = 0, fv_eof = False\<rparr>" and ?app = "oo_append opts"
  obtain s rng1 where s: "file_create E path d opts mode cs (w, rng) = (Ok s, w, rng1)" "holds E s [] 0" "handle_ok s d opts mode pages"
    "fi_offset s = 0"
    using file_create_Ok [OF f C mode cs path] by blast
  have ho: "fi_opts s = opts" "fi_max_cache_page s = pages" "nblk s = data_blocks d"
    "\<And>k. jroom s k \<longleftrightarrow> INNER_OFFSET + k \<le> (bs_nblocks B d - data_blocks d - 1) * BLOCK_SIZE"
    using s(3) by (simp_all add: handle_ok_def)
  have r: "rep E s ?v0 0" using handle_rep [OF s(2,3)] s(4) by simp
  have w: "writable s m" using ho opts m by (simp add: writable_def)
  have vn: "view_nodes ?v0 \<le> m" by (simp add: view_nodes_def data_nodes_def)
  have jf: "fits s m \<longrightarrow> journal_fits s m" using jr ho by (auto simp: fits_def journal_fits_def)
  have cr: "credit s m 0 (cmds_cost ?app cmds ?v0 + 0)"
  proof (cases "fits s m")
    case True
    have "flush_cost (min (old_count (fi_heap s)) (m + m div ATTACHED_DATA_NODES_COUNT)) \<le> flush_cost (m + m div ATTACHED_DATA_NODES_COUNT)"
      by (rule flush_cost_mono) simp
    then show ?thesis using True jf ho(4) unfolding credit_def journal_fits_def by auto
  next
    case False
    then show ?thesis using jr ho by (simp add: credit_def fits_def)
  qed
  show ?thesis using run_cmds_Ok [OF r w _ cmds vn cr] jf ho(1) s(1) by blast
qed

end

end
