(* ===== verification/Pfs_Sim.thy ===== *)
theory Pfs_Sim
  imports Pfs_Options File_Sim
begin

text \<open>
  A \<open>PfsDisk\<close> is an array of blocks: its reads and writes are a seek and a transfer on the protected file,
  behind the 3072 bytes that the file keeps in its header.
\<close>

section \<open>Commands\<close>

datatype disk_cmd = DiskRead nat bytes | DiskWrite nat bytes

fun run_disk_cmd :: "('s, 'd) env \<Rightarrow> disk_cmd \<Rightarrow> ('s, 'd) pfs_disk \<Rightarrow> bytes result \<times> ('s, 'd) pfs_disk" where
  "run_disk_cmd E (DiskRead addr buf) d = pd_read E addr buf d"
| "run_disk_cmd E (DiskWrite addr buf) d = then_do (pd_write E addr buf d) (\<lambda>_ d. (Ok [], d))"

primrec run_disk_cmds :: "('s, 'd) env \<Rightarrow> disk_cmd list \<Rightarrow> ('s, 'd) pfs_disk \<Rightarrow> bytes list result \<times> ('s, 'd) pfs_disk" where
  "run_disk_cmds E [] d = (Ok [], d)"
| "run_disk_cmds E (c # cs) d =
     then_do (run_disk_cmd E c d) (\<lambda>r d. then_do (run_disk_cmds E cs d) (\<lambda>rs d. (Ok (r # rs), d)))"

text \<open>The array of blocks, as its bytes.\<close>

fun disk_spec :: "disk_cmd \<Rightarrow> bytes \<Rightarrow> bytes \<times> bytes" where
  "disk_spec (DiskRead addr buf) c = (slice (addr * BLOCK_SIZE) (addr * BLOCK_SIZE + length buf) c, c)"
| "disk_spec (DiskWrite addr buf) c = ([], overwrite c (addr * BLOCK_SIZE) buf)"

primrec disk_specs :: "disk_cmd list \<Rightarrow> bytes \<Rightarrow> bytes list \<times> bytes" where
  "disk_specs [] c = ([], c)"
| "disk_specs (x # xs) c =
     (fst (disk_spec x c) # fst (disk_specs xs (snd (disk_spec x c))), snd (disk_specs xs (snd (disk_spec x c))))"

text \<open>A valid command transfers blocks inside the disk.\<close>

fun disk_cmd_ok :: "nat \<Rightarrow> disk_cmd \<Rightarrow> bool" where
  "disk_cmd_ok n (DiskRead addr buf) \<longleftrightarrow> addr < n \<and> addr * BLOCK_SIZE + length buf \<le> n * BLOCK_SIZE"
| "disk_cmd_ok n (DiskWrite addr buf) \<longleftrightarrow> addr < n \<and> addr * BLOCK_SIZE + length buf \<le> n * BLOCK_SIZE"

fun disk_writes :: "disk_cmd \<Rightarrow> bool" where
  "disk_writes (DiskRead _ _) \<longleftrightarrow> False"
| "disk_writes (DiskWrite _ buf) \<longleftrightarrow> buf \<noteq> []"

section \<open>Translation to commands of the file\<close>

fun file_cmds_of :: "disk_cmd \<Rightarrow> file_cmd list" where
  "file_cmds_of (DiskRead addr buf) = [CmdSeek (SeekStart (addr * BLOCK_SIZE + PFS_INNER_OFFSET)), CmdRead (length buf)]"
| "file_cmds_of (DiskWrite addr buf) = [CmdSeek (SeekStart (addr * BLOCK_SIZE + PFS_INNER_OFFSET)), CmdWrite buf]"

definition accessible :: "nat \<Rightarrow> ('s, 'd) pfs_disk \<Rightarrow> bool" where
  "accessible n d \<longleftrightarrow> pd_total_blocks d = n \<and> pd_can_read d \<and> pd_can_write d"

definition disk_view :: "nat \<Rightarrow> file_view \<Rightarrow> bool" where
  "disk_view n v \<longleftrightarrow> length (fv_bytes v) = PFS_INNER_OFFSET + n * BLOCK_SIZE"

definition blocks_of :: "file_view \<Rightarrow> bytes" where
  "blocks_of v = drop PFS_INNER_OFFSET (fv_bytes v)"

lemmas sgx_forward = sgx_seek_def sys_seek_def sgx_read_def sys_read_def sgx_write_def sys_write_def sgx_flush_def sys_flush_def

lemma slice_drop: "slice a b (drop k xs) = slice (a + k) (b + k) xs"
  by (simp add: slice_def add.commute)

lemma drop_overwrite:
  assumes "k \<le> p" "p \<le> length xs" shows "drop k (overwrite xs p ys) = overwrite (drop k xs) (p - k) ys"
  using assms by (simp add: overwrite_def take_drop)

lemma file_cmds_spec:
  assumes c: "disk_cmd_ok n c" and v: "disk_view n v"
  shows "disk_view n (snd (cmds_spec False (file_cmds_of c) v))"
    "blocks_of (snd (cmds_spec False (file_cmds_of c) v)) = snd (disk_spec c (blocks_of v))"
    "data_nodes (PFS_INNER_OFFSET + n * BLOCK_SIZE) \<le> m \<Longrightarrow> cmds_ok False m (file_cmds_of c) v"
proof -
  have "disk_view n (snd (cmds_spec False (file_cmds_of c) v)) \<and>
    blocks_of (snd (cmds_spec False (file_cmds_of c) v)) = snd (disk_spec c (blocks_of v)) \<and>
    (data_nodes (PFS_INNER_OFFSET + n * BLOCK_SIZE) \<le> m \<longrightarrow> cmds_ok False m (file_cmds_of c) v)"
  proof (cases c)
    case (DiskRead addr buf)
    then show ?thesis using c v
      by (simp add: disk_view_def seek_target_def seek_view_def read_view_def blocks_of_def view_nodes_def)
  next
    case (DiskWrite addr buf)
    have off: "addr * BLOCK_SIZE + PFS_INNER_OFFSET + length buf \<le> length (fv_bytes v)" using c v DiskWrite by (simp add: disk_view_def)
    then show ?thesis using v DiskWrite
      by (simp add: disk_view_def seek_target_def seek_view_def write_view_def view_write_pos_def blocks_of_def view_nodes_def drop_overwrite)
  qed
  then show "disk_view n (snd (cmds_spec False (file_cmds_of c) v))"
    "blocks_of (snd (cmds_spec False (file_cmds_of c) v)) = snd (disk_spec c (blocks_of v))"
    "data_nodes (PFS_INNER_OFFSET + n * BLOCK_SIZE) \<le> m \<Longrightarrow> cmds_ok False m (file_cmds_of c) v" by blast+
qed

lemma run_disk_cmd_sim:
  assumes r: "run_cmds E (file_cmds_of c) (pd_file d) = (Ok (fst (cmds_spec False (file_cmds_of c) v)), s')"
    and d: "accessible n d" and c: "disk_cmd_ok n c" and v: "disk_view n v"
  shows "run_disk_cmd E c d = (Ok (fst (disk_spec c (blocks_of v))), d\<lparr>pd_file := s'\<rparr>)"
proof (cases c)
  case (DiskRead addr buf)
  let ?off = "addr * BLOCK_SIZE + PFS_INNER_OFFSET"
  have off: "?off + length buf \<le> length (fv_bytes v)" using c v DiskRead by (simp add: disk_view_def)
  have "seek_target (length (fv_bytes v)) (fv_pos v) (SeekStart ?off) = Ok (Some ?off)" using off by (simp add: seek_target_def)
  then obtain s1 where s1: "pf_seek (SeekStart ?off) (pd_file d) = (Ok ?off, s1)"
    "pf_read E (length buf) s1 = (Ok (slice ?off (?off + length buf) (fv_bytes v)), s')"
    using r DiskRead by (auto simp: outcome_simps read_view_def seek_view_def)
  have "overwrite buf 0 (slice ?off (?off + length buf) (fv_bytes v)) = slice ?off (?off + length buf) (fv_bytes v)"
    using off by (simp add: overwrite_def)
  then show ?thesis using s1 d c DiskRead
    by (simp add: pd_read_def accessible_def validate_range_def with_file_def unwrapped_def sgx_forward blocks_of_def slice_drop algebra_simps)
next
  case (DiskWrite addr buf)
  let ?off = "addr * BLOCK_SIZE + PFS_INNER_OFFSET"
  have off: "?off + length buf \<le> length (fv_bytes v)" using c v DiskWrite by (simp add: disk_view_def)
  have "seek_target (length (fv_bytes v)) (fv_pos v) (SeekStart ?off) = Ok (Some ?off)" using off by (simp add: seek_target_def)
  then obtain s1 where s1: "pf_seek (SeekStart ?off) (pd_file d) = (Ok ?off, s1)" "pf_write E buf s1 = (Ok (length buf), s')"
    using r DiskWrite by (auto simp: outcome_simps)
  then show ?thesis using d c DiskWrite
    by (simp add: pd_write_def accessible_def validate_range_def with_file_def unwrapped_def sgx_forward)
qed

section \<open>Sequences\<close>

abbreviation file_cmds :: "disk_cmd list \<Rightarrow> file_cmd list" where
  "file_cmds cs \<equiv> concat (map file_cmds_of cs)"

lemma run_cmds_append:
  "run_cmds E (a @ b) s = (Ok rs, s') \<longleftrightarrow>
    (\<exists>ra rb s1. run_cmds E a s = (Ok ra, s1) \<and> run_cmds E b s1 = (Ok rb, s') \<and> rs = ra @ rb)"
proof (induction a arbitrary: s rs)
  case (Cons c a)
  then show ?case by (auto simp: outcome_simps)
qed auto

lemma cmds_spec_append:
  "fst (cmds_spec app (a @ b) v) = fst (cmds_spec app a v) @ fst (cmds_spec app b (snd (cmds_spec app a v)))"
  "snd (cmds_spec app (a @ b) v) = snd (cmds_spec app b (snd (cmds_spec app a v)))"
  by (induction a arbitrary: v) simp_all

lemma cmds_ok_append: "cmds_ok app m (a @ b) v \<longleftrightarrow> cmds_ok app m a v \<and> cmds_ok app m b (snd (cmds_spec app a v))"
  by (induction a arbitrary: v) simp_all

lemma run_cmds_length: "run_cmds E cs s = (Ok rs, s') \<Longrightarrow> length rs = length cs"
  by (induction cs arbitrary: s rs) (auto simp: outcome_simps)

lemma cmds_spec_length: "length (fst (cmds_spec app cs v)) = length cs"
  by (induction cs arbitrary: v) simp_all

lemma file_cmds_specs:
  assumes "list_all (disk_cmd_ok n) cs" "disk_view n v"
  shows "disk_view n (snd (cmds_spec False (file_cmds cs) v))"
    "blocks_of (snd (cmds_spec False (file_cmds cs) v)) = snd (disk_specs cs (blocks_of v))"
    "data_nodes (PFS_INNER_OFFSET + n * BLOCK_SIZE) \<le> m \<Longrightarrow> cmds_ok False m (file_cmds cs) v"
proof -
  have "disk_view n (snd (cmds_spec False (file_cmds cs) v)) \<and>
    blocks_of (snd (cmds_spec False (file_cmds cs) v)) = snd (disk_specs cs (blocks_of v)) \<and>
    (data_nodes (PFS_INNER_OFFSET + n * BLOCK_SIZE) \<le> m \<longrightarrow> cmds_ok False m (file_cmds cs) v)"
    using assms
  proof (induction cs arbitrary: v)
    case (Cons c cs)
    then have "disk_cmd_ok n c" by simp
    note file_cmds_spec [OF this Cons.prems(2)]
    with Cons.IH [of "snd (cmds_spec False (file_cmds_of c) v)"] Cons.prems(1) show ?case
      by (simp add: cmds_spec_append cmds_ok_append)
  qed simp
  then show "disk_view n (snd (cmds_spec False (file_cmds cs) v))"
    "blocks_of (snd (cmds_spec False (file_cmds cs) v)) = snd (disk_specs cs (blocks_of v))"
    "data_nodes (PFS_INNER_OFFSET + n * BLOCK_SIZE) \<le> m \<Longrightarrow> cmds_ok False m (file_cmds cs) v" by blast+
qed

lemma file_cmds_no_flush: "CmdFlush \<notin> set (file_cmds cs)" "list_ex cmd_writes (file_cmds cs) = list_ex disk_writes cs"
proof -
  have "CmdFlush \<notin> set (file_cmds_of c)" "list_ex cmd_writes (file_cmds_of c) = disk_writes c" for c
    by (cases c; simp)+
  then show "CmdFlush \<notin> set (file_cmds cs)" "list_ex cmd_writes (file_cmds cs) = list_ex disk_writes cs"
    by (induction cs) auto
qed

lemma run_disk_cmds_sim:
  assumes "run_cmds E (file_cmds cs) (pd_file d) = (Ok (fst (cmds_spec False (file_cmds cs) v)), s')"
    "accessible n d" "list_all (disk_cmd_ok n) cs" "disk_view n v"
  shows "run_disk_cmds E cs d = (Ok (fst (disk_specs cs (blocks_of v))), d\<lparr>pd_file := s'\<rparr>)"
  using assms
proof (induction cs arbitrary: d v)
  case (Cons c cs)
  let ?v = "snd (cmds_spec False (file_cmds_of c) v)"
  obtain ra rb s1 where r: "run_cmds E (file_cmds_of c) (pd_file d) = (Ok ra, s1)" "run_cmds E (file_cmds cs) s1 = (Ok rb, s')"
    "fst (cmds_spec False (file_cmds_of c) v) @ fst (cmds_spec False (file_cmds cs) ?v) = ra @ rb"
    using Cons.prems(1) by (auto simp: run_cmds_append cmds_spec_append)
  have "length ra = length (fst (cmds_spec False (file_cmds_of c) v))" using run_cmds_length [OF r(1)] cmds_spec_length by metis
  then have e: "ra = fst (cmds_spec False (file_cmds_of c) v)" "rb = fst (cmds_spec False (file_cmds cs) ?v)" using r(3) by auto
  have ok: "disk_cmd_ok n c" "list_all (disk_cmd_ok n) cs" using Cons.prems(3) by auto
  have "run_disk_cmd E c d = (Ok (fst (disk_spec c (blocks_of v))), d\<lparr>pd_file := s1\<rparr>)"
    using run_disk_cmd_sim [OF _ Cons.prems(2) ok(1) Cons.prems(4)] r(1) e(1) by blast
  moreover have "run_disk_cmds E cs (d\<lparr>pd_file := s1\<rparr>) = (Ok (fst (disk_specs cs (blocks_of ?v))), d\<lparr>pd_file := s1\<rparr>\<lparr>pd_file := s'\<rparr>)"
    using Cons.prems(2) r(2) e(2) file_cmds_spec(1) [OF ok(1) Cons.prems(4)] ok(2) by (intro Cons.IH) (simp_all add: accessible_def)
  ultimately show ?case using file_cmds_spec(2) [OF ok(1) Cons.prems(4)] by simp
qed simp

section \<open>Sessions\<close>

text \<open>
  A session opens the disk, runs commands and drops the disk; the next session starts from what is on the host
  disk then.  The key is the one passed to \<open>open\<close>.
\<close>

definition finish_session ::
  "('s, 'd) env \<Rightarrow> disk_cmd list \<Rightarrow> ('s, 'd) pfs_disk \<Rightarrow> bytes list result \<times> 's \<times> nat"
where
  "finish_session E cs d =
     (case then_do (run_disk_cmds E cs d) (\<lambda>rs d. then_do (pd_drop E d) (\<lambda>_ d. (Ok rs, d))) of
        (r, d) \<Rightarrow> (r, fi_world (pd_file d), fi_rng (pd_file d)))"

primrec run_sessions ::
  "('s, 'd) env \<Rightarrow> 'd \<Rightarrow> bytes option \<Rightarrow> (key \<times> disk_cmd list) list \<Rightarrow> 's \<times> nat \<Rightarrow> bytes list list result \<times> 's \<times> nat"
where
  "run_sessions E disk path [] st = (Ok [], st)"
| "run_sessions E disk path (kc # rest) st =
     then_do (pd_open E disk (fst kc) path st) (\<lambda>d _.
     then_do (finish_session E (snd kc) d) (\<lambda>rs st.
     then_do (run_sessions E disk path rest st) (\<lambda>rss st. (Ok (rs # rss), st))))"

primrec sessions_spec :: "disk_cmd list list \<Rightarrow> bytes \<Rightarrow> bytes list list" where
  "sessions_spec [] c = []"
| "sessions_spec (cs # rest) c = fst (disk_specs cs c) # sessions_spec rest (snd (disk_specs cs c))"

text \<open>Every session but the last writes something.\<close>

fun sessions_write :: "disk_cmd list list \<Rightarrow> bool" where
  "sessions_write [] \<longleftrightarrow> True"
| "sessions_write [cs] \<longleftrightarrow> True"
| "sessions_write (cs # rest) \<longleftrightarrow> list_ex disk_writes cs \<and> sessions_write rest"

lemma check_cache_size_None: "check_cache_size None = Ok 2400"
  by (simp add: check_cache_size_def DEFAULT_CACHE_SIZE_def)

lemma write_zeros_loop_Ok: "write_zeros E n s = (Ok (), s') \<Longrightarrow> write_zeros_loop E n s = (Ok (), s')"
proof (induction n arbitrary: s rule: less_induct)
  case (less n)
  show ?case
  proof (cases "n = 0")
    case False
    then obtain k s1 where k: "file_write E (zeros (min n 4096)) s = (Ok k, s1)" "write_zeros E (n - k) s1 = (Ok (), s')"
      using less.prems by (subst (asm) write_zeros.simps) (auto simp: outcome_simps)
    have "k = min n 4096" using file_write_count [OF k(1)] by simp
    then show ?thesis using False k less.IH [of "n - k" s1]
      by (subst write_zeros_loop.simps) (simp add: unwrapped_def sgx_forward pf_write_def recording_def)
  qed (use less.prems in \<open>simp add: write_zeros.simps write_zeros_loop.simps\<close>)
qed

lemma disk_nodes: "data_nodes (PFS_INNER_OFFSET + n * BLOCK_SIZE) \<le> n"
  by (simp add: data_nodes_def PFS_INNER_OFFSET_def)

context block_set
begin

definition boots :: "('s, 'd) env \<Rightarrow> 'd \<Rightarrow> bytes \<Rightarrow> open_mode \<Rightarrow> 's \<Rightarrow> bytes \<Rightarrow> bool" where
  "boots E disk path mode w bs \<longleftrightarrow> (\<forall>opts rng. \<exists>s w2 rng2. file_open E path disk opts mode None (w, rng) = (Ok s, w2, rng2) \<and>
     rep E s \<lparr>fv_bytes = bs, fv_pos = fi_offset s, fv_eof = False\<rparr> 0 \<and> handle_ok s disk opts mode 2400 \<and>
     metadata_file_name (fi_metadata s) = Ok path \<and>
     fi_offset s = (if oo_append opts \<and> \<not> oo_update opts then length bs else 0))"

lemma disk_run_Ok:
  assumes s0: "handle_ok s0 disk opts mode 2400" "\<not> oo_append opts" "oo_update opts"
    and n: "0 < n \<longrightarrow> data_phys (n - 1) < data_blocks disk" "n + n div ATTACHED_DATA_NODES_COUNT \<le> 2400"
    and d: "accessible n d" "same_handle s0 (pd_file d)" "rep E (pd_file d) v k" "disk_view n v"
      "credit (pd_file d) n k (cmds_cost False (file_cmds cs) v + 1)"
    and cs: "list_all (disk_cmd_ok n) cs"
  shows "\<exists>s1 k1. run_cmds E (file_cmds cs) (pd_file d) = (Ok (fst (cmds_spec False (file_cmds cs) v)), s1) \<and>
    run_disk_cmds E cs d = (Ok (fst (disk_specs cs (blocks_of v))), d\<lparr>pd_file := s1\<rparr>) \<and>
    rep E s1 (snd (cmds_spec False (file_cmds cs) v)) k1 \<and> credit s1 n k1 1 \<and> same_handle s0 s1 \<and>
    (list_ex disk_writes cs \<or> fi_need_writing (pd_file d) \<longrightarrow> fi_need_writing s1)"
proof -
  let ?s = "pd_file d" and ?v = "snd (cmds_spec False (file_cmds cs) v)"
  have o: "fi_opts ?s = opts" "nblk ?s = data_blocks disk" "fi_max_cache_page ?s = 2400"
    using s0(1) d(2) nblk_cong [OF d(2)] by (simp_all add: handle_ok_def same_handle_def)
  have w: "writable ?s n" "fits ?s n" using o s0(3) n by (simp_all add: writable_def fits_def)
  have vn: "view_nodes v \<le> n" using d(4) disk_nodes by (simp add: disk_view_def view_nodes_def)
  note fc = file_cmds_specs(3) [OF cs d(4) disk_nodes]
  obtain s1 k1 where s1: "run_cmds E (file_cmds cs) ?s = (Ok (fst (cmds_spec False (file_cmds cs) v)), s1)"
    "reaches E n True (list_ex disk_writes cs) ?s s1 ?v k1 1"
    using run_cmds_Ok [OF d(3) w(1) _ fc vn d(5)] o(1) s0(2) file_cmds_no_flush [of cs] by auto
  moreover have "run_disk_cmds E cs d = (Ok (fst (disk_specs cs (blocks_of v))), d\<lparr>pd_file := s1\<rparr>)"
    by (rule run_disk_cmds_sim [OF s1(1) d(1) cs d(4)])
  ultimately show ?thesis using w(2) same_handle_trans [OF d(2)] by (auto simp: reaches_def)
qed

lemma finish_Ok:
  assumes f: "disk_fits E w0 disk" and C: "aead_correct (env_ossl E)" "rng_works (env_ossl E)" and mode: "plain_mode mode"
    and s0: "handle_ok s0 disk opts mode 2400" "metadata_file_name (fi_metadata s0) = Ok path" "\<not> oo_append opts" "oo_update opts"
    and n: "0 < n \<longrightarrow> data_phys (n - 1) < data_blocks disk" "n + n div ATTACHED_DATA_NODES_COUNT \<le> 2400"
    and d: "accessible n d" "same_handle s0 (pd_file d)" "rep E (pd_file d) v k" "disk_view n v"
      "credit (pd_file d) n k (cmds_cost False (file_cmds cs) v + 1)"
    and cs: "list_all (disk_cmd_ok n) cs"
  shows "\<exists>w' rng'. finish_session E cs d = (Ok (fst (disk_specs cs (blocks_of v))), w', rng') \<and>
    (list_ex disk_writes cs \<or> fi_need_writing (pd_file d) \<longrightarrow> (\<exists>bs'. boots E disk path mode w' bs' \<and>
       length bs' = PFS_INNER_OFFSET + n * BLOCK_SIZE \<and> drop PFS_INNER_OFFSET bs' = snd (disk_specs cs (blocks_of v))))"
proof -
  let ?v = "snd (cmds_spec False (file_cmds cs) v)"
  note fc = file_cmds_specs [OF cs d(4)]
  obtain s1 k1 where r: "run_disk_cmds E cs d = (Ok (fst (disk_specs cs (blocks_of v))), d\<lparr>pd_file := s1\<rparr>)"
    and q: "rep E s1 ?v k1" "credit s1 n k1 1" "same_handle s0 s1" "list_ex disk_writes cs \<or> fi_need_writing (pd_file d) \<longrightarrow> fi_need_writing s1"
    using disk_run_Ok [OF s0(1,3,4) n d cs] by blast
  have vn1: "view_nodes ?v \<le> n" using fc(1) disk_nodes by (simp add: disk_view_def view_nodes_def)
  have "\<exists>s2. file_flush E s1 = (Ok (), s2)"
    using file_flush_Ok [of E s1 "fv_bytes ?v" k1 n 0] q(1,2) vn1 by (auto simp: rep_def view_nodes_def status_is_ok_def)
  then obtain s2 where s2: "file_flush E s1 = (Ok (), s2)" by blast
  have "boots E disk path mode (fi_world s2) (fv_bytes ?v)" if "fi_need_writing s1"
    unfolding boots_def
  proof (intro allI)
    fix opts' rng
    show "\<exists>s w2 rng2. file_open E path disk opts' mode None (fi_world s2, rng) = (Ok s, w2, rng2) \<and>
     rep E s \<lparr>fv_bytes = fv_bytes ?v, fv_pos = fi_offset s, fv_eof = False\<rparr> 0 \<and> handle_ok s disk opts' mode 2400 \<and>
     metadata_file_name (fi_metadata s) = Ok path \<and>
     fi_offset s = (if oo_append opts' \<and> \<not> oo_update opts' then length (fv_bytes ?v) else 0)"
      using flush_reopen [OF f C mode s0(1,2) q(3,1) vn1 q(2) that check_cache_size_None, of opts' rng] s2 by simp
  qed
  moreover have "finish_session E cs d = (Ok (fst (disk_specs cs (blocks_of v))), fi_world s2, fi_rng s2)"
    using r s2 by (simp add: finish_session_def pd_drop_def with_file_def unwrapped_def sgx_forward pf_flush_def recording_def)
  moreover have "length (fv_bytes ?v) = PFS_INNER_OFFSET + n * BLOCK_SIZE" "drop PFS_INNER_OFFSET (fv_bytes ?v) = snd (disk_specs cs (blocks_of v))"
    using fc(1,2) by (simp_all add: disk_view_def blocks_of_def)
  ultimately show ?thesis using q(4) by blast
qed

lemma pd_open_Ok:
  assumes b: "boots E disk (default_path path) (UserKey key_default) w bs" and bs: "length bs = PFS_INNER_OFFSET + n * BLOCK_SIZE" "0 < n"
    and n: "0 < n \<longrightarrow> data_phys (n - 1) < data_blocks disk" "n + n div ATTACHED_DATA_NODES_COUNT \<le> 2400"
    and jr: "INNER_OFFSET + flush_cost 2 + 1 \<le> (bs_nblocks B disk - data_blocks disk - 1) * BLOCK_SIZE"
  shows "\<exists>d w2 rng2 opts s0 k. pd_open E disk key path (w, rng) = (Ok d, w2, rng2) \<and> accessible n d \<and>
    handle_ok s0 disk opts (UserKey key_default) 2400 \<and> metadata_file_name (fi_metadata s0) = Ok (default_path path) \<and>
    \<not> oo_append opts \<and> oo_update opts \<and> same_handle s0 (pd_file d) \<and>
    rep E (pd_file d) \<lparr>fv_bytes = bs, fv_pos = length bs, fv_eof = False\<rparr> k \<and> credit (pd_file d) n k j"
proof -
  let ?o = "options_update True (options_read True open_options_new)" and ?c = "CmdSeek (SeekEnd 0)"
  have o: "\<not> oo_append ?o" "oo_update ?o" by (simp_all add: options_update_def options_read_def open_options_new_def)
  obtain s w2 rng2 where s: "file_open E (default_path path) disk ?o (UserKey key_default) None (w, rng) = (Ok s, w2, rng2)"
    "rep E s \<lparr>fv_bytes = bs, fv_pos = fi_offset s, fv_eof = False\<rparr> 0" "handle_ok s disk ?o (UserKey key_default) 2400"
    "metadata_file_name (fi_metadata s) = Ok (default_path path)"
    using b unfolding boots_def by blast
  let ?v = "\<lparr>fv_bytes = bs, fv_pos = fi_offset s, fv_eof = False\<rparr>"
  have t: "seek_target (length bs) (fi_offset s) (SeekEnd 0) = Ok (Some (length bs))"
    by (simp add: seek_target_def neg_i64_def checked_sub_def)
  have vn: "view_nodes ?v \<le> n" using disk_nodes bs(1) by (simp add: view_nodes_def)
  have so: "fi_opts s = ?o" "nblk s = data_blocks disk" using s(3) by (simp_all add: handle_ok_def)
  have w: "writable s n" using so o n(1) by (simp add: writable_def)
  obtain s1 k where s1: "run_cmd E ?c s = (Ok (Count (length bs)), s1)" "reaches E n True False s s1 (seek_view (length bs) ?v) k j"
    using run_cmd_Ok [OF s(2) w refl _ vn handle_credit [OF s(3) n(2) jr], of ?c j] t by auto
  have "pf_seek (SeekEnd 0) s = (Ok (length bs), s1)" using s1(1) by (auto simp: outcome_simps)
  then have "pd_open E disk key path (w, rng) = (Ok \<lparr>pd_file = s1, pd_path = default_path path, pd_total_blocks = n, pd_can_read = True,
      pd_can_write = True\<rparr>, fi_world s1, fi_rng s1)"
    using s(1) bs
    by (simp add: pd_open_def open_pfs_disk_def pfs_options_defs open_pfs_file_def options_open_with_key_def options_open_with_def
      encrypt_mode_user_key_def sys_open_def pf_open_def unwrapped_def sgx_forward file_len_check_def resize_def ending_def)
  moreover have "rep E s1 \<lparr>fv_bytes = bs, fv_pos = length bs, fv_eof = False\<rparr> k" "same_handle s s1" "credit s1 n k j"
    using s1(2) by (simp_all add: reaches_def seek_view_def)
  ultimately show ?thesis using s(3,4) o unfolding accessible_def by fastforce
qed

lemma run_sessions_Ok:
  assumes f: "disk_fits E w0 disk" and C: "aead_correct (env_ossl E)" "rng_works (env_ossl E)"
    and n: "0 < n" "data_phys (n - 1) < data_blocks disk" "n + n div ATTACHED_DATA_NODES_COUNT \<le> 2400"
    and jr: "INNER_OFFSET + flush_cost 2 + 1 \<le> (bs_nblocks B disk - data_blocks disk - 1) * BLOCK_SIZE"
    and "boots E disk (default_path path) (UserKey key_default) w bs" "length bs = PFS_INNER_OFFSET + n * BLOCK_SIZE"
    and "\<forall>kc\<in>set css. list_all (disk_cmd_ok n) (snd kc)" "sessions_write (map snd css)"
  shows "\<exists>st. run_sessions E disk path css (w, rng) = (Ok (sessions_spec (map snd css) (drop PFS_INNER_OFFSET bs)), st)"
  using assms(8-)
proof (induction css arbitrary: w rng bs)
  case (Cons kc css)
  have n': "0 < n \<longrightarrow> data_phys (n - 1) < data_blocks disk" using n by simp
  let ?cs = "snd kc" and ?v = "\<lparr>fv_bytes = bs, fv_pos = length bs, fv_eof = False\<rparr>"
  obtain d w2 rng2 opts s0 k where d: "pd_open E disk (fst kc) path (w, rng) = (Ok d, w2, rng2)" "accessible n d"
    "handle_ok s0 disk opts (UserKey key_default) 2400" "metadata_file_name (fi_metadata s0) = Ok (default_path path)"
    "\<not> oo_append opts" "oo_update opts" "same_handle s0 (pd_file d)" "rep E (pd_file d) ?v k"
    "credit (pd_file d) n k (cmds_cost False (file_cmds ?cs) ?v + 1)"
    using pd_open_Ok [OF Cons.prems(1,2) n(1) n' n(3) jr] by blast
  have v: "disk_view n ?v" "blocks_of ?v = drop PFS_INNER_OFFSET bs" using Cons.prems(2) by (simp_all add: disk_view_def blocks_of_def)
  obtain w' rng' where f': "finish_session E ?cs d = (Ok (fst (disk_specs ?cs (blocks_of ?v))), w', rng')"
    "list_ex disk_writes ?cs \<longrightarrow> (\<exists>bs'. boots E disk (default_path path) (UserKey key_default) w' bs' \<and>
       length bs' = PFS_INNER_OFFSET + n * BLOCK_SIZE \<and> drop PFS_INNER_OFFSET bs' = snd (disk_specs ?cs (blocks_of ?v)))"
    using finish_Ok [OF f C _ d(3-6) n' n(3) d(2,7,8) v(1) d(9)] Cons.prems(3) by (auto simp: plain_mode_def)
  show ?case
  proof (cases "css = []")
    case True
    then show ?thesis using d(1) f'(1) v(2) by simp
  next
    case False
    then have "list_ex disk_writes ?cs" "sessions_write (map snd css)" using Cons.prems(4) by (cases css; simp)+
    then obtain bs' where bs': "boots E disk (default_path path) (UserKey key_default) w' bs'"
      "length bs' = PFS_INNER_OFFSET + n * BLOCK_SIZE" "drop PFS_INNER_OFFSET bs' = snd (disk_specs ?cs (blocks_of ?v))"
      using f'(2) by blast
    obtain st where "run_sessions E disk path css (w', rng') = (Ok (sessions_spec (map snd css) (drop PFS_INNER_OFFSET bs')), st)"
      using Cons.IH [OF bs'(1,2), of rng'] Cons.prems(3) \<open>sessions_write (map snd css)\<close> by auto
    then show ?thesis using d(1) f'(1) v(2) bs'(3) by simp
  qed
qed simp

lemma pd_create_Ok:
  assumes f: "disk_fits E w disk" and C: "aead_correct (env_ossl E)" "rng_works (env_ossl E)"
    and path: "length (default_path path) < FILENAME_MAX_LEN" "0 \<notin> set (default_path path)" "utf8_valid (default_path path)"
    and n: "n = total_data_blocks (bs_nblocks B disk)" "data_phys (n - 1) < data_blocks disk" "n + n div ATTACHED_DATA_NODES_COUNT \<le> 2400"
    and jr: "INNER_OFFSET + flush_cost 2 + 1 \<le> (bs_nblocks B disk - data_blocks disk - 1) * BLOCK_SIZE"
  shows "\<exists>d w2 rng2 opts s0 k. pd_create E disk key path (w, rng) = (Ok d, w2, rng2) \<and> accessible n d \<and>
    handle_ok s0 disk opts (UserKey key) 2400 \<and> metadata_file_name (fi_metadata s0) = Ok (default_path path) \<and>
    \<not> oo_append opts \<and> oo_update opts \<and> same_handle s0 (pd_file d) \<and> fi_need_writing (pd_file d) \<and>
    rep E (pd_file d) \<lparr>fv_bytes = zeros (PFS_INNER_OFFSET + n * BLOCK_SIZE), fv_pos = PFS_INNER_OFFSET + n * BLOCK_SIZE, fv_eof = False\<rparr> k \<and>
    credit (pd_file d) n k j"
proof -
  let ?o = "options_update True (options_write True open_options_new)" and ?c = "CmdSeek (SeekStart 0)"
    and ?L = "PFS_INNER_OFFSET + n * BLOCK_SIZE" and ?v0 = "\<lparr>fv_bytes = [], fv_pos = 0, fv_eof = False\<rparr>"
  have o: "\<not> oo_append ?o" "oo_update ?o" by (simp_all add: options_update_def options_write_def open_options_new_def)
  have m: "plain_mode (UserKey key)" by (simp add: plain_mode_def)
  obtain s rng1 where s: "file_create E (default_path path) disk ?o (UserKey key) None (w, rng) = (Ok s, w, rng1)" "holds E s [] 0"
    "handle_ok s disk ?o (UserKey key) 2400" "fi_offset s = 0" "fi_need_writing s"
    "me_file_name (mi_enc (fi_metadata s)) = overwrite (zeros FILENAME_MAX_LEN) 0 (default_path path)"
    using file_create_Ok [OF f C m check_cache_size_None _ less_imp_le [OF path(1)], of ?o rng] by auto
  have so: "fi_opts s = ?o" "nblk s = data_blocks disk" using s(3) by (simp_all add: handle_ok_def)
  have w: "writable s n" using so o n(2) by (simp add: writable_def)
  have r: "rep E s ?v0 0" using handle_rep [OF s(2,3)] s(4) by simp
  have vn: "view_nodes ?v0 \<le> n" by (simp add: view_nodes_def data_nodes_def)
  have cr: "credit s n 0 (cmd_cost (oo_append (fi_opts s)) ?c ?v0 + (zeros_cost ?L + j))" by (rule handle_credit [OF s(3) n(3) jr])
  obtain s1 k1 where s1: "run_cmd E ?c s = (Ok (Count 0), s1)" "reaches E n True False s s1 ?v0 k1 (zeros_cost ?L + j)"
    using run_cmd_Ok [OF r w refl _ vn cr] by (auto simp: seek_target_def seek_view_def)
  have r1: "rep E s1 ?v0 k1" "same_handle s s1" "credit s1 n k1 (zeros_cost ?L + j)" using s1(2) by (simp_all add: reaches_def)
  have w1: "writable s1 n" "fi_opts s1 = ?o" using w writable_cong [OF r1(2)] r1(2) so by (simp_all add: same_handle_def)
  have wv: "write_view False (zeros ?L) ?v0 = \<lparr>fv_bytes = zeros ?L, fv_pos = ?L, fv_eof = False\<rparr>"
    by (simp add: write_view_def view_write_pos_def overwrite_def PFS_INNER_OFFSET_def)
  have "view_nodes (write_view (oo_append (fi_opts s1)) (zeros ?L) ?v0) \<le> n" using disk_nodes wv w1(2) o by (simp add: view_nodes_def)
  from zeros_leads [OF r1(1) w1(1) this r1(3)] obtain s2 k2 where s2: "write_zeros E ?L s1 = (Ok (), s2)"
    "leads E n s1 s2 (write_view (oo_append (fi_opts s1)) (zeros ?L) ?v0) k2 j" "fi_need_writing s2"
    by (auto simp: PFS_INNER_OFFSET_def)
  have "new_len n = Ok ?L"
  proof -
    have "16 * n \<le> 13 * bs_nblocks B disk" unfolding n(1) total_data_blocks_def by simp
    moreover have "4 \<le> bs_nblocks B disk" "bs_nblocks B disk * 4096 < 2 ^ 64" using f by (simp_all add: disk_fits_def disk_sizes_def)
    ultimately show ?thesis by (simp add: new_len_def PFS_INNER_OFFSET_def Let_def)
  qed
  then have "pd_create E disk key path (w, rng) = (Ok \<lparr>pd_file = s2, pd_path = default_path path, pd_total_blocks = n, pd_can_read = True,
      pd_can_write = True\<rparr>, fi_world s2, fi_rng s2)"
    using s(1) write_zeros_loop_Ok [OF s2(1)] s1(1) f n(1)
    by (auto simp: pd_create_def open_pfs_disk_def create_pfs_disk_def pfs_options_defs create_pfs_file_def options_create_with_key_def options_create_def
      encrypt_mode_user_key_def sys_create_def pf_create_def unwrapped_def sgx_forward pfs_write_zeros_def ending_def outcome_simps disk_fits_def)
  moreover have "rep E s2 \<lparr>fv_bytes = zeros ?L, fv_pos = ?L, fv_eof = False\<rparr> k2" "same_handle s s2" "credit s2 n k2 j"
    using s2(2) w1(2) o wv same_handle_trans [OF r1(2)] by (auto simp: leads_def)
  moreover have "metadata_file_name (fi_metadata s) = Ok (default_path path)" by (rule created_name [OF s(6) path])
  ultimately show ?thesis using s(3) s2(3) o unfolding accessible_def by fastforce
qed

lemma disk_life_Ok:
  assumes f: "disk_fits E w disk" and C: "aead_correct (env_ossl E)" "rng_works (env_ossl E)"
    and path: "length (default_path path) < FILENAME_MAX_LEN" "0 \<notin> set (default_path path)" "utf8_valid (default_path path)"
    and n: "n = total_data_blocks (bs_nblocks B disk)" "0 < n" "data_phys (n - 1) < data_blocks disk" "n + n div ATTACHED_DATA_NODES_COUNT \<le> 2400"
    and jr: "INNER_OFFSET + flush_cost 2 + 1 \<le> (bs_nblocks B disk - data_blocks disk - 1) * BLOCK_SIZE"
    and cs: "list_all (disk_cmd_ok n) cs" "\<forall>kc\<in>set css. list_all (disk_cmd_ok n) (snd kc)" "sessions_write (map snd css)"
  shows "\<exists>d w1 rng1 w2 rng2 st. pd_create E disk key_default path (w, rng) = (Ok d, w1, rng1) \<and> pd_total_blocks d = n \<and>
    finish_session E cs d = (Ok (fst (disk_specs cs (zeros (n * BLOCK_SIZE)))), w2, rng2) \<and>
    run_sessions E disk path css (w2, rng2) = (Ok (sessions_spec (map snd css) (snd (disk_specs cs (zeros (n * BLOCK_SIZE))))), st)"
proof -
  let ?v = "\<lparr>fv_bytes = zeros (PFS_INNER_OFFSET + n * BLOCK_SIZE), fv_pos = PFS_INNER_OFFSET + n * BLOCK_SIZE, fv_eof = False\<rparr>"
  obtain d w1 rng1 opts s0 k where d: "pd_create E disk key_default path (w, rng) = (Ok d, w1, rng1)" "accessible n d"
    "handle_ok s0 disk opts (UserKey key_default) 2400" "metadata_file_name (fi_metadata s0) = Ok (default_path path)"
    "\<not> oo_append opts" "oo_update opts" "same_handle s0 (pd_file d)" "fi_need_writing (pd_file d)"
    "rep E (pd_file d) ?v k" "credit (pd_file d) n k (cmds_cost False (file_cmds cs) ?v + 1)"
    using pd_create_Ok [OF f C path n(1,3,4) jr, of key_default rng] by blast
  have v: "disk_view n ?v" "blocks_of ?v = zeros (n * BLOCK_SIZE)" by (simp_all add: disk_view_def blocks_of_def)
  have n': "0 < n \<longrightarrow> data_phys (n - 1) < data_blocks disk" using n(3) by simp
  obtain w2 rng2 bs' where b: "finish_session E cs d = (Ok (fst (disk_specs cs (blocks_of ?v))), w2, rng2)"
    "boots E disk (default_path path) (UserKey key_default) w2 bs'"
    "length bs' = PFS_INNER_OFFSET + n * BLOCK_SIZE" "drop PFS_INNER_OFFSET bs' = snd (disk_specs cs (blocks_of ?v))"
    using finish_Ok [OF f C _ d(3-6) n' n(4) d(2,7,9) v(1) d(10) cs(1)] d(8) by (auto simp: plain_mode_def)
  then show ?thesis using d(1,2) run_sessions_Ok [OF f C n(2-4) jr b(2,3) cs(2,3), of rng2] v(2)
    by (auto simp: accessible_def)
qed

end

end
