(* ===== verification/Shrink.thy ===== *)
theory Shrink
  imports File_Open
begin

text \<open>
  The loop of \<open>shrink_cache\<close> (\<open>core/src/pfs/sys/file/node.rs\<close>): its fuel loses no run that ends.  A flush leaves
  the cache alone, whatever its result, and clears \<open>need_writing\<close> when it succeeds; a flush of a file that
  needs no writing does nothing.
\<close>

section \<open>What a flush keeps\<close>

named_theorems keep_intros

text \<open>The stages of a flush change neither the cache nor the status; \<open>internal_flush\<close> sets the status when one fails.\<close>

definition kept :: "('s, 'd) file_inner \<Rightarrow> node_ref lru_cache \<times> file_status" where
  "kept s = (fi_cache s, fi_status s)"

lemma keep_then_do: "p (snd m) = c \<Longrightarrow> (\<And>x s'. p s' = c \<Longrightarrow> p (snd (f x s')) = c) \<Longrightarrow> p (snd (then_do m f)) = c"
  by (cases m; cases "fst m"; auto)

lemma keep_on_err: "p (snd m) = c \<Longrightarrow> (\<And>e s'. p s' = c \<Longrightarrow> p (g e s') = c) \<Longrightarrow> p (snd (on_err m g)) = c"
  by (cases m; cases "fst m"; auto)

lemma keep_ignore_err: "p (snd m) = c \<Longrightarrow> p (snd (ignore_err m)) = c"
  by (cases m; cases "fst m"; auto)

lemma keep_on_err_do:
  assumes "p (snd m) = c" "\<And>e s'. p s' = c \<Longrightarrow> p (snd (h e s')) = c"
  shows "p (snd (on_err_do m h)) = c"
proof (cases m)
  case (Pair r s)
  then show ?thesis using assms(1) assms(2) [of s]
    by (cases r) (auto split: prod.splits outcome.splits, (metis snd_conv)+)
qed

lemma on_err_do_Ok_iff [outcome_simps]: "on_err_do m h = (Ok y, t) \<longleftrightarrow> m = (Ok y, t)"
  by (cases m; cases "fst m") (auto split: prod.splits outcome.splits)

lemmas keep_combinators [keep_intros] = keep_then_do [of kept] keep_on_err [of kept] keep_ignore_err [of kept] keep_on_err_do [of kept]

lemma keep_parts [keep_intros]:
  "kept s = c \<Longrightarrow> kept (snd (with_host a s)) = c" "kept s = c \<Longrightarrow> kept (snd (with_journal b s)) = c"
  "kept s = c \<Longrightarrow> kept (snd (with_heap d s)) = c" "kept s = c \<Longrightarrow> kept (snd (with_keys e s)) = c"
  "kept s = c \<Longrightarrow> kept (set_node r f s) = c" "kept s = c \<Longrightarrow> kept (s\<lparr>fi_metadata := m\<rparr>) = c"
  by (auto simp: kept_def with_host_def with_journal_def with_heap_def with_keys_def set_node_def split: prod.splits)

lemma keep_metadata [keep_intros]: "kept s = c \<Longrightarrow> kept (snd (write_metadata E s)) = c"
  by (simp add: write_metadata_def keep_intros)

lemma write_metadata_kept: "write_metadata E s = (r, s') \<Longrightarrow> kept s' = kept s"
  using keep_metadata [OF refl, of E s] by simp

lemma keep_seal [keep_intros]:
  "kept s = c \<Longrightarrow> kept (snd (seal_node E r s)) = c" "kept s = c \<Longrightarrow> kept (snd (mark_ancestors r s)) = c"
  unfolding seal_node_def mark_ancestors_def by (simp_all add: keep_intros)

lemma keep_nodes [keep_intros]:
  "kept s = c \<Longrightarrow> kept (snd (update_data_nodes E rs s)) = c"
  "kept s = c \<Longrightarrow> kept (snd (update_mht_nodes E rs s)) = c"
  "kept s = c \<Longrightarrow> kept (snd (write_nodes E rs s)) = c"
  by (induction rs arbitrary: s) (simp_all add: keep_intros write_node_def)

lemma keep_update_flag [keep_intros]: "kept s = c \<Longrightarrow> kept (snd (set_update_flag E flush s)) = c"
proof -
  assume c: "kept s = c"
  obtain r s1 where w: "write_metadata E (s\<lparr>fi_metadata := metadata_set_update_flag 1 (fi_metadata s)\<rparr>) = (r, s1)" by fastforce
  have "kept s1 = c" using write_metadata_kept [OF w] c by (simp add: kept_def)
  then show ?thesis unfolding set_update_flag_def w by (auto intro!: keep_intros)
qed

lemma keep_stages [keep_intros]:
  "kept s = c \<Longrightarrow> kept (snd (write_recovery_file E s)) = c"
  "kept s = c \<Longrightarrow> kept (snd (clear_update_flag E s)) = c"
  "kept s = c \<Longrightarrow> kept (snd (update_nodes E s)) = c"
  "kept s = c \<Longrightarrow> kept (snd (update_metadata E s)) = c"
  "kept s = c \<Longrightarrow> kept (snd (write_to_disk E flush s)) = c"
  unfolding write_recovery_file_def write_recovery_file_node_def clear_update_flag_def update_nodes_def
    update_metadata_def write_to_disk_def Let_def
  by (auto simp: write_node_def split: prod.splits if_splits intro!: keep_intros)

lemma stage_kept:
  "write_recovery_file E s = (r, s') \<Longrightarrow> kept s' = kept s" "set_update_flag E flush s = (r, s') \<Longrightarrow> kept s' = kept s"
  "update_nodes E s = (r, s') \<Longrightarrow> kept s' = kept s" "update_metadata E s = (r, s') \<Longrightarrow> kept s' = kept s"
  "write_to_disk E flush s = (r, s') \<Longrightarrow> kept s' = kept s"
  using keep_stages [OF refl, where E = E and s = s] keep_update_flag [OF refl, where E = E and s = s] by (metis snd_conv)+

lemma stage_cache:
  "fi_cache s = c \<Longrightarrow> fi_cache (snd (write_recovery_file E s)) = c" "fi_cache s = c \<Longrightarrow> fi_cache (snd (set_update_flag E flush s)) = c"
  "fi_cache s = c \<Longrightarrow> fi_cache (snd (update_nodes E s)) = c" "fi_cache s = c \<Longrightarrow> fi_cache (snd (update_metadata E s)) = c"
  "fi_cache s = c \<Longrightarrow> fi_cache (snd (write_to_disk E flush s)) = c" "fi_cache s = c \<Longrightarrow> fi_cache (snd (clear_update_flag E s)) = c"
  "fi_cache s = c \<Longrightarrow> fi_cache (set_file_status st s) = c"
  using keep_stages [OF refl, where E = E and s = s] keep_update_flag [OF refl, where E = E and s = s] by (auto simp: kept_def set_file_status_def)

lemma internal_flush_cache: "fi_cache (snd (internal_flush E flush s)) = fi_cache s"
  unfolding internal_flush_def
  by (auto intro!: stage_cache keep_then_do [of fi_cache] keep_on_err [of fi_cache] keep_on_err_do [of fi_cache])

lemma internal_flush_status:
  assumes "internal_flush E flush s = (Ok (), s')" shows "fi_status s' = fi_status s"
  using assms
  by (auto simp: internal_flush_def outcome_simps split: if_splits dest!: stage_kept) (auto simp: kept_def)

lemma internal_flush_clears: "internal_flush E flush s = (Ok (), s') \<Longrightarrow> \<not> fi_need_writing s'"
  by (auto simp: internal_flush_def outcome_simps split: if_splits)

lemma file_flush_again: "file_flush E s = (Ok (), s') \<Longrightarrow> file_flush E s' = (Ok (), s')"
  using internal_flush_status [of E True s s'] internal_flush_clears [of E True s s']
  by (auto simp: file_flush_def on_err_Ok_iff internal_flush_def [of E True s'] split: if_splits)

section \<open>Fuel\<close>

text \<open>Once \<open>need_writing\<close> is clear, a changed node at the back stops all progress.\<close>

lemma shrink_stuck:
  assumes "fi_max_cache_page s < lru_len (fi_cache s)" "lru_back (fi_cache s) = Some r" "fn_need_writing (node_of s r)" "\<not> fi_need_writing s"
  shows "shrink_cache_loop fuel E s = (Hang, s)"
  using assms by (induction fuel) (simp_all add: internal_flush_def)

lemma shrink_fuel_clean:
  assumes "lru_repr (fi_cache s) kvs" "\<not> fi_need_writing s" "shrink_cache_loop fuel E s = (r, s')" "r \<noteq> Hang" "length kvs < n"
  shows "shrink_cache_loop n E s = (r, s')"
  using assms
proof (induction n arbitrary: s kvs fuel)
  case (Suc n)
  obtain f where f: "fuel = Suc f" using Suc.prems(3,4) by (cases fuel) auto
  have b: "lru_back (fi_cache s) = (if kvs = [] then None else Some (snd (last kvs)))" by (rule lru.repr_back [OF Suc.prems(1)])
  show ?case
  proof (cases "fi_max_cache_page s < lru_len (fi_cache s) \<and> kvs \<noteq> []")
    case True
    then obtain k v ys where kvs: "kvs = ys @ [(k, v)]" by (metis rev_exhaust surj_pair)
    obtain c where c: "lru_pop_back (fi_cache s) = (Some v, c)" "lru_repr c ys" using lru.repr_pop_back [of "fi_cache s" ys k v] Suc.prems(1) kvs by auto
    have v: "lru_back (fi_cache s) = Some v" using b kvs by simp
    then have "\<not> fn_need_writing (node_of s v)"
      using shrink_stuck [of s v fuel E] True Suc.prems(2-4) by auto
    then show ?thesis using Suc.prems f True v c kvs Suc.IH [of "s\<lparr>fi_cache := c\<rparr>" ys f] by simp
  qed (use Suc.prems f b in auto)
qed simp

lemma shrink_fuel:
  assumes "lru_repr (fi_cache s) kvs" "shrink_cache_loop fuel E s = (r, s')" "r \<noteq> Hang" "length kvs + 1 < n"
  shows "shrink_cache_loop n E s = (r, s')"
  using assms
proof (induction n arbitrary: s kvs fuel)
  case (Suc n)
  obtain f where f: "fuel = Suc f" using Suc.prems(2,3) by (cases fuel) auto
  have b: "lru_back (fi_cache s) = (if kvs = [] then None else Some (snd (last kvs)))" by (rule lru.repr_back [OF Suc.prems(1)])
  show ?case
  proof (cases "fi_max_cache_page s < lru_len (fi_cache s) \<and> kvs \<noteq> []")
    case True
    then obtain k v ys where kvs: "kvs = ys @ [(k, v)]" by (metis rev_exhaust surj_pair)
    obtain c where c: "lru_pop_back (fi_cache s) = (Some v, c)" "lru_repr c ys" using lru.repr_pop_back [of "fi_cache s" ys k v] Suc.prems(1) kvs by auto
    have v: "lru_back (fi_cache s) = Some v" using b kvs by simp
    show ?thesis
    proof (cases "fn_need_writing (node_of s v)")
      case False
      then show ?thesis using Suc.prems f True v c kvs Suc.IH [of "s\<lparr>fi_cache := c\<rparr>" ys f] by simp
    next
      case dirty: True
      obtain res s1 where s1: "internal_flush E False s = (res, s1)" by fastforce
      have c1: "fi_cache s1 = fi_cache s" using internal_flush_cache [of E False s] s1 by simp
      show ?thesis
      proof (cases "res = Ok ()")
        case ok: True
        then have "\<not> fi_need_writing s1" using internal_flush_clears s1 by blast
        then have "shrink_cache_loop n E s1 = (r, s')"
          using shrink_fuel_clean [of s1 kvs f E r s' n] Suc.prems f True v dirty s1 c1 ok by simp
        then show ?thesis using True v dirty s1 ok by simp
      qed (use Suc.prems f True v dirty s1 in \<open>cases res; auto\<close>)
    qed
  qed (use Suc.prems f b in auto)
qed simp


text \<open>A file with one clean node in a cache that may hold none.\<close>

definition full_cache_file :: "(bytes, mem_disk) file_inner" where
  "full_cache_file =
     (let d = \<lparr>region_start = 0, region_end = 2\<rparr>;
          E = \<lparr>env_bs = mem_disk_ops, env_mem = \<lambda>_. 0, env_ossl = plain_openssl, env_order = \<lambda>xs. xs\<rparr>
      in (file_inner_init (zeros 8192) (snd (build_ref (file_node_new_root EF_UserKey) empty_heap)) 0 (block_file_create E d)
            (raw_create d) metadata_info_default 0 KgIntegrityOnly open_options_new False 0 0)
         \<lparr>fi_cache := snd (lru_push 2 0 (lru_new 0))\<rparr>)"


end
