(* ===== verification/Dm_Sim.thy ===== *)
theory Dm_Sim
  imports Dm_Target Pfs_Sim Shrink
begin

text \<open>
  The target is an array of bytes addressed by sectors: a request reads or writes the bytes of its sectors, aligned to the
  blocks of the disk or not.  Every request is a short list of commands of the \<open>PfsDisk\<close>; which bytes an unaligned
  write stores depends on the content, so the list does too.
\<close>

section \<open>Specification\<close>

primrec split_bytes :: "nat list \<Rightarrow> bytes \<Rightarrow> bytes list" where
  "split_bytes [] bs = []"
| "split_bytes (l # ls) bs = take l bs # split_bytes ls (drop l bs)"

definition bio_spec :: "kernel_bio \<Rightarrow> bytes \<Rightarrow> kernel_bio \<times> bytes" where
  "bio_spec bio c =
     (if bio_get_op bio = OpRead
      then (bio_end (bio\<lparr>kb_vecs := split_bytes (map length (kb_vecs bio)) (slice (start_bytes bio) (start_bytes bio + kb_size bio) c)\<rparr>), c)
      else (bio_end bio, overwrite c (start_bytes bio) (concat (kb_vecs bio))))"

primrec bios_spec :: "kernel_bio list \<Rightarrow> bytes \<Rightarrow> kernel_bio list \<times> bytes" where
  "bios_spec [] c = ([], c)"
| "bios_spec (b # bs) c = (fst (bio_spec b c) # fst (bios_spec bs (snd (bio_spec b c))), snd (bios_spec bs (snd (bio_spec b c))))"

text \<open>
  A request that the kernel sends to a target of \<open>n\<close> blocks: a read or write of whole vectors inside the target, and
  vectors of whole blocks if the request is one.
\<close>

definition bio_ok :: "nat \<Rightarrow> kernel_bio \<Rightarrow> bool" where
  "bio_ok n bio \<longleftrightarrow> (bio_get_op bio = OpRead \<or> bio_get_op bio = OpWrite) \<and> kb_idx bio = 0 \<and>
     kb_size bio = length (concat (kb_vecs bio)) \<and> kb_vecs bio \<noteq> [] \<and> [] \<notin> set (kb_vecs bio) \<and>
     start_bytes bio + kb_size bio \<le> n * BLOCK_SIZE \<and> kb_size bio < 2 ^ 32 \<and>
     (bio_unaligned bio \<or> list_all (\<lambda>v. length v mod BLOCK_SIZE = 0) (kb_vecs bio))"

section \<open>The vectors of a request\<close>

abbreviation vec_of :: "bytes list \<Rightarrow> nat \<Rightarrow> bio_vec" where
  "vec_of vecs i \<equiv> \<lparr>bv_idx = i, bv_len = length (vecs ! i)\<rparr>"

lemma split_bytes_concat: "split_bytes (map length xs) (concat xs) = xs"
  by (induction xs) simp_all

lemma bio_vecs_loop_Ok:
  assumes "[] \<notin> set vecs" "i + n = length vecs"
  shows "bio_vecs_loop n \<lparr>bvi_size = length (concat (drop i vecs)), bvi_idx = i, bvi_vec = vecs\<rparr> = Ok (map (vec_of vecs) [i..<length vecs])"
  using assms(2)
proof (induction n arbitrary: i)
  case (Suc n)
  then have i: "i < length vecs" by simp
  have dr: "drop i vecs = vecs ! i # drop (Suc i) vecs" using i by (simp add: Cons_nth_drop_Suc)
  have "vecs ! i \<in> set vecs" using i by simp
  then have "vecs ! i \<noteq> []" using assms(1) by metis
  then show ?case using Suc.IH [of "Suc i"] Suc.prems i
    by (simp add: dr bio_vec_next_def has_next_def current_bio_vec_def advance_by_def upt_conv_Cons)
qed (simp add: has_next_def)

lemma bio_vecs_Ok:
  assumes "bio_ok n bio" shows "bio_vecs bio = Ok (map (vec_of (kb_vecs bio)) [0..<length (kb_vecs bio)])"
  using bio_vecs_loop_Ok [of "kb_vecs bio" 0 "length (kb_vecs bio)"] assms by (simp add: bio_ok_def bio_vecs_def bio_iter_def)

lemma bio_vec_store_vec:
  assumes "i < length (kb_vecs bio)" "length bs = length (kb_vecs bio ! i)" "bv_idx v = i"
  shows "bio_vec_store v bs bio = bio\<lparr>kb_vecs := (kb_vecs bio)[i := bs]\<rparr>"
  using assms by (simp add: bio_vec_store_def overwrite_def)

lemma store_vecs_Ok:
  assumes "map length bufs = map length (drop i vecs)" "i + n = length vecs" "map length (kb_vecs bio) = map length vecs"
  shows "store_vecs (map (vec_of vecs) [i..<length vecs]) bufs bio = bio\<lparr>kb_vecs := take i (kb_vecs bio) @ bufs\<rparr>"
  using assms
proof (induction n arbitrary: i bufs bio)
  case 0
  then have "length (kb_vecs bio) = i" using map_eq_imp_length_eq [of length "kb_vecs bio" length vecs] by simp
  then show ?case using 0 by simp
next
  case (Suc n)
  have i: "i < length vecs" "length (kb_vecs bio) = length vecs"
    using Suc.prems(2) map_eq_imp_length_eq [OF Suc.prems(3)] by simp_all
  have dr: "drop i vecs = vecs ! i # drop (Suc i) vecs" using i by (simp add: Cons_nth_drop_Suc)
  obtain b bs where b: "bufs = b # bs" "length b = length (vecs ! i)" "map length bs = map length (drop (Suc i) vecs)"
    using Suc.prems(1) unfolding dr by (cases bufs) auto
  have li: "length (kb_vecs bio ! i) = length (vecs ! i)" using arg_cong [OF Suc.prems(3), of "\<lambda>xs. xs ! i"] i by simp
  let ?bio = "bio\<lparr>kb_vecs := (kb_vecs bio)[i := b]\<rparr>"
  have st: "bio_vec_store (vec_of vecs i) b bio = ?bio" using i b(2) li by (intro bio_vec_store_vec) simp_all
  have "map length (kb_vecs ?bio) = map length vecs"
    using Suc.prems(3) b(2) li i by (simp add: map_update list_update_same_conv)
  then have "store_vecs (map (vec_of vecs) [Suc i..<length vecs]) bs ?bio = ?bio\<lparr>kb_vecs := take (Suc i) (kb_vecs ?bio) @ bs\<rparr>"
    using Suc.IH [of bs "Suc i" ?bio] Suc.prems(2) b(3) by simp
  then show ?case using i b(1) st by (simp add: upt_conv_Cons take_Suc_conv_app_nth)
qed

lemma copy_to_vecs_Ok:
  assumes "i + n = length vecs" "map length (kb_vecs bio) = map length vecs" "off + length (concat (drop i vecs)) \<le> length buf"
  shows "copy_to_vecs (map (vec_of vecs) [i..<length vecs]) off buf bio =
    Ok (bio\<lparr>kb_vecs := take i (kb_vecs bio) @ split_bytes (map length (drop i vecs)) (drop off buf)\<rparr>)"
  using assms
proof (induction n arbitrary: i off bio)
  case 0
  then have "length (kb_vecs bio) = i" using map_eq_imp_length_eq [of length "kb_vecs bio" length vecs] by simp
  then show ?case using 0 by simp
next
  case (Suc n)
  have i: "i < length vecs" "length (kb_vecs bio) = length vecs"
    using Suc.prems(1) map_eq_imp_length_eq [OF Suc.prems(2)] by simp_all
  have dr: "drop i vecs = vecs ! i # drop (Suc i) vecs" using i by (simp add: Cons_nth_drop_Suc)
  let ?b = "slice off (off + length (vecs ! i)) buf"
  have l: "off + length (vecs ! i) \<le> length buf" "length ?b = length (vecs ! i)" using Suc.prems(3) unfolding dr by simp_all
  have li: "length (kb_vecs bio ! i) = length (vecs ! i)" using arg_cong [OF Suc.prems(2), of "\<lambda>xs. xs ! i"] i by simp
  let ?bio = "bio\<lparr>kb_vecs := (kb_vecs bio)[i := ?b]\<rparr>"
  have st: "bio_vec_store (vec_of vecs i) ?b bio = ?bio" using i l(2) li by (intro bio_vec_store_vec) simp_all
  have "map length (kb_vecs ?bio) = map length vecs"
    using Suc.prems(2) l(2) li i by (simp add: map_update list_update_same_conv)
  then have "copy_to_vecs (map (vec_of vecs) [Suc i..<length vecs]) (off + length (vecs ! i)) buf ?bio =
      Ok (?bio\<lparr>kb_vecs := take (Suc i) (kb_vecs ?bio) @ split_bytes (map length (drop (Suc i) vecs)) (drop (off + length (vecs ! i)) buf)\<rparr>)"
    using Suc.IH [of "Suc i" ?bio "off + length (vecs ! i)"] Suc.prems(1,3) unfolding dr by simp
  then show ?case using i l st unfolding dr
    by (simp add: upt_conv_Cons take_Suc_conv_app_nth slice_def add.commute)
qed

lemma copy_from_vecs_Ok:
  assumes "i + n = length (kb_vecs bio)" "off + length (concat (drop i (kb_vecs bio))) \<le> length buf"
  shows "copy_from_vecs (map (vec_of (kb_vecs bio)) [i..<length (kb_vecs bio)]) off bio buf = Ok (overwrite buf off (concat (drop i (kb_vecs bio))))"
  using assms
proof (induction n arbitrary: i off buf)
  case (Suc n)
  let ?v = "kb_vecs bio"
  have i: "i < length ?v" using Suc.prems(1) by simp
  have dr: "drop i ?v = ?v ! i # drop (Suc i) ?v" using i by (simp add: Cons_nth_drop_Suc)
  have l: "off + length (?v ! i) + length (concat (drop (Suc i) ?v)) \<le> length buf" using Suc.prems(2) unfolding dr by simp
  then show ?case using Suc.IH [of "Suc i" "off + length (?v ! i)" "overwrite buf off (?v ! i)"] Suc.prems(1) i
      overwrite_append [of off buf "?v ! i" "concat (drop (Suc i) ?v)"] unfolding dr
    by (simp add: upt_conv_Cons bio_vec_deref_def)
qed simp

section \<open>Requests as commands\<close>

definition fresh_buf :: "('s, 'd) env \<Rightarrow> nat \<Rightarrow> bytes" where
  "fresh_buf E n = map (env_mem E) [0..<n * BLOCK_SIZE]"

primrec write_cmds :: "nat \<Rightarrow> bytes list \<Rightarrow> disk_cmd list" where
  "write_cmds pos [] = []"
| "write_cmds pos (b # bs) = DiskWrite pos b # write_cmds (pos + length b div BLOCK_SIZE) bs"

text \<open>The buffer of an aligned read differs from what is read in every byte, so that a reply shows the whole transfer.\<close>

definition other_bytes :: "bytes \<Rightarrow> bytes" where
  "other_bytes bs = map (\<lambda>b. b + 1) bs"

definition bio_cmds :: "('s, 'd) env \<Rightarrow> kernel_bio \<Rightarrow> bytes \<Rightarrow> disk_cmd list" where
  "bio_cmds E bio c =
     (let start = bio_start_block bio; cover = DiskRead start (fresh_buf E (bio_cover bio)) in
      if bio_unaligned bio
      then (if bio_get_op bio = OpRead then [cover]
            else [cover, DiskWrite start (overwrite (slice (start * BLOCK_SIZE) ((start + bio_cover bio) * BLOCK_SIZE) c)
                    (start_bytes bio mod BLOCK_SIZE) (concat (kb_vecs bio)))])
      else (if bio_get_op bio = OpRead
            then [DiskRead start (other_bytes (slice (start_bytes bio) (start_bytes bio + kb_size bio) c))]
            else write_cmds start (kb_vecs bio)))"

lemma bio_cover_bounds:
  assumes "bio_ok n bio"
  shows "start_bytes bio = bio_start_block bio * BLOCK_SIZE + start_bytes bio mod BLOCK_SIZE"
    "0 < bio_cover bio" "start_bytes bio mod BLOCK_SIZE + kb_size bio \<le> bio_cover bio * BLOCK_SIZE"
    "bio_start_block bio + bio_cover bio \<le> n" "bio_start_block bio < n" "0 < kb_size bio"
proof -
  have l: "start_bytes bio + kb_size bio \<le> n * BLOCK_SIZE" "kb_size bio = length (concat (kb_vecs bio))" "kb_vecs bio \<noteq> []" "[] \<notin> set (kb_vecs bio)"
    using assms by (simp_all add: bio_ok_def)
  then show p: "0 < kb_size bio" by (cases "kb_vecs bio") auto
  show "start_bytes bio = bio_start_block bio * BLOCK_SIZE + start_bytes bio mod BLOCK_SIZE" by (simp add: bio_start_block_def)
  have e: "(start_bytes bio + kb_size bio + BLOCK_SIZE - 1) div BLOCK_SIZE \<le> n" using l(1) by linarith
  have s: "bio_start_block bio < (start_bytes bio + kb_size bio + BLOCK_SIZE - 1) div BLOCK_SIZE"
    using p unfolding bio_start_block_def by linarith
  show "0 < bio_cover bio" "bio_start_block bio + bio_cover bio \<le> n" "bio_start_block bio < n" using e s by (simp_all add: bio_cover_def)
  have c: "bio_start_block bio + bio_cover bio = (start_bytes bio + kb_size bio + BLOCK_SIZE - 1) div BLOCK_SIZE" using s by (simp add: bio_cover_def)
  have "x \<le> (x + BLOCK_SIZE - 1) div BLOCK_SIZE * BLOCK_SIZE" for x :: nat by linarith
  then have "start_bytes bio + kb_size bio \<le> (bio_start_block bio + bio_cover bio) * BLOCK_SIZE" unfolding c .
  then show "start_bytes bio mod BLOCK_SIZE + kb_size bio \<le> bio_cover bio * BLOCK_SIZE"
    using div_mult_mod_eq [of "start_bytes bio" BLOCK_SIZE] unfolding bio_start_block_def distrib_right by linarith
qed

lemma bio_aligned_bounds:
  assumes "\<not> bio_unaligned bio"
  shows "start_bytes bio = bio_start_block bio * BLOCK_SIZE" "kb_sector bio div BLOCK_SECTORS = bio_start_block bio"
  using assms by (auto simp: bio_unaligned_def bio_start_block_def start_bytes_def)

lemma write_cmds_Ok:
  assumes "\<forall>b\<in>set bs. b \<noteq> [] \<and> length b mod BLOCK_SIZE = 0" "(pos * BLOCK_SIZE + length (concat bs)) \<le> n * BLOCK_SIZE" "length c = n * BLOCK_SIZE"
  shows "list_all (disk_cmd_ok n) (write_cmds pos bs) \<and> snd (disk_specs (write_cmds pos bs) c) = overwrite c (pos * BLOCK_SIZE) (concat bs)"
  using assms
proof (induction bs arbitrary: pos c)
  case (Cons b bs)
  obtain k where k: "length b = k * BLOCK_SIZE" using Cons.prems(1) mod_0_imp_dvd [of "length b" BLOCK_SIZE] by (auto simp: dvd_def mult.commute)
  have p: "0 < length b" using Cons.prems(1) by simp
  have "pos * BLOCK_SIZE < n * BLOCK_SIZE" using Cons.prems(2) p unfolding concat.simps length_append by linarith
  then have pos: "pos < n" by simp
  have "list_all (disk_cmd_ok n) (write_cmds (pos + k) bs) \<and>
      snd (disk_specs (write_cmds (pos + k) bs) (overwrite c (pos * BLOCK_SIZE) b)) = overwrite (overwrite c (pos * BLOCK_SIZE) b) ((pos + k) * BLOCK_SIZE) (concat bs)"
    using Cons.prems k by (intro Cons.IH) (simp_all add: algebra_simps)
  moreover have "overwrite (overwrite c (pos * BLOCK_SIZE) b) ((pos + k) * BLOCK_SIZE) (concat bs) = overwrite c (pos * BLOCK_SIZE) (b @ concat bs)"
    using overwrite_append [of "pos * BLOCK_SIZE" c b "concat bs"] Cons.prems k by (simp add: distrib_right)
  ultimately show ?case using k pos Cons.prems(2) by simp
qed simp

lemma overwrite_cover:
  assumes "o1 + length ys \<le> k" "a + k \<le> length c"
  shows "overwrite c a (overwrite (slice a (a + k) c) o1 ys) = overwrite c (a + o1) ys"
proof -
  have "take (a + o1) c = take a c @ take o1 (drop a c)" by (rule take_add)
  moreover have "drop (length ys + o1) (slice a (a + k) c) @ drop (a + k) c = drop (a + o1 + length ys) c"
  proof -
    have "drop (length ys + o1) (take k (drop a c)) @ drop k (drop a c) = drop (length ys + o1) (drop a c)"
      using assms append_take_drop_id [of "k - (length ys + o1)" "drop (length ys + o1) (drop a c)"] by (simp add: drop_take algebra_simps)
    then show ?thesis by (simp add: slice_def algebra_simps)
  qed
  ultimately show ?thesis using assms by (simp add: overwrite_def slice_def min_def algebra_simps)
qed

lemma bio_cmds_spec:
  assumes b: "bio_ok n bio" and c: "length c = n * BLOCK_SIZE"
  shows "list_all (disk_cmd_ok n) (bio_cmds E bio c)" "snd (disk_specs (bio_cmds E bio c) c) = snd (bio_spec bio c)"
    "length (snd (bio_spec bio c)) = n * BLOCK_SIZE"
proof -
  let ?s = "bio_start_block bio" and ?k = "bio_cover bio" and ?o = "start_bytes bio mod BLOCK_SIZE"
  note bd = bio_cover_bounds [OF b]
  have size: "kb_size bio = length (concat (kb_vecs bio))" "start_bytes bio + kb_size bio \<le> n * BLOCK_SIZE" using b by (simp_all add: bio_ok_def)
  have cov: "(?s + ?k) * BLOCK_SIZE \<le> n * BLOCK_SIZE" using bd(4) by (rule mult_le_mono1)
  have fr: "length (fresh_buf E ?k) = ?k * BLOCK_SIZE" by (simp add: fresh_buf_def)
  have lo: "length (overwrite (slice (?s * BLOCK_SIZE) ((?s + ?k) * BLOCK_SIZE) c) ?o (concat (kb_vecs bio))) = ?k * BLOCK_SIZE"
    using cov c bd(3) size(1) by (simp add: distrib_right)
  have wc: "list_all (disk_cmd_ok n) (write_cmds ?s (kb_vecs bio)) \<and>
      snd (disk_specs (write_cmds ?s (kb_vecs bio)) c) = overwrite c (?s * BLOCK_SIZE) (concat (kb_vecs bio))" if "\<not> bio_unaligned bio"
    using that b c size bio_aligned_bounds [OF that] by (intro write_cmds_Ok) (auto simp: bio_ok_def list_all_iff)
  show "list_all (disk_cmd_ok n) (bio_cmds E bio c)"
    using bd(5) cov fr lo size(2) c wc bio_aligned_bounds(1) [of bio] by (auto simp: bio_cmds_def Let_def other_bytes_def distrib_right)
  have "overwrite c (?s * BLOCK_SIZE) (overwrite (slice (?s * BLOCK_SIZE) ((?s + ?k) * BLOCK_SIZE) c) ?o (concat (kb_vecs bio))) =
      overwrite c (start_bytes bio) (concat (kb_vecs bio))"
    using overwrite_cover [of ?o "concat (kb_vecs bio)" "?k * BLOCK_SIZE" "?s * BLOCK_SIZE" c] bd(1,3) cov c size(1) by (simp add: distrib_right)
  then show "snd (disk_specs (bio_cmds E bio c) c) = snd (bio_spec bio c)"
    using wc bio_aligned_bounds(1) [of bio] by (auto simp: bio_cmds_def bio_spec_def Let_def)
  show "length (snd (bio_spec bio c)) = n * BLOCK_SIZE" using c size by (simp add: bio_spec_def)
qed

section \<open>Processing a request runs its commands\<close>

lemma length_split_bytes: "sum_list ls = length bs \<Longrightarrow> map length (split_bytes ls bs) = ls"
  by (induction ls arbitrary: bs) auto

lemma split_bytes_take: "split_bytes ls (take (sum_list ls) bs) = split_bytes ls bs"
  by (induction ls arbitrary: bs) (simp_all add: drop_take)

lemma split_bytes_slice:
  assumes "sum_list ls = l" "a + k \<le> length c" "o1 + l \<le> k"
  shows "split_bytes ls (drop o1 (slice a (a + k) c)) = split_bytes ls (slice (a + o1) (a + o1 + l) c)"
proof -
  have "take l (drop o1 (slice a (a + k) c)) = slice (a + o1) (a + o1 + l) c"
    using assms by (simp add: slice_def drop_take add.commute)
  then show ?thesis using split_bytes_take [of ls "drop o1 (slice a (a + k) c)"] split_bytes_take [of ls "slice (a + o1) (a + o1 + l) c"] assms(1)
    by (simp add: slice_def)
qed

lemma unwrapped_Ok_iff: "unwrapped m = (Ok x, s) \<longleftrightarrow> m = (Ok x, s)"
  by (cases m; cases "fst m") (auto simp: unwrapped_def)

lemma pd_read_parts:
  assumes "pd_read E addr buf d = (Ok r, d')"
  shows "\<exists>p d1 bs. with_file (sgx_seek (SeekStart (addr * BLOCK_SIZE + PFS_INNER_OFFSET))) d = (Ok p, d1) \<and>
    with_file (sgx_read E (length buf)) d1 = (Ok bs, d') \<and> r = overwrite buf 0 bs"
  using assms
  by (auto simp: pd_read_def outcome_simps unwrapped_Ok_iff Let_def split: if_splits)

lemma overwrite_other:
  assumes "overwrite (other_bytes r) 0 bs = r" shows "bs = r"
proof -
  have e: "r = bs @ drop (length bs) (other_bytes r)" using assms by (simp add: overwrite_def)
  have "\<not> length bs < length r"
  proof
    assume l: "length bs < length r"
    then have "r ! length bs = drop (length bs) (other_bytes r) ! 0" using e by (metis nth_append_length_plus add_0_right)
    then show False using l by (simp add: other_bytes_def)
  qed
  then have "drop (length bs) (other_bytes r) = []" by (simp add: other_bytes_def)
  then show ?thesis using e by simp
qed

lemma readv_of_read:
  assumes r: "pd_read E addr (other_bytes r) d = (Ok r, d')" "length r = length (concat bufs)"
    and bufs: "bufs \<noteq> []" "\<forall>b\<in>set bufs. block_aligned b" "length (concat bufs) < 2 ^ 64" "addr * BLOCK_SIZE + PFS_INNER_OFFSET < 2 ^ 64"
  shows "pd_readv E addr bufs d = (Ok (split_bytes (map length bufs) r), d')"
proof -
  obtain p d1 bs where io: "with_file (sgx_seek (SeekStart (addr * BLOCK_SIZE + PFS_INNER_OFFSET))) d = (Ok p, d1)"
    "with_file (sgx_read E (length (concat bufs))) d1 = (Ok bs, d')" "r = overwrite (other_bytes r) 0 bs"
    using pd_read_parts [OF r(1)] r(2) by (auto simp: other_bytes_def)
  have bs: "bs = r" using overwrite_other [of r bs] io(3) by simp
  obtain bufs' where b: "pd_readv E addr bufs d = (Ok bufs', d')" "concat bufs' = r" "map length bufs' = map length bufs"
    using pd_readv_Ok [OF bufs io(1,2)] r(2) bs by auto
  then show ?thesis using split_bytes_concat [of bufs'] by simp
qed

lemma write_vecs_sim:
  assumes "i + n = length (kb_vecs bio)" "\<forall>b\<in>set (kb_vecs bio). b \<noteq> [] \<and> length b mod BLOCK_SIZE = 0"
    "run_disk_cmds E (write_cmds pos (drop i (kb_vecs bio))) d = (Ok rs, d')"
  shows "write_vecs E (map (vec_of (kb_vecs bio)) [i..<length (kb_vecs bio)]) pos bio d = (Ok (), d')"
  using assms(1,3)
proof (induction n arbitrary: i pos d rs)
  case (Suc n)
  let ?v = "kb_vecs bio"
  have i: "i < length ?v" using Suc.prems(1) by simp
  have dr: "drop i ?v = ?v ! i # drop (Suc i) ?v" using i by (simp add: Cons_nth_drop_Suc)
  have "?v ! i \<in> set ?v" using i by simp
  then have v: "?v ! i \<noteq> []" "length (?v ! i) mod BLOCK_SIZE = 0" using assms(2) by blast+
  obtain d1 rs1 where d1: "pd_write E pos (?v ! i) d = (Ok (), d1)"
    "run_disk_cmds E (write_cmds (pos + length (?v ! i) div BLOCK_SIZE) (drop (Suc i) ?v)) d1 = (Ok rs1, d')"
    using Suc.prems(2) unfolding dr by (auto simp: outcome_simps)
  then show ?case using Suc.IH [OF _ d1(2)] Suc.prems(1) v i
    by (simp add: upt_conv_Cons bio_vec_deref_def buf_ref_try_from_def logged_def buf_ref_nblocks_def)
qed simp

lemma unwrap_all_Ok: "\<forall>v\<in>set vs. f v = Ok (g v) \<Longrightarrow> unwrap_all (map f vs) = Ok (map g vs)"
  by (induction vs) simp_all

lemma map_deref: "map (\<lambda>v. bio_vec_deref bio v) (map (vec_of (kb_vecs bio)) [0..<length (kb_vecs bio)]) = kb_vecs bio"
  by (rule nth_equalityI) (simp_all add: bio_vec_deref_def)

lemma read_cover_sim:
  assumes b: "bio_ok n bio"
    and r: "run_disk_cmd E (DiskRead (bio_start_block bio) (fresh_buf E (bio_cover bio))) d =
      (Ok (slice (bio_start_block bio * BLOCK_SIZE) (bio_start_block bio * BLOCK_SIZE + bio_cover bio * BLOCK_SIZE) c), d1)"
  shows "read_cover E bio d =
    (Ok (slice (bio_start_block bio * BLOCK_SIZE) (bio_start_block bio * BLOCK_SIZE + bio_cover bio * BLOCK_SIZE) c), d1)"
  using r bio_cover_bounds(2) [OF b] by (simp add: read_cover_def fresh_buf_def)

lemma vecs_sum: "sum_list (map length vecs) = length (concat vecs)"
  by (simp add: length_concat)

lemma read_unaligned_sim:
  assumes b: "bio_ok n bio" and u: "bio_unaligned bio" and rd: "bio_get_op bio = OpRead" and c: "length c = n * BLOCK_SIZE"
    and r: "run_disk_cmds E (bio_cmds E bio c) d = (Ok (fst (disk_specs (bio_cmds E bio c) c)), d')"
  shows "dm_process E bio d = (Ok (fst (bio_spec bio c)), d')"
proof -
  let ?s = "bio_start_block bio * BLOCK_SIZE" and ?k = "bio_cover bio * BLOCK_SIZE" and ?o = "start_bytes bio mod BLOCK_SIZE"
  note bd = bio_cover_bounds [OF b]
  have k: "?s + ?k \<le> length c" using mult_le_mono1 [OF bd(4), of BLOCK_SIZE] c by (simp add: distrib_right)
  have l: "?o + length (concat (kb_vecs bio)) \<le> ?k" using bd(3) b by (simp add: bio_ok_def)
  have rc: "read_cover E bio d = (Ok (slice ?s (?s + ?k) c), d')"
    using r u rd by (intro read_cover_sim [OF b]) (auto simp: bio_cmds_def Let_def outcome_simps fresh_buf_def)
  have "copy_to_vecs (map (vec_of (kb_vecs bio)) [0..<length (kb_vecs bio)]) ?o (slice ?s (?s + ?k) c) bio =
      Ok (bio\<lparr>kb_vecs := split_bytes (map length (kb_vecs bio)) (drop ?o (slice ?s (?s + ?k) c))\<rparr>)"
    using copy_to_vecs_Ok [of 0 "length (kb_vecs bio)" "kb_vecs bio" bio ?o "slice ?s (?s + ?k) c"] l k by simp
  moreover have "split_bytes (map length (kb_vecs bio)) (drop ?o (slice ?s (?s + ?k) c)) =
      split_bytes (map length (kb_vecs bio)) (slice (start_bytes bio) (start_bytes bio + kb_size bio) c)"
    using split_bytes_slice [OF vecs_sum k l] bd(1) b by (simp add: bio_ok_def)
  ultimately show ?thesis using rc rd u bio_vecs_Ok [OF b] by (simp add: dm_process_def read_unaligned_def bio_spec_def)
qed

lemma write_unaligned_sim:
  assumes b: "bio_ok n bio" and u: "bio_unaligned bio" and wr: "bio_get_op bio = OpWrite" and c: "length c = n * BLOCK_SIZE"
    and r: "run_disk_cmds E (bio_cmds E bio c) d = (Ok (fst (disk_specs (bio_cmds E bio c) c)), d')"
  shows "dm_process E bio d = (Ok (fst (bio_spec bio c)), d')"
proof -
  let ?s = "bio_start_block bio * BLOCK_SIZE" and ?k = "bio_cover bio * BLOCK_SIZE" and ?o = "start_bytes bio mod BLOCK_SIZE"
  let ?buf = "slice ?s (?s + ?k) c"
  note bd = bio_cover_bounds [OF b]
  have k: "?s + ?k \<le> length c" using mult_le_mono1 [OF bd(4), of BLOCK_SIZE] c by (simp add: distrib_right)
  have l: "?o + length (concat (kb_vecs bio)) \<le> ?k" using bd(3) b by (simp add: bio_ok_def)
  obtain d1 where d1: "run_disk_cmd E (DiskRead (bio_start_block bio) (fresh_buf E (bio_cover bio))) d = (Ok ?buf, d1)"
    "pd_write E (bio_start_block bio) (overwrite ?buf ?o (concat (kb_vecs bio))) d1 = (Ok (), d')"
    using r u wr by (auto simp: bio_cmds_def Let_def outcome_simps fresh_buf_def distrib_right)
  have "copy_from_vecs (map (vec_of (kb_vecs bio)) [0..<length (kb_vecs bio)]) ?o bio ?buf = Ok (overwrite ?buf ?o (concat (kb_vecs bio)))"
    using copy_from_vecs_Ok [of 0 "length (kb_vecs bio)" bio ?o ?buf] l k by simp
  then show ?thesis using read_cover_sim [OF b d1(1)] d1(2) wr u bio_vecs_Ok [OF b]
    by (simp add: dm_process_def write_unaligned_def bio_spec_def logged_def)
qed

lemma read_aligned_sim:
  assumes b: "bio_ok n bio" and u: "\<not> bio_unaligned bio" and rd: "bio_get_op bio = OpRead" and c: "length c = n * BLOCK_SIZE"
    and n: "n * BLOCK_SIZE + PFS_INNER_OFFSET < 2 ^ 64"
    and r: "run_disk_cmds E (bio_cmds E bio c) d = (Ok (fst (disk_specs (bio_cmds E bio c) c)), d')"
  shows "dm_process E bio d = (Ok (fst (bio_spec bio c)), d')"
proof -
  let ?v = "kb_vecs bio" and ?r = "slice (start_bytes bio) (start_bytes bio + kb_size bio) c"
  note bd = bio_cover_bounds [OF b] and al = bio_aligned_bounds [OF u]
  have sz: "kb_size bio = length (concat ?v)" "start_bytes bio + kb_size bio \<le> n * BLOCK_SIZE" "kb_size bio < 2 ^ 32" "?v \<noteq> []"
    using b by (simp_all add: bio_ok_def)
  have lr: "length ?r = length (concat ?v)" using sz c by simp
  have blk: "\<forall>v\<in>set ?v. v \<noteq> [] \<and> length v mod BLOCK_SIZE = 0" using b u by (auto simp: bio_ok_def list_all_iff)
  have rr: "pd_read E (bio_start_block bio) (other_bytes ?r) d = (Ok ?r, d')"
    using r u rd sz c al(1) by (auto simp: bio_cmds_def Let_def outcome_simps other_bytes_def)
  have addr: "bio_start_block bio * BLOCK_SIZE + PFS_INNER_OFFSET < 2 ^ 64"
    using n mult_le_mono1 [OF less_imp_le [OF bd(5)], of BLOCK_SIZE] by linarith
  have rv: "pd_readv E (bio_start_block bio) ?v d = (Ok (split_bytes (map length ?v) ?r), d')"
    using readv_of_read [OF rr lr sz(4) _ _ addr] blk sz(1,3) by (auto simp: block_aligned_def)
  have uw: "unwrap_all (map (\<lambda>v. buf_mut_try_from (bio_vec_deref bio v)) (map (vec_of ?v) [0..<length ?v])) = Ok ?v"
  proof -
    have "\<forall>v\<in>set (map (vec_of ?v) [0..<length ?v]). buf_mut_try_from (bio_vec_deref bio v) = Ok (bio_vec_deref bio v)"
      using blk by (auto simp: bio_vec_deref_def buf_mut_try_from_def)
    from unwrap_all_Ok [OF this] show ?thesis by (simp only: map_deref)
  qed
  have "map length (split_bytes (map length ?v) ?r) = map length (drop 0 ?v)" using length_split_bytes lr by (simp add: vecs_sum)
  then have "store_vecs (map (vec_of ?v) [0..<length ?v]) (split_bytes (map length ?v) ?r) bio = bio\<lparr>kb_vecs := split_bytes (map length ?v) ?r\<rparr>"
    using store_vecs_Ok [of "split_bytes (map length ?v) ?r" 0 ?v "length ?v" bio] by simp
  then show ?thesis using rv uw rd u al(2) bio_vecs_Ok [OF b] by (simp add: dm_process_def read_aligned_def bio_spec_def)
qed

lemma write_aligned_sim:
  assumes b: "bio_ok n bio" and u: "\<not> bio_unaligned bio" and wr: "bio_get_op bio = OpWrite"
    and r: "run_disk_cmds E (bio_cmds E bio c) d = (Ok (fst (disk_specs (bio_cmds E bio c) c)), d')"
  shows "dm_process E bio d = (Ok (fst (bio_spec bio c)), d')"
proof -
  have blk: "\<forall>v\<in>set (kb_vecs bio). v \<noteq> [] \<and> length v mod BLOCK_SIZE = 0" using b u by (auto simp: bio_ok_def list_all_iff)
  have "run_disk_cmds E (write_cmds (bio_start_block bio) (drop 0 (kb_vecs bio))) d = (Ok (fst (disk_specs (bio_cmds E bio c) c)), d')"
    using r u wr by (simp add: bio_cmds_def Let_def)
  from write_vecs_sim [OF _ blk this, of "length (kb_vecs bio)"] show ?thesis
    using wr u bio_aligned_bounds(2) [OF u] bio_vecs_Ok [OF b] by (simp add: dm_process_def write_aligned_def bio_spec_def)
qed

lemma dm_process_sim:
  assumes "bio_ok n bio" "length c = n * BLOCK_SIZE" "n * BLOCK_SIZE + PFS_INNER_OFFSET < 2 ^ 64"
    and "run_disk_cmds E (bio_cmds E bio c) d = (Ok (fst (disk_specs (bio_cmds E bio c) c)), d')"
  shows "dm_process E bio d = (Ok (fst (bio_spec bio c)), d')"
  using assms read_unaligned_sim [OF assms(1)] write_unaligned_sim [OF assms(1)] read_aligned_sim [OF assms(1)] write_aligned_sim [OF assms(1)]
  by (cases "bio_unaligned bio") (auto simp: bio_ok_def)

section \<open>Sequences of requests\<close>

primrec bios_cmds :: "('s, 'd) env \<Rightarrow> kernel_bio list \<Rightarrow> bytes \<Rightarrow> disk_cmd list" where
  "bios_cmds E [] c = []"
| "bios_cmds E (b # bs) c = bio_cmds E b c @ bios_cmds E bs (snd (bio_spec b c))"

lemma run_disk_cmds_append:
  "run_disk_cmds E (a @ b) d = (Ok rs, d') \<longleftrightarrow>
    (\<exists>ra rb d1. run_disk_cmds E a d = (Ok ra, d1) \<and> run_disk_cmds E b d1 = (Ok rb, d') \<and> rs = ra @ rb)"
proof (induction a arbitrary: d rs)
  case (Cons c a)
  then show ?case by (auto simp: outcome_simps)
qed auto

lemma disk_specs_append:
  "fst (disk_specs (a @ b) c) = fst (disk_specs a c) @ fst (disk_specs b (snd (disk_specs a c)))"
  "snd (disk_specs (a @ b) c) = snd (disk_specs b (snd (disk_specs a c)))"
  by (induction a arbitrary: c) simp_all

lemma disk_lengths: "run_disk_cmds E cs d = (Ok rs, d') \<Longrightarrow> length rs = length (fst (disk_specs cs c))"
proof (induction cs arbitrary: d rs c)
  case (Cons x cs)
  then show ?case by (auto simp: outcome_simps)
qed simp

lemma bios_cmds_spec:
  assumes "list_all (bio_ok n) bios" "length c = n * BLOCK_SIZE"
  shows "list_all (disk_cmd_ok n) (bios_cmds E bios c) \<and> snd (disk_specs (bios_cmds E bios c) c) = snd (bios_spec bios c) \<and>
    length (snd (bios_spec bios c)) = n * BLOCK_SIZE"
  using assms
proof (induction bios arbitrary: c)
  case (Cons b bs)
  then have b: "bio_ok n b" by simp
  note s = bio_cmds_spec(1,2) [OF b Cons.prems(2), of E] bio_cmds_spec(3) [OF b Cons.prems(2)]
  from Cons.IH [OF _ s(3)] Cons.prems(1) s show ?case by (simp add: disk_specs_append)
qed simp

lemma dm_process_all_sim:
  assumes "list_all (bio_ok n) bios" "length c = n * BLOCK_SIZE" "n * BLOCK_SIZE + PFS_INNER_OFFSET < 2 ^ 64"
    and "run_disk_cmds E (bios_cmds E bios c) d = (Ok (fst (disk_specs (bios_cmds E bios c) c)), d')"
  shows "dm_process_all E bios d = (Ok (fst (bios_spec bios c)), d')"
  using assms
proof (induction bios arbitrary: c d)
  case (Cons b bs)
  let ?a = "bio_cmds E b c" and ?c = "snd (bio_spec b c)"
  have b: "bio_ok n b" using Cons.prems(1) by simp
  note s = bio_cmds_spec(1,2) [OF b Cons.prems(2), of E] bio_cmds_spec(3) [OF b Cons.prems(2)]
  obtain ra rb d1 where r: "run_disk_cmds E ?a d = (Ok ra, d1)" "run_disk_cmds E (bios_cmds E bs ?c) d1 = (Ok rb, d')"
    "fst (disk_specs ?a c) @ fst (disk_specs (bios_cmds E bs ?c) ?c) = ra @ rb"
    using Cons.prems(4) s(2) by (auto simp: run_disk_cmds_append disk_specs_append)
  have "ra = fst (disk_specs ?a c)" "rb = fst (disk_specs (bios_cmds E bs ?c) ?c)"
    using r(3) disk_lengths [OF r(1), of c] by simp_all
  then show ?case using dm_process_sim [OF b Cons.prems(2,3), of E d d1] Cons.IH [OF _ s(3) Cons.prems(3)] r(1,2) Cons.prems(1) by simp
qed simp

section \<open>Sessions of the target\<close>

text \<open>
  A session constructs the target, processes requests and destroys the target.  \<open>None\<close> is a session that fails at some point.
\<close>

definition dm_finish ::
  "('s, 'd) env \<Rightarrow> kernel_bio list \<Rightarrow> ('s, 'd) pfs_disk \<Rightarrow> kernel_bio list result \<times> 's \<times> nat"
where
  "dm_finish E bios d =
     (case then_do (dm_process_all E bios d) (\<lambda>rs d. then_do (dm_dtr E d) (\<lambda>_ d. (Ok rs, d))) of
        (r, d) \<Rightarrow> (r, fi_world (pd_file d), fi_rng (pd_file d)))"

primrec dm_sessions ::
  "'s kernel \<Rightarrow> ('s, raw_disk) env \<Rightarrow> bytes \<Rightarrow> (bytes \<times> kernel_bio list) list \<Rightarrow> 's \<times> nat \<Rightarrow> kernel_bio list list option"
where
  "dm_sessions K E path [] st = Some []"
| "dm_sessions K E path (kb # rest) st =
     (case dm_ctr K E [ascii ''open'', path, fst kb] st of
        (Ok (d, t), _) \<Rightarrow>
          (case dm_finish E (snd kb) d of
             (Ok rs, st) \<Rightarrow> (case dm_sessions K E path rest st of Some rss \<Rightarrow> Some (rs # rss) | None \<Rightarrow> None)
           | _ \<Rightarrow> None)
      | _ \<Rightarrow> None)"

primrec dm_sessions_spec :: "kernel_bio list list \<Rightarrow> bytes \<Rightarrow> kernel_bio list list" where
  "dm_sessions_spec [] c = []"
| "dm_sessions_spec (bios # rest) c = fst (bios_spec bios c) # dm_sessions_spec rest (snd (bios_spec bios c))"

text \<open>The commands of the sessions, with the keys that the kernel makes of their texts.\<close>

primrec dm_cmds :: "'s kernel \<Rightarrow> ('s, 'd) env \<Rightarrow> (bytes \<times> kernel_bio list) list \<Rightarrow> bytes \<Rightarrow> (key \<times> disk_cmd list) list" where
  "dm_cmds K E [] c = []"
| "dm_cmds K E (kb # rest) c =
     (the (kn_hex2bin K (fst kb) (length key_default)), bios_cmds E (snd kb) c) # dm_cmds K E rest (snd (bios_spec (snd kb) c))"

lemma dm_finish_sim:
  assumes "list_all (bio_ok n) bios" "length c = n * BLOCK_SIZE" "n * BLOCK_SIZE + PFS_INNER_OFFSET < 2 ^ 64"
    and f: "finish_session E (bios_cmds E bios c) d = (Ok (fst (disk_specs (bios_cmds E bios c) c)), w, rng)"
  shows "dm_finish E bios d = (Ok (fst (bios_spec bios c)), w, rng)"
proof -
  obtain d1 d2 where d: "run_disk_cmds E (bios_cmds E bios c) d = (Ok (fst (disk_specs (bios_cmds E bios c) c)), d1)"
    "pd_drop E d1 = (Ok (), d2)" "w = fi_world (pd_file d2)" "rng = fi_rng (pd_file d2)"
    using f by (auto simp: finish_session_def outcome_simps split: prod.splits)
  have p: "dm_process_all E bios d = (Ok (fst (bios_spec bios c)), d1)" by (rule dm_process_all_sim [OF assms(1-3) d(1)])
  obtain s where s: "file_flush E (pd_file d1) = (Ok (), s)" "d2 = d1\<lparr>pd_file := s\<rparr>"
    using d(2) by (auto simp: pd_drop_def unwrapped_Ok_iff with_file_def sgx_forward pf_flush_def recording_def on_err_Ok_iff split: prod.splits)
  then have "dm_dtr E d1 = (Ok (), d2)" using file_flush_again [OF s(1)]
    by (simp add: dm_dtr_def pd_sync_def pd_drop_def unwrapped_def with_file_def sgx_forward pf_flush_def recording_def)
  then show ?thesis using p d(3,4) by (simp add: dm_finish_def)
qed

lemma dm_sessions_sim:
  assumes n: "n * BLOCK_SIZE + PFS_INNER_OFFSET < 2 ^ 64" and disk: "raw_disk_open K path = Ok disk"
    and "\<forall>kb\<in>set kbs. kn_hex2bin K (fst kb) (length key_default) \<noteq> None \<and> list_all (bio_ok n) (snd kb)" "length c = n * BLOCK_SIZE"
    and "run_sessions E disk None (dm_cmds K E kbs c) st = (Ok (sessions_spec (map snd (dm_cmds K E kbs c)) c), st')"
  shows "dm_sessions K E path kbs st = Some (dm_sessions_spec (map snd kbs) c)"
  using assms(3-)
proof (induction kbs arbitrary: c st)
  case (Cons kb kbs)
  let ?cs = "bios_cmds E (snd kb) c" and ?c = "snd (bios_spec (snd kb) c)"
  obtain key where key: "kn_hex2bin K (fst kb) (length key_default) = Some key" using Cons.prems(1) by auto
  have ok: "list_all (bio_ok n) (snd kb)" using Cons.prems(1) by simp
  have sp: "snd (disk_specs ?cs c) = ?c" "length ?c = n * BLOCK_SIZE" using bios_cmds_spec [OF ok Cons.prems(2)] by blast+
  obtain d st1 w2 rng2 where d: "pd_open E disk key None st = (Ok d, st1)"
    "finish_session E ?cs d = (Ok (fst (disk_specs ?cs c)), w2, rng2)"
    "run_sessions E disk None (dm_cmds K E kbs ?c) (w2, rng2) = (Ok (sessions_spec (map snd (dm_cmds K E kbs ?c)) ?c), st')"
    using Cons.prems(3) key sp(1) by (auto simp: outcome_simps)
  have "dm_ctr K E [ascii ''open'', path, fst kb] st = (Ok (d, target_set_region 0 (pd_total_blocks d)), st1)"
    using disk key d(1) by (simp add: dm_ctr_def ascii_def)
  moreover have "dm_finish E (snd kb) d = (Ok (fst (bios_spec (snd kb) c)), w2, rng2)"
    by (rule dm_finish_sim [OF ok Cons.prems(2) n d(2)])
  moreover have "dm_sessions K E path kbs (w2, rng2) = Some (dm_sessions_spec (map snd kbs) ?c)"
    using Cons.IH [OF _ sp(2) d(3)] Cons.prems(1) by simp
  ultimately show ?case by simp
qed simp

text \<open>Every session but the last has a request that writes.\<close>

fun dm_sessions_write :: "kernel_bio list list \<Rightarrow> bool" where
  "dm_sessions_write [] \<longleftrightarrow> True"
| "dm_sessions_write [bios] \<longleftrightarrow> True"
| "dm_sessions_write (bios # rest) \<longleftrightarrow> list_ex (\<lambda>b. bio_get_op b = OpWrite) bios \<and> dm_sessions_write rest"

lemma bio_cmds_writes:
  assumes b: "bio_ok n bio" and wr: "bio_get_op bio = OpWrite" and c: "length c = n * BLOCK_SIZE"
  shows "list_ex disk_writes (bio_cmds E bio c)"
proof (cases "bio_unaligned bio")
  case True
  have "concat (kb_vecs bio) \<noteq> []" using bio_cover_bounds(6) [OF b] b by (auto simp: bio_ok_def)
  then show ?thesis using True wr by (simp add: bio_cmds_def Let_def overwrite_def)
next
  case False
  have "kb_vecs bio \<noteq> []" "[] \<notin> set (kb_vecs bio)" using b by (simp_all add: bio_ok_def)
  then show ?thesis using False wr by (cases "kb_vecs bio") (auto simp: bio_cmds_def Let_def)
qed

lemma bios_cmds_writes:
  assumes "list_all (bio_ok n) bios" "length c = n * BLOCK_SIZE" "list_ex (\<lambda>b. bio_get_op b = OpWrite) bios"
  shows "list_ex disk_writes (bios_cmds E bios c)"
  using assms
proof (induction bios arbitrary: c)
  case (Cons b bs)
  then have b: "bio_ok n b" by simp
  show ?case
  proof (cases "bio_get_op b = OpWrite")
    case True
    then show ?thesis using bio_cmds_writes [OF b True Cons.prems(2), of E] by simp
  next
    case False
    then show ?thesis using Cons.IH [OF _ bio_cmds_spec(3) [OF b Cons.prems(2)]] Cons.prems by simp
  qed
qed simp

lemma dm_cmds_Ok:
  assumes "\<forall>kb\<in>set kbs. list_all (bio_ok n) (snd kb)" "length c = n * BLOCK_SIZE" "dm_sessions_write (map snd kbs)"
  shows "(\<forall>kc\<in>set (dm_cmds K E kbs c). list_all (disk_cmd_ok n) (snd kc)) \<and> sessions_write (map snd (dm_cmds K E kbs c))"
  using assms
proof (induction kbs arbitrary: c)
  case (Cons kb kbs)
  have ok: "list_all (bio_ok n) (snd kb)" using Cons.prems(1) by simp
  have sp: "list_all (disk_cmd_ok n) (bios_cmds E (snd kb) c)" "length (snd (bios_spec (snd kb) c)) = n * BLOCK_SIZE"
    using bios_cmds_spec [OF ok Cons.prems(2)] by blast+
  have "dm_sessions_write (map snd kbs)" using Cons.prems(3) by (cases kbs) simp_all
  then have ih: "(\<forall>kc\<in>set (dm_cmds K E kbs (snd (bios_spec (snd kb) c))). list_all (disk_cmd_ok n) (snd kc)) \<and>
      sessions_write (map snd (dm_cmds K E kbs (snd (bios_spec (snd kb) c))))"
    using Cons.IH [OF _ sp(2)] Cons.prems(1) by simp
  show ?case
  proof (cases kbs)
    case (Cons kb' kbs')
    then have "list_ex disk_writes (bios_cmds E (snd kb) c)" using Cons.prems(3) by (intro bios_cmds_writes [OF ok Cons.prems(2)]) simp
    then show ?thesis using ih sp(1) Cons by simp
  qed (use sp(1) in simp)
qed simp

end
