(* ===== verification/Dm_Queue.thy ===== *)
theory Dm_Queue
  imports Dm_Target
begin

text \<open>
  The request queue of the device mapper target and its worker thread: \<open>ReqQueue\<close> and \<open>DmTargetOps::map\<close> in
  \<open>linux/dm-sworndisk/src/lib.rs\<close>.

  Any number of threads enqueue requests, one worker takes them out, and the destructor stops it.  A step is a critical
  section of the lock, an access to the stop flag, or a notification.  Waiting on the condition variable releases
  the lock and sleeps in one step; a notification wakes the worker if it sleeps and is lost otherwise.  The worker is a
  kernel thread without signals, so nothing else wakes it.  While \<open>clear\<close> processes a request it still holds the lock,
  as the guard in the condition of \<open>while let\<close> lives until the end of the body.  The state also keeps the requests
  enqueued so far and those ended so far.
\<close>

section \<open>State and steps\<close>

datatype worker_pc = WorkerCheck | WorkerPop | WorkerAsleep | WorkerProcess kernel_bio | WorkerClear
  | WorkerClearProcess kernel_bio | WorkerDone | WorkerPanicked

record ('s, 'd) dm_queue =
  dq_bios :: "kernel_bio list"
  dq_disk :: "('s, 'd) pfs_disk"
  dq_should_stop :: bool
  dq_worker :: worker_pc
  dq_notify_one :: nat
  dq_notify_all :: nat
  dq_enqueued :: "kernel_bio list"
  dq_ended :: "kernel_bio list"

definition queue_spawn :: "('s, 'd) pfs_disk \<Rightarrow> ('s, 'd) dm_queue" where
  "queue_spawn disk = \<lparr>dq_bios = [], dq_disk = disk, dq_should_stop = False, dq_worker = WorkerCheck, dq_notify_one = 0,
     dq_notify_all = 0, dq_enqueued = [], dq_ended = []\<rparr>"

definition wake :: "worker_pc \<Rightarrow> worker_pc" where
  "wake pc = (if pc = WorkerAsleep then WorkerCheck else pc)"

text \<open>\<open>process\<close> in the worker, which goes on at \<open>next\<close> or dies.\<close>

definition worker_process ::
  "('s, 'd) env \<Rightarrow> kernel_bio \<Rightarrow> worker_pc \<Rightarrow> ('s, 'd) dm_queue \<Rightarrow> ('s, 'd) dm_queue"
where
  "worker_process E bio next q = (case dm_process E bio (dq_disk q) of
     (Ok bio', d) \<Rightarrow> q\<lparr>dq_disk := d, dq_ended := dq_ended q @ [bio'], dq_worker := next\<rparr>
   | (_, d) \<Rightarrow> q\<lparr>dq_disk := d, dq_worker := WorkerPanicked\<rparr>)"

inductive worker_step :: "('s, 'd) env \<Rightarrow> ('s, 'd) dm_queue \<Rightarrow> ('s, 'd) dm_queue \<Rightarrow> bool" for E where
  check_stop: "dq_worker q = WorkerCheck \<Longrightarrow>
    worker_step E q (q\<lparr>dq_worker := (if dq_should_stop q then WorkerClear else WorkerPop)\<rparr>)"
| pop_bio: "dq_worker q = WorkerPop \<Longrightarrow> dq_bios q = bio # bios \<Longrightarrow>
    worker_step E q (q\<lparr>dq_bios := bios, dq_worker := WorkerProcess bio\<rparr>)"
| pop_wait: "dq_worker q = WorkerPop \<Longrightarrow> dq_bios q = [] \<Longrightarrow> worker_step E q (q\<lparr>dq_worker := WorkerAsleep\<rparr>)"
| process_bio: "dq_worker q = WorkerProcess bio \<Longrightarrow> worker_step E q (worker_process E bio WorkerCheck q)"
| clear_pop: "dq_worker q = WorkerClear \<Longrightarrow> dq_bios q = bio # bios \<Longrightarrow>
    worker_step E q (q\<lparr>dq_bios := bios, dq_worker := WorkerClearProcess bio\<rparr>)"
| clear_bio: "dq_worker q = WorkerClearProcess bio \<Longrightarrow> worker_step E q (worker_process E bio WorkerClear q)"
| clear_end: "dq_worker q = WorkerClear \<Longrightarrow> dq_bios q = [] \<Longrightarrow> worker_step E q (q\<lparr>dq_worker := WorkerDone\<rparr>)"

text \<open>The threads that send requests, and the destructor.  A push leaves a \<open>notify_one\<close> to be done, a store of the flag a \<open>notify_all\<close>.\<close>

definition enqueue_bio :: "kernel_bio \<Rightarrow> ('s, 'd) dm_queue \<Rightarrow> ('s, 'd) dm_queue" where
  "enqueue_bio bio q =
     q\<lparr>dq_bios := dq_bios q @ [bio], dq_enqueued := dq_enqueued q @ [bio], dq_notify_one := Suc (dq_notify_one q)\<rparr>"

definition set_stopped :: "('s, 'd) dm_queue \<Rightarrow> ('s, 'd) dm_queue" where
  "set_stopped q = q\<lparr>dq_should_stop := True, dq_notify_all := Suc (dq_notify_all q)\<rparr>"

inductive client_step :: "('s, 'd) dm_queue \<Rightarrow> ('s, 'd) dm_queue \<Rightarrow> bool" where
  enqueue_push: "(\<And>b. dq_worker q \<noteq> WorkerClearProcess b) \<Longrightarrow> client_step q (enqueue_bio bio q)"
| enqueue_notify: "dq_notify_one q = Suc n \<Longrightarrow> client_step q (q\<lparr>dq_notify_one := n, dq_worker := wake (dq_worker q)\<rparr>)"
| set_stopped_store: "client_step q (set_stopped q)"
| set_stopped_notify: "dq_notify_all q = Suc n \<Longrightarrow> client_step q (q\<lparr>dq_notify_all := n, dq_worker := wake (dq_worker q)\<rparr>)"

abbreviation dm_step :: "('s, 'd) env \<Rightarrow> ('s, 'd) dm_queue \<Rightarrow> ('s, 'd) dm_queue \<Rightarrow> bool" where
  "dm_step E q q' \<equiv> worker_step E q q' \<or> client_step q q'"

abbreviation dm_reachable :: "('s, 'd) env \<Rightarrow> ('s, 'd) pfs_disk \<Rightarrow> ('s, 'd) dm_queue \<Rightarrow> bool" where
  "dm_reachable E disk q \<equiv> (dm_step E)\<^sup>*\<^sup>* (queue_spawn disk) q"

text \<open>\<open>map\<close>: only reads and writes are queued; a target without its private data refuses every request.\<close>

datatype map_state = MapSubmitted | MapKill

definition dm_map :: "kernel_bio \<Rightarrow> ('s, 'd) dm_queue option \<Rightarrow> map_state \<times> ('s, 'd) dm_queue option" where
  "dm_map bio private = (case private of
     None \<Rightarrow> (MapKill, None)
   | Some q \<Rightarrow> (case bio_get_op bio of
       OpRead \<Rightarrow> (MapSubmitted, Some (enqueue_bio bio q))
     | OpWrite \<Rightarrow> (MapSubmitted, Some (enqueue_bio bio q))
     | _ \<Rightarrow> (MapKill, Some q)))"

lemma dm_reachable_spawn: "dm_reachable E disk (queue_spawn disk)"
  by (rule rtranclp.rtrancl_refl)

lemma dm_reachable_worker: "dm_reachable E disk q \<Longrightarrow> worker_step E q q' \<Longrightarrow> dm_reachable E disk q'"
  by (erule rtranclp.rtrancl_into_rtrancl) simp

lemma dm_reachable_client: "dm_reachable E disk q \<Longrightarrow> client_step q q' \<Longrightarrow> dm_reachable E disk q'"
  by (erule rtranclp.rtrancl_into_rtrancl) simp

section \<open>Order of requests\<close>

primrec in_hand :: "worker_pc \<Rightarrow> kernel_bio list" where
  "in_hand WorkerCheck = []"
| "in_hand WorkerPop = []"
| "in_hand WorkerAsleep = []"
| "in_hand (WorkerProcess bio) = [bio]"
| "in_hand WorkerClear = []"
| "in_hand (WorkerClearProcess bio) = [bio]"
| "in_hand WorkerDone = []"
| "in_hand WorkerPanicked = []"

lemma in_hand_wake [simp]: "in_hand (wake pc) = in_hand pc" "wake pc = WorkerPanicked \<longleftrightarrow> pc = WorkerPanicked"
  by (simp_all add: wake_def)

text \<open>
  The ended requests are those of a prefix of the enqueued ones, processed in order; the rest is in the hands of the worker
  and in the queue.  A worker that panicked has lost the request it was processing.
\<close>

definition order_inv :: "('s, 'd) env \<Rightarrow> ('s, 'd) pfs_disk \<Rightarrow> ('s, 'd) dm_queue \<Rightarrow> bool" where
  "order_inv E disk q \<longleftrightarrow> dq_worker q \<noteq> WorkerPanicked \<longrightarrow>
     (\<exists>ps. dq_enqueued q = ps @ in_hand (dq_worker q) @ dq_bios q \<and> dm_process_all E ps disk = (Ok (dq_ended q), dq_disk q))"

lemma dm_process_all_snoc:
  assumes "dm_process_all E ps disk = (Ok rs, d)" "dm_process E bio d = (Ok r, d')"
  shows "dm_process_all E (ps @ [bio]) disk = (Ok (rs @ [r]), d')"
  using assms
proof (induction ps arbitrary: disk rs)
  case (Cons p ps)
  then show ?case by (auto simp: outcome_simps)
qed simp

lemma worker_process_order:
  assumes o: "order_inv E disk q" "in_hand (dq_worker q) = [bio]" and n: "in_hand next = []"
  shows "order_inv E disk (worker_process E bio next q)"
proof -
  have "dq_worker q \<noteq> WorkerPanicked" using o(2) by auto
  then obtain ps where ps: "dq_enqueued q = ps @ bio # dq_bios q" "dm_process_all E ps disk = (Ok (dq_ended q), dq_disk q)"
    using o by (auto simp: order_inv_def)
  obtain r d where p: "dm_process E bio (dq_disk q) = (r, d)" by fastforce
  show ?thesis
  proof (cases r)
    case (Ok bio')
    then have "dm_process_all E (ps @ [bio]) disk = (Ok (dq_ended q @ [bio']), d)"
      using dm_process_all_snoc [OF ps(2)] p by simp
    then show ?thesis using Ok p ps(1) n by (auto simp: order_inv_def worker_process_def)
  qed (use p in \<open>simp_all add: order_inv_def worker_process_def\<close>)
qed

lemma order_inv_worker: "worker_step E q q' \<Longrightarrow> order_inv E disk q \<Longrightarrow> order_inv E disk q'"
proof (induction rule: worker_step.induct)
  case (process_bio q bio)
  then show ?case by (intro worker_process_order) simp_all
next
  case (clear_bio q bio)
  then show ?case by (intro worker_process_order) simp_all
qed (auto simp: order_inv_def)

lemma order_inv_client: "client_step q q' \<Longrightarrow> order_inv E disk q \<Longrightarrow> order_inv E disk q'"
  by (induction rule: client_step.induct) (auto simp: order_inv_def enqueue_bio_def set_stopped_def)

lemma order_inv_reachable: "dm_reachable E disk q \<Longrightarrow> order_inv E disk q"
proof (induction rule: rtranclp_induct)
  case base
  show ?case by (simp add: order_inv_def queue_spawn_def)
next
  case (step a b)
  then show ?case using order_inv_worker [of E a b disk] order_inv_client [of a b E disk] by blast
qed

text \<open>C6: In every reachable state of the queue, whatever the interleaving of the threads that enqueue, the worker and the
  destructor, a worker that has not panicked has ended exactly the results of a prefix of the enqueued requests, processed one after
  the other in the order they were enqueued, on the disk that this leaves; the other requests are the one in its hands and
  those in the queue, in order.  No request is lost, repeated or overtaken.
\<close>

theorem queue_processes_in_order:
  assumes "dm_reachable E disk q" "dq_worker q \<noteq> WorkerPanicked"
  shows "\<exists>ps. dq_enqueued q = ps @ in_hand (dq_worker q) @ dq_bios q \<and>
    dm_process_all E ps disk = (Ok (dq_ended q), dq_disk q)"
  using order_inv_reachable [OF assms(1)] assms(2) by (simp add: order_inv_def)

section \<open>Wake-ups\<close>

definition wake_inv :: "('s, 'd) dm_queue \<Rightarrow> bool" where
  "wake_inv q \<longleftrightarrow> (dq_worker q = WorkerAsleep \<longrightarrow> dq_bios q = [] \<or> 0 < dq_notify_one q)"

lemma wake_not_asleep [simp]: "wake pc \<noteq> WorkerAsleep"
  by (simp add: wake_def)

lemma worker_process_pc: "dq_worker (worker_process E bio next q) \<in> {next, WorkerPanicked}"
  by (auto simp: worker_process_def split: prod.split outcome.split)

lemma wake_inv_worker: "worker_step E q q' \<Longrightarrow> wake_inv q \<Longrightarrow> wake_inv q'"
proof (induction rule: worker_step.induct)
  case (process_bio q bio)
  show ?case using worker_process_pc [of E bio WorkerCheck q] by (auto simp: wake_inv_def)
next
  case (clear_bio q bio)
  show ?case using worker_process_pc [of E bio WorkerClear q] by (auto simp: wake_inv_def)
qed (simp_all add: wake_inv_def)

lemma wake_inv_client: "client_step q q' \<Longrightarrow> wake_inv q'"
  if "wake_inv q"
  using that by (auto simp: wake_inv_def enqueue_bio_def set_stopped_def elim!: client_step.cases)

text \<open>C8: The wake-up of an enqueued request is never lost: whenever the worker sleeps while a request is in the queue, the
  thread that pushed a request has yet to notify it, so that a step of a client takes the worker out of its sleep.
\<close>

theorem enqueued_request_wakes_worker:
  assumes "dm_reachable E disk q" "dq_worker q = WorkerAsleep" "dq_bios q \<noteq> []"
  shows "\<exists>q'. client_step q q' \<and> dq_worker q' = WorkerCheck \<and> dq_bios q' = dq_bios q \<and> dq_notify_one q = Suc (dq_notify_one q')"
proof -
  have "wake_inv q" using assms(1)
  proof (induction rule: rtranclp_induct)
    case base
    show ?case by (simp add: wake_inv_def queue_spawn_def)
  next
    case (step a b)
    then show ?case using wake_inv_worker [of E a b] wake_inv_client [of a b] by blast
  qed
  then obtain n where n: "dq_notify_one q = Suc n" using assms(2,3) by (cases "dq_notify_one q") (auto simp: wake_inv_def)
  show ?thesis using enqueue_notify [OF n] assms(2) n by (intro exI [of _ "q\<lparr>dq_notify_one := n, dq_worker := wake (dq_worker q)\<rparr>"]) (simp add: wake_def)
qed

section \<open>Stopping\<close>

text \<open>The worker is deterministic, so the steps it can make on its own are those it makes.\<close>

lemma worker_step_det: "worker_step E q a \<Longrightarrow> worker_step E q b \<Longrightarrow> a = b"
  by (induction rule: worker_step.induct) (auto elim: worker_step.cases)

lemma worker_step_first: "worker_step E q a \<Longrightarrow> (worker_step E ^^ n) a b \<Longrightarrow> (worker_step E ^^ Suc n) q b"
  by (rule relpowp_Suc_I2)

definition drained :: "kernel_bio list \<Rightarrow> ('s, 'd) pfs_disk \<Rightarrow> ('s, 'd) dm_queue \<Rightarrow> ('s, 'd) dm_queue" where
  "drained rs d q = q\<lparr>dq_bios := [], dq_disk := d, dq_ended := dq_ended q @ rs, dq_worker := WorkerDone\<rparr>"

lemma clear_drains:
  assumes "dq_worker q = WorkerClear" "dm_process_all E (dq_bios q) (dq_disk q) = (Ok rs, d)"
  shows "(worker_step E ^^ Suc (2 * length (dq_bios q))) q (drained rs d q)"
  using assms
proof (induction "dq_bios q" arbitrary: q rs)
  case Nil
  then have "drained rs d q = q\<lparr>dq_worker := WorkerDone\<rparr>" by (cases q) (simp add: drained_def)
  then show ?case using clear_end [of q E] Nil by (simp add: eq_OO)
next
  case (Cons bio bios)
  obtain r d1 rs1 where p: "dm_process E bio (dq_disk q) = (Ok r, d1)" "dm_process_all E bios d1 = (Ok rs1, d)" "rs = r # rs1"
    using Cons.prems(2) unfolding Cons.hyps(2) [symmetric] by (auto simp: outcome_simps)
  let ?q1 = "q\<lparr>dq_bios := bios, dq_worker := WorkerClearProcess bio\<rparr>"
  let ?q2 = "?q1\<lparr>dq_disk := d1, dq_ended := dq_ended q @ [r], dq_worker := WorkerClear\<rparr>"
  have s1: "worker_step E q ?q1" using Cons.prems(1) Cons.hyps(2) by (intro clear_pop) simp_all
  have s2: "worker_step E ?q1 ?q2" using clear_bio [of ?q1 bio E] p(1) by (simp add: worker_process_def)
  have "(worker_step E ^^ Suc (2 * length bios)) ?q2 (drained rs1 d ?q2)" using Cons.hyps(1) [of ?q2 rs1] p(2) by simp
  moreover have "drained rs1 d ?q2 = drained rs d q" using p(3) by (simp add: drained_def)
  ultimately have "(worker_step E ^^ Suc (2 * length bios)) ?q2 (drained rs d q)" by argo
  from worker_step_first [OF s1 worker_step_first [OF s2 this]] show ?case
    unfolding Cons.hyps(2) [symmetric] by (simp del: relpowp.simps)
qed

text \<open>A worker that will look at the flag, or has.\<close>

fun awake :: "worker_pc \<Rightarrow> kernel_bio list \<Rightarrow> bool" where
  "awake WorkerPop bios = (bios \<noteq> [])"
| "awake pc bios = (pc \<notin> {WorkerAsleep, WorkerDone, WorkerPanicked})"

lemma check_drains:
  assumes "dq_worker q = WorkerCheck" "dq_should_stop q" "dm_process_all E (dq_bios q) (dq_disk q) = (Ok rs, d)"
  shows "(worker_step E ^^ (2 * length (dq_bios q) + 2)) q (drained rs d q)"
proof -
  have s: "worker_step E q (q\<lparr>dq_worker := WorkerClear\<rparr>)" using check_stop [OF assms(1), of E] assms(2) by simp
  have "(worker_step E ^^ Suc (2 * length (dq_bios q))) (q\<lparr>dq_worker := WorkerClear\<rparr>) (drained rs d (q\<lparr>dq_worker := WorkerClear\<rparr>))"
    using clear_drains [of "q\<lparr>dq_worker := WorkerClear\<rparr>" E rs d] assms(3) by simp
  then have "(worker_step E ^^ Suc (2 * length (dq_bios q))) (q\<lparr>dq_worker := WorkerClear\<rparr>) (drained rs d q)"
    by (simp add: drained_def del: relpowp.simps)
  from worker_step_first [OF s this] show ?thesis by (simp del: relpowp.simps)
qed

text \<open>A request in hand is processed first, and the worker then is at \<open>next\<close>.\<close>

lemma in_hand_drains:
  assumes "worker_step E q (worker_process E bio next q)" "dm_process_all E (bio # dq_bios q) (dq_disk q) = (Ok rs, d)"
    and "\<And>q rs. dq_worker q = next \<Longrightarrow> dm_process_all E (dq_bios q) (dq_disk q) = (Ok rs, d) \<Longrightarrow> dq_should_stop q \<Longrightarrow>
      (worker_step E ^^ k (length (dq_bios q))) q (drained rs d q)"
    and "dq_should_stop q"
  shows "(worker_step E ^^ Suc (k (length (dq_bios q)))) q (drained rs d q)"
proof -
  obtain r d1 rs1 where p: "dm_process E bio (dq_disk q) = (Ok r, d1)" "dm_process_all E (dq_bios q) d1 = (Ok rs1, d)" "rs = r # rs1"
    using assms(2) by (auto simp: outcome_simps)
  let ?q = "q\<lparr>dq_disk := d1, dq_ended := dq_ended q @ [r], dq_worker := next\<rparr>"
  have "worker_step E q ?q" using assms(1) p(1) by (simp add: worker_process_def)
  moreover have "(worker_step E ^^ k (length (dq_bios q))) ?q (drained rs1 d ?q)" using assms(3) [of ?q rs1] assms(4) p(2) by simp
  moreover have "drained rs1 d ?q = drained rs d q" using p(3) by (simp add: drained_def)
  ultimately show ?thesis using worker_step_first [of E q ?q] by simp
qed

text \<open>C7: Stopping ends: once the stop flag is set, a worker that is not asleep, nor about to fall asleep on an empty queue,
  finishes after at most two steps per request and two more, with the request in its hands and every request of the queue
  processed in order, if processing them succeeds.
\<close>

theorem stopped_worker_drains:
  assumes "dq_should_stop q" "awake (dq_worker q) (dq_bios q)"
    and "dm_process_all E (in_hand (dq_worker q) @ dq_bios q) (dq_disk q) = (Ok rs, d)"
  shows "\<exists>n \<le> 2 * length (in_hand (dq_worker q) @ dq_bios q) + 2. (worker_step E ^^ n) q (drained rs d q)"
proof (cases "dq_worker q")
  case WorkerCheck
  then show ?thesis using check_drains [OF WorkerCheck assms(1), of E rs d] assms(3)
    by (intro exI [of _ "2 * length (dq_bios q) + 2"]) (simp del: relpowp.simps)
next
  case WorkerPop
  then obtain bio bios where b: "dq_bios q = bio # bios" using assms(2) by (cases "dq_bios q") auto
  let ?q = "q\<lparr>dq_bios := bios, dq_worker := WorkerProcess bio\<rparr>"
  have "(worker_step E ^^ Suc (2 * length (dq_bios ?q) + 2)) ?q (drained rs d ?q)"
    using assms(1,3) WorkerPop b check_drains [of _ E _ d] 
    by (intro in_hand_drains [OF process_bio [of _ bio], where k = "\<lambda>n. 2 * n + 2"]) (simp_all del: relpowp.simps)
  from worker_step_first [OF pop_bio [OF WorkerPop b] this] show ?thesis
    using b WorkerPop by (intro exI [of _ "Suc (Suc (Suc (Suc (2 * length bios))))"]) (simp add: drained_def del: relpowp.simps)
next
  case (WorkerProcess bio)
  have "(worker_step E ^^ Suc (2 * length (dq_bios q) + 2)) q (drained rs d q)"
    using assms(1,3) WorkerProcess check_drains [of _ E _ d] 
    by (intro in_hand_drains [OF process_bio [of _ bio], where k = "\<lambda>n. 2 * n + 2"]) (simp_all del: relpowp.simps)
  then show ?thesis using WorkerProcess by (intro exI [of _ "Suc (Suc (Suc (2 * length (dq_bios q))))"]) (simp del: relpowp.simps)
next
  case WorkerClear
  then show ?thesis using clear_drains [OF WorkerClear, of E rs d] assms(3)
    by (intro exI [of _ "Suc (2 * length (dq_bios q))"]) (simp del: relpowp.simps)
next
  case (WorkerClearProcess bio)
  have "(worker_step E ^^ Suc (Suc (2 * length (dq_bios q)))) q (drained rs d q)"
    using assms(1,3) WorkerClearProcess clear_drains [of _ E _ d]
    by (intro in_hand_drains [OF clear_bio [of _ bio], where k = "\<lambda>n. Suc (2 * n)"]) (simp_all del: relpowp.simps)
  then show ?thesis using WorkerClearProcess by (intro exI [of _ "Suc (Suc (2 * length (dq_bios q)))"]) (simp del: relpowp.simps)
qed (use assms(2) in simp_all)

lemma client_step_quiet:
  assumes "dq_notify_one q = 0" "dq_notify_all q = 0" "dq_worker q = WorkerAsleep"
  shows "client_step q q' \<longleftrightarrow> q' = set_stopped q \<or> q' \<in> range (\<lambda>bio. enqueue_bio bio q)"
  using assms by (auto intro: client_step.intros elim!: client_step.cases)

text \<open>C30: A stop can be missed: \<open>set_stopped\<close> stores the flag and notifies without the lock, so both can fall between the
  worker's look at the flag and its wait.  The state this leads to has the flag set, no notification to come and a sleeping worker:
  all that can still happen is another request or another stop, and the destructor, which now waits for the worker to end, sends neither.
\<close>

theorem stop_can_be_missed:
  "\<exists>q. dm_reachable E disk q \<and> dq_should_stop q \<and> dq_worker q = WorkerAsleep \<and> dq_enqueued q = [] \<and>
    {q'. dm_step E q q'} = insert (set_stopped q) (range (\<lambda>bio. enqueue_bio bio q))"
proof -
  let ?q0 = "queue_spawn disk"
  let ?q1 = "?q0\<lparr>dq_worker := WorkerPop\<rparr>"
  let ?q2 = "set_stopped ?q1"
  let ?q3 = "?q2\<lparr>dq_notify_all := 0\<rparr>"
  let ?q4 = "?q3\<lparr>dq_worker := WorkerAsleep\<rparr>"
  have s1: "worker_step E ?q0 ?q1" using check_stop [of ?q0 E] by (simp add: queue_spawn_def)
  have s3: "client_step ?q2 ?q3" using set_stopped_notify [of ?q2 0] by (simp add: queue_spawn_def set_stopped_def wake_def)
  have s4: "worker_step E ?q3 ?q4" by (rule pop_wait) (simp_all add: queue_spawn_def set_stopped_def)
  note r1 = dm_reachable_worker [OF dm_reachable_spawn s1]
  note r = dm_reachable_worker [OF dm_reachable_client [OF dm_reachable_client [OF r1 set_stopped_store] s3] s4]
  have "\<not> worker_step E ?q4 q'" for q' by (auto elim: worker_step.cases)
  moreover have "client_step ?q4 q' \<longleftrightarrow> q' = set_stopped ?q4 \<or> q' \<in> range (\<lambda>bio. enqueue_bio bio ?q4)" for q'
    by (rule client_step_quiet) (simp_all add: queue_spawn_def set_stopped_def)
  ultimately have "{q'. dm_step E ?q4 q'} = insert (set_stopped ?q4) (range (\<lambda>bio. enqueue_bio bio ?q4))" by blast
  then show ?thesis using r by (intro exI [of _ ?q4]) (simp add: queue_spawn_def set_stopped_def)
qed

section \<open>Examples\<close>

text \<open>An empty write, and the queue that has processed it.\<close>

definition empty_write :: kernel_bio where
  "empty_write = \<lparr>kb_opf = 1, kb_sector = 0, kb_size = 0, kb_idx = 0, kb_vecs = [], kb_ended = False\<rparr>"

definition queue_with_write :: "('s, 'd) pfs_disk \<Rightarrow> ('s, 'd) dm_queue" where
  "queue_with_write disk = enqueue_bio empty_write (queue_spawn disk)"

lemma empty_write_processed: "dm_process E empty_write d = (Ok (bio_end empty_write), d)"
  by (simp add: dm_process_def bio_get_op_def bio_op_from_def empty_write_def bio_unaligned_def write_aligned_def bio_vecs_def
    bio_iter_def has_next_def outcome_simps)

lemma queue_with_write_reachable: "dm_reachable E disk (queue_with_write disk)"
  unfolding queue_with_write_def by (rule dm_reachable_client [OF dm_reachable_spawn enqueue_push]) (simp add: queue_spawn_def)

theorem queue_processes_in_order_witness:
  "\<forall>E disk. \<exists>q. dm_reachable E disk q \<and> dq_worker q = WorkerCheck \<and> dq_bios q = [] \<and>
    dq_enqueued q = [empty_write] \<and> dm_process_all E [empty_write] disk = (Ok (dq_ended q), dq_disk q)"
proof (intro allI)
  fix E disk
  let ?q0 = "queue_with_write disk"
  let ?q1 = "?q0\<lparr>dq_worker := WorkerPop\<rparr>"
  let ?q2 = "?q1\<lparr>dq_bios := [], dq_worker := WorkerProcess empty_write\<rparr>"
  let ?q3 = "?q2\<lparr>dq_ended := [bio_end empty_write], dq_worker := WorkerCheck\<rparr>"
  note defs = queue_with_write_def queue_spawn_def enqueue_bio_def
  have s1: "worker_step E ?q0 ?q1" using check_stop [of ?q0 E] by (simp add: defs)
  have s2: "worker_step E ?q1 ?q2" using pop_bio [of ?q1 empty_write "[]" E] by (simp add: defs)
  have s3: "worker_step E ?q2 ?q3" using process_bio [of ?q2 empty_write E]
    by (simp add: worker_process_def empty_write_processed) (simp add: defs)
  note r = dm_reachable_worker [OF dm_reachable_worker [OF dm_reachable_worker [OF queue_with_write_reachable s1] s2] s3]
  then show "\<exists>q. dm_reachable E disk q \<and> dq_worker q = WorkerCheck \<and> dq_bios q = [] \<and>
    dq_enqueued q = [empty_write] \<and> dm_process_all E [empty_write] disk = (Ok (dq_ended q), dq_disk q)"
    using queue_processes_in_order [OF r] by (intro exI [of _ ?q3]) (simp add: defs)
qed

theorem enqueued_request_wakes_worker_witness:
  "\<forall>E disk. \<exists>q q'. dm_reachable E disk q \<and> dq_worker q = WorkerAsleep \<and> dq_bios q = [empty_write] \<and>
    client_step q q' \<and> dq_worker q' = WorkerCheck \<and> dq_bios q' = [empty_write]"
proof (intro allI)
  fix E disk
  let ?q0 = "queue_spawn disk"
  let ?q1 = "?q0\<lparr>dq_worker := WorkerPop\<rparr>"
  let ?q2 = "?q0\<lparr>dq_worker := WorkerAsleep\<rparr>"
  let ?q3 = "enqueue_bio empty_write ?q2"
  have s1: "worker_step E ?q0 ?q1" using check_stop [of ?q0 E] by (simp add: queue_spawn_def)
  have s2: "worker_step E ?q1 ?q2" using pop_wait [of ?q1 E] by (simp add: queue_spawn_def)
  have s3: "client_step ?q2 ?q3" by (rule enqueue_push) simp
  note r = dm_reachable_client [OF dm_reachable_worker [OF dm_reachable_worker [OF dm_reachable_spawn s1] s2] s3]
  have q: "dq_worker ?q3 = WorkerAsleep" "dq_bios ?q3 = [empty_write]" by (simp_all add: enqueue_bio_def queue_spawn_def)
  have "dq_bios ?q3 \<noteq> []" using q(2) by simp
  from enqueued_request_wakes_worker [OF r q(1) this] obtain q' where "client_step ?q3 q'" "dq_worker q' = WorkerCheck" "dq_bios q' = dq_bios ?q3"
    by blast
  then show "\<exists>q q'. dm_reachable E disk q \<and> dq_worker q = WorkerAsleep \<and> dq_bios q = [empty_write] \<and>
    client_step q q' \<and> dq_worker q' = WorkerCheck \<and> dq_bios q' = [empty_write]"
    using r q by (intro exI [of _ ?q3] exI [of _ q']) simp
qed

theorem stopped_worker_drains_witness:
  "\<forall>E disk. \<exists>n \<le> 6. (worker_step E ^^ n) (set_stopped (enqueue_bio empty_write (queue_with_write disk)))
    (drained [bio_end empty_write, bio_end empty_write] disk (set_stopped (enqueue_bio empty_write (queue_with_write disk))))"
proof (intro allI)
  fix E disk
  let ?q = "set_stopped (enqueue_bio empty_write (queue_with_write disk))"
  have q: "dq_should_stop ?q" "dq_worker ?q = WorkerCheck" "dq_bios ?q = [empty_write, empty_write]" "dq_disk ?q = disk"
    by (simp_all add: set_stopped_def enqueue_bio_def queue_with_write_def queue_spawn_def)
  have p: "dm_process_all E (in_hand (dq_worker ?q) @ dq_bios ?q) (dq_disk ?q) = (Ok [bio_end empty_write, bio_end empty_write], disk)"
    using q by (simp add: empty_write_processed outcome_simps)
  have "awake (dq_worker ?q) (dq_bios ?q)" using q by simp
  from stopped_worker_drains [OF q(1) this p] q
  show "\<exists>n \<le> 6. (worker_step E ^^ n) ?q (drained [bio_end empty_write, bio_end empty_write] disk ?q)" by simp
qed

end
