(* ===== verification/Kernel_Arc.thy ===== *)
theory Kernel_Arc
  imports Prelude "HOL-Library.Word"
begin

text \<open>
  \<open>linux/bindings/src/sync/arc.rs\<close>: the reference-counted pointer of the kernel build.

  One allocation, shared by any number of \<open>Arc\<close> and \<open>Weak\<close> handles of any threads.  A step is one atomic
  operation on a counter, or one of the actions that follow it (dropping the value, freeing the memory), so every
  interleaving of the methods is a run.  \<open>refcount_inc\<close> of the kernel is a parameter; the other counter operations
  are the plain atomic ones, which wrap.  Beside the fields of \<open>ArcInner\<close> the state counts the handles, the threads
  inside \<open>drop\<close>, and how often the value was dropped and the memory freed.
\<close>

section \<open>State and steps\<close>

record arc_state =
  as_strong :: "32 word"
  as_weak :: "32 word"
  as_arcs :: nat
  as_weaks :: nat
  as_dropping :: nat
  as_releasing :: nat
  as_freeing :: nat
  as_drops :: nat
  as_frees :: nat
  as_building :: bool
  as_panicked :: bool

definition arc_try_new :: arc_state where
  "arc_try_new = \<lparr>as_strong = 1, as_weak = 1, as_arcs = 1, as_weaks = 0, as_dropping = 0, as_releasing = 0, as_freeing = 0,
     as_drops = 0, as_frees = 0, as_building = False, as_panicked = False\<rparr>"

text \<open>\<open>try_new_cyclic\<close> while \<open>data_fn\<close> runs: it may use the weak pointer, but not drop it.\<close>

definition arc_try_new_cyclic :: arc_state where
  "arc_try_new_cyclic = arc_try_new\<lparr>as_strong := 0, as_arcs := 0, as_building := True\<rparr>"

datatype arc_op = CyclicDone | CloneArc | Downgrade | DropArc | DropData | ReleaseWeak | CloneWeak | DropWeak | FreeMemory | Upgrade

text \<open>The handles whose methods can be called: a weak pointer is one, and the one lent to \<open>data_fn\<close>.\<close>

definition has_weak :: "arc_state \<Rightarrow> bool" where
  "has_weak st \<longleftrightarrow> 0 < as_weaks st \<or> as_building st"

inductive arc_step :: "(32 word \<Rightarrow> 32 word) \<Rightarrow> arc_op \<Rightarrow> arc_state \<Rightarrow> arc_state \<Rightarrow> bool" for refcount_inc where
  cyclic_done: "as_building st \<Longrightarrow>
    arc_step refcount_inc CyclicDone st (st\<lparr>as_strong := as_strong st + 1, as_arcs := Suc (as_arcs st), as_building := False,
      as_panicked := (as_panicked st \<or> as_strong st \<noteq> 0)\<rparr>)"
| clone_arc: "0 < as_arcs st \<Longrightarrow>
    arc_step refcount_inc CloneArc st (st\<lparr>as_strong := refcount_inc (as_strong st), as_arcs := Suc (as_arcs st)\<rparr>)"
| downgrade: "0 < as_arcs st \<Longrightarrow>
    arc_step refcount_inc Downgrade st (st\<lparr>as_weak := refcount_inc (as_weak st), as_weaks := Suc (as_weaks st)\<rparr>)"
| drop_arc: "as_arcs st = Suc n \<Longrightarrow>
    arc_step refcount_inc DropArc st (st\<lparr>as_strong := as_strong st - 1, as_arcs := n,
      as_dropping := as_dropping st + (if as_strong st = 1 then 1 else 0)\<rparr>)"
| drop_data: "as_dropping st = Suc n \<Longrightarrow>
    arc_step refcount_inc DropData st (st\<lparr>as_dropping := n, as_drops := Suc (as_drops st), as_releasing := Suc (as_releasing st)\<rparr>)"
| release_weak: "as_releasing st = Suc n \<Longrightarrow>
    arc_step refcount_inc ReleaseWeak st (st\<lparr>as_weak := as_weak st - 1, as_releasing := n,
      as_freeing := as_freeing st + (if as_weak st = 1 then 1 else 0)\<rparr>)"
| clone_weak: "has_weak st \<Longrightarrow>
    arc_step refcount_inc CloneWeak st (st\<lparr>as_weak := refcount_inc (as_weak st), as_weaks := Suc (as_weaks st)\<rparr>)"
| drop_weak: "as_weaks st = Suc n \<Longrightarrow>
    arc_step refcount_inc DropWeak st (st\<lparr>as_weak := as_weak st - 1, as_weaks := n,
      as_freeing := as_freeing st + (if as_weak st = 1 then 1 else 0)\<rparr>)"
| free_memory: "as_freeing st = Suc n \<Longrightarrow>
    arc_step refcount_inc FreeMemory st (st\<lparr>as_freeing := n, as_frees := Suc (as_frees st)\<rparr>)"
| upgrade: "has_weak st \<Longrightarrow>
    arc_step refcount_inc Upgrade st (st\<lparr>as_strong := as_strong st + 1,
      as_arcs := as_arcs st + (if as_strong st \<noteq> 0 then 1 else 0)\<rparr>)"

inductive_cases arc_stepE: "arc_step R l st st'"

text \<open>The counts as \<open>usize\<close>: an \<open>i32\<close> is read and extended with its sign.\<close>

definition atomic_read :: "32 word \<Rightarrow> nat" where
  "atomic_read refs = nat (sint refs mod 2 ^ 64)"

definition strong_count :: "arc_state \<Rightarrow> nat" where
  "strong_count st = atomic_read (as_strong st)"

definition arc_weak_count :: "arc_state \<Rightarrow> ('e, nat) outcome" where
  "arc_weak_count st = (let cnt = atomic_read (as_weak st) in if cnt = 0 then Panic else Ok (cnt - 1))"

text \<open>\<open>Weak::weak_count\<close> reads the weak count of one state and the strong count of a later one.\<close>

definition weak_weak_count :: "arc_state \<Rightarrow> arc_state \<Rightarrow> ('e, nat) outcome" where
  "weak_weak_count st later = (let weak = atomic_read (as_weak st) in
     if strong_count later = 0 then Ok 0 else if weak = 0 then Panic else Ok (weak - 1))"

abbreviation arc_reachable :: "(32 word \<Rightarrow> 32 word) \<Rightarrow> arc_state \<Rightarrow> bool" where
  "arc_reachable R st \<equiv> (\<exists>st0 \<in> {arc_try_new, arc_try_new_cyclic}. (\<lambda>a b. \<exists>l. arc_step R l a b)\<^sup>*\<^sup>* st0 st)"

text \<open>The kernel's \<open>refcount_inc\<close> adds one to a count that is neither zero nor at the limit.\<close>

definition refcount_inc_adds :: "(32 word \<Rightarrow> 32 word) \<Rightarrow> bool" where
  "refcount_inc_adds R \<longleftrightarrow> (\<forall>n. 0 < n \<and> n < 2 ^ 31 - 1 \<longrightarrow> R (of_nat n) = of_nat n + 1)"

section \<open>Runs that do not upgrade a dead pointer\<close>

text \<open>
  The steps of a program that upgrades a \<open>Weak\<close> only while the value is alive, and does not have two thousand million
  handles at a time.
\<close>

definition careful_step :: "(32 word \<Rightarrow> 32 word) \<Rightarrow> arc_state \<Rightarrow> arc_state \<Rightarrow> bool" where
  "careful_step R st st' \<longleftrightarrow> (\<exists>l. arc_step R l st st' \<and> (l = Upgrade \<longrightarrow> 0 < as_arcs st)) \<and> as_arcs st + as_weaks st < 2 ^ 31 - 2"

abbreviation careful_reachable :: "(32 word \<Rightarrow> 32 word) \<Rightarrow> arc_state \<Rightarrow> bool" where
  "careful_reachable R st \<equiv> (\<exists>st0 \<in> {arc_try_new, arc_try_new_cyclic}. (careful_step R)\<^sup>*\<^sup>* st0 st)"

text \<open>The strong handles share one weak reference, until the thread that dropped the value gives it back.\<close>

definition shared_weak :: "arc_state \<Rightarrow> nat" where
  "shared_weak st = (if 0 < as_arcs st \<or> as_building st then 1 else 0) + as_dropping st + as_releasing st"

definition arc_inv :: "arc_state \<Rightarrow> bool" where
  "arc_inv st \<longleftrightarrow> as_strong st = of_nat (as_arcs st) \<and> as_weak st = of_nat (as_weaks st + shared_weak st) \<and>
     (as_building st \<longrightarrow> as_arcs st = 0) \<and> \<not> as_panicked st \<and>
     (if 0 < as_arcs st \<or> as_building st then as_dropping st = 0 \<and> as_drops st = 0 \<and> as_releasing st = 0
      else as_dropping st + as_drops st = 1 \<and> as_releasing st \<le> as_drops st) \<and>
     as_freeing st + as_frees st = (if as_weaks st + shared_weak st = 0 then 1 else 0) \<and>
     as_arcs st + as_weaks st \<le> 2 ^ 31 - 2"

lemma of_nat_word_eq_1: "n < 2 ^ 32 \<Longrightarrow> (of_nat n :: 32 word) = 1 \<longleftrightarrow> n = 1"
  using word_of_nat_eq_iff [of n 1, where 'a = 32] by (simp add: take_bit_nat_eq_self)

lemma of_nat_word_eq_0: "n < 2 ^ 32 \<Longrightarrow> (of_nat n :: 32 word) = 0 \<longleftrightarrow> n = 0"
  using word_of_nat_eq_iff [of n 0, where 'a = 32] by (simp add: take_bit_nat_eq_self)

lemma arc_inv_step:
  assumes R: "refcount_inc_adds R" and s: "careful_step R st st'" and i: "arc_inv st"
  shows "arc_inv st'"
proof -
  have b: "as_arcs st + as_weaks st < 2 ^ 31 - 2" using s by (simp add: careful_step_def)
  obtain l where l: "arc_step R l st st'" "l = Upgrade \<longrightarrow> 0 < as_arcs st" using s by (auto simp: careful_step_def)
  have R': "R (of_nat n) = of_nat (Suc n)" if "0 < n" "n < 2 ^ 31 - 1" for n
    using R that by (simp add: refcount_inc_adds_def add.commute)
  have sh: "shared_weak st \<le> 1" using i by (auto simp: arc_inv_def shared_weak_def split: if_splits)
  have e: "as_strong st = 1 \<longleftrightarrow> as_arcs st = 1" "as_strong st = 0 \<longleftrightarrow> as_arcs st = 0" "as_weak st = 1 \<longleftrightarrow> as_weaks st + shared_weak st = 1"
    using i b sh of_nat_word_eq_1 [of "as_arcs st"] of_nat_word_eq_0 [of "as_arcs st"] of_nat_word_eq_1 [of "as_weaks st + shared_weak st"]
    by (simp_all add: arc_inv_def)
  from l(1) show ?thesis
    by (cases rule: arc_step.cases)
      (use i b l(2) e R' [of "as_arcs st"] R' [of "as_weaks st + shared_weak st"] sh in
        \<open>auto simp: arc_inv_def shared_weak_def has_weak_def split: if_splits\<close>)
qed

lemma arc_inv_reachable:
  assumes R: "refcount_inc_adds R" and r: "careful_reachable R st"
  shows "arc_inv st"
proof -
  obtain st0 where 0: "st0 \<in> {arc_try_new, arc_try_new_cyclic}" "(careful_step R)\<^sup>*\<^sup>* st0 st" using r by blast
  from 0(2) show ?thesis
  proof (induction rule: rtranclp_induct)
    case base
    show ?case using 0(1) by (auto simp: arc_inv_def shared_weak_def arc_try_new_def arc_try_new_cyclic_def)
  next
    case (step a b)
    then show ?case using arc_inv_step [OF R] by blast
  qed
qed

lemma atomic_read_small: "n < 2 ^ 31 \<Longrightarrow> atomic_read (of_nat n) = n"
  by (simp add: atomic_read_def signed_of_nat signed_take_bit_int_eq_self)

lemma arc_inv_counts:
  assumes "arc_inv st" "0 < as_arcs st"
  shows "strong_count st = as_arcs st" "arc_weak_count st = Ok (as_weaks st)" "weak_weak_count st st = Ok (as_weaks st)"
proof -
  have "as_strong st = of_nat (as_arcs st)" "as_weak st = of_nat (Suc (as_weaks st))" "as_arcs st + as_weaks st \<le> 2 ^ 31 - 2"
    using assms by (simp_all add: arc_inv_def shared_weak_def)
  then show s: "strong_count st = as_arcs st" and w: "arc_weak_count st = Ok (as_weaks st)"
    using atomic_read_small [of "as_arcs st"] atomic_read_small [of "Suc (as_weaks st)"] assms(2)
    by (simp_all add: strong_count_def arc_weak_count_def del: of_nat_Suc)
  then show "weak_weak_count st st = Ok (as_weaks st)"
    using assms(2) by (auto simp: weak_weak_count_def arc_weak_count_def Let_def split: if_splits)
qed

section \<open>Properties\<close>

text \<open>C15: With any number of threads cloning, downgrading, upgrading and dropping handles, as long as no \<open>Weak\<close> is upgraded
  after the last \<open>Arc\<close> is gone: the strong count is the number of \<open>Arc\<close> handles, and while there is one, \<open>strong_count\<close> and
  \<open>weak_count\<close> return the numbers of handles; while one exists, or
  the value is still being built, the value is alive and the memory allocated; the value is dropped at
  most once, and the memory is freed at most once and only when no handle and no thread inside \<open>drop\<close> is left.\<close>

theorem arc_counts_handles:
  assumes "refcount_inc_adds R" "careful_reachable R st"
  shows "as_strong st = of_nat (as_arcs st) \<and> \<not> as_panicked st \<and>
    (0 < as_arcs st \<or> as_building st \<longrightarrow> as_drops st = 0 \<and> as_dropping st = 0) \<and> as_drops st \<le> 1 \<and> as_frees st \<le> 1 \<and>
    (as_arcs st = 0 \<and> \<not> as_building st \<longrightarrow> as_drops st + as_dropping st = 1) \<and>
    (0 < as_frees st + as_freeing st \<longleftrightarrow>
       as_arcs st = 0 \<and> as_weaks st = 0 \<and> \<not> as_building st \<and> as_dropping st = 0 \<and> as_releasing st = 0) \<and>
    (0 < as_arcs st \<longrightarrow> strong_count st = as_arcs st \<and> (arc_weak_count st :: (unit, nat) outcome) = Ok (as_weaks st))"
proof -
  have i: "arc_inv st" by (rule arc_inv_reachable [OF assms])
  have c: "0 < as_arcs st \<longrightarrow> strong_count st = as_arcs st \<and> (arc_weak_count st :: (unit, nat) outcome) = Ok (as_weaks st)"
    using arc_inv_counts [OF i] by blast
  have "as_strong st = of_nat (as_arcs st) \<and> \<not> as_panicked st \<and>
    (0 < as_arcs st \<or> as_building st \<longrightarrow> as_drops st = 0 \<and> as_dropping st = 0) \<and> as_drops st \<le> 1 \<and> as_frees st \<le> 1 \<and>
    (as_arcs st = 0 \<and> \<not> as_building st \<longrightarrow> as_drops st + as_dropping st = 1) \<and>
    (0 < as_frees st + as_freeing st \<longleftrightarrow>
       as_arcs st = 0 \<and> as_weaks st = 0 \<and> \<not> as_building st \<and> as_dropping st = 0 \<and> as_releasing st = 0)"
    using i by (auto simp: arc_inv_def shared_weak_def split: if_splits)
  then show ?thesis using c by argo
qed

text \<open>A value is created, a weak pointer made, the only \<open>Arc\<close> dropped, and the value with it.\<close>

definition arc_dead :: arc_state where
  "arc_dead = arc_try_new\<lparr>as_strong := 0, as_weak := 1, as_arcs := 0, as_weaks := 1, as_drops := 1\<rparr>"

lemma arc_dead_steps:
  assumes "refcount_inc_adds R"
  shows "careful_step R arc_try_new (arc_try_new\<lparr>as_weak := 2, as_weaks := 1\<rparr>)"
    "careful_step R (arc_try_new\<lparr>as_weak := 2, as_weaks := 1\<rparr>)
       (arc_try_new\<lparr>as_strong := 0, as_weak := 2, as_arcs := 0, as_weaks := 1, as_dropping := 1\<rparr>)"
    "careful_step R (arc_try_new\<lparr>as_strong := 0, as_weak := 2, as_arcs := 0, as_weaks := 1, as_dropping := 1\<rparr>)
       (arc_try_new\<lparr>as_strong := 0, as_weak := 2, as_arcs := 0, as_weaks := 1, as_releasing := 1, as_drops := 1\<rparr>)"
    "careful_step R (arc_try_new\<lparr>as_strong := 0, as_weak := 2, as_arcs := 0, as_weaks := 1, as_releasing := 1, as_drops := 1\<rparr>) arc_dead"
proof -
  have "R (of_nat 1) = of_nat 1 + 1" using assms unfolding refcount_inc_adds_def by (rule allE [of _ 1]) simp
  then have R: "R 1 = 2" by simp
  show "careful_step R arc_try_new (arc_try_new\<lparr>as_weak := 2, as_weaks := 1\<rparr>)"
    using downgrade [of arc_try_new R] R unfolding careful_step_def by (auto simp: arc_try_new_def)
  show "careful_step R (arc_try_new\<lparr>as_weak := 2, as_weaks := 1\<rparr>)
       (arc_try_new\<lparr>as_strong := 0, as_weak := 2, as_arcs := 0, as_weaks := 1, as_dropping := 1\<rparr>)"
    using drop_arc [of "arc_try_new\<lparr>as_weak := 2, as_weaks := 1\<rparr>" 0 R] unfolding careful_step_def by (auto simp: arc_try_new_def)
  show "careful_step R (arc_try_new\<lparr>as_strong := 0, as_weak := 2, as_arcs := 0, as_weaks := 1, as_dropping := 1\<rparr>)
       (arc_try_new\<lparr>as_strong := 0, as_weak := 2, as_arcs := 0, as_weaks := 1, as_releasing := 1, as_drops := 1\<rparr>)"
    using drop_data [of "arc_try_new\<lparr>as_strong := 0, as_weak := 2, as_arcs := 0, as_weaks := 1, as_dropping := 1\<rparr>" 0 R]
    unfolding careful_step_def by (auto simp: arc_try_new_def)
  show "careful_step R (arc_try_new\<lparr>as_strong := 0, as_weak := 2, as_arcs := 0, as_weaks := 1, as_releasing := 1, as_drops := 1\<rparr>) arc_dead"
    using release_weak [of "arc_try_new\<lparr>as_strong := 0, as_weak := 2, as_arcs := 0, as_weaks := 1, as_releasing := 1, as_drops := 1\<rparr>" 0 R]
    unfolding careful_step_def by (auto simp: arc_try_new_def arc_dead_def)
qed

lemma arc_dead_reachable:
  assumes "refcount_inc_adds R" shows "(careful_step R)\<^sup>*\<^sup>* arc_try_new arc_dead"
  using arc_dead_steps [OF assms] by (meson rtranclp.rtrancl_into_rtrancl rtranclp.rtrancl_refl)

lemma plus_one_adds: "refcount_inc_adds (\<lambda>x. x + 1)"
  by (simp add: refcount_inc_adds_def)

theorem arc_counts_handles_witness: "as_strong arc_dead = of_nat (as_arcs arc_dead) \<and> as_drops arc_dead \<le> 1"
  using arc_counts_handles [OF plus_one_adds, of arc_dead] arc_dead_reachable [OF plus_one_adds] by blast

text \<open>C31: \<open>Weak::upgrade\<close> adds to the strong count before it looks at it, and does not take the addition back when it finds
  zero.  After the value was dropped the first upgrade fails, and a second one returns an \<open>Arc\<close> to the
  dropped value.\<close>

theorem upgrade_revives_dropped_value:
  assumes "refcount_inc_adds R"
  shows "\<exists>st. arc_reachable R st \<and> 0 < as_arcs st \<and> 0 < as_drops st"
proof -
  let ?a = "\<lambda>a b. \<exists>l. arc_step R l a b"
  have "careful_step R a b \<Longrightarrow> ?a a b" for a b by (auto simp: careful_step_def)
  then have r: "?a\<^sup>*\<^sup>* arc_try_new arc_dead" using arc_dead_reachable [OF assms] mono_rtranclp [of "careful_step R" ?a] by blast
  have u1: "?a arc_dead (arc_dead\<lparr>as_strong := 1\<rparr>)"
    using upgrade [of arc_dead R] by (intro exI [of _ Upgrade]) (simp add: arc_dead_def arc_try_new_def has_weak_def)
  have u2: "?a (arc_dead\<lparr>as_strong := 1\<rparr>) (arc_dead\<lparr>as_strong := 2, as_arcs := 1\<rparr>)"
    using upgrade [of "arc_dead\<lparr>as_strong := 1\<rparr>" R] by (intro exI [of _ Upgrade]) (simp add: arc_dead_def arc_try_new_def has_weak_def)
  note step = rtranclp.rtrancl_into_rtrancl [of ?a arc_try_new]
  have "?a\<^sup>*\<^sup>* arc_try_new (arc_dead\<lparr>as_strong := 2, as_arcs := 1\<rparr>)"
    by (rule step [OF step [OF r u1] u2])
  then show ?thesis by (intro exI [of _ "arc_dead\<lparr>as_strong := 2, as_arcs := 1\<rparr>"]) (auto simp: arc_dead_def)
qed

theorem upgrade_revives_dropped_value_witness: "\<exists>st. arc_reachable (\<lambda>x. x + 1) st \<and> 0 < as_arcs st \<and> 0 < as_drops st"
  by (rule upgrade_revives_dropped_value [OF plus_one_adds])

end
