(* ===== verification/Kernel_Thread.thy ===== *)
theory Kernel_Thread
  imports Prelude
begin

text \<open>
  \<open>linux/bindings/src/thread.rs\<close>: the kernel threads of the device mapper target.

  A thread runs a closure, stores its value under the lock of the \<open>ThreadItem\<close> and then notifies; \<open>join\<close>, or dropping the
  handle, takes over the item, waits in a loop for the value, takes it and frees the item.  The steps are the
  critical sections and the notification; waiting releases the lock and sleeps in one step, as a condition
  variable does.  \<open>v\<close> is what the closure returns.
\<close>

abbreviation TASK_COMM_LEN :: nat where "TASK_COMM_LEN \<equiv> 16"

text \<open>\<open>format_name\<close>, with its slices: the name of the kernel thread behind the prefix \<open>krfl-\<close>, cut to leave a final zero.\<close>

definition thread_prefix :: bytes where
  "thread_prefix = map of_char ''krfl-''"

definition format_name :: "bytes \<Rightarrow> ('e, bytes) outcome" where
  "format_name name =
     and_then (put_slice (zeros TASK_COMM_LEN) 0 thread_prefix) (\<lambda>name_buf.
     let avail_len = length name_buf - length thread_prefix - 1; copy_len = min (length name) avail_len
     in put_slice name_buf (length thread_prefix) (take copy_len name))"

lemma format_name_Ok:
  "format_name name = Ok (thread_prefix @ take 10 name @ zeros (11 - min (length name) 10))"
proof -
  have p: "put_slice (zeros 16) 0 thread_prefix = Ok (thread_prefix @ zeros 11)" "length thread_prefix = 5"
    by (simp_all add: put_slice_def thread_prefix_def overwrite_def)
  have "put_slice (thread_prefix @ zeros 11) 5 (take (min (length name) 10) name) =
      Ok (thread_prefix @ take 10 name @ zeros (11 - min (length name) 10))"
    using p(2) by (simp add: put_slice_def overwrite_def min_def)
  then show ?thesis using p by (simp add: format_name_def Let_def)
qed

datatype child_pc = ChildClosure | ChildStored | ChildDone

datatype join_pc = JoinIdle | JoinChecking | JoinAsleep | JoinTook

record 'v thread_state =
  th_child :: child_pc
  th_join :: join_pc
  th_value :: "'v option"
  th_result :: "'v option"
  th_freed :: bool
  th_touched_freed :: bool

definition thread_create :: "'v thread_state" where
  "thread_create = \<lparr>th_child = ChildClosure, th_join = JoinIdle, th_value = None, th_result = None, th_freed = False,
     th_touched_freed = False\<rparr>"

inductive thread_step :: "'v \<Rightarrow> 'v thread_state \<Rightarrow> 'v thread_state \<Rightarrow> bool" for v where
  execute_store: "th_child st = ChildClosure \<Longrightarrow> thread_step v st (st\<lparr>th_child := ChildStored, th_value := Some v\<rparr>)"
| execute_notify: "th_child st = ChildStored \<Longrightarrow>
    thread_step v st (st\<lparr>th_child := ChildDone, th_join := (if th_join st = JoinAsleep then JoinChecking else th_join st),
      th_touched_freed := (th_touched_freed st \<or> th_freed st)\<rparr>)"
| join_call: "th_join st = JoinIdle \<Longrightarrow> thread_step v st (st\<lparr>th_join := JoinChecking\<rparr>)"
| join_wait: "th_join st = JoinChecking \<Longrightarrow> th_value st = None \<Longrightarrow> thread_step v st (st\<lparr>th_join := JoinAsleep\<rparr>)"
| join_take: "th_join st = JoinChecking \<Longrightarrow> th_value st = Some x \<Longrightarrow>
    thread_step v st (st\<lparr>th_join := JoinTook, th_value := None, th_result := Some x, th_freed := True\<rparr>)"

text \<open>A signal may end a wait early.\<close>

inductive thread_signal :: "'v thread_state \<Rightarrow> 'v thread_state \<Rightarrow> bool" where
  "th_join st = JoinAsleep \<Longrightarrow> thread_signal st (st\<lparr>th_join := JoinChecking\<rparr>)"

abbreviation thread_reachable :: "'v \<Rightarrow> 'v thread_state \<Rightarrow> bool" where
  "thread_reachable v st \<equiv> (\<lambda>a b. thread_step v a b \<or> thread_signal a b)\<^sup>*\<^sup>* thread_create st"

section \<open>Lemmas\<close>

definition thread_inv :: "'v \<Rightarrow> 'v thread_state \<Rightarrow> bool" where
  "thread_inv v st \<longleftrightarrow>
     (if th_join st = JoinTook then th_result st = Some v \<and> th_value st = None \<and> th_freed st \<and> th_child st \<noteq> ChildClosure
      else th_result st = None \<and> \<not> th_freed st \<and> th_value st = (if th_child st = ChildClosure then None else Some v)) \<and>
     (th_join st = JoinAsleep \<longrightarrow> th_child st \<noteq> ChildDone)"

lemma thread_inv_step: "thread_step v st st' \<Longrightarrow> thread_inv v st \<Longrightarrow> thread_inv v st'"
  by (induction rule: thread_step.induct) (auto simp: thread_inv_def split: if_splits)

lemma thread_inv_signal: "thread_signal st st' \<Longrightarrow> thread_inv v st \<Longrightarrow> thread_inv v st'"
  by (induction rule: thread_signal.induct) (auto simp: thread_inv_def)

lemma thread_inv_reachable: "thread_reachable v st \<Longrightarrow> thread_inv v st"
proof (induction rule: rtranclp_induct)
  case base
  then show ?case by (simp add: thread_inv_def thread_create_def)
next
  case (step a b)
  then show ?case using thread_inv_step [of v a b] thread_inv_signal [of a b v] by blast
qed

text \<open>What the two threads have left to do.\<close>

fun thread_work :: "'v thread_state \<Rightarrow> nat" where
  "thread_work st = (case th_child st of ChildClosure \<Rightarrow> 4 | ChildStored \<Rightarrow> 2 | ChildDone \<Rightarrow> 0) +
     (case th_join st of JoinIdle \<Rightarrow> 3 | JoinChecking \<Rightarrow> 2 | JoinAsleep \<Rightarrow> 1 | JoinTook \<Rightarrow> 0)"

lemma thread_work_step: "thread_step v st st' \<Longrightarrow> thread_work st' < thread_work st"
  by (induction rule: thread_step.induct) auto

lemma thread_work_steps: "(thread_step v ^^ n) st st' \<Longrightarrow> thread_work st' + n \<le> thread_work st"
proof (induction n arbitrary: st')
  case (Suc n)
  then obtain a where "(thread_step v ^^ n) st a" "thread_step v a st'" by auto
  then show ?case using Suc.IH [of a] thread_work_step [of v a st'] by simp
qed simp

lemma thread_progress:
  assumes "thread_inv v st" "\<nexists>st'. thread_step v st st'" shows "th_join st = JoinTook"
proof (cases "th_join st")
  case JoinIdle
  then show ?thesis using assms(2) join_call [of st v] by blast
next
  case JoinChecking
  then show ?thesis using assms(2) join_wait [of st v] join_take [of st _ v] by (cases "th_value st") blast+
next
  case JoinAsleep
  then have "th_child st \<noteq> ChildDone" using assms(1) by (simp add: thread_inv_def)
  then show ?thesis using assms(2) execute_store [of st v] execute_notify [of st v] by (cases "th_child st") blast+
qed

section \<open>Properties\<close>

text \<open>C16: Joining a thread works: from every reachable state at most seven steps follow, unless signals end waits early,
  and a state in which no thread can move is one where \<open>join\<close> has returned what the closure returned.  No
  notification is lost.\<close>

theorem join_returns_value:
  assumes "thread_reachable v st"
  shows "((thread_step v ^^ n) st st' \<longrightarrow> n \<le> 7) \<and>
    ((\<nexists>st'. thread_step v st st') \<longrightarrow> th_join st = JoinTook \<and> th_result st = Some v \<and> th_child st = ChildDone)"
proof (intro conjI impI)
  have i: "thread_inv v st" by (rule thread_inv_reachable [OF assms])
  show "n \<le> 7" if "(thread_step v ^^ n) st st'"
    using thread_work_steps [OF that] by (auto split: child_pc.splits join_pc.splits)
  assume e: "\<nexists>st'. thread_step v st st'"
  then show "th_join st = JoinTook" "th_result st = Some v"
    using thread_progress [OF i] i by (simp_all add: thread_inv_def)
  show "th_child st = ChildDone" using e execute_store [of st v] execute_notify [of st v] by (cases "th_child st") blast+
qed

text \<open>The item is freed before the child has notified.\<close>

definition thread_early_free :: "'v \<Rightarrow> 'v thread_state" where
  "thread_early_free v = thread_create\<lparr>th_child := ChildStored, th_join := JoinTook, th_result := Some v, th_freed := True\<rparr>"

lemma thread_early_free_step:
  "thread_step v (thread_early_free v) (thread_early_free v\<lparr>th_child := ChildDone, th_touched_freed := True\<rparr>)"
  using execute_notify [of "thread_early_free v" v] by (simp add: thread_create_def thread_early_free_def)

lemma thread_early_free_reachable: "thread_reachable v (thread_early_free v)"
proof -
  let ?s1 = "thread_create\<lparr>th_child := ChildStored, th_value := Some v\<rparr>" and ?r = "\<lambda>a b. thread_step v a b \<or> thread_signal a b"
  have 1: "?r thread_create ?s1" using execute_store [of thread_create v] by (simp add: thread_create_def)
  have 2: "?r ?s1 (?s1\<lparr>th_join := JoinChecking\<rparr>)" using join_call [of ?s1 v] by (simp add: thread_create_def)
  have 3: "?r (?s1\<lparr>th_join := JoinChecking\<rparr>) (thread_early_free v)"
    using join_take [of "?s1\<lparr>th_join := JoinChecking\<rparr>" v v] by (simp add: thread_create_def thread_early_free_def)
  note step = rtranclp.rtrancl_into_rtrancl [of ?r thread_create]
  show ?thesis by (rule step [OF step [OF step [OF rtranclp.rtrancl_refl [of ?r] 1] 2] 3])
qed

lemma thread_freed_reachable: "thread_reachable v (thread_early_free v\<lparr>th_child := ChildDone, th_touched_freed := True\<rparr>)"
  by (rule rtranclp.rtrancl_into_rtrancl [OF thread_early_free_reachable]) (rule disjI1, rule thread_early_free_step)

theorem join_returns_value_witness:
  "th_result (thread_early_free (7 :: nat)\<lparr>th_child := ChildDone, th_touched_freed := True\<rparr>) = Some 7"
proof -
  let ?s = "thread_early_free (7 :: nat)\<lparr>th_child := ChildDone, th_touched_freed := True\<rparr>"
  have "\<not> thread_step 7 ?s st'" for st' by (rule notI, erule thread_step.cases) (auto simp: thread_early_free_def)
  then show ?thesis using join_returns_value [OF thread_freed_reachable [of 7]] by blast
qed

text \<open>C32: Joining frees the item too early: \<open>join\<close> may see the value and free the \<open>ThreadItem\<close> while the thread has not
  notified yet; the thread then uses the condition variable in freed memory.\<close>

theorem join_frees_item_in_use: "\<exists>st. thread_reachable v st \<and> th_touched_freed st"
  by (intro exI [of _ "thread_early_free v\<lparr>th_child := ChildDone, th_touched_freed := True\<rparr>"] conjI thread_freed_reachable) simp

end
