(* ===== verification/Tx.thy ===== *)
theory Tx
  imports Errors "HOL-Library.Word"
begin

text \<open>
  Transactions: \<open>core/src/tx/mod.rs\<close> and \<open>core/src/tx/current.rs\<close>.

  The state holds the transactions, the table of the current transaction of every thread, the counter for the
  identifiers, and \<open>'w\<close>, whatever the registered closures capture and change.  A closure is a function on this
  state.  Per-transaction data is a map from types \<open>'t\<close> to values \<open>'v\<close>.  The provider is an argument:
  it outlives its transactions, otherwise \<open>upgrade().unwrap()\<close> panics.  A closure cannot register handlers, which
  would wait for the lock that the loop over the handlers holds.
\<close>

section \<open>State\<close>

datatype tx_status = Ongoing | Committed | Aborted

record ('t, 'v) tx =
  tx_id :: "64 word"
  tx_data_map :: "'t \<rightharpoonup> 'v"
  tx_status_of :: tx_status
  tx_is_accessing_data :: bool

type_synonym tid = nat

type_synonym tx_ref = nat

record ('t, 'v, 'w) tx_state =
  ts_txs :: "tx_ref \<Rightarrow> ('t, 'v) tx"
  ts_next_ref :: tx_ref
  ts_next_id :: "64 word"
  ts_table :: "tid \<rightharpoonup> tx_ref"
  ts_world :: 'w

type_synonym ('t, 'v, 'w, 'r) tx_op = "('t, 'v, 'w) tx_state \<Rightarrow> 'r result \<times> ('t, 'v, 'w) tx_state"

record ('t, 'v, 'w) tx_provider =
  tp_initializer_map :: "'t \<rightharpoonup> 'v"
  tp_precommit_handlers :: "(tid \<Rightarrow> ('t, 'v, 'w, unit) tx_op) list"
  tp_commit_handlers :: "(tid \<Rightarrow> ('t, 'v, 'w, unit) tx_op) list"
  tp_abort_handlers :: "(tid \<Rightarrow> ('t, 'v, 'w, unit) tx_op) list"

definition upd_tx :: "tx_ref \<Rightarrow> (('t, 'v) tx \<Rightarrow> ('t, 'v) tx) \<Rightarrow> ('t, 'v, 'w) tx_state \<Rightarrow> ('t, 'v, 'w) tx_state" where
  "upd_tx r f st = st\<lparr>ts_txs := (ts_txs st)(r := f (ts_txs st r))\<rparr>"

definition status_of :: "tx_ref \<Rightarrow> ('t, 'v, 'w) tx_state \<Rightarrow> tx_status" where
  "status_of r st = tx_status_of (ts_txs st r)"

text \<open>A program that has not created a transaction yet.\<close>

definition tx_state_new :: "'w \<Rightarrow> ('t, 'v, 'w) tx_state" where
  "tx_state_new w = \<lparr>ts_txs = \<lambda>_. \<lparr>tx_id = 0, tx_data_map = Map.empty, tx_status_of = Aborted, tx_is_accessing_data = False\<rparr>,
     ts_next_ref = 0, ts_next_id = 0, ts_table = Map.empty, ts_world = w\<rparr>"

section \<open>The provider\<close>

definition tx_provider_new :: "('t, 'v, 'w) tx_provider" where
  "tx_provider_new = \<lparr>tp_initializer_map = Map.empty, tp_precommit_handlers = [], tp_commit_handlers = [],
     tp_abort_handlers = []\<rparr>"

definition register_data_initializer :: "'t \<Rightarrow> 'v \<Rightarrow> ('t, 'v, 'w) tx_provider \<Rightarrow> ('t, 'v, 'w) tx_provider" where
  "register_data_initializer ty init P = P\<lparr>tp_initializer_map := (tp_initializer_map P)(ty \<mapsto> init)\<rparr>"

definition init_data :: "'t \<Rightarrow> ('t, 'v, 'w) tx_provider \<Rightarrow> 'v result" where
  "init_data ty P = (case tp_initializer_map P ty of Some init \<Rightarrow> Ok init | None \<Rightarrow> Panic)"

definition register_precommit_handler ::
  "(tid \<Rightarrow> ('t, 'v, 'w, unit) tx_op) \<Rightarrow> ('t, 'v, 'w) tx_provider \<Rightarrow> ('t, 'v, 'w) tx_provider"
where
  "register_precommit_handler f P = P\<lparr>tp_precommit_handlers := tp_precommit_handlers P @ [f]\<rparr>"

definition register_commit_handler ::
  "(tid \<Rightarrow> ('t, 'v, 'w, unit) tx_op) \<Rightarrow> ('t, 'v, 'w) tx_provider \<Rightarrow> ('t, 'v, 'w) tx_provider"
where
  "register_commit_handler f P = P\<lparr>tp_commit_handlers := tp_commit_handlers P @ [f]\<rparr>"

definition register_abort_handler ::
  "(tid \<Rightarrow> ('t, 'v, 'w, unit) tx_op) \<Rightarrow> ('t, 'v, 'w) tx_provider \<Rightarrow> ('t, 'v, 'w) tx_provider"
where
  "register_abort_handler f P = P\<lparr>tp_abort_handlers := tp_abort_handlers P @ [f]\<rparr>"

primrec run_handlers :: "(tid \<Rightarrow> ('t, 'v, 'w, unit) tx_op) list \<Rightarrow> tid \<Rightarrow> ('t, 'v, 'w, unit) tx_op" where
  "run_handlers [] tid st = (Ok (), st)"
| "run_handlers (f # fs) tid st = then_do (f tid st) (\<lambda>_ st. run_handlers fs tid st)"

definition call_precommit_handlers :: "('t, 'v, 'w) tx_provider \<Rightarrow> tid \<Rightarrow> ('t, 'v, 'w, unit) tx_op" where
  "call_precommit_handlers P tid st = run_handlers (rev (tp_precommit_handlers P)) tid st"

text \<open>A commit or abort handler returns nothing, so it has no error to pass on.\<close>

definition call_commit_handlers :: "('t, 'v, 'w) tx_provider \<Rightarrow> tid \<Rightarrow> ('t, 'v, 'w, unit) tx_op" where
  "call_commit_handlers P tid st = run_handlers (rev (tp_commit_handlers P)) tid st"

definition call_abort_handlers :: "('t, 'v, 'w) tx_provider \<Rightarrow> tid \<Rightarrow> ('t, 'v, 'w, unit) tx_op" where
  "call_abort_handlers P tid st = run_handlers (rev (tp_abort_handlers P)) tid st"

section \<open>The current transaction\<close>

definition set_and_exec_with ::
  "tid \<Rightarrow> tx_ref \<Rightarrow> ('t, 'v, 'w, 'r) tx_op \<Rightarrow> ('t, 'v, 'w, 'r) tx_op"
where
  "set_and_exec_with tid r f st =
     (let old = ts_table st tid; st = st\<lparr>ts_table := (ts_table st)(tid \<mapsto> r)\<rparr> in
      if old \<noteq> None then (Panic, st)
      else (case f st of
              (Panic, st) \<Rightarrow> (Panic, st)
            | (Hang, st) \<Rightarrow> (Hang, st)
            | (res, st) \<Rightarrow> (res, st\<lparr>ts_table := (ts_table st)(tid := None)\<rparr>)))"

definition get_current_mut_with ::
  "tid \<Rightarrow> (tx_ref \<Rightarrow> ('t, 'v, 'w, 'r) tx_op) \<Rightarrow> ('t, 'v, 'w, 'r) tx_op"
where
  "get_current_mut_with tid f st = (case ts_table st tid of
     None \<Rightarrow> (Panic, st)
   | Some r \<Rightarrow>
       if tx_is_accessing_data (ts_txs st r) then (Panic, st)
       else (case f r (upd_tx r (\<lambda>t. t\<lparr>tx_is_accessing_data := True\<rparr>) st) of
               (Panic, st) \<Rightarrow> (Panic, st)
             | (Hang, st) \<Rightarrow> (Hang, st)
             | (res, st) \<Rightarrow> (res, upd_tx r (\<lambda>t. t\<lparr>tx_is_accessing_data := False\<rparr>) st)))"

definition tx_data_mut :: "('t, 'v, 'w) tx_provider \<Rightarrow> 't \<Rightarrow> tx_ref \<Rightarrow> ('t, 'v, 'w, 'v) tx_op" where
  "tx_data_mut P ty r st = (case tx_data_map (ts_txs st r) ty of
     Some data \<Rightarrow> (Ok data, st)
   | None \<Rightarrow> then_do (init_data ty P, st) (\<lambda>data st.
       (Ok data, upd_tx r (\<lambda>t. t\<lparr>tx_data_map := (tx_data_map t)(ty \<mapsto> data)\<rparr>) st)))"

definition current_id :: "tid \<Rightarrow> ('t, 'v, 'w, 64 word) tx_op" where
  "current_id tid st = get_current_mut_with tid (\<lambda>r st. (Ok (tx_id (ts_txs st r)), st)) st"

definition data_with ::
  "('t, 'v, 'w) tx_provider \<Rightarrow> tid \<Rightarrow> 't \<Rightarrow> ('v \<Rightarrow> ('t, 'v, 'w, 'r) tx_op) \<Rightarrow> ('t, 'v, 'w, 'r) tx_op"
where
  "data_with P tid ty f st = get_current_mut_with tid (\<lambda>r st. then_do (tx_data_mut P ty r st) f) st"

text \<open>The closure of \<open>data_mut_with\<close> changes the data; it returns the new value beside its result.\<close>

definition data_mut_with ::
  "('t, 'v, 'w) tx_provider \<Rightarrow> tid \<Rightarrow> 't \<Rightarrow> ('v \<Rightarrow> ('t, 'v, 'w, 'r \<times> 'v) tx_op) \<Rightarrow> ('t, 'v, 'w, 'r) tx_op"
where
  "data_mut_with P tid ty f st = get_current_mut_with tid (\<lambda>r st.
     then_do (tx_data_mut P ty r st) (\<lambda>data st.
     then_do (f data st) (\<lambda>(res, data) st.
     (Ok res, upd_tx r (\<lambda>t. t\<lparr>tx_data_map := (tx_data_map t)(ty \<mapsto> data)\<rparr>) st)))) st"

section \<open>Transactions\<close>

definition new_tx :: "('t, 'v, 'w) tx_state \<Rightarrow> tx_ref \<times> ('t, 'v, 'w) tx_state" where
  "new_tx st = (let r = ts_next_ref st in
     (r, st\<lparr>ts_txs := (ts_txs st)(r := \<lparr>tx_id = ts_next_id st, tx_data_map = Map.empty, tx_status_of = Ongoing,
            tx_is_accessing_data = False\<rparr>),
          ts_next_ref := Suc r, ts_next_id := ts_next_id st + 1\<rparr>))"

definition tx_context :: "tid \<Rightarrow> tx_ref \<Rightarrow> ('t, 'v, 'w, 'r) tx_op \<Rightarrow> ('t, 'v, 'w, 'r) tx_op" where
  "tx_context tid r f st = (if status_of r st \<noteq> Ongoing then (Panic, st) else set_and_exec_with tid r f st)"

definition set_status :: "tx_ref \<Rightarrow> tx_status \<Rightarrow> ('t, 'v, 'w) tx_state \<Rightarrow> ('t, 'v, 'w) tx_state" where
  "set_status r status = upd_tx r (\<lambda>t. t\<lparr>tx_status_of := status\<rparr>)"

text \<open>The stages of a commit, inside the context; the result of the pre-commit stage is the result.\<close>

definition commit_stages :: "('t, 'v, 'w) tx_provider \<Rightarrow> tid \<Rightarrow> ('t, 'v, 'w, unit) tx_op" where
  "commit_stages P tid st = (case call_precommit_handlers P tid st of
     (Ok _, st) \<Rightarrow> call_commit_handlers P tid st
   | (Err e, st) \<Rightarrow> then_do (call_abort_handlers P tid st) (\<lambda>_ st. (Err e, st))
   | (Panic, st) \<Rightarrow> (Panic, st)
   | (Hang, st) \<Rightarrow> (Hang, st))"

definition tx_commit :: "('t, 'v, 'w) tx_provider \<Rightarrow> tid \<Rightarrow> tx_ref \<Rightarrow> ('t, 'v, 'w, unit) tx_op" where
  "tx_commit P tid r st =
     (if status_of r st \<noteq> Ongoing then (Panic, st)
      else (case tx_context tid r (commit_stages P tid) st of
              (Ok _, st) \<Rightarrow> (Ok (), set_status r Committed st)
            | (Err e, st) \<Rightarrow> (Err e, set_status r Aborted st)
            | (Panic, st) \<Rightarrow> (Panic, st)
            | (Hang, st) \<Rightarrow> (Hang, st)))"

definition tx_abort :: "('t, 'v, 'w) tx_provider \<Rightarrow> tid \<Rightarrow> tx_ref \<Rightarrow> ('t, 'v, 'w, unit) tx_op" where
  "tx_abort P tid r st =
     (if status_of r st \<noteq> Ongoing then (Panic, st)
      else then_do (tx_context tid r (call_abort_handlers P tid) st) (\<lambda>_ st. (Ok (), set_status r Aborted st)))"

definition tx_drop :: "tx_ref \<Rightarrow> ('t, 'v, 'w, unit) tx_op" where
  "tx_drop r st = (if status_of r st = Ongoing then (Panic, st) else (Ok (), st))"

section \<open>The database of the unit tests\<close>

text \<open>
  \<open>Db\<close> keeps a set of items outside (\<open>'w\<close>) and the new items of a transaction as its data; its commit handler
  adds them.
\<close>

type_synonym 'a db_op = "(unit, 'a set, 'a set, unit) tx_op"

definition db_initialized :: "(unit, 'a set, 'a set) tx_provider" where
  "db_initialized = register_data_initializer () {} tx_provider_new"

definition db_commit_handler :: "tid \<Rightarrow> 'a db_op" where
  "db_commit_handler tid st = data_mut_with db_initialized tid () (\<lambda>new_items st.
     (Ok ((), {}), st\<lparr>ts_world := ts_world st \<union> new_items\<rparr>)) st"

definition db_new :: "(unit, 'a set, 'a set) tx_provider" where
  "db_new = register_commit_handler db_commit_handler db_initialized"

definition db_insert :: "tid \<Rightarrow> 'a \<Rightarrow> 'a db_op" where
  "db_insert tid item st =
     (if item \<in> ts_world st then (Ok (), st)
      else data_mut_with db_new tid () (\<lambda>new_items st. (Ok ((), insert item new_items), st)) st)"

definition db_contains :: "tid \<Rightarrow> 'a \<Rightarrow> (unit, 'a set, 'a set, bool) tx_op" where
  "db_contains tid item st =
     then_do (data_with db_new tid () (\<lambda>new_items st. (Ok (item \<in> new_items), st)) st) (\<lambda>is_new_item st.
     if is_new_item then (Ok True, st) else (Ok (item \<in> ts_world st), st))"

definition db_collect :: "tid \<Rightarrow> (unit, 'a set, 'a set, 'a set) tx_op" where
  "db_collect tid st = data_with db_new tid () (\<lambda>new_items st. (Ok (ts_world st \<union> new_items), st)) st"

primrec db_insert_all :: "tid \<Rightarrow> 'a list \<Rightarrow> 'a db_op" where
  "db_insert_all tid [] st = (Ok (), st)"
| "db_insert_all tid (x # xs) st = then_do (db_insert tid x st) (\<lambda>_ st. db_insert_all tid xs st)"

section \<open>Lemmas\<close>

lemma upd_tx_simps [simp]:
  "ts_table (upd_tx r f st) = ts_table st" "ts_world (upd_tx r f st) = ts_world st"
  "ts_txs (upd_tx r f st) r' = (if r' = r then f (ts_txs st r) else ts_txs st r')"
  "upd_tx r g (upd_tx r f st) = upd_tx r (\<lambda>t. g (f t)) st"
  by (simp_all add: upd_tx_def fun_upd_def) (auto simp: fun_eq_iff)

text \<open>A handler as the documentation asks for: it does not panic and leaves the table and the status alone.\<close>

definition well_behaved :: "(tid \<Rightarrow> ('t, 'v, 'w, unit) tx_op) \<Rightarrow> bool" where
  "well_behaved f \<longleftrightarrow> (\<forall>tid st. fst (f tid st) \<noteq> Panic \<and> fst (f tid st) \<noteq> Hang \<and>
     ts_table (snd (f tid st)) = ts_table st \<and> (\<forall>r. status_of r (snd (f tid st)) = status_of r st))"

definition infallible :: "(tid \<Rightarrow> ('t, 'v, 'w, unit) tx_op) \<Rightarrow> bool" where
  "infallible f \<longleftrightarrow> (\<forall>tid st. fst (f tid st) = Ok ())"

lemma run_handlers_well_behaved:
  assumes "\<forall>f\<in>set fs. well_behaved f" shows "well_behaved (run_handlers fs)"
  using assms
proof (induction fs)
  case (Cons f fs)
  have f: "well_behaved f" "well_behaved (run_handlers fs)" using Cons by auto
  show ?case unfolding well_behaved_def
  proof (intro allI)
    fix tid st
    obtain res st1 where 1: "f tid st = (res, st1)" by fastforce
    have "res \<noteq> Panic" "res \<noteq> Hang" "ts_table st1 = ts_table st" "\<forall>r. status_of r st1 = status_of r st"
      using f(1) 1 unfolding well_behaved_def by (metis fst_conv snd_conv)+
    then show "fst (run_handlers (f # fs) tid st) \<noteq> Panic \<and> fst (run_handlers (f # fs) tid st) \<noteq> Hang \<and>
      ts_table (snd (run_handlers (f # fs) tid st)) = ts_table st \<and> (\<forall>r. status_of r (snd (run_handlers (f # fs) tid st)) = status_of r st)"
      using f(2) 1 by (cases res) (auto simp: well_behaved_def)
  qed
qed (simp add: well_behaved_def)

lemma run_handlers_infallible: "\<forall>f\<in>set fs. infallible f \<Longrightarrow> infallible (run_handlers fs)"
proof (induction fs)
  case (Cons f fs)
  have "fst (run_handlers (f # fs) tid st) = Ok ()" for tid st
    using Cons by (cases "f tid st") (auto simp: infallible_def, metis fst_conv then_do.simps(1))
  then show ?case by (simp add: infallible_def)
qed (simp add: infallible_def)

lemma set_and_exec_with_Ok:
  assumes "ts_table st tid = None" "f (st\<lparr>ts_table := (ts_table st)(tid \<mapsto> r)\<rparr>) = (res, st')" "res \<noteq> Panic" "res \<noteq> Hang"
  shows "set_and_exec_with tid r f st = (res, st'\<lparr>ts_table := (ts_table st')(tid := None)\<rparr>)"
  using assms by (cases res) (simp_all add: set_and_exec_with_def Let_def)

lemma commit_stages_eq:
  assumes "\<forall>f\<in>set (tp_precommit_handlers P) \<union> set (tp_commit_handlers P) \<union> set (tp_abort_handlers P). well_behaved f"
    "\<forall>f\<in>set (tp_commit_handlers P) \<union> set (tp_abort_handlers P). infallible f"
    "call_precommit_handlers P tid st = (pre, st1)"
  shows "commit_stages P tid st =
      (pre, snd (run_handlers (rev (if is_ok pre then tp_commit_handlers P else tp_abort_handlers P)) tid st1))"
    "pre \<noteq> Panic" "pre \<noteq> Hang" "ts_table (snd (commit_stages P tid st)) = ts_table st"
    "status_of r (snd (commit_stages P tid st)) = status_of r st"
proof -
  have wb: "well_behaved (run_handlers (rev (tp_precommit_handlers P)))" "well_behaved (run_handlers (rev (tp_commit_handlers P)))"
    "well_behaved (run_handlers (rev (tp_abort_handlers P)))" "infallible (run_handlers (rev (tp_commit_handlers P)))"
    "infallible (run_handlers (rev (tp_abort_handlers P)))"
    using assms(1,2) by (auto intro!: run_handlers_well_behaved run_handlers_infallible)
  show p: "pre \<noteq> Panic" "pre \<noteq> Hang"
    using wb(1) assms(3) unfolding call_precommit_handlers_def well_behaved_def by (metis fst_conv)+
  have q: "ts_table st1 = ts_table st" "status_of r st1 = status_of r st"
    using wb(1) assms(3) unfolding call_precommit_handlers_def well_behaved_def by (metis snd_conv)+
  have ok: "run_handlers (rev hs) tid st1 = (Ok (), snd (run_handlers (rev hs) tid st1))" if "infallible (run_handlers (rev hs))" for hs
    using that unfolding infallible_def by (metis prod.collapse)
  show e: "commit_stages P tid st =
      (pre, snd (run_handlers (rev (if is_ok pre then tp_commit_handlers P else tp_abort_handlers P)) tid st1))"
    using p assms(3) ok [OF wb(4)] ok [OF wb(5)]
    by (cases pre) (simp_all add: commit_stages_def call_commit_handlers_def call_abort_handlers_def, metis then_do.simps(1))
  show "ts_table (snd (commit_stages P tid st)) = ts_table st" "status_of r (snd (commit_stages P tid st)) = status_of r st"
    using wb(2,3) q unfolding e well_behaved_def by auto
qed

section \<open>Properties\<close>


text \<open>Entering the context of a transaction from inside the context of a transaction on the same thread panics,
  whatever the states of the two transactions; so does an access to the data of the current transaction from inside
  an access.\<close>

theorem nested_use_panics:
  "fst (tx_context tid r (tx_context tid r' f) st) = Panic \<and>
   fst (data_mut_with P tid ty (\<lambda>_. data_mut_with P tid ty' g) st) = Panic"
proof
  show "fst (tx_context tid r (tx_context tid r' f) st) = Panic"
    by (simp add: tx_context_def set_and_exec_with_def Let_def)
  show "fst (data_mut_with P tid ty (\<lambda>_. data_mut_with P tid ty' g) st) = Panic"
    by (simp add: data_mut_with_def get_current_mut_with_def tx_data_mut_def init_data_def split: option.splits)
qed


section \<open>Atomicity of the database\<close>

lemma db_access:
  assumes "ts_table st tid = Some r" "\<not> tx_is_accessing_data (ts_txs st r)" "tx_data_map (ts_txs st r) () = d"
    "tp_initializer_map P () = Some {}"
  shows "data_mut_with P tid () (\<lambda>new_items st. (Ok ((), g new_items), st\<lparr>ts_world := h (ts_world st) new_items\<rparr>)) st =
    (Ok (), (upd_tx r (\<lambda>t. t\<lparr>tx_data_map := (tx_data_map t)(() \<mapsto> g (case d of None \<Rightarrow> {} | Some x \<Rightarrow> x)), tx_is_accessing_data := False\<rparr>) st)
      \<lparr>ts_world := h (ts_world st) (case d of None \<Rightarrow> {} | Some x \<Rightarrow> x)\<rparr>)"
  using assms
  by (cases d) (simp_all add: data_mut_with_def get_current_mut_with_def tx_data_mut_def init_data_def upd_tx_def)

definition pending :: "(unit, 'a set, 'a set) tx_state \<Rightarrow> tx_ref \<Rightarrow> 'a set" where
  "pending st r = (case tx_data_map (ts_txs st r) () of None \<Rightarrow> {} | Some x \<Rightarrow> x)"

lemma db_providers [simp]:
  "tp_initializer_map db_initialized () = Some {}" "tp_initializer_map db_new () = Some {}"
  "tp_precommit_handlers db_new = []" "tp_commit_handlers db_new = [db_commit_handler]" "tp_abort_handlers db_new = []"
  by (simp_all add: db_initialized_def db_new_def register_data_initializer_def register_commit_handler_def tx_provider_new_def)

lemma db_insert_all_Ok:
  assumes "ts_table st tid = Some r" "\<not> tx_is_accessing_data (ts_txs st r)"
  shows "\<exists>st'. db_insert_all tid xs st = (Ok (), st') \<and> ts_table st' = ts_table st \<and> \<not> tx_is_accessing_data (ts_txs st' r) \<and>
    ts_world st' = ts_world st \<and> status_of r st' = status_of r st \<and> pending st' r = pending st r \<union> (set xs - ts_world st)"
  using assms
proof (induction xs arbitrary: st)
  case (Cons x xs)
  have "\<exists>st1. db_insert tid x st = (Ok (), st1) \<and> ts_table st1 = ts_table st \<and> \<not> tx_is_accessing_data (ts_txs st1 r) \<and>
    ts_world st1 = ts_world st \<and> status_of r st1 = status_of r st \<and> pending st1 r = pending st r \<union> ({x} - ts_world st)"
  proof (cases "x \<in> ts_world st")
    case False
    then show ?thesis
      using db_access [OF Cons.prems refl db_providers(2), of "insert x" "\<lambda>w _. w"]
      by (auto simp: db_insert_def pending_def status_of_def)
  qed (use Cons.prems in \<open>auto simp: db_insert_def\<close>)
  then obtain st1 where st1: "db_insert tid x st = (Ok (), st1)" "ts_table st1 = ts_table st" "\<not> tx_is_accessing_data (ts_txs st1 r)"
    "ts_world st1 = ts_world st" "status_of r st1 = status_of r st" "pending st1 r = pending st r \<union> ({x} - ts_world st)" by blast
  obtain st2 where "db_insert_all tid xs st1 = (Ok (), st2)" "ts_table st2 = ts_table st1" "\<not> tx_is_accessing_data (ts_txs st2 r)"
    "ts_world st2 = ts_world st1" "status_of r st2 = status_of r st1" "pending st2 r = pending st1 r \<union> (set xs - ts_world st1)"
    using Cons.IH [of st1] st1(2,3) Cons.prems(1) by auto
  then show ?case using st1 by auto
qed auto

text \<open>C37: The transactions make the database of the unit tests atomic: items inserted in the context of a new transaction
  leave the set of all items as it is; committing the transaction adds exactly these items, aborting it adds none.\<close>

theorem db_transaction_atomic:
  assumes "ts_table st tid = None"
  shows "\<exists>st2 st3 st4. tx_context tid (fst (new_tx st)) (db_insert_all tid xs) (snd (new_tx st)) = (Ok (), st2) \<and>
    ts_world st2 = ts_world st \<and>
    tx_commit db_new tid (fst (new_tx st)) st2 = (Ok (), st3) \<and> ts_world st3 = ts_world st \<union> set xs \<and>
    tx_abort db_new tid (fst (new_tx st)) st2 = (Ok (), st4) \<and> ts_world st4 = ts_world st"
proof -
  obtain r st1 where n: "new_tx st = (r, st1)" by fastforce
  let ?in = "\<lambda>s. s\<lparr>ts_table := (ts_table s)(tid \<mapsto> r)\<rparr>"
  have st1: "ts_table st1 tid = None" "status_of r st1 = Ongoing" "ts_world st1 = ts_world st" "pending st1 r = {}"
    "\<not> tx_is_accessing_data (ts_txs st1 r)"
    using n assms by (auto simp: new_tx_def Let_def status_of_def pending_def)
  obtain s2 where s2: "db_insert_all tid xs (?in st1) = (Ok (), s2)" "\<not> tx_is_accessing_data (ts_txs s2 r)"
    "ts_world s2 = ts_world st" "status_of r s2 = Ongoing" "pending s2 r = set xs - ts_world st"
    using db_insert_all_Ok [of "?in st1" tid r xs] st1 by (auto simp: status_of_def pending_def)
  define st2 where "st2 = s2\<lparr>ts_table := (ts_table s2)(tid := None)\<rparr>"
  have c: "tx_context tid r (db_insert_all tid xs) st1 = (Ok (), st2)"
    using set_and_exec_with_Ok [of st1 tid "db_insert_all tid xs" r, OF st1(1) s2(1)] st1(2) by (simp add: tx_context_def st2_def)
  have t: "ts_table (?in st2) tid = Some r" "\<not> tx_is_accessing_data (ts_txs (?in st2) r)" using s2(2) by (simp_all add: st2_def)
  obtain s3 where s3: "db_commit_handler tid (?in st2) = (Ok (), s3)" "ts_world s3 = ts_world st \<union> set xs"
    using db_access [OF t refl db_providers(1), of "\<lambda>_. {}" "(\<union>)"] s2(3,5)
    by (auto simp: db_commit_handler_def st2_def pending_def)
  have "tx_context tid r (commit_stages db_new tid) st2 = (Ok (), s3\<lparr>ts_table := (ts_table s3)(tid := None)\<rparr>)"
    using set_and_exec_with_Ok [of st2 tid "commit_stages db_new tid" r "Ok ()" s3] s3(1) s2(4)
    by (simp add: tx_context_def commit_stages_def call_precommit_handlers_def call_commit_handlers_def st2_def status_of_def)
  then have "\<exists>st3. tx_commit db_new tid r st2 = (Ok (), st3) \<and> ts_world st3 = ts_world st \<union> set xs"
    using s3(2) s2(4) by (simp add: tx_commit_def set_status_def st2_def status_of_def)
  moreover have "\<exists>st4. tx_abort db_new tid r st2 = (Ok (), st4) \<and> ts_world st4 = ts_world st"
    using s2(3,4) by (simp add: tx_abort_def tx_context_def set_and_exec_with_def call_abort_handlers_def set_status_def st2_def status_of_def)
  ultimately show ?thesis using n c s2(3) by (auto simp: st2_def)
qed

theorem db_transaction_atomic_witness:
  "\<exists>st2 st3. tx_context 7 0 (db_insert_all 7 [1, 2, 3 :: nat]) (snd (new_tx (tx_state_new {3}))) = (Ok (), st2) \<and>
    tx_commit db_new 7 0 st2 = (Ok (), st3) \<and> ts_world st3 = {1, 2, 3}"
  using db_transaction_atomic [of "tx_state_new {3}" 7 "[1, 2, 3 :: nat]"] by (auto simp: tx_state_new_def new_tx_def Let_def)

end
