(* ===== verification/Bitmap.thy ===== *)
theory Bitmap
  imports Errors "HOL-Library.Word"
begin

text \<open>
  \<open>core/src/util/bitmap.rs\<close>: an array of bits in 64-bit words.  The operations on words and on vectors of words
  come from the crate \<open>bittle\<close>, a parameter; \<open>bittle_correct\<close> states what its documentation promises,
  for vectors whose bits an index of type \<open>u32\<close> can number.
\<close>

section \<open>The crate bittle\<close>

record bittle =
  bt_word_test :: "64 word \<Rightarrow> nat \<Rightarrow> bool"
  bt_word_clear :: "64 word \<Rightarrow> nat \<Rightarrow> 64 word"
  bt_word_ones :: "64 word \<Rightarrow> nat list"
  bt_test :: "64 word list \<Rightarrow> nat \<Rightarrow> bool"
  bt_set :: "64 word list \<Rightarrow> nat \<Rightarrow> 64 word list"
  bt_clear :: "64 word list \<Rightarrow> nat \<Rightarrow> 64 word list"
  bt_ones :: "64 word list \<Rightarrow> nat list"
  bt_zeros :: "64 word list \<Rightarrow> nat list"
  bt_count_ones :: "64 word list \<Rightarrow> nat"
  bt_count_zeros :: "64 word list \<Rightarrow> nat"

definition bittle_correct :: "bittle \<Rightarrow> bool" where
  "bittle_correct K \<longleftrightarrow>
     (\<forall>i < 64. \<not> bt_word_test K 0 i \<and> bt_word_test K (- 1) i) \<and>
     (\<forall>w. \<forall>i < 64. \<forall>j < 64. bt_word_test K (bt_word_clear K w i) j = (j \<noteq> i \<and> bt_word_test K w j)) \<and>
     (\<forall>w. bt_word_ones K w = filter (bt_word_test K w) [0..<64]) \<and>
     (\<forall>ws. 64 * length ws \<le> 2 ^ 32 \<longrightarrow>
        (\<forall>i < 64 * length ws. bt_test K ws i = bt_word_test K (ws ! (i div 64)) (i mod 64)) \<and>
        (\<forall>i < 64 * length ws. length (bt_set K ws i) = length ws \<and> length (bt_clear K ws i) = length ws \<and>
           (\<forall>j < 64 * length ws. bt_test K (bt_set K ws i) j = (j = i \<or> bt_test K ws j) \<and>
              bt_test K (bt_clear K ws i) j = (j \<noteq> i \<and> bt_test K ws j))) \<and>
        bt_ones K ws = filter (bt_test K ws) [0..<64 * length ws] \<and>
        bt_zeros K ws = filter (\<lambda>i. \<not> bt_test K ws i) [0..<64 * length ws] \<and>
        bt_count_ones K ws = length (bt_ones K ws) \<and> bt_count_zeros K ws = length (bt_zeros K ws))"

lemma bittle_vector:
  assumes "bittle_correct K" "64 * length ws \<le> 2 ^ 32"
  shows "i < 64 * length ws \<Longrightarrow> bt_test K ws i = bt_word_test K (ws ! (i div 64)) (i mod 64)"
    "i < 64 * length ws \<Longrightarrow> length (bt_set K ws i) = length ws"
    "i < 64 * length ws \<Longrightarrow> length (bt_clear K ws i) = length ws"
    "i < 64 * length ws \<Longrightarrow> j < 64 * length ws \<Longrightarrow> bt_test K (bt_set K ws i) j = (j = i \<or> bt_test K ws j)"
    "i < 64 * length ws \<Longrightarrow> j < 64 * length ws \<Longrightarrow> bt_test K (bt_clear K ws i) j = (j \<noteq> i \<and> bt_test K ws j)"
    "bt_ones K ws = filter (bt_test K ws) [0..<64 * length ws]"
    "bt_zeros K ws = filter (\<lambda>i. \<not> bt_test K ws i) [0..<64 * length ws]"
    "bt_count_ones K ws = length (bt_ones K ws)" "bt_count_zeros K ws = length (bt_zeros K ws)"
  using assms unfolding bittle_correct_def by blast+

text \<open>An instance: the least significant bit of a word has the index 0.\<close>

definition lsb_bittle :: bittle where
  "lsb_bittle =
     (let test = (\<lambda>ws i. bit (ws ! (i div 64)) (i mod 64));
          ones = (\<lambda>ws. filter (test ws) [0..<64 * length ws]);
          noughts = (\<lambda>ws. filter (\<lambda>i. \<not> test ws i) [0..<64 * length ws])
      in \<lparr>bt_word_test = bit, bt_word_clear = \<lambda>w i. unset_bit i w, bt_word_ones = \<lambda>w. filter (bit w) [0..<64],
          bt_test = test, bt_set = \<lambda>ws i. ws[i div 64 := set_bit (i mod 64) (ws ! (i div 64))],
          bt_clear = \<lambda>ws i. ws[i div 64 := unset_bit (i mod 64) (ws ! (i div 64))],
          bt_ones = ones, bt_zeros = noughts, bt_count_ones = \<lambda>ws. length (ones ws), bt_count_zeros = \<lambda>ws. length (noughts ws)\<rparr>)"

section \<open>BitMap\<close>

record bitmap =
  bm_bits :: "64 word list"
  bm_nbits :: nat

text \<open>The cast of an index to \<open>u32\<close>.\<close>

definition as_u32 :: "nat \<Rightarrow> nat" where
  "as_u32 i = i mod 2 ^ 32"

definition bm_repeat :: "bittle \<Rightarrow> bool \<Rightarrow> nat \<Rightarrow> bitmap result" where
  "bm_repeat K value nbits =
     (if \<not> nbits + 64 - 1 < 2 ^ 64 then Panic
      else let vec_len = (nbits + 64 - 1) div 64;
               bits = replicate vec_len (if value then - 1 else 0);
               bits = (if nbits mod 64 \<noteq> 0
                       then bits[vec_len - 1 :=
                              fold (\<lambda>index w. bt_word_clear K w index)
                                (filter (\<lambda>index. index \<ge> nbits mod 64) (bt_word_ones K (bits ! (vec_len - 1))))
                                (bits ! (vec_len - 1))]
                       else bits)
           in Ok \<lparr>bm_bits = bits, bm_nbits = nbits\<rparr>)"

definition bm_len :: "bitmap \<Rightarrow> nat" where
  "bm_len bm = bm_nbits bm"

definition check_index :: "nat \<Rightarrow> bitmap \<Rightarrow> unit result" where
  "check_index index bm = (if index \<ge> bm_len bm then Panic else Ok ())"

definition bm_test_bit :: "bittle \<Rightarrow> nat \<Rightarrow> bitmap \<Rightarrow> bool result" where
  "bm_test_bit K index bm = and_then (check_index index bm) (\<lambda>_. Ok (bt_test K (bm_bits bm) (as_u32 index)))"

definition bm_set_bit :: "bittle \<Rightarrow> nat \<Rightarrow> bitmap \<Rightarrow> bitmap result" where
  "bm_set_bit K index bm =
     and_then (check_index index bm) (\<lambda>_. Ok (bm\<lparr>bm_bits := bt_set K (bm_bits bm) (as_u32 index)\<rparr>))"

definition bm_clear_bit :: "bittle \<Rightarrow> nat \<Rightarrow> bitmap \<Rightarrow> bitmap result" where
  "bm_clear_bit K index bm =
     and_then (check_index index bm) (\<lambda>_. Ok (bm\<lparr>bm_bits := bt_clear K (bm_bits bm) (as_u32 index)\<rparr>))"

definition bm_set :: "bittle \<Rightarrow> nat \<Rightarrow> bool \<Rightarrow> bitmap \<Rightarrow> bitmap result" where
  "bm_set K index value bm = (if value then bm_set_bit K index bm else bm_clear_bit K index bm)"

definition bits_not_in_use :: "bitmap \<Rightarrow> nat" where
  "bits_not_in_use bm = length (bm_bits bm) * 64 - bm_nbits bm"

definition bm_count_ones :: "bittle \<Rightarrow> bitmap \<Rightarrow> nat" where
  "bm_count_ones K bm = bt_count_ones K (bm_bits bm)"

definition bm_count_zeros :: "bittle \<Rightarrow> bitmap \<Rightarrow> nat result" where
  "bm_count_zeros K bm =
     (let total_zeros = bt_count_zeros K (bm_bits bm)
      in if bits_not_in_use bm \<le> total_zeros then Ok (total_zeros - bits_not_in_use bm) else Panic)"

definition bm_first_one :: "bittle \<Rightarrow> nat \<Rightarrow> bitmap \<Rightarrow> nat option result" where
  "bm_first_one K from bm =
     and_then (check_index from bm) (\<lambda>_.
     let first = from div 64 in
     Ok (find (\<lambda>index. index \<ge> from) (map (\<lambda>index. first * 64 + index) (bt_ones K (drop first (bm_bits bm))))))"

definition take_exactly :: "nat \<Rightarrow> nat list \<Rightarrow> nat list option" where
  "take_exactly count xs = (if length (take count xs) = count then Some (take count xs) else None)"

definition bm_first_ones :: "bittle \<Rightarrow> nat \<Rightarrow> nat \<Rightarrow> bitmap \<Rightarrow> nat list option result" where
  "bm_first_ones K from count bm =
     (if from + count = 0 then Panic
      else and_then (check_index (from + count - 1) bm) (\<lambda>_.
      let first = from div 64 in
      Ok (take_exactly count (filter (\<lambda>index. index \<ge> from)
            (map (\<lambda>index. first * 64 + index) (bt_ones K (drop first (bm_bits bm))))))))"

definition bm_last_one :: "bittle \<Rightarrow> bitmap \<Rightarrow> nat option" where
  "bm_last_one K bm = find (\<lambda>_. True) (rev (bt_ones K (bm_bits bm)))"

definition bm_first_zero :: "bittle \<Rightarrow> nat \<Rightarrow> bitmap \<Rightarrow> nat option result" where
  "bm_first_zero K from bm =
     and_then (check_index from bm) (\<lambda>_.
     let first = from div 64 in
     Ok (find (\<lambda>index. index \<ge> from \<and> index < bm_len bm)
           (map (\<lambda>index. first * 64 + index) (bt_zeros K (drop first (bm_bits bm))))))"

definition bm_first_zeros :: "bittle \<Rightarrow> nat \<Rightarrow> nat \<Rightarrow> bitmap \<Rightarrow> nat list option result" where
  "bm_first_zeros K from count bm =
     (if from + count = 0 then Panic
      else and_then (check_index (from + count - 1) bm) (\<lambda>_.
      let first = from div 64 in
      Ok (take_exactly count (filter (\<lambda>index. index \<ge> from \<and> index < bm_len bm)
            (map (\<lambda>index. first * 64 + index) (bt_zeros K (drop first (bm_bits bm))))))))"

definition bm_last_zero :: "bittle \<Rightarrow> bitmap \<Rightarrow> nat option" where
  "bm_last_zero K bm = find (\<lambda>_. True) (drop (bits_not_in_use bm) (rev (bt_zeros K (bm_bits bm))))"

definition bm_index :: "bittle \<Rightarrow> nat \<Rightarrow> bitmap \<Rightarrow> bool result" where
  "bm_index K index bm = and_then (bm_test_bit K index bm) (\<lambda>b. Ok (if b then True else False))"

section \<open>The bits of a bitmap\<close>

text \<open>
  \<open>bools\<close> is the array a bitmap stands for.  The unused bits of the last word are zero; without this \<open>count_ones\<close>,
  \<open>first_one\<close> and \<open>last_one\<close> would see them.
\<close>

definition bools :: "bittle \<Rightarrow> bitmap \<Rightarrow> bool list" where
  "bools K bm = map (bt_test K (bm_bits bm)) [0..<bm_nbits bm]"

definition bm_ok :: "bittle \<Rightarrow> bitmap \<Rightarrow> bool" where
  "bm_ok K bm \<longleftrightarrow> length (bm_bits bm) = (bm_nbits bm + 63) div 64 \<and> bm_nbits bm + 63 \<le> 2 ^ 32 \<and>
     (\<forall>i. bm_nbits bm \<le> i \<longrightarrow> i < 64 * length (bm_bits bm) \<longrightarrow> \<not> bt_test K (bm_bits bm) i)"

lemma bm_ok_sizes:
  assumes "bm_ok K bm"
  shows "64 * length (bm_bits bm) \<le> 2 ^ 32" "bm_nbits bm \<le> 64 * length (bm_bits bm)"
    "i < bm_nbits bm \<Longrightarrow> as_u32 i = i"
proof -
  have l: "length (bm_bits bm) = (bm_nbits bm + 63) div 64" "bm_nbits bm + 63 \<le> 2 ^ 32" using assms by (auto simp: bm_ok_def)
  have "64 * ((bm_nbits bm + 63) div 64) \<le> bm_nbits bm + 63" by simp
  then show "64 * length (bm_bits bm) \<le> 2 ^ 32" using l by linarith
  show "bm_nbits bm \<le> 64 * length (bm_bits bm)" unfolding l(1) by linarith
  show "i < bm_nbits bm \<Longrightarrow> as_u32 i = i" using l(2) by (simp add: as_u32_def)
qed

definition first_of :: "'a list \<Rightarrow> 'a option" where
  "first_of xs = (case xs of [] \<Rightarrow> None | x # _ \<Rightarrow> Some x)"

lemma find_first_of: "find P xs = first_of (filter P xs)"
  by (induction xs) (simp_all add: first_of_def)

lemma upt_split: "a \<le> b \<Longrightarrow> b \<le> c \<Longrightarrow> [a..<c] = [a..<b] @ [b..<c]"
  by (metis le_add_diff_inverse upt_add_eq_append)

lemma filter_upt_from: "a \<le> b \<Longrightarrow> filter (\<lambda>i. b \<le> i \<and> P i) [a..<c] = filter P [b..<c]"
proof (cases "b \<le> c")
  case True
  assume "a \<le> b"
  then have "[a..<c] = [a..<b] @ [b..<c]" using upt_split True by blast
  moreover have "filter (\<lambda>i. b \<le> i \<and> P i) [a..<b] = []" by (simp add: filter_empty_conv)
  moreover have "filter (\<lambda>i. b \<le> i \<and> P i) [b..<c] = filter P [b..<c]" by (rule filter_cong) simp_all
  ultimately show ?thesis by simp
qed (simp add: filter_empty_conv)

lemma filter_upt_to: "b \<le> c \<Longrightarrow> (\<And>i. b \<le> i \<Longrightarrow> i < c \<Longrightarrow> \<not> P i) \<Longrightarrow> filter P [a..<c] = filter P [a..<b]"
proof (cases "a \<le> b")
  case True
  assume b: "b \<le> c" and P: "\<And>i. b \<le> i \<Longrightarrow> i < c \<Longrightarrow> \<not> P i"
  have "[a..<c] = [a..<b] @ [b..<c]" using upt_split True b by blast
  then show ?thesis using P by (simp add: filter_empty_conv)
qed (auto simp: filter_empty_conv)

lemma test_drop:
  assumes K: "bittle_correct K" and l: "64 * length ws \<le> 2 ^ 32" and i: "k \<le> length ws" "i < 64 * (length ws - k)"
  shows "bt_test K (drop k ws) i = bt_test K ws (k * 64 + i)"
proof -
  note t = bittle_vector(1) [OF K]
  have "k * 64 + i < 64 * length ws" using i by (simp add: diff_mult_distrib2)
  then show ?thesis using t [of "drop k ws" i] t [of ws "k * 64 + i"] l i by (simp add: add.commute)
qed

lemma map_upt_shift: "map (\<lambda>i. k * 64 + i) [0..<64 * (n - k)] = [k * 64..<64 * (n::nat)]"
proof (cases "k \<le> n")
  case True
  then have "64 * (n - k) + k * 64 = 64 * n" by (simp add: diff_mult_distrib2)
  then show ?thesis using map_add_upt [of "k * 64" "64 * (n - k)"] by (simp add: add.commute)
qed simp

lemma from_word:
  assumes "bittle_correct K" "64 * length ws \<le> 2 ^ 32" "k \<le> length ws"
  shows "map (\<lambda>i. k * 64 + i) (bt_ones K (drop k ws)) = filter (bt_test K ws) [k * 64..<64 * length ws]"
    "map (\<lambda>i. k * 64 + i) (bt_zeros K (drop k ws)) = filter (\<lambda>i. \<not> bt_test K ws i) [k * 64..<64 * length ws]"
proof -
  have b: "64 * length (drop k ws) \<le> 2 ^ 32" using assms(2) by simp
  have o: "bt_ones K (drop k ws) = filter (bt_test K (drop k ws)) [0..<64 * (length ws - k)]"
    "bt_zeros K (drop k ws) = filter (\<lambda>i. \<not> bt_test K (drop k ws) i) [0..<64 * (length ws - k)]"
    using bittle_vector(6,7) [OF assms(1) b] by simp_all
  have t: "\<And>i. i \<in> set [0..<64 * (length ws - k)] \<Longrightarrow> bt_test K (drop k ws) i = bt_test K ws (k * 64 + i)"
    using test_drop [OF assms] by simp
  show "map (\<lambda>i. k * 64 + i) (bt_ones K (drop k ws)) = filter (bt_test K ws) [k * 64..<64 * length ws]"
    "map (\<lambda>i. k * 64 + i) (bt_zeros K (drop k ws)) = filter (\<lambda>i. \<not> bt_test K ws i) [k * 64..<64 * length ws]"
    unfolding o map_upt_shift [symmetric] filter_map comp_def using t by (auto intro!: arg_cong [of _ _ "map _"] filter_cong)
qed

lemma fold_clear:
  assumes K: "bittle_correct K" and i: "\<forall>i\<in>set is. i < 64" "j < 64"
  shows "bt_word_test K (fold (\<lambda>i w. bt_word_clear K w i) is w) j \<longleftrightarrow> j \<notin> set is \<and> bt_word_test K w j"
  using i
proof (induction "is" arbitrary: w)
  case (Cons i "is")
  then have "bt_word_test K (bt_word_clear K w i) j = (j \<noteq> i \<and> bt_word_test K w j)" using K by (simp add: bittle_correct_def)
  then show ?case using Cons by auto
qed simp

lemma cleared_word:
  assumes K: "bittle_correct K" and j: "j < 64" and w: "w = (if v then - 1 else 0)"
  shows "bt_word_test K (fold (\<lambda>i w. bt_word_clear K w i) (filter (\<lambda>i. r \<le> i) (bt_word_ones K w)) w) j \<longleftrightarrow> v \<and> j < r"
proof -
  have o: "bt_word_ones K w = filter (bt_word_test K w) [0..<64]" "bt_word_test K w i \<longleftrightarrow> v" if "i < 64" for i
    using K that w by (auto simp: bittle_correct_def)
  show ?thesis using fold_clear [OF K _ j, of "filter (\<lambda>i. r \<le> i) (bt_word_ones K w)" w] o j by auto
qed

lemma words_count:
  "n mod 64 \<noteq> 0 \<Longrightarrow> (n + 63) div 64 = Suc (n div 64)" "n mod 64 = 0 \<Longrightarrow> (n + 63) div 64 = n div 64"
proof -
  have n: "n + 63 = (n mod 64 + 63) + (n div 64) * 64" using div_mult_mod_eq [of n 64] by linarith
  have d: "(n + 63) div 64 = n div 64 + (n mod 64 + 63) div 64"
    using div_mult_self1 [of 64 "n mod 64 + 63" "n div 64"] by (simp only: n [symmetric])
  have "(n mod 64 + 63) div 64 = 1" if "n mod 64 \<noteq> 0" using that by (intro div_nat_eqI) simp_all
  then show "n mod 64 \<noteq> 0 \<Longrightarrow> (n + 63) div 64 = Suc (n div 64)" using d by simp
  show "n mod 64 = 0 \<Longrightarrow> (n + 63) div 64 = n div 64" using d by simp
qed

lemma less_iff_words: "i < n \<longleftrightarrow> i div 64 < n div 64 \<or> i div 64 = n div 64 \<and> i mod 64 < n mod (64::nat)"
proof -
  obtain a b c d where ab: "i = a * 64 + b" "n = c * 64 + d" "b < 64" "d < 64" "i div 64 = a" "i mod 64 = b" "n div 64 = c" "n mod 64 = d"
    by (metis div_mult_mod_eq mod_less_divisor zero_less_numeral)
  have "a * 64 + 64 \<le> c * 64" if "a < c" using that by simp
  moreover have "c * 64 + 64 \<le> a * 64" if "c < a" using that by simp
  ultimately show ?thesis unfolding ab(5-8) using ab(1-4) by (cases a c rule: linorder_cases) auto
qed

lemma bm_repeat_Ok:
  assumes K: "bittle_correct K" and n: "n + 63 \<le> 2 ^ 32"
  shows "\<exists>bm. bm_repeat K v n = Ok bm \<and> bm_ok K bm \<and> bools K bm = replicate n v"
proof -
  let ?w = "(if v then - 1 else 0) :: 64 word" and ?l = "(n + 63) div 64" and ?r = "n mod 64"
  let ?c = "fold (\<lambda>i w. bt_word_clear K w i) (filter (\<lambda>i. ?r \<le> i) (bt_word_ones K ?w)) ?w"
  define bits where "bits = (if ?r \<noteq> 0 then (replicate ?l ?w)[?l - 1 := ?c] else replicate ?l ?w)"
  have l: "length bits = ?l" by (simp add: bits_def)
  have l': "64 * ?l \<le> n + 63" by simp
  have "?r \<noteq> 0 \<Longrightarrow> replicate ?l ?w ! (?l - 1) = ?w" using words_count(1) [of n] by (subst nth_replicate) simp_all
  moreover have e: "n + 64 - 1 = n + 63" by simp
  ultimately have r: "bm_repeat K v n = Ok \<lparr>bm_bits = bits, bm_nbits = n\<rparr>"
    using n unfolding bm_repeat_def e Let_def bits_def by auto
  have t: "bt_test K bits i \<longleftrightarrow> v \<and> i < n" if i: "i < 64 * ?l" for i
  proof -
    have "64 * length bits \<le> 2 ^ 32" using l l' n by linarith
    then have b: "bt_test K bits i = bt_word_test K (bits ! (i div 64)) (i mod 64)" using bittle_vector(1) [OF K] i l by simp
    have il: "i div 64 < ?l" using i by (simp add: less_mult_imp_div_less mult.commute)
    have w: "bt_word_test K ?w (i mod 64) = v" using K by (simp add: bittle_correct_def)
    show ?thesis
    proof (cases "?r = 0")
      case True
      then have "i div 64 < n div 64" "bits ! (i div 64) = ?w" using il words_count(2) [OF True] by (simp_all add: bits_def)
      then show ?thesis using b w less_iff_words [of i n] by simp
    next
      case False
      have l1: "?l = Suc (n div 64)" by (rule words_count(1) [OF False])
      have c: "bt_word_test K ?c (i mod 64) \<longleftrightarrow> v \<and> i mod 64 < ?r" by (rule cleared_word [OF K _ refl]) simp
      have "bits ! (i div 64) = (if i div 64 = n div 64 then ?c else ?w)"
        using il False unfolding bits_def l1 by (simp add: nth_list_update del: replicate.simps)
      then show ?thesis using b c w il l1 less_iff_words [of i n] by (cases "i div 64 = n div 64") simp_all
    qed
  qed
  have "bm_ok K \<lparr>bm_bits = bits, bm_nbits = n\<rparr>" using t l n by (simp add: bm_ok_def)
  moreover have "i < n \<Longrightarrow> i < 64 * ?l" for i using bm_ok_sizes(2) [OF calculation] l by simp
  then have "bools K \<lparr>bm_bits = bits, bm_nbits = n\<rparr> = replicate n v" using t by (intro nth_equalityI) (simp_all add: bools_def)
  ultimately show ?thesis using r by blast
qed

lemma bm_set_Ok:
  assumes K: "bittle_correct K" and bm: "bm_ok K bm" and i: "i < bm_nbits bm"
  shows "\<exists>bm'. bm_set K i v bm = Ok bm' \<and> bm_ok K bm' \<and> bm_nbits bm' = bm_nbits bm \<and> bools K bm' = (bools K bm)[i := v]"
proof -
  note s = bm_ok_sizes [OF bm]
  have u: "as_u32 i = i" "i < 64 * length (bm_bits bm)" using s i by auto
  let ?ws = "if v then bt_set K (bm_bits bm) i else bt_clear K (bm_bits bm) i"
  have w: "length ?ws = length (bm_bits bm)" "\<forall>j < 64 * length (bm_bits bm). bt_test K ?ws j = (if j = i then v else bt_test K (bm_bits bm) j)"
    using bittle_vector(2-5) [OF K s(1) u(2)] by auto
  have "bm_set K i v bm = Ok (bm\<lparr>bm_bits := ?ws\<rparr>)"
    using i u(1) by (simp add: bm_set_def bm_set_bit_def bm_clear_bit_def check_index_def bm_len_def)
  moreover have "bm_ok K (bm\<lparr>bm_bits := ?ws\<rparr>)" using bm w i unfolding bm_ok_def by simp
  moreover have "bools K (bm\<lparr>bm_bits := ?ws\<rparr>) = (bools K bm)[i := v]"
    using w s(2) i by (intro nth_equalityI) (auto simp: bools_def nth_list_update)
  ultimately show ?thesis by auto
qed

lemma used_bits:
  assumes K: "bittle_correct K" and bm: "bm_ok K bm"
  shows "bt_ones K (bm_bits bm) = filter (\<lambda>i. bools K bm ! i) [0..<bm_nbits bm]"
    "bt_zeros K (bm_bits bm) = filter (\<lambda>i. \<not> bools K bm ! i) [0..<bm_nbits bm] @ [bm_nbits bm..<64 * length (bm_bits bm)]"
proof -
  note s = bm_ok_sizes [OF bm]
  let ?t = "bt_test K (bm_bits bm)" and ?n = "bm_nbits bm" and ?M = "64 * length (bm_bits bm)"
  have un: "?n \<le> i \<Longrightarrow> i < ?M \<Longrightarrow> \<not> ?t i" for i using bm by (simp add: bm_ok_def)
  have b: "bools K bm ! i = ?t i" if "i < ?n" for i using that by (simp add: bools_def)
  have "bt_ones K (bm_bits bm) = filter ?t [0..<?M]" "bt_zeros K (bm_bits bm) = filter (\<lambda>i. \<not> ?t i) ([0..<?n] @ [?n..<?M])"
    using bittle_vector(6,7) [OF K s(1)] upt_split [of 0 ?n ?M] s(2) by simp_all
  moreover have "filter ?t [0..<?M] = filter ?t [0..<?n]" using filter_upt_to [of ?n ?M ?t 0] s(2) un by blast
  moreover have "filter (\<lambda>i. \<not> ?t i) [?n..<?M] = [?n..<?M]" using un by (simp add: filter_id_conv)
  ultimately show "bt_ones K (bm_bits bm) = filter (\<lambda>i. bools K bm ! i) [0..<?n]"
    "bt_zeros K (bm_bits bm) = filter (\<lambda>i. \<not> bools K bm ! i) [0..<?n] @ [?n..<?M]"
    using b by (auto intro!: filter_cong)
qed

lemma length_filter_bools: "length (filter (\<lambda>i. P (xs ! i)) [0..<length xs]) = length (filter P xs)"
proof -
  have "filter P xs = map (\<lambda>i. xs ! i) (filter (\<lambda>i. P (xs ! i)) [0..<length xs])"
    using filter_map [of P "\<lambda>i. xs ! i" "[0..<length xs]"] by (simp add: map_nth comp_def)
  then show ?thesis by simp
qed

primrec bm_set_all :: "bittle \<Rightarrow> (nat \<times> bool) list \<Rightarrow> bitmap \<Rightarrow> bitmap result" where
  "bm_set_all K [] bm = Ok bm"
| "bm_set_all K (iv # ivs) bm = and_then (bm_set K (fst iv) (snd iv) bm) (bm_set_all K ivs)"

lemma bm_set_all_Ok:
  assumes "bittle_correct K" "bm_ok K bm" "\<forall>iv\<in>set ivs. fst iv < bm_nbits bm"
  shows "\<exists>bm'. bm_set_all K ivs bm = Ok bm' \<and> bm_ok K bm' \<and> bm_nbits bm' = bm_nbits bm \<and>
    bools K bm' = fold (\<lambda>iv xs. xs[fst iv := snd iv]) ivs (bools K bm)"
  using assms(2,3)
proof (induction ivs arbitrary: bm)
  case (Cons iv ivs)
  then obtain bm1 where "bm_set K (fst iv) (snd iv) bm = Ok bm1" "bm_ok K bm1" "bm_nbits bm1 = bm_nbits bm"
    "bools K bm1 = (bools K bm)[fst iv := snd iv]"
    using bm_set_Ok [OF assms(1) Cons.prems(1)] by (metis list.set_intros(1))
  then show ?case using Cons.IH [of bm1] Cons.prems(2) by auto
qed simp

lemma bits_from:
  assumes K: "bittle_correct K" and bm: "bm_ok K bm" and f: "from \<le> bm_nbits bm"
  shows "filter (\<lambda>i. from \<le> i) (map (\<lambda>i. from div 64 * 64 + i) (bt_ones K (drop (from div 64) (bm_bits bm)))) =
      filter (\<lambda>i. bools K bm ! i) [from..<bm_nbits bm]"
    "filter (\<lambda>i. from \<le> i \<and> i < bm_nbits bm) (map (\<lambda>i. from div 64 * 64 + i) (bt_zeros K (drop (from div 64) (bm_bits bm)))) =
      filter (\<lambda>i. \<not> bools K bm ! i) [from..<bm_nbits bm]"
proof -
  note s = bm_ok_sizes [OF bm]
  let ?t = "bt_test K (bm_bits bm)" and ?n = "bm_nbits bm" and ?M = "64 * length (bm_bits bm)" and ?a = "from div 64 * 64"
  have a: "?a \<le> from" "from div 64 \<le> length (bm_bits bm)" using f s(2) by (simp_all add: div_le_mono [of "from" "64 * length (bm_bits bm)" 64, simplified])
  have b: "bools K bm ! i = ?t i" if "i < ?n" for i using that by (simp add: bools_def)
  have "filter (\<lambda>i. from \<le> i) (filter ?t [?a..<?M]) = filter ?t [from..<?M]"
    unfolding filter_filter using filter_upt_from [OF a(1), of ?t ?M] by (simp add: conj_commute)
  also have "\<dots> = filter ?t [from..<?n]" using bm by (intro filter_upt_to [OF s(2)]) (simp add: bm_ok_def)
  finally show "filter (\<lambda>i. from \<le> i) (map (\<lambda>i. ?a + i) (bt_ones K (drop (from div 64) (bm_bits bm)))) =
      filter (\<lambda>i. bools K bm ! i) [from..<?n]"
    unfolding from_word(1) [OF K s(1) a(2)] using b by (auto intro!: filter_cong)
  have "filter (\<lambda>i. from \<le> i \<and> i < ?n) (filter (\<lambda>i. \<not> ?t i) [?a..<?M]) = filter (\<lambda>i. i < ?n \<and> \<not> ?t i) [from..<?M]"
    unfolding filter_filter using filter_upt_from [OF a(1), of "\<lambda>i. i < ?n \<and> \<not> ?t i" ?M] by (simp add: conj_ac)
  also have "\<dots> = filter (\<lambda>i. i < ?n \<and> \<not> ?t i) [from..<?n]" by (intro filter_upt_to [OF s(2)]) simp
  finally show "filter (\<lambda>i. from \<le> i \<and> i < ?n) (map (\<lambda>i. ?a + i) (bt_zeros K (drop (from div 64) (bm_bits bm)))) =
      filter (\<lambda>i. \<not> bools K bm ! i) [from..<?n]"
    unfolding from_word(2) [OF K s(1) a(2)] using b by (auto intro!: filter_cong)
qed

lemma lsb_bittle_correct: "bittle_correct lsb_bittle"
proof -
  have dv: "i div 64 < n" if "i < 64 * n" for i n :: nat using that by (simp add: less_mult_imp_div_less mult.commute)
  have neq: "i div 64 = j div 64 \<Longrightarrow> i mod 64 = j mod 64 \<Longrightarrow> i = j" for i j :: nat by (metis div_mult_mod_eq)
  show ?thesis
    unfolding bittle_correct_def lsb_bittle_def Let_def
    by (auto simp: bit_set_bit_iff bit_unset_bit_iff nth_list_update dv dest: neq)
qed

section \<open>Properties\<close>

text \<open>C38: A bitmap made by \<open>repeat\<close> and changed by any sequence of \<open>set\<close> is the array of booleans changed in the same way:
  \<open>test_bit\<close> returns its elements and panics outside of it, and the two counts count its elements, not the
  unused bits of the last word.\<close>

theorem bitmap_refines_bools:
  assumes K: "bittle_correct K" and n: "n + 63 \<le> 2 ^ 32" "\<forall>iv\<in>set ivs. fst iv < n"
  shows "\<exists>bm. and_then (bm_repeat K v n) (bm_set_all K ivs) = Ok bm \<and> bm_len bm = n \<and>
    (let xs = fold (\<lambda>iv xs. xs[fst iv := snd iv]) ivs (replicate n v) in
     (\<forall>i. bm_test_bit K i bm = (if i < n then Ok (xs ! i) else Panic)) \<and>
     bm_count_ones K bm = length (filter (\<lambda>b. b) xs) \<and> bm_count_zeros K bm = Ok (length (filter Not xs)))"
proof -
  obtain bm0 where bm0: "bm_repeat K v n = Ok bm0" "bm_ok K bm0" "bools K bm0 = replicate n v" using bm_repeat_Ok [OF K n(1)] by blast
  have n0: "bm_nbits bm0 = n" using arg_cong [OF bm0(3), of length] by (simp add: bools_def)
  obtain bm where bm: "bm_set_all K ivs bm0 = Ok bm" "bm_ok K bm" "bm_nbits bm = n"
    "bools K bm = fold (\<lambda>iv xs. xs[fst iv := snd iv]) ivs (replicate n v)"
    using bm_set_all_Ok [OF K bm0(2), of ivs] n(2) n0 bm0(3) by auto
  note s = bm_ok_sizes [OF bm(2)] and u = used_bits [OF K bm(2)]
  have len: "length (bools K bm) = n" using bm(3) by (simp add: bools_def)
  have "bm_test_bit K i bm = (if i < n then Ok (bools K bm ! i) else Panic)" for i
    using s(3) bm(3) by (simp add: bm_test_bit_def check_index_def bm_len_def bools_def)
  moreover note c = bittle_vector(8,9) [OF K s(1)]
  have "bm_count_ones K bm = length (filter (\<lambda>b. b) (bools K bm))"
    using c(1) u(1) bm(3) length_filter_bools [of "\<lambda>b. b" "bools K bm"] len by (simp add: bm_count_ones_def)
  moreover have "bm_count_zeros K bm = Ok (length (filter Not (bools K bm)))"
    using c(2) u(2) bm(3) length_filter_bools [of Not "bools K bm"] len s(2)
    by (simp add: bm_count_zeros_def bits_not_in_use_def Let_def mult.commute)
  ultimately show ?thesis using bm0(1) bm(1,3) unfolding bm(4) [symmetric] by (auto simp: bm_len_def Let_def)
qed

theorem bitmap_refines_bools_witness:
  "\<exists>bm. and_then (bm_repeat lsb_bittle True 100) (bm_set_all lsb_bittle [(64, False)]) = Ok bm \<and>
    bm_test_bit lsb_bittle 64 bm = Ok False \<and> bm_test_bit lsb_bittle 99 bm = Ok True \<and> bm_test_bit lsb_bittle 100 bm = Panic \<and>
    bm_count_zeros lsb_bittle bm = Ok 1"
proof -
  have "fold (\<lambda>iv xs. xs[fst iv := snd iv]) [(64, False)] (replicate 100 True) = replicate 64 True @ False # replicate 35 True"
    by (intro nth_equalityI) (auto simp: nth_list_update nth_append nth_Cons')
  then show ?thesis using bitmap_refines_bools [OF lsb_bittle_correct, of 100 "[(64, False)]" True]
    by (auto simp: Let_def nth_append)
qed



end
