(* ===== verification/Util.thy ===== *)
theory Util
  imports Errors
begin

text \<open>
  \<open>core/src/util/mod.rs\<close>: alignment of sizes; \<open>core/src/util/lazy_delete.rs\<close>: objects that are deleted when they
  are dropped.
\<close>

section \<open>Alignment\<close>

text \<open>Sums of \<open>usize\<close> that overflow and division by zero panic.\<close>

definition align_up :: "nat \<Rightarrow> nat \<Rightarrow> nat result" where
  "align_up x align =
     (if \<not> x + align < 2 ^ 64 \<or> align = 0 then Panic else Ok ((x + align - 1) div align * align))"

definition align_down :: "nat \<Rightarrow> nat \<Rightarrow> nat result" where
  "align_down x align = (if align = 0 then Panic else Ok (x div align * align))"

section \<open>LazyDelete\<close>

record 'a lazy_delete =
  ld_obj :: 'a
  ld_is_deleted :: bool
  ld_delete_fn :: "('a \<Rightarrow> 'a) option"

definition lazy_new :: "'a \<Rightarrow> ('a \<Rightarrow> 'a) \<Rightarrow> 'a lazy_delete" where
  "lazy_new obj delete_fn = \<lparr>ld_obj = obj, ld_is_deleted = False, ld_delete_fn = Some delete_fn\<rparr>"

definition lazy_mark_deleted :: "'a lazy_delete \<Rightarrow> 'a lazy_delete" where
  "lazy_mark_deleted this = this\<lparr>ld_is_deleted := True\<rparr>"

definition lazy_is_deleted :: "'a lazy_delete \<Rightarrow> bool" where
  "lazy_is_deleted this = ld_is_deleted this"

definition lazy_deref :: "'a lazy_delete \<Rightarrow> 'a" where
  "lazy_deref this = ld_obj this"

text \<open>\<open>deref_mut\<close> with the change its caller makes.\<close>

definition lazy_deref_mut :: "('a \<Rightarrow> 'a) \<Rightarrow> 'a lazy_delete \<Rightarrow> 'a lazy_delete" where
  "lazy_deref_mut f this = this\<lparr>ld_obj := f (ld_obj this)\<rparr>"

definition lazy_drop :: "'a lazy_delete \<Rightarrow> 'a lazy_delete result" where
  "lazy_drop this =
     (if lazy_is_deleted this
      then (case ld_delete_fn this of
              Some delete_fn \<Rightarrow> Ok (this\<lparr>ld_delete_fn := None, ld_obj := delete_fn (ld_obj this)\<rparr>)
            | None \<Rightarrow> Panic)
      else Ok this)"

text \<open>The uses of an object between its creation and its drop.\<close>

datatype 'a lazy_use = UseDelete | UseMut "'a \<Rightarrow> 'a"

fun lazy_apply :: "'a lazy_use \<Rightarrow> 'a lazy_delete \<Rightarrow> 'a lazy_delete" where
  "lazy_apply UseDelete this = lazy_mark_deleted this"
| "lazy_apply (UseMut f) this = lazy_deref_mut f this"

fun use_effect :: "'a lazy_use \<Rightarrow> 'a \<Rightarrow> 'a" where
  "use_effect UseDelete x = x"
| "use_effect (UseMut f) x = f x"

section \<open>Properties\<close>

lemma lazy_uses:
  "lazy_deref (fold lazy_apply us this) = fold use_effect us (lazy_deref this) \<and>
   lazy_is_deleted (fold lazy_apply us this) = (lazy_is_deleted this \<or> list_ex (\<lambda>u. u = UseDelete) us) \<and>
   ld_delete_fn (fold lazy_apply us this) = ld_delete_fn this"
proof (induction us arbitrary: this)
  case (Cons u us)
  then show ?case by (cases u) (auto simp: lazy_mark_deleted_def lazy_deref_def lazy_deref_mut_def lazy_is_deleted_def)
qed simp

text \<open>C40: An object stays usable after it was marked deleted, and its drop runs the delete function once, on the
  object's last state, exactly when it was marked; the drop never panics.\<close>

theorem lazy_delete_once:
  "lazy_deref (fold lazy_apply us (lazy_new x f)) = fold use_effect us x \<and>
   (\<exists>dropped. lazy_drop (fold lazy_apply us (lazy_new x f)) = Ok dropped \<and>
      lazy_deref dropped = (if list_ex (\<lambda>u. u = UseDelete) us then f (fold use_effect us x) else fold use_effect us x))"
proof -
  note u = lazy_uses [of us "lazy_new x f"]
  have n: "lazy_deref (lazy_new x f) = x" "\<not> lazy_is_deleted (lazy_new x f)" "ld_delete_fn (lazy_new x f) = Some f"
    by (simp_all add: lazy_new_def lazy_deref_def lazy_is_deleted_def)
  then show ?thesis using u by (auto simp: lazy_drop_def lazy_deref_def)
qed

text \<open>Aligning up gives the least multiple of the alignment that is not smaller, aligning down the greatest that is
  not larger, as long as the sum of the size and the alignment fits into 64 bits.\<close>

theorem align_bounds:
  assumes "0 < align" "x + align < 2 ^ 64"
  shows "\<exists>up down. align_up x align = Ok up \<and> align_down x align = Ok down \<and> align dvd up \<and> align dvd down \<and>
    x \<le> up \<and> up < x + align \<and> down \<le> x \<and> x < down + align \<and> (\<forall>m. align dvd m \<and> x \<le> m \<longrightarrow> up \<le> m)"
proof -
  let ?up = "(x + align - 1) div align * align" and ?down = "x div align * align"
  have u: "?up \<le> x + align - 1" "x + align - 1 < ?up + align"
    using assms(1) div_mult_mod_eq [of "x + align - 1" align] mod_less_divisor [OF assms(1), of "x + align - 1"] by linarith+
  have d: "?down \<le> x" "x < ?down + align"
    using div_mult_mod_eq [of x align] mod_less_divisor [OF assms(1), of x] by linarith+
  have l: "?up \<le> m" if m: "align dvd m" "x \<le> m" for m
  proof -
    obtain k where k: "m = align * k" by (rule dvdE [OF m(1)])
    have "x + align - 1 < Suc k * align" using m(2) k assms(1) by (simp add: mult.commute)
    then have "(x + align - 1) div align < Suc k" by (rule less_mult_imp_div_less)
    then show ?thesis unfolding k mult.commute [of align] by (intro mult_le_mono1) simp
  qed
  show ?thesis
  proof (intro exI conjI allI impI)
    show "align_up x align = Ok ?up" "align_down x align = Ok ?down" using assms by (simp_all add: align_up_def align_down_def)
    show "align dvd ?up" "align dvd ?down" by simp_all
    show "x \<le> ?up" "?up < x + align" using u assms(1) by linarith+
    show "?down \<le> x" "x < ?down + align" by (fact d)+
    show "?up \<le> m" if "align dvd m \<and> x \<le> m" for m using l that by blast
  qed
qed

theorem align_bounds_witness: "\<exists>up down. align_up 4097 4096 = Ok up \<and> align_down 4097 4096 = Ok down \<and> 4097 \<le> up \<and> down \<le> 4097"
  using align_bounds [of 4096 4097] by auto

end
