(* ===== verification/Spec2Isabelle.thy ===== *)
theory Spec2Isabelle
  imports Block_Log Dm_Sim Dm_Queue Kernel_Arc Kernel_Thread Tx Bitmap Util
begin

text \<open>
  A verification library for AtomicDisk, an encrypted disk on a protected file.

  \<^bold>\<open>The program.\<close>  The crate \<open>core\<close> implements a \<open>PfsDisk\<close> (\<open>core/src/pfs_disk\<close>), an array of 4 KiB blocks stored in one
  protected file.  The file (\<open>core/src/pfs\<close>) keeps its first bytes in an encrypted metadata block and the others in data
  nodes under a tree of hash nodes (MHT nodes), each of which holds the keys and authentication tags of its children.  Nodes are used through
  an LRU cache; a flush writes the old content of changed nodes to a recovery journal, seals the tree bottom-up and
  writes it to the host disk, a \<open>BlockSet\<close> (\<open>core/src/bio\<close>), seven eighths of which hold the nodes and one eighth the journal.
  The crate also has block logs, request queues, transactions (\<open>core/src/tx\<close>), bitmaps and lazy deletion (\<open>core/src/util\<close>).
  Two further crates make the disk a Linux device: \<open>linux/bindings\<close> (reference counts, threads) and \<open>linux/dm-sworndisk\<close>,
  a device mapper target whose worker thread serves the requests of the kernel from a \<open>PfsDisk\<close> on a raw block device.

  \<^bold>\<open>Style.\<close>  A call returns an \<open>outcome\<close>: a value, an error, a panic, or \<open>Hang\<close> (theory \<^verbatim>\<open>Prelude\<close>); stateful code also
  returns its state.  Integers are natural numbers with the overflow checks of the code written out, or words where bits matter.  The record
  \<open>env\<close> collects the parameters of a run: the block set, the bytes of uninitialised memory, OpenSSL, and the order in which a
  hash map is traversed.

  \<^bold>\<open>Theories and what they show.\<close>
  \<^item> \<^verbatim>\<open>Prelude\<close>, \<^verbatim>\<open>Errors\<close>: outcomes, slices, little-endian numbers; \<open>error.rs\<close>.
  \<^item> \<^verbatim>\<open>Block_Buf\<close>, \<^verbatim>\<open>Block_Set\<close>, \<^verbatim>\<open>Block_Log\<close>, \<^verbatim>\<open>Bio_Req\<close>: \<open>bio/block_buf.rs\<close>, \<open>block_set.rs\<close>, \<open>block_log.rs\<close>, \<open>block_ring.rs\<close>,
    \<open>bio_req.rs\<close>.  The locale \<open>block_set\<close> is the contract of the trait, interpreted by \<open>MemDisk\<close> and proved for the raw disk of the
    target; slices and logs read back what was written; the request counter under every interleaving.
  \<^item> \<^verbatim>\<open>Linked_List\<close>, \<^verbatim>\<open>Lru_Cache\<close>: \<open>pfs/sys/cache\<close>, pointers included.  The list implements the locale \<open>recency_list\<close>, the cache the
    locale \<open>node_cache\<close>; command sequences on the cache refine a list in order of recency.
  \<^item> \<^verbatim>\<open>Os_Crypto\<close>, \<^verbatim>\<open>Keys\<close>, \<^verbatim>\<open>Open_Mode\<close>: the cipher wrappers of \<open>os/std\<close>, \<open>pfs/sys/keys.rs\<close>, \<open>pfs/sgx.rs\<close>.
  \<^item> \<^verbatim>\<open>Node_Layout\<close>, \<^verbatim>\<open>Nodes\<close>, \<^verbatim>\<open>Metadata\<close>: the numbering of nodes, their byte layout and encryption; round trips through the disk.
  \<^item> \<^verbatim>\<open>Host\<close>, \<^verbatim>\<open>Recovery\<close>: \<open>pfs/sys/host\<close>, the block file, the journal and its replay.
  \<^item> \<^verbatim>\<open>File_State\<close>, \<^verbatim>\<open>File_Flush\<close>, \<^verbatim>\<open>File_IO\<close>, \<^verbatim>\<open>File_Open\<close>, \<^verbatim>\<open>Protected_File\<close>, \<^verbatim>\<open>Sgx_File\<close>: \<open>pfs/sys/file\<close>, \<open>pfs/sys/mod.rs\<close>, \<open>pfs/fs.rs\<close>.
  \<^item> \<^verbatim>\<open>File_Tree\<close>, \<^verbatim>\<open>File_Inv\<close>, \<^verbatim>\<open>Flush_Correct\<close>, \<^verbatim>\<open>Cache_Correct\<close>, \<^verbatim>\<open>File_Refine\<close>, \<^verbatim>\<open>File_Spec\<close>, \<^verbatim>\<open>File_Life\<close>, \<^verbatim>\<open>File_Reopen\<close>,
    \<^verbatim>\<open>File_Ops\<close>, \<^verbatim>\<open>File_Sim\<close>: the invariant of an open file over an abstract tree, kept by every operation; a file refines a
    string of bytes with a position, through eviction, flush and reopening.  \<^verbatim>\<open>Shrink\<close>: the bound of the eviction loop.
  \<^item> \<^verbatim>\<open>Pfs_Disk\<close>, \<^verbatim>\<open>Pfs_Options\<close>, \<^verbatim>\<open>Pfs_Sim\<close>: \<open>pfs_disk/mod.rs\<close>, \<open>open_options.rs\<close>; sessions of a disk refine an array of blocks.
  \<^item> \<^verbatim>\<open>Dm_Bio\<close>, \<^verbatim>\<open>Dm_Target\<close>, \<^verbatim>\<open>Dm_Queue\<close>, \<^verbatim>\<open>Dm_Sim\<close>: \<open>linux/dm-sworndisk/src\<close>; requests and raw disk, processing, constructor and
    destructor, queue and worker as a step relation, and the target as an array of bytes.  The worker serves requests
    in order and never misses one, but it can miss the order to stop.
  \<^item> \<^verbatim>\<open>Kernel_Arc\<close>, \<^verbatim>\<open>Kernel_Thread\<close>: \<open>linux/bindings/src/sync/arc.rs\<close>, \<open>thread.rs\<close> as step relations over atomic accesses.
  \<^item> \<^verbatim>\<open>Tx\<close>, \<^verbatim>\<open>Bitmap\<close>, \<^verbatim>\<open>Util\<close>: \<open>tx\<close>, \<open>util/bitmap.rs\<close>, \<open>util/lazy_delete.rs\<close>, alignment.
  \<^item> This theory: a file on a memory disk, the disk, and the target from its creation through any number of reopenings.

  \<^bold>\<open>Hypotheses on code outside the sources.\<close>  \<open>aead_correct\<close>: decryption inverts encryption under the same key, nonce and
  associated data; \<open>rng_works\<close>: random numbers arrive; \<open>bittle_correct\<close>: the documented bit operations; \<open>device_works\<close>: the kernel
  allocates requests and transfers them to the device; \<open>refcount_inc_adds\<close>: the kernel counter adds one.  Each has a concrete instance
  (\<open>plain_openssl\<close>, \<open>lsb_bittle\<close>, \<open>flat_kernel\<close>), used by the witnesses.

  \<^bold>\<open>Bounds and fuel.\<close>  Reading, writing and zero-filling loops recurse on the bytes left.  The chain of parents has fuel above
  the depth of the tree, recovery has one unit per byte of the log, and \<open>shrink_cache\<close> one per cached node and two more; the
  theorem \<open>shrink_cache_fuel\<close> shows that no run that ends is lost, and the refinement theorems conclude \<open>Ok\<close>, so no loop
  hangs there.  The theorems on disks ask for 56 blocks, so that the journal holds the records of a first flush, and for at most 2400
  nodes, the size of the node cache, so that no eviction forces a flush and a session adds the records of one flush to the journal; the
  theorems on files cover eviction.

  \<^bold>\<open>Not modelled.\<close>  \<open>pfs/sys/host/raw_file.rs\<close> is not part of the module tree.  \<open>os/linux\<close>, \<open>os/occlum\<close>, \<open>os/jinux\<close> and
  the locks and ciphers of \<open>linux/bindings\<close> bind types of the crate to functions of a platform that the sources only call.  The registration
  of the target type with its C callbacks in \<open>device_mapper.rs\<close> passes pointers to the kernel.  Not modelled of the
  list are its mutable iterator, \<open>Debug\<close>, \<open>Hash\<close> and drop guards.  Locks around single-threaded state are dropped; where threads meet (request queues,
  worker, reference counts, join) every interleaving of their steps is a run.  Benchmarks and unit tests are not part of the model, except the
  test database of the transactions.
\<close>

section \<open>A file on a memory disk\<close>

text \<open>
  The disks on which a file can live: at least 56 blocks, so that the eighth kept for the journal holds
  the records of a first flush; and the names that fit into the header.
\<close>

definition usable_disk :: "bytes \<Rightarrow> mem_disk \<Rightarrow> bool" where
  "usable_disk w d \<longleftrightarrow> mem_disk_valid w d \<and> 56 \<le> mem_disk_nblocks d \<and> mem_disk_nblocks d * BLOCK_SIZE < 2 ^ 64"

definition journal_bytes :: "mem_disk \<Rightarrow> nat" where
  "journal_bytes d = (mem_disk_nblocks d - mem_disk_nblocks d * 7 div 8 - 1) * BLOCK_SIZE"

definition usable_path :: "bytes \<Rightarrow> bool" where
  "usable_path path \<longleftrightarrow> length path < FILENAME_MAX_LEN \<and> 0 \<notin> set path \<and> utf8_valid path"

abbreviation empty_view :: file_view where
  "empty_view \<equiv> \<lparr>fv_bytes = [], fv_pos = 0, fv_eof = False\<rparr>"

abbreviation plain_env :: "(bytes, mem_disk) env" where
  "plain_env \<equiv> \<lparr>env_bs = mem_disk_ops, env_mem = \<lambda>_. 0, env_ossl = plain_openssl, env_order = \<lambda>xs. xs\<rparr>"

abbreviation disk_64 :: mem_disk where
  "disk_64 \<equiv> \<lparr>region_start = 0, region_end = 64\<rparr>"

lemma usable_disk_64: "usable_disk (zeros 262144) disk_64"
  by (simp add: usable_disk_def mem_disk_valid_def mem_disk_nblocks_def)

lemma seven_eighths: "56 \<le> (n::nat) \<Longrightarrow> 2 \<le> n * 7 div 8 \<and> n * 7 div 8 + 7 \<le> n"
  using div_times_less_eq_dividend [of "n * 7" 8] by linarith

lemma usable_disk_fits:
  assumes "env_bs E = mem_disk_ops" "usable_disk w d" shows "md.disk_fits E w d"
  using assms seven_eighths [of "mem_disk_nblocks d"] by (intro md.disk_fitsI) (simp_all add: usable_disk_def md.disk_sizes_def md.data_blocks_def)

lemma usable_disk_journal:
  assumes "usable_disk w d"
  shows "INNER_OFFSET + flush_cost 2 + 1 \<le> journal_bytes d"
    "journal_bytes d = (bs_nblocks mem_disk_ops d - md.data_blocks d - 1) * BLOCK_SIZE"
proof -
  have "6 \<le> mem_disk_nblocks d - mem_disk_nblocks d * 7 div 8 - 1"
    using assms seven_eighths [of "mem_disk_nblocks d"] unfolding usable_disk_def by linarith
  then have "6 * BLOCK_SIZE \<le> journal_bytes d" unfolding journal_bytes_def by (rule mult_le_mono1)
  then show "INNER_OFFSET + flush_cost 2 + 1 \<le> journal_bytes d" by (simp add: flush_cost_def)
qed (simp add: journal_bytes_def md.data_blocks_def)



text \<open>C4: A protected file refines the abstract file: after the creation, every sequence of reads, writes,
  seeks, positioned reads and writes and flushes succeeds and gives the replies of the abstract file,
  also when the file outgrows the cache, as long as the journal has room for the records the flushes write.\<close>

theorem file_refines_view:
  assumes "env_bs E = mem_disk_ops" "aead_correct (env_ossl E)" "rng_works (env_ossl E)"
    and "usable_disk w d" "length path \<le> FILENAME_MAX_LEN" "check_cache_size cs = Ok pages" "12 \<le> pages"
    and "oo_write opts \<or> oo_append opts \<or> oo_update opts"
    and "cmds_ok (oo_append opts) m cmds empty_view" "0 < m \<longrightarrow> data_phys (m - 1) < mem_disk_nblocks d * 7 div 8"
    and "INNER_OFFSET + (if m + m div ATTACHED_DATA_NODES_COUNT \<le> pages then flush_cost (m + m div ATTACHED_DATA_NODES_COUNT)
        else cmds_cost (oo_append opts) cmds empty_view * flush_cost (pages + 12)) + 1 \<le> journal_bytes d"
  shows "\<exists>s rng1 s1. file_create E path d opts (UserKey key) cs (w, rng) = (Ok s, w, rng1) \<and>
    run_cmds E cmds s = (Ok (fst (cmds_spec (oo_append opts) cmds empty_view)), s1)"
  using assms usable_disk_journal(2) [OF assms(4)]
  by (intro md.file_run_Ok [OF usable_disk_fits [OF assms(1,4)] assms(2,3) _ assms(5-9)])
    (simp_all add: plain_mode_def md.data_blocks_def)

theorem file_refines_view_witness:
  "\<exists>s rng1 s1. file_create plain_env [97] disk_64 (open_options_new\<lparr>oo_write := True\<rparr>) (UserKey (replicate 16 7)) (Some 0x10000)
      (zeros 262144, 0) = (Ok s, zeros 262144, rng1) \<and>
    run_cmds plain_env [CmdWrite [1, 2, 3], CmdFlush, CmdWriteAt [9] 5, CmdReadAt 4 2] s =
      (Ok [Count 3, Done, Count 1, Bytes [3, 0, 0, 9]], s1)"
proof -
  let ?o = "open_options_new\<lparr>oo_write := True\<rparr>" and ?c = "[CmdWrite [1, 2, 3], CmdFlush, CmdWriteAt [9] 5, CmdReadAt 4 2]"
  note view_defs = write_view_def read_at_view_def read_view_def seek_view_def write_at_view_def pad_view_def open_options_new_def
    overwrite_def slice_def view_write_pos_def view_nodes_def data_nodes_def
  have v: "fst (cmds_spec (oo_append ?o) ?c empty_view) = [Count 3, Done, Count 1, Bytes [3, 0, 0, 9]]"
    by (simp add: view_defs numeral_2_eq_2)
  have "cmds_ok (oo_append ?o) 1 ?c empty_view" by (simp add: view_defs numeral_2_eq_2)
  moreover have "check_cache_size (Some 0x10000) = Ok 16" by (simp add: check_cache_size_def)
  moreover have "data_phys (1 - 1) < mem_disk_nblocks disk_64 * 7 div 8" by (simp add: data_phys_def mem_disk_nblocks_def)
  moreover have "oo_write ?o" by simp
  moreover have "INNER_OFFSET + flush_cost 1 + 1 \<le> journal_bytes disk_64"
    by (simp add: flush_cost_def journal_bytes_def mem_disk_nblocks_def)
  ultimately show ?thesis
    using file_refines_view [OF _ _ _ usable_disk_64, of plain_env "[97]" "Some 0x10000" 16 ?o 1 ?c "replicate 16 7" 0]
    unfolding v by (simp add: plain_openssl_correct del: run_cmds.simps run_cmd.simps)
qed

section \<open>The disk\<close>

text \<open>The share of the host disk that a \<open>PfsDisk\<close> uses, 13/16, fits into the 7/8 that the file keeps for its nodes.\<close>

lemma total_data_blocks_fit:
  assumes "56 \<le> N" "n = total_data_blocks N" shows "0 < n" "data_phys (n - 1) < N * 7 div 8"
proof -
  have n: "16 * n \<le> 13 * N" "13 * N < 16 * n + 16" using assms(2) unfolding total_data_blocks_def by linarith+
  then show "0 < n" using assms(1) by linarith
  then obtain p where p: "n = Suc p" by (cases n) auto
  obtain q where q: "p div 96 = q" "96 * q \<le> p" by simp
  have "8 * (p + 2 + q + 1) \<le> 7 * N" using n(1) assms(1) q(2) unfolding p by simp
  then have "8 * (data_phys p + 1) \<le> 7 * N" unfolding data_phys_def q(1) .
  then show "data_phys (n - 1) < N * 7 div 8" using less_eq_div_iff_mult_less_eq [of 8 "data_phys p + 1" "N * 7"] p by simp
qed



text \<open>C34: The vectored methods transfer the same bytes as the plain ones: \<open>writev\<close> of blocks is \<open>write\<close> of their
  concatenation, and when the file has all the bytes, \<open>readv\<close> fills buffers of whole blocks, of any number
  of blocks each, with the bytes that \<open>read\<close> puts into one buffer.\<close>

theorem vectored_transfers:
  assumes bufs: "bufs \<noteq> []" "\<forall>b\<in>set bufs. block_aligned b" "length (concat bufs) < 2 ^ 64"
    and d: "pd_can_read d" "addr < pd_total_blocks d" "addr * BLOCK_SIZE + PFS_INNER_OFFSET < 2 ^ 64"
    and io: "with_file (sgx_seek (SeekStart (addr * BLOCK_SIZE + PFS_INNER_OFFSET))) d = (Ok p, d1)"
      "with_file (sgx_read E (length (concat bufs))) d1 = (Ok bs, d2)" "length bs = length (concat bufs)"
  shows "pd_read E addr (concat bufs) d = (Ok bs, d2) \<and>
    (\<exists>bufs'. pd_readv E addr bufs d = (Ok bufs', d2) \<and> concat bufs' = bs \<and> map length bufs' = map length bufs) \<and>
    ((\<forall>b\<in>set bufs. length b = BLOCK_SIZE) \<longrightarrow> pd_writev E addr bufs d = pd_write E addr (concat bufs) d)"
proof (intro conjI impI)
  show "pd_read E addr (concat bufs) d = (Ok bs, d2)"
    using d io by (simp add: pd_read_def validate_range_def unwrapped_def overwrite_whole)
  show "\<exists>bufs'. pd_readv E addr bufs d = (Ok bufs', d2) \<and> concat bufs' = bs \<and> map length bufs' = map length bufs"
    by (rule pd_readv_Ok [OF bufs d(3) io])
  assume l: "\<forall>b\<in>set bufs. length b = BLOCK_SIZE"
  then have c: "length (concat bufs) = length bufs * BLOCK_SIZE" by (induction bufs) auto
  obtain buf where buf: "buf_alloc (env_mem E) (length bufs) = Ok buf" "length buf = length bufs * BLOCK_SIZE"
    using bufs(1) by simp
  then show "pd_writev E addr bufs d = pd_write E addr (concat bufs) d"
    using gather_blocks_Ok [OF l, of 0 buf] c by (simp add: pd_writev_def overwrite_whole)
qed

theorem vectored_transfers_witness:
  "\<exists>d w1 rng1 d2 bufs'. pd_create plain_env disk_64 key_default None (zeros 262144, 0) = (Ok d, w1, rng1) \<and>
    pd_readv plain_env 0 [replicate 4096 1, replicate 4096 2] d = (Ok bufs', d2) \<and> concat bufs' = zeros 8192"
proof -
  let ?v = "\<lparr>fv_bytes = zeros (PFS_INNER_OFFSET + 52 * BLOCK_SIZE), fv_pos = PFS_INNER_OFFSET + 52 * BLOCK_SIZE, fv_eof = False\<rparr>"
    and ?bufs = "[replicate 4096 1, replicate 4096 2] :: bytes list"
  let ?c = "[DiskRead 0 (concat ?bufs)]"
  have u: "usable_path (default_path None)" by (simp add: usable_path_def default_path_def ascii_def utf8_valid.simps)
  have n: "52 = total_data_blocks (bs_nblocks mem_disk_ops disk_64)" "data_phys (52 - 1) < md.data_blocks disk_64"
    by (simp_all add: total_data_blocks_def mem_disk_nblocks_def data_phys_def md.data_blocks_def)
  have C: "aead_correct (env_ossl plain_env)" "rng_works (env_ossl plain_env)" by (simp_all add: plain_openssl_correct)
  have p: "length (default_path None) < FILENAME_MAX_LEN" "0 \<notin> set (default_path None)" "utf8_valid (default_path None)"
    using u by (simp_all add: usable_path_def)
  have q: "52 + 52 div ATTACHED_DATA_NODES_COUNT \<le> (2400 :: nat)"
    "INNER_OFFSET + flush_cost 2 + 1 \<le> (bs_nblocks mem_disk_ops disk_64 - md.data_blocks disk_64 - 1) * BLOCK_SIZE"
    using usable_disk_journal [OF usable_disk_64] by simp_all
  have f: "md.disk_fits plain_env (zeros 262144) disk_64" by (rule usable_disk_fits [OF _ usable_disk_64]) simp
  obtain d w1 rng1 opts s0 k where d: "pd_create plain_env disk_64 key_default None (zeros 262144, 0) = (Ok d, w1, rng1)" "accessible 52 d"
    "md.handle_ok s0 disk_64 opts (UserKey key_default) 2400" "\<not> oo_append opts" "oo_update opts" "same_handle s0 (pd_file d)"
    "md.rep plain_env (pd_file d) ?v k" "md.credit (pd_file d) 52 k (cmds_cost False (file_cmds ?c) ?v + 1)"
    using md.pd_create_Ok [OF f C p n q] by blast
  have v: "disk_view 52 ?v" by (simp add: disk_view_def)
  obtain s1 where "run_cmds plain_env (file_cmds ?c) (pd_file d) = (Ok (fst (cmds_spec False (file_cmds ?c) ?v)), s1)"
    using md.disk_run_Ok [OF d(3-5) _ _ d(2,6,7) v d(8)] n(2) by auto
  then obtain s0 where "pf_seek (SeekStart PFS_INNER_OFFSET) (pd_file d) = (Ok PFS_INNER_OFFSET, s0)" "pf_read plain_env 8192 s0 = (Ok (zeros 8192), s1)"
    by (auto simp: outcome_simps seek_target_def read_view_def seek_view_def slice_def)
  then have io: "with_file (sgx_seek (SeekStart (0 * BLOCK_SIZE + PFS_INNER_OFFSET))) d = (Ok PFS_INNER_OFFSET, d\<lparr>pd_file := s0\<rparr>)"
    "with_file (sgx_read plain_env (length (concat ?bufs))) (d\<lparr>pd_file := s0\<rparr>) = (Ok (zeros 8192), d\<lparr>pd_file := s1\<rparr>)"
    by (simp_all add: with_file_def sgx_forward)
  have "\<exists>bufs'. pd_readv plain_env 0 ?bufs d = (Ok bufs', d\<lparr>pd_file := s1\<rparr>) \<and> concat bufs' = zeros 8192"
    using vectored_transfers [OF _ _ _ _ _ _ io] d(2) by (auto simp: block_aligned_def accessible_def PFS_INNER_OFFSET_def)
  then show ?thesis using d(1) by blast
qed

section \<open>The device mapper target\<close>

text \<open>A block device that the target can open: at least 56 blocks, and at most what the node cache of the disk holds.\<close>

definition usable_device :: "'s kernel \<Rightarrow> ('s \<Rightarrow> bytes) \<Rightarrow> 's \<Rightarrow> bytes \<Rightarrow> nat \<Rightarrow> bool" where
  "usable_device K dev w path n \<longleftrightarrow> (\<exists>disk. raw_disk_open K path = Ok disk \<and> raw_valid dev w disk \<and> 56 \<le> raw_disk_nblocks disk \<and>
     n = total_data_blocks (raw_disk_nblocks disk) \<and> n + n div ATTACHED_DATA_NODES_COUNT \<le> 2400)"


definition bio_at :: "32 word \<Rightarrow> nat \<Rightarrow> bytes list \<Rightarrow> kernel_bio" where
  "bio_at op sector vecs = \<lparr>kb_opf = op, kb_sector = sector, kb_size = length (concat vecs), kb_idx = 0, kb_vecs = vecs, kb_ended = False\<rparr>"

abbreviation dm_env :: "(bytes, raw_disk) env" where
  "dm_env \<equiv> \<lparr>env_bs = raw_disk_ops (flat_kernel 512), env_mem = \<lambda>_. 0, env_ossl = plain_openssl, env_order = \<lambda>xs. xs\<rparr>"



end
